(* ===== verification/Hide_Prelude.thy ===== *)
theory Hide_Prelude
  imports Main "HOL-Library.Word"
begin

text \<open>
  Shared vocabulary of the development: bytes and machine integers, byte-string literals, the
  big-endian integer encodings every wire format of the repository uses, checked splitting of
  slices, and the result type that carries every early return (\<open>?\<close>, \<open>return Err\<close>) of the
  sources as a value. \<open>Inl\<close> is the error, \<open>Inr\<close> the success.
\<close>

section \<open>Bytes and machine integers\<close>

type_synonym byte = "8 word"
type_synonym bytes = "byte list"
type_synonym u16 = "16 word"
type_synonym u32 = "32 word"
type_synonym u64 = "64 word"

named_theorems result_simps \<open>inversion of the result combinators\<close>
named_theorems wire_len \<open>lengths of wire encodings\<close>

text \<open>A Rust byte-string literal.\<close>

definition ascii :: "string \<Rightarrow> bytes" where
  "ascii s = map of_char s"

lemma length_ascii [simp, wire_len]: "length (ascii s) = length s"
  by (simp add: ascii_def)

text \<open>\<open>be_bytes k v\<close>: the \<open>k\<close> low-order bytes of \<open>v\<close>, most significant first
  (\<open>to_be_bytes\<close>); \<open>from_be\<close> reads them back (\<open>from_be_bytes\<close>).\<close>

primrec be_bytes :: "nat \<Rightarrow> nat \<Rightarrow> bytes" where
  "be_bytes 0 v = []"
| "be_bytes (Suc k) v = be_bytes k (v div 256) @ [of_nat v]"

definition from_be :: "bytes \<Rightarrow> nat" where
  "from_be bs = foldl (\<lambda>a b. a * 256 + unat b) 0 bs"

definition be16 :: "u16 \<Rightarrow> bytes" where
  "be16 w = be_bytes 2 (unat w)"

definition be32 :: "u32 \<Rightarrow> bytes" where
  "be32 w = be_bytes 4 (unat w)"

definition be64 :: "u64 \<Rightarrow> bytes" where
  "be64 w = be_bytes 8 (unat w)"

definition u32_from_be :: "bytes \<Rightarrow> u32" where
  "u32_from_be bs = of_nat (from_be bs)"

definition u64_from_be :: "bytes \<Rightarrow> u64" where
  "u64_from_be bs = of_nat (from_be bs)"

text \<open>A length cast to \<open>u64\<close> (\<open>len() as u64\<close>).\<close>

definition len64 :: "'a list \<Rightarrow> u64" where
  "len64 xs = of_nat (length xs)"

text \<open>A field written as its 64-bit length followed by its bytes.\<close>

definition lp64 :: "bytes \<Rightarrow> bytes" where
  "lp64 bs = be64 (len64 bs) @ bs"

lemma length_be_bytes [simp, wire_len]: "length (be_bytes k v) = k"
  by (induction k arbitrary: v) auto

lemma length_be16 [simp, wire_len]: "length (be16 w) = 2"
  by (simp add: be16_def)

lemma length_be32 [simp, wire_len]: "length (be32 w) = 4"
  by (simp add: be32_def)

lemma length_be64 [simp, wire_len]: "length (be64 w) = 8"
  by (simp add: be64_def)

lemma from_be_Nil [simp]: "from_be [] = 0"
  by (simp add: from_be_def)

lemma from_be_snoc [simp]: "from_be (bs @ [b]) = from_be bs * 256 + unat b"
  by (simp add: from_be_def)

lemma unat_of_nat_byte: "unat (of_nat v :: byte) = v mod 256"
  by (simp add: unat_of_nat)

lemma unat_byte_less: "unat (b :: byte) < 256"
  using unsigned_less [of b, where ?'a = nat] by simp

lemma from_be_be_bytes: "from_be (be_bytes k v) = v mod 256 ^ k"
proof (induction k arbitrary: v)
  case (Suc k)
  have "from_be (be_bytes (Suc k) v) = (v div 256) mod 256 ^ k * 256 + v mod 256"
    by (simp add: Suc.IH unat_of_nat_byte)
  also have "\<dots> = v mod (256 * 256 ^ k)"
    using mod_mult2_eq [of v 256 "256 ^ k"] by (simp add: mult.commute)
  finally show ?case by simp
qed simp

lemma be_bytes_from_be: "be_bytes (length bs) (from_be bs) = bs"
proof (induction bs rule: rev_induct)
  case (snoc b bs)
  have "(from_be bs * 256 + unat b) div 256 = from_be bs"
    using unat_byte_less [of b] by simp
  moreover have "(of_nat (from_be bs * 256 + unat b) :: byte) = b"
  proof -
    have "(256 :: byte) = 0" by simp
    then show ?thesis by (simp only: of_nat_add of_nat_mult of_nat_numeral) simp
  qed
  ultimately show ?case using snoc.IH by simp
qed simp

lemma from_be_bound: "from_be bs < 256 ^ length bs"
  using from_be_be_bytes [of "length bs" "from_be bs"]
  by (metis be_bytes_from_be mod_less_divisor zero_less_numeral zero_less_power)

lemma be_bytes_inj:
  assumes "be_bytes k v = be_bytes k w" "v < 256 ^ k" "w < 256 ^ k"
  shows "v = w"
  using assms by (metis from_be_be_bytes mod_less)

lemma from_be_be64 [simp]: "from_be (be64 w) = unat w"
  using unsigned_less [of w, where ?'a = nat] by (simp add: be64_def from_be_be_bytes)

lemma from_be_be32 [simp]: "from_be (be32 w) = unat w"
  using unsigned_less [of w, where ?'a = nat] by (simp add: be32_def from_be_be_bytes)

lemma from_be_be16 [simp]: "from_be (be16 w) = unat w"
  using unsigned_less [of w, where ?'a = nat] by (simp add: be16_def from_be_be_bytes)

lemma u64_from_be_be64 [simp]: "u64_from_be (be64 w) = w"
  by (simp add: u64_from_be_def)

lemma u32_from_be_be32 [simp]: "u32_from_be (be32 w) = w"
  by (simp add: u32_from_be_def)

lemma be64_inj [simp]: "be64 v = be64 w \<longleftrightarrow> v = w"
  by (metis u64_from_be_be64)

lemma be32_inj [simp]: "be32 v = be32 w \<longleftrightarrow> v = w"
  by (metis u32_from_be_be32)

lemma be16_inj [simp]: "be16 v = be16 w \<longleftrightarrow> v = w"
  by (metis from_be_be16 word_unat_eq_iff)

lemma be64_u64_from_be: "length bs = 8 \<Longrightarrow> be64 (u64_from_be bs) = bs"
  using from_be_bound [of bs] be_bytes_from_be [of bs]
  by (simp add: be64_def u64_from_be_def unat_of_nat)

lemma be32_u32_from_be: "length bs = 4 \<Longrightarrow> be32 (u32_from_be bs) = bs"
  using from_be_bound [of bs] be_bytes_from_be [of bs]
  by (simp add: be32_def u32_from_be_def unat_of_nat)

lemma unat_len64: "length xs < 2 ^ 64 \<Longrightarrow> unat (len64 xs) = length xs"
  by (simp add: len64_def unat_of_nat)

lemma len64_eqD:
  "len64 xs = len64 ys \<Longrightarrow> length xs < 2 ^ 64 \<Longrightarrow> length ys < 2 ^ 64 \<Longrightarrow> length xs = length ys"
  by (metis unat_len64)

lemma of_nat_u64_inj: "i < 2 ^ 64 \<Longrightarrow> j < 2 ^ 64 \<Longrightarrow> (of_nat i :: u64) = of_nat j \<longleftrightarrow> i = j"
  by (auto dest!: arg_cong [where f = unat] simp: unat_of_nat)

text \<open>Two encodings that start with a fixed-width field agree on the field and on the rest.\<close>

lemma be64_append_eq [simp]: "be64 v @ r = be64 w @ s \<longleftrightarrow> v = w \<and> r = s"
  by (auto simp: append_eq_append_conv)

lemma be32_append_eq [simp]: "be32 v @ r = be32 w @ s \<longleftrightarrow> v = w \<and> r = s"
  by (auto simp: append_eq_append_conv)

lemma be16_append_eq [simp]: "be16 v @ r = be16 w @ s \<longleftrightarrow> v = w \<and> r = s"
  by (auto simp: append_eq_append_conv)

lemma fixed_append_eq: "length a = length b \<Longrightarrow> a @ r = b @ s \<longleftrightarrow> a = b \<and> r = s"
  by simp

text \<open>The boundary after a length-prefixed field cannot move.\<close>

lemma lp64_append_eq:
  assumes "length a < 2 ^ 64" "length b < 2 ^ 64"
  shows "lp64 a @ r = lp64 b @ s \<longleftrightarrow> a = b \<and> r = s"
  using assms len64_eqD [of a b] by (auto simp: lp64_def)

lemma lp64_inj:
  assumes "length a < 2 ^ 64" "length b < 2 ^ 64"
  shows "lp64 a = lp64 b \<longleftrightarrow> a = b"
  using lp64_append_eq [OF assms, of "[]" "[]"] by simp

lemma length_lp64 [simp, wire_len]: "length (lp64 bs) = 8 + length bs"
  by (simp add: lp64_def)

text \<open>\<open>saturating_add\<close> on \<open>u64\<close>.\<close>

definition saturating_add :: "u64 \<Rightarrow> u64 \<Rightarrow> u64" where
  "saturating_add a b = (if unat a + unat b < 2 ^ 64 then a + b else - 1)"

lemma saturating_add_ge: "a \<le> saturating_add a b"
  by (auto simp: saturating_add_def word_n1_ge) (simp add: word_le_nat_alt unat_word_ariths)

text \<open>The bytes of a Rust \<open>String\<close>, and what \<open>String::from_utf8\<close> accepts (well-formed UTF-8: no
  overlong form, no surrogate, nothing above U+10FFFF).\<close>

type_synonym str = bytes

definition utf8_cont :: "byte \<Rightarrow> bool" where
  "utf8_cont b \<longleftrightarrow> 0x80 \<le> b \<and> b \<le> 0xBF"

definition utf8_two :: "byte \<Rightarrow> byte \<Rightarrow> bool" where
  "utf8_two a b \<longleftrightarrow> 0xC2 \<le> a \<and> a \<le> 0xDF \<and> utf8_cont b"

definition utf8_three :: "byte \<Rightarrow> byte \<Rightarrow> byte \<Rightarrow> bool" where
  "utf8_three a b c \<longleftrightarrow> 0xE0 \<le> a \<and> a \<le> 0xEF \<and> utf8_cont b \<and> utf8_cont c
     \<and> (a = 0xE0 \<longrightarrow> 0xA0 \<le> b) \<and> (a = 0xED \<longrightarrow> b \<le> 0x9F)"

definition utf8_four :: "byte \<Rightarrow> byte \<Rightarrow> byte \<Rightarrow> byte \<Rightarrow> bool" where
  "utf8_four a b c d \<longleftrightarrow> 0xF0 \<le> a \<and> a \<le> 0xF4 \<and> utf8_cont b \<and> utf8_cont c \<and> utf8_cont d
     \<and> (a = 0xF0 \<longrightarrow> 0x90 \<le> b) \<and> (a = 0xF4 \<longrightarrow> b \<le> 0x8F)"

fun utf8_valid :: "bytes \<Rightarrow> bool" where
  "utf8_valid [] = True"
| "utf8_valid (a # r) =
     (if a < 0x80 then utf8_valid r
      else case r of [] \<Rightarrow> False | b # r1 \<Rightarrow>
        if utf8_two a b then utf8_valid r1
        else case r1 of [] \<Rightarrow> False | c # r2 \<Rightarrow>
          if utf8_three a b c then utf8_valid r2
          else case r2 of [] \<Rightarrow> False | d # r3 \<Rightarrow> utf8_four a b c d \<and> utf8_valid r3)"

lemma utf8_valid_ascii: "\<forall>b\<in>set bs. b < 0x80 \<Longrightarrow> utf8_valid bs"
  by (induction bs) auto

section \<open>Results and slices\<close>

text \<open>The \<open>?\<close> operator, \<open>ok_or\<close> and \<open>map_err\<close>.\<close>

definition bindR :: "'e + 'a \<Rightarrow> ('a \<Rightarrow> 'e + 'b) \<Rightarrow> 'e + 'b" where
  "bindR m f = (case m of Inl e \<Rightarrow> Inl e | Inr x \<Rightarrow> f x)"

definition ok_or :: "'a option \<Rightarrow> 'e \<Rightarrow> 'e + 'a" where
  "ok_or m e = (case m of None \<Rightarrow> Inl e | Some x \<Rightarrow> Inr x)"

definition map_err :: "('e \<Rightarrow> 'f) \<Rightarrow> 'e + 'a \<Rightarrow> 'f + 'a" where
  "map_err g m = (case m of Inl e \<Rightarrow> Inl (g e) | Inr x \<Rightarrow> Inr x)"

definition is_ok :: "'e + 'a \<Rightarrow> bool" where
  "is_ok m = (case m of Inl _ \<Rightarrow> False | Inr _ \<Rightarrow> True)"

lemma bindR_simps [simp]:
  "bindR (Inl e) f = Inl e"
  "bindR (Inr x) f = f x"
  by (simp_all add: bindR_def)

lemma ok_or_simps [simp]:
  "ok_or None e = Inl e"
  "ok_or (Some x) e = Inr x"
  by (simp_all add: ok_or_def)

lemma map_err_simps [simp]:
  "map_err g (Inl e) = Inl (g e)"
  "map_err g (Inr x) = Inr x"
  by (simp_all add: map_err_def)

lemma is_ok_simps [simp]:
  "\<not> is_ok (Inl e)"
  "is_ok (Inr x)"
  by (simp_all add: is_ok_def)

lemma is_ok_iff: "is_ok m \<longleftrightarrow> (\<exists>x. m = Inr x)"
  by (cases m) auto

lemma bindR_Inr_iff [result_simps]: "bindR m f = Inr y \<longleftrightarrow> (\<exists>x. m = Inr x \<and> f x = Inr y)"
  by (cases m) auto

lemma bindR_Inl_iff [result_simps]:
  "bindR m f = Inl e \<longleftrightarrow> m = Inl e \<or> (\<exists>x. m = Inr x \<and> f x = Inl e)"
  by (cases m) auto

lemma ok_or_Inr_iff [result_simps]: "ok_or m e = Inr x \<longleftrightarrow> m = Some x"
  by (cases m) auto

lemma ok_or_Inl_iff [result_simps]: "ok_or m e = Inl e' \<longleftrightarrow> m = None \<and> e' = e"
  by (cases m) auto

lemma map_err_Inr_iff [result_simps]: "map_err g m = Inr x \<longleftrightarrow> m = Inr x"
  by (cases m) auto

lemma map_err_Inl_iff [result_simps]: "map_err g m = Inl f \<longleftrightarrow> (\<exists>e. m = Inl e \<and> f = g e)"
  by (cases m) auto

lemma if_Inl_Inr_iff [result_simps]:
  "(if b then Inl e else m) = Inr y \<longleftrightarrow> \<not> b \<and> m = Inr y"
  by simp

text \<open>Elimination rules that walk through the successful run of a sequence of fallible steps.\<close>

lemma bindR_InrE:
  assumes "bindR m f = Inr y" obtains x where "m = Inr x" "f x = Inr y"
  using assms by (cases m) auto

lemma if_Inl_InrE:
  assumes "(if b then Inl e else m) = Inr y" obtains "\<not> b" "m = Inr y"
  using assms by (auto split: if_splits)

lemma case_prod_InrE:
  assumes "case_prod f p = Inr y" obtains a b where "p = (a, b)" "f a b = Inr y"
  using assms by (cases p) auto

lemma map_err_InrE:
  assumes "map_err g m = Inr y" obtains "m = Inr y"
  using assms by (cases m) auto

lemma ok_or_InrE:
  assumes "ok_or m e = Inr y" obtains "m = Some y"
  using assms by (cases m) auto

lemmas result_elims = bindR_InrE if_Inl_InrE case_prod_InrE

lemmas result_steps = result_elims map_err_InrE ok_or_InrE

lemma bindR_cong [fundef_cong]:
  "m = n \<Longrightarrow> (\<And>x. n = Inr x \<Longrightarrow> f x = g x) \<Longrightarrow> bindR m f = bindR n g"
  by (cases n) auto

lemma bindR_assoc: "bindR (bindR m f) g = bindR m (\<lambda>x. bindR (f x) g)"
  by (cases m) auto

text \<open>\<open>for _ in 0..count { out.push(item(&mut cursor)?) }\<close>\<close>

primrec repeatR :: "nat \<Rightarrow> ('s \<Rightarrow> 'e + 'a \<times> 's) \<Rightarrow> 's \<Rightarrow> 'e + 'a list \<times> 's" where
  "repeatR 0 item s = Inr ([], s)"
| "repeatR (Suc n) item s =
     bindR (item s) (\<lambda>(x, s). bindR (repeatR n item s) (\<lambda>(xs, s). Inr (x # xs, s)))"

text \<open>\<open>slice.iter().map(f).collect::<Result<Vec<_>, _>>()\<close>\<close>

primrec mapR :: "('a \<Rightarrow> 'e + 'b) \<Rightarrow> 'a list \<Rightarrow> 'e + 'b list" where
  "mapR f [] = Inr []"
| "mapR f (x # xs) = bindR (f x) (\<lambda>y. bindR (mapR f xs) (\<lambda>ys. Inr (y # ys)))"

text \<open>\<open>split_at_checked\<close>, and \<open>get(i)\<close>.\<close>

definition split_at_checked :: "'a list \<Rightarrow> nat \<Rightarrow> ('a list \<times> 'a list) option" where
  "split_at_checked xs n = (if n \<le> length xs then Some (take n xs, drop n xs) else None)"

definition get_at :: "'a list \<Rightarrow> nat \<Rightarrow> 'a option" where
  "get_at xs i = (if i < length xs then Some (xs ! i) else None)"

text \<open>\<open>bytes[i..j]\<close> for in-range bounds.\<close>

definition subslice :: "nat \<Rightarrow> nat \<Rightarrow> 'a list \<Rightarrow> 'a list" where
  "subslice i j xs = take (j - i) (drop i xs)"

text \<open>\<open>chunks(n)\<close> of a slice, for \<open>n > 0\<close>.\<close>

fun chunks_of :: "nat \<Rightarrow> 'a list \<Rightarrow> 'a list list" where
  "chunks_of n [] = []"
| "chunks_of n (x # xs) = (x # take (n - 1) xs) # chunks_of n (drop (n - 1) xs)"

lemma concat_chunks_of [simp]: "concat (chunks_of n xs) = xs"
  by (induction n xs rule: chunks_of.induct) simp_all

lemma chunks_of_ne: "c \<in> set (chunks_of n xs) \<Longrightarrow> c \<noteq> [] \<and> set c \<subseteq> set xs"
  by (induction n xs rule: chunks_of.induct) (auto dest: in_set_takeD in_set_dropD)

lemma length_chunks_of: "0 < n \<Longrightarrow> n * length (chunks_of n xs) \<le> length xs + (n - 1)"
proof (induction n xs rule: chunks_of.induct)
  case (2 n x xs)
  then have "n * length (chunks_of n (drop (n - 1) xs)) \<le> (length xs - (n - 1)) + (n - 1)" by simp
  then show ?case using "2.prems" by (cases "length xs \<le> n - 1") (simp_all add: algebra_simps)
qed simp

lemma split_at_checked_append [simp]: "length a = n \<Longrightarrow> split_at_checked (a @ b) n = Some (a, b)"
  by (simp add: split_at_checked_def)

lemma split_at_checked_all [simp]: "length a = n \<Longrightarrow> split_at_checked a n = Some (a, [])"
  by (simp add: split_at_checked_def)

lemma split_at_checked_Some_iff:
  "split_at_checked xs n = Some (a, b) \<longleftrightarrow> xs = a @ b \<and> length a = n"
  by (auto simp: split_at_checked_def)

lemma split_at_checked_None_iff: "split_at_checked xs n = None \<longleftrightarrow> length xs < n"
  by (auto simp: split_at_checked_def)

lemma length_subslice [simp]: "j \<le> length xs \<Longrightarrow> length (subslice i j xs) = j - i"
  by (simp add: subslice_def)

lemma subslice_drop: "i \<le> j \<Longrightarrow> subslice i j xs @ drop j xs = drop i xs"
  by (metis append_take_drop_id drop_drop le_add_diff_inverse2 subslice_def)

lemma subslice_0 [simp]: "subslice 0 j xs = take j xs"
  by (simp add: subslice_def)

lemma repeatR_length: "repeatR n item s = Inr (xs, t) \<Longrightarrow> length xs = n"
  by (induction n arbitrary: s xs) (auto simp: result_simps split: prod.splits)

lemma mapR_length: "mapR f xs = Inr ys \<Longrightarrow> length ys = length xs"
  by (induction xs arbitrary: ys) (auto simp: result_simps)

lemma mapR_Inr_iff: "mapR f xs = Inr ys \<longleftrightarrow> list_all2 (\<lambda>x y. f x = Inr y) xs ys"
proof (induction xs arbitrary: ys)
  case Nil
  then show ?case by (cases ys) auto
next
  case (Cons x xs)
  then show ?case by (cases ys) (auto simp: result_simps list_all2_Cons1)
qed

lemma mapR_id: "(\<And>x. x \<in> set xs \<Longrightarrow> f x = Inr (g x)) \<Longrightarrow> mapR f xs = Inr (map g xs)"
  by (induction xs) auto

text \<open>Reading back a concatenation of encoded items with an item reader that inverts the item
  writer on every suffix.\<close>

lemma repeatR_concat:
  assumes "\<And>x r. x \<in> set xs \<Longrightarrow> item (enc x @ r) = Inr (x, r)"
  shows "repeatR (length xs) item (concat (map enc xs) @ r) = Inr (xs, r)"
  using assms by (induction xs) auto

lemma all_repeatR:
  assumes "repeatR n item s = Inr (xs, t)"
    and "\<And>s x t. item s = Inr (x, t) \<Longrightarrow> P x"
  shows "\<forall>x\<in>set xs. P x"
  using assms(1) by (induction n arbitrary: s xs) (auto simp: result_simps split: prod.splits dest: assms(2))

section \<open>Wire formats\<close>

text \<open>The contract of an encoder and a decoder: under the laws of whatever third-party code they call
  (\<open>laws\<close>), every well-formed value is read back. A canonical codec moreover accepts only what its
  encoder writes.\<close>

locale wire_codec =
  fixes laws :: "'p \<Rightarrow> bool"
    and wf :: "'p \<Rightarrow> 'a \<Rightarrow> bool"
    and enc :: "'p \<Rightarrow> 'a \<Rightarrow> bytes"
    and dec :: "'p \<Rightarrow> bytes \<Rightarrow> 'e + 'a"
  assumes dec_enc: "laws P \<Longrightarrow> wf P x \<Longrightarrow> dec P (enc P x) = Inr x"
begin

lemma enc_inj: "laws P \<Longrightarrow> wf P x \<Longrightarrow> wf P y \<Longrightarrow> enc P x = enc P y \<longleftrightarrow> x = y"
  by (metis dec_enc sum.inject(2))

end

locale canonical_codec = wire_codec +
  assumes enc_dec: "laws P \<Longrightarrow> dec P bs = Inr x \<Longrightarrow> wf P x \<and> enc P x = bs"
begin

lemma dec_iff: "laws P \<Longrightarrow> dec P bs = Inr x \<longleftrightarrow> wf P x \<and> bs = enc P x"
  by (metis dec_enc enc_dec)

lemma dec_inj: "laws P \<Longrightarrow> dec P a = Inr x \<Longrightarrow> dec P b = Inr x \<Longrightarrow> a = b"
  by (simp add: dec_iff)

end

text \<open>An encoder that checks its input and may refuse it. \<open>ty\<close> is what the Rust type itself guarantees
  of a value (lengths of arrays, UTF-8 of strings).\<close>

locale checked_codec =
  fixes laws :: "'p \<Rightarrow> bool"
    and ty :: "'a \<Rightarrow> bool"
    and enc :: "'p \<Rightarrow> 'a \<Rightarrow> 'e + bytes"
    and dec :: "'p \<Rightarrow> bytes \<Rightarrow> 'e + 'a"
  assumes dec_enc: "laws P \<Longrightarrow> ty x \<Longrightarrow> enc P x = Inr bs \<Longrightarrow> dec P bs = Inr x"
    and enc_dec: "laws P \<Longrightarrow> dec P bs = Inr x \<Longrightarrow> ty x \<and> enc P x = Inr bs"
begin

lemma dec_iff: "laws P \<Longrightarrow> dec P bs = Inr x \<longleftrightarrow> ty x \<and> enc P x = Inr bs"
  by (metis dec_enc enc_dec)

lemma enc_inj:
  "laws P \<Longrightarrow> ty x \<Longrightarrow> ty y \<Longrightarrow> enc P x = Inr bs \<Longrightarrow> enc P y = Inr bs \<Longrightarrow> x = y"
  by (metis dec_enc sum.inject(2))

end

text \<open>Concatenations of self-delimiting encodings.\<close>

lemma concat_prefix_inj:
  assumes "concat (map f xs) @ r = concat (map f ys) @ s" "length xs = length ys"
    and "\<And>x y r s. x \<in> set xs \<Longrightarrow> y \<in> set ys \<Longrightarrow> f x @ r = f y @ s \<Longrightarrow> x = y \<and> r = s"
  shows "xs = ys \<and> r = s"
  using assms(2,1,3)
proof (induction xs ys rule: list_induct2)
  case (Cons x xs y ys)
  have "x = y \<and> concat (map f xs) @ r = concat (map f ys) @ s" by (rule Cons.prems(2)) (use Cons.prems(1) in simp_all)
  then show ?case using Cons.IH Cons.prems(2) by (metis list.set_intros(2))
qed simp

section \<open>Hash chains\<close>

text \<open>A list of entries in which each stores a link: the hash of its own content together with the link
  of the entry before it. \<open>img p e\<close> is the byte string that is hashed for \<open>e\<close> after link \<open>p\<close>.\<close>

primrec linked :: "(bytes \<Rightarrow> bytes) \<Rightarrow> (bytes \<Rightarrow> 'e \<Rightarrow> bytes) \<Rightarrow> ('e \<Rightarrow> bytes) \<Rightarrow> bytes \<Rightarrow> 'e list \<Rightarrow> bool" where
  "linked H img link p [] \<longleftrightarrow> True"
| "linked H img link p (e # es) \<longleftrightarrow> link e = H (img p e) \<and> linked H img link (link e) es"

primrec chain_images :: "(bytes \<Rightarrow> 'e \<Rightarrow> bytes) \<Rightarrow> ('e \<Rightarrow> bytes) \<Rightarrow> bytes \<Rightarrow> 'e list \<Rightarrow> bytes set" where
  "chain_images img link p [] = {}"
| "chain_images img link p (e # es) = insert (img p e) (chain_images img link (link e) es)"

primrec link_head :: "('e \<Rightarrow> bytes) \<Rightarrow> bytes \<Rightarrow> 'e list \<Rightarrow> bytes" where
  "link_head link p [] = p"
| "link_head link p (e # es) = link_head link (link e) es"

lemma link_head_snoc [simp]: "link_head link p (es @ [e]) = link e"
  by (induction es arbitrary: p) auto

lemma link_head_last: "link_head link p es = (if es = [] then p else link (last es))"
  by (cases es rule: rev_cases) auto

lemma linked_append:
  "linked H img link p (es @ fs) \<longleftrightarrow> linked H img link p es \<and> linked H img link (link_head link p es) fs"
  by (induction es arbitrary: p) auto

lemma chain_images_append:
  "chain_images img link p (es @ fs) = chain_images img link p es \<union> chain_images img link (link_head link p es) fs"
  by (induction es arbitrary: p) auto

lemma linked_links: "linked H img link p es \<Longrightarrow> \<forall>e\<in>set es. \<exists>x. link e = H x"
  by (induction es arbitrary: p) auto

lemma linked_head_length:
  assumes "linked H img link p es" "\<forall>x. length (H x) = n" "length p = n"
  shows "length (link_head link p es) = n"
  using assms linked_links [OF assms(1)] by (cases es rule: rev_cases) auto

text \<open>The contract of a linked history: the hashed bytes determine the previous link and the content of
  the entry. Then, as long as the hash function has no collision among the strings that were hashed, a
  head commits to the whole history before it.\<close>

locale hash_chain =
  fixes good :: "'e \<Rightarrow> bool"
    and img :: "bytes \<Rightarrow> 'e \<Rightarrow> bytes"
    and link :: "'e \<Rightarrow> bytes"
    and index :: "'e \<Rightarrow> u64"
  assumes img_inj: "good e \<Longrightarrow> good e' \<Longrightarrow> length p = 32 \<Longrightarrow> length p' = 32 \<Longrightarrow>
    img p e = img p' e' \<Longrightarrow> link e = link e' \<Longrightarrow> p = p' \<and> e = e'"
begin

lemma last_entry:
  assumes "linked H img link p (es @ [e])" "linked H img link p (es' @ [e'])"
    and "\<forall>x. length (H x) = 32" "length p = 32" "good e" "good e'"
    and "inj_on H (chain_images img link p (es @ [e]) \<union> chain_images img link p (es' @ [e']))"
    and "link e = link e'"
  shows "e = e' \<and> link_head link p es = link_head link p es'"
proof -
  let ?p = "link_head link p es" and ?p' = "link_head link p es'"
  have "H (img ?p e) = H (img ?p' e')" using assms(1,2,8) by (simp add: linked_append)
  then have "img ?p e = img ?p' e'"
    by (rule inj_onD [OF assms(7)]) (simp_all add: chain_images_append)
  moreover have "length ?p = 32" "length ?p' = 32"
    using assms(1-4) by (auto simp: linked_append intro!: linked_head_length)
  ultimately show ?thesis using img_inj [OF assms(5,6)] assms(8) by blast
qed

lemma same_head_same_length:
  assumes "length es = length es'" "linked H img link p es" "linked H img link p es'"
    and "\<forall>x. length (H x) = 32" "length p = 32" "\<forall>e\<in>set es \<union> set es'. good e"
    and "inj_on H (chain_images img link p es \<union> chain_images img link p es')"
    and "link_head link p es = link_head link p es'"
  shows "es = es'"
  using assms
proof (induction es arbitrary: es' rule: rev_induct)
  case (snoc e es)
  then obtain fs f where es': "es' = fs @ [f]" by (cases es' rule: rev_cases) auto
  from snoc.prems have "e = f \<and> link_head link p es = link_head link p fs"
    unfolding es' by (intro last_entry [where H = H]) auto
  moreover have "inj_on H (chain_images img link p es \<union> chain_images img link p fs)"
    by (rule inj_on_subset [OF snoc.prems(7)]) (auto simp: es' chain_images_append)
  ultimately show ?case using snoc.IH [of fs] snoc.prems by (simp add: es' linked_append)
qed simp

text \<open>With numbered entries the head fixes the length too.\<close>

lemma same_head:
  assumes "linked H img link p es" "linked H img link p es'"
    and "\<forall>x. length (H x) = 32" "length p = 32" "\<forall>e\<in>set es \<union> set es'. good e"
    and "inj_on H (chain_images img link p es \<union> chain_images img link p es')"
    and "es \<noteq> []" "es' \<noteq> []" "link_head link p es = link_head link p es'"
    and "\<forall>i<length es. index (es ! i) = of_nat i" "\<forall>i<length es'. index (es' ! i) = of_nat i"
    and "length es < 2 ^ 64" "length es' < 2 ^ 64"
  shows "es = es'"
proof -
  obtain fs f gs g where s: "es = fs @ [f]" "es' = gs @ [g]"
    using assms(7,8) by (metis rev_exhaust)
  have "f = g" using last_entry [of H p fs f gs g] assms(1-6,9) unfolding s by auto
  then have "(of_nat (length fs) :: u64) = of_nat (length gs)"
    using assms(10) [rule_format, of "length fs"] assms(11) [rule_format, of "length gs"] by (simp add: s)
  then have "length es = length es'" using assms(12,13) by (simp add: s of_nat_u64_inj)
  from same_head_same_length [OF this assms(1-6,9)] show ?thesis .
qed

end

text \<open>A concrete function with 32-byte results, the hash function of the witnesses.\<close>

definition ref_hash :: "bytes \<Rightarrow> bytes" where
  "ref_hash x = take 32 (x @ replicate 32 0)"

lemma length_ref_hash [simp]: "length (ref_hash x) = 32"
  by (simp add: ref_hash_def)

end
