(* ===== verification/Hide_Merkle.thy ===== *)
theory Hide_Merkle
  imports Hide_Prelude
begin

text \<open>
  The append-only log of \<open>crates/hide-transparency/src/lib.rs\<close>: RFC 6962 tree hashing, inclusion
  and consistency proofs (prover and verifier) and their wire forms. SHA-256 (crate \<open>sha2\<close>) is the
  parameter \<open>H\<close>. A \<open>Hash\<close> is a byte list; that it has 32 bytes is a hypothesis where it matters.
  Slice lengths are \<open>nat\<close>: a Rust slice never holds \<open>2 ^ 63\<close> elements, so the casts between
  \<open>usize\<close> and \<open>u64\<close> are the identity. The sizes a verifier reads from a proof are \<open>u64\<close> words.
\<close>

section \<open>Definitions\<close>

type_synonym hash = bytes

datatype log_error =
    LEmpty
  | OutOfRange u64 u64
  | NotAPrefix u64 u64
  | BadProof
  | ProofTooLong nat
  | LMalformed
  | Unsigned
  | LBadSignature
  | WrongOrigin bytes

definition LEAF_PREFIX :: byte where
  "LEAF_PREFIX = 0x00"

definition NODE_PREFIX :: byte where
  "NODE_PREFIX = 0x01"

definition MAX_PROOF_LEN :: nat where
  "MAX_PROOF_LEN = 64"

definition identity_leaf :: "hash \<Rightarrow> hash \<Rightarrow> hash \<Rightarrow> u64 \<Rightarrow> bytes" where
  "identity_leaf root recovery_id head entries =
     ascii ''HIDE/1.0 identity leaf'' @ root @ recovery_id @ head @ be64 entries"

definition epoch_leaf :: "hash \<Rightarrow> hash \<Rightarrow> u64 \<Rightarrow> bytes" where
  "epoch_leaf identity_root chain_head epochs =
     ascii ''HIDE/1.0 epoch leaf'' @ identity_root @ chain_head @ be64 epochs"

definition INCLUSION_TAG :: byte where
  "INCLUSION_TAG = 0x01"

definition CONSISTENCY_TAG :: byte where
  "CONSISTENCY_TAG = 0x02"

definition PROOF_HEADER :: nat where
  "PROOF_HEADER = 18"

definition encode_proof :: "byte \<Rightarrow> u64 \<Rightarrow> u64 \<Rightarrow> hash list \<Rightarrow> log_error + bytes" where
  "encode_proof tag first second path =
     (if MAX_PROOF_LEN < length path then Inl (ProofTooLong (length path))
      else Inr ([tag] @ be64 first @ be64 second @ [of_nat (length path)] @ concat path))"

text \<open>\<open>chunks_exact(32)\<close>: complete 32-byte chunks, the remainder dropped.\<close>

fun chunks_exact32 :: "bytes \<Rightarrow> hash list" where
  "chunks_exact32 bs = (if length bs < 32 then [] else take 32 bs # chunks_exact32 (drop 32 bs))"

declare chunks_exact32.simps [simp del]

definition decode_proof :: "byte \<Rightarrow> bytes \<Rightarrow> log_error + u64 \<times> u64 \<times> hash list" where
  "decode_proof tag bs =
     (if length bs < PROOF_HEADER \<or> bs ! 0 \<noteq> tag then Inl LMalformed
      else
        let first = u64_from_be (subslice 1 9 bs);
            second = u64_from_be (subslice 9 17 bs);
            count = unat (bs ! 17)
        in if MAX_PROOF_LEN < count then Inl (ProofTooLong count)
           else if length bs \<noteq> PROOF_HEADER + 32 * count then Inl LMalformed
           else Inr (first, second, chunks_exact32 (drop PROOF_HEADER bs)))"

record InclusionProof =
  ip_index :: u64
  ip_size :: u64
  ip_path :: "hash list"

record ConsistencyProof =
  cp_old_size :: u64
  cp_new_size :: u64
  cp_path :: "hash list"

definition inclusion_encode :: "InclusionProof \<Rightarrow> log_error + bytes" where
  "inclusion_encode p = encode_proof INCLUSION_TAG (ip_index p) (ip_size p) (ip_path p)"

definition inclusion_decode :: "bytes \<Rightarrow> log_error + InclusionProof" where
  "inclusion_decode bs =
     bindR (decode_proof INCLUSION_TAG bs)
       (\<lambda>(index, sz, path). Inr \<lparr>ip_index = index, ip_size = sz, ip_path = path\<rparr>)"

definition consistency_encode :: "ConsistencyProof \<Rightarrow> log_error + bytes" where
  "consistency_encode p =
     encode_proof CONSISTENCY_TAG (cp_old_size p) (cp_new_size p) (cp_path p)"

definition consistency_decode :: "bytes \<Rightarrow> log_error + ConsistencyProof" where
  "consistency_decode bs =
     bindR (decode_proof CONSISTENCY_TAG bs)
       (\<lambda>(old_size, new_size, path).
          Inr \<lparr>cp_old_size = old_size, cp_new_size = new_size, cp_path = path\<rparr>)"

definition leaf_hash :: "(bytes \<Rightarrow> hash) \<Rightarrow> bytes \<Rightarrow> hash" where
  "leaf_hash H data = H ([LEAF_PREFIX] @ data)"

definition node_hash :: "(bytes \<Rightarrow> hash) \<Rightarrow> hash \<Rightarrow> hash \<Rightarrow> hash" where
  "node_hash H left right = H ([NODE_PREFIX] @ left @ right)"

text \<open>\<open>ilog2\<close> of the standard library on positive integers, and the split: the \<open>u64\<close> form the
  verifiers use, and \<open>split_point n\<close> for \<open>largest_power_of_two_below(n as u64) as usize\<close>.\<close>

fun ilog2 :: "nat \<Rightarrow> nat" where
  "ilog2 n = (if n < 2 then 0 else Suc (ilog2 (n div 2)))"

declare ilog2.simps [simp del]

definition largest_power_of_two_below :: "u64 \<Rightarrow> u64" where
  "largest_power_of_two_below n = push_bit (ilog2 (unat (n - 1))) 1"

definition split_point :: "nat \<Rightarrow> nat" where
  "split_point n = 2 ^ ilog2 (n - 1)"

lemma ilog2_bounds: "0 < n \<Longrightarrow> 2 ^ ilog2 n \<le> n \<and> n < 2 ^ Suc (ilog2 n)"
proof (induction n rule: ilog2.induct)
  case (1 n)
  show ?case
  proof (cases "n < 2")
    case True
    with "1.prems" have "n = 1" by simp
    then show ?thesis by (simp add: ilog2.simps [of "Suc 0"])
  next
    case False
    with "1.IH" have "2 ^ ilog2 (n div 2) \<le> n div 2 \<and> n div 2 < 2 ^ Suc (ilog2 (n div 2))" by simp
    with False show ?thesis by (simp add: ilog2.simps [of n]) linarith
  qed
qed

lemma split_point_bounds:
  assumes "1 < n"
  shows "0 < split_point n" "split_point n < n" "n \<le> 2 * split_point n"
  using ilog2_bounds [of "n - 1"] assms by (auto simp: split_point_def)

lemma split_less:
  assumes "xs \<noteq> []" "length xs \<noteq> Suc 0"
  shows "split_point (length xs) < length xs" "0 < split_point (length xs)"
    "length xs - split_point (length xs) < length xs"
    "min (length xs) (split_point (length xs)) < length xs"
proof -
  have "1 < length xs" using assms by (cases xs) auto
  from split_point_bounds [OF this]
  show "split_point (length xs) < length xs" "0 < split_point (length xs)"
    "length xs - split_point (length xs) < length xs"
    "min (length xs) (split_point (length xs)) < length xs" by auto
qed

function root_of :: "(bytes \<Rightarrow> hash) \<Rightarrow> hash list \<Rightarrow> hash" where
  "root_of H leaves =
     (if length leaves = 0 then H []
      else if length leaves = 1 then leaves ! 0
      else let split = split_point (length leaves)
           in node_hash H (root_of H (take split leaves)) (root_of H (drop split leaves)))"
  by pat_completeness auto
termination
  by (relation "measure (\<lambda>(H, leaves). length leaves)")
    (auto simp: split_less)

declare root_of.simps [simp del]

record TransparencyLog =
  log_leaves :: "hash list"

definition log_new :: TransparencyLog where
  "log_new = \<lparr>log_leaves = []\<rparr>"

definition log_append :: "(bytes \<Rightarrow> hash) \<Rightarrow> TransparencyLog \<Rightarrow> bytes \<Rightarrow> u64 \<times> TransparencyLog" where
  "log_append H l data = (len64 (log_leaves l), l\<lparr>log_leaves := log_leaves l @ [leaf_hash H data]\<rparr>)"

definition log_root :: "(bytes \<Rightarrow> hash) \<Rightarrow> TransparencyLog \<Rightarrow> hash" where
  "log_root H l = root_of H (log_leaves l)"

definition root_at :: "(bytes \<Rightarrow> hash) \<Rightarrow> TransparencyLog \<Rightarrow> u64 \<Rightarrow> log_error + hash" where
  "root_at H l sz =
     (if len64 (log_leaves l) < sz then Inl (OutOfRange sz (len64 (log_leaves l)))
      else Inr (root_of H (take (unat sz) (log_leaves l))))"

function collect_inclusion ::
  "(bytes \<Rightarrow> hash) \<Rightarrow> hash list \<Rightarrow> nat \<Rightarrow> hash list \<Rightarrow> hash list" where
  "collect_inclusion H leaves index path =
     (if length leaves \<le> 1 then path
      else let split = split_point (length leaves)
           in if index < split
              then collect_inclusion H (take split leaves) index path @ [root_of H (drop split leaves)]
              else collect_inclusion H (drop split leaves) (index - split) path
                     @ [root_of H (take split leaves)])"
  by pat_completeness auto
termination
  by (relation "measure (\<lambda>(H, leaves, index, path). length leaves)")
    (auto simp: not_le intro!: split_less)

declare collect_inclusion.simps [simp del]

text \<open>The source recurses with \<open>0 < old \<le> leaves.len()\<close>, so a slice of at most one leaf is always
  caught by the first test; the second test only makes the function total.\<close>

function collect_consistency ::
  "(bytes \<Rightarrow> hash) \<Rightarrow> hash list \<Rightarrow> nat \<Rightarrow> bool \<Rightarrow> hash list \<Rightarrow> hash list" where
  "collect_consistency H leaves old complete path =
     (if old = length leaves then (if \<not> complete then path @ [root_of H leaves] else path)
      else if length leaves \<le> 1 then path
      else let split = split_point (length leaves)
           in if old \<le> split
              then collect_consistency H (take split leaves) old complete path
                     @ [root_of H (drop split leaves)]
              else collect_consistency H (drop split leaves) (old - split) False path
                     @ [root_of H (take split leaves)])"
  by pat_completeness auto
termination
  by (relation "measure (\<lambda>(H, leaves, old, complete, path). length leaves)")
    (auto simp: not_le intro!: split_less)

declare collect_consistency.simps [simp del]

definition prove_inclusion ::
  "(bytes \<Rightarrow> hash) \<Rightarrow> TransparencyLog \<Rightarrow> u64 \<Rightarrow> u64 \<Rightarrow> log_error + InclusionProof" where
  "prove_inclusion H l index sz =
     (if len64 (log_leaves l) < sz \<or> sz \<le> index then Inl (OutOfRange index sz)
      else Inr \<lparr>ip_index = index, ip_size = sz,
                ip_path = collect_inclusion H (take (unat sz) (log_leaves l)) (unat index) []\<rparr>)"

definition prove_consistency ::
  "(bytes \<Rightarrow> hash) \<Rightarrow> TransparencyLog \<Rightarrow> u64 \<Rightarrow> u64 \<Rightarrow> log_error + ConsistencyProof" where
  "prove_consistency H l old_size new_size =
     (if len64 (log_leaves l) < new_size then Inl (OutOfRange new_size (len64 (log_leaves l)))
      else if new_size < old_size \<or> old_size = 0 then Inl (NotAPrefix old_size new_size)
      else Inr \<lparr>cp_old_size = old_size, cp_new_size = new_size,
                cp_path = collect_consistency H (take (unat new_size) (log_leaves l))
                            (unat old_size) True []\<rparr>)"

lemma unat_minus_one: "1 < (n :: u64) \<Longrightarrow> unat (n - 1) = unat n - 1"
  by (simp add: unat_sub word_less_nat_alt word_le_nat_alt)

lemma unat_largest_power_of_two_below:
  assumes "1 < n"
  shows "unat (largest_power_of_two_below n) = split_point (unat n)"
proof -
  have n: "1 < unat n" using assms by (simp add: word_less_nat_alt)
  have "2 ^ ilog2 (unat n - 1) \<le> unat n - 1" using ilog2_bounds [of "unat n - 1"] n by simp
  also have "unat n - 1 < 2 ^ 64" using unsigned_less [of n, where ?'a = nat] by simp
  finally have "2 ^ ilog2 (unat n - 1) < (2 ^ 64 :: nat)" .
  then have "unat (of_nat (2 ^ ilog2 (unat n - 1)) :: u64) = 2 ^ ilog2 (unat n - 1)"
    by (simp only: unat_of_nat) simp
  then have "unat (2 ^ ilog2 (unat n - 1) :: u64) = 2 ^ ilog2 (unat n - 1)"
    by simp
  then show ?thesis
    using assms by (simp add: largest_power_of_two_below_def split_point_def unat_minus_one push_bit_eq_mult)
qed


lemma split64_less:
  assumes "1 < (n :: u64)"
  shows "unat (largest_power_of_two_below n) < unat n" "0 < unat (largest_power_of_two_below n)"
    "unat (n - largest_power_of_two_below n) = unat n - unat (largest_power_of_two_below n)"
proof -
  have "1 < unat n" using assms by (simp add: word_less_nat_alt)
  with unat_largest_power_of_two_below [OF assms] split_point_bounds [of "unat n"]
  show lt: "unat (largest_power_of_two_below n) < unat n"
    and "0 < unat (largest_power_of_two_below n)" by auto
  from lt show "unat (n - largest_power_of_two_below n) = unat n - unat (largest_power_of_two_below n)"
    by (simp add: unat_sub word_le_nat_alt)
qed

text \<open>The descent loop of \<open>verify_inclusion\<close>: the turns in the order they are pushed.\<close>

function inclusion_turns :: "u64 \<Rightarrow> u64 \<Rightarrow> bool list" where
  "inclusion_turns index sz =
     (if \<not> 1 < sz then []
      else let split = largest_power_of_two_below sz
           in if index < split then True # inclusion_turns index split
              else False # inclusion_turns (index - split) (sz - split))"
  by pat_completeness auto
termination
proof (relation "measure (\<lambda>(index, sz). unat sz)")
  fix index sz x :: u64
  assume "\<not> \<not> 1 < sz" and x: "x = largest_power_of_two_below sz"
  then have "1 < sz" by simp
  from split64_less [OF this]
  show "((index, x), index, sz) \<in> measure (\<lambda>(index, sz). unat sz)"
    and "((index - x, sz - x), index, sz) \<in> measure (\<lambda>(index, sz). unat sz)"
    by (auto simp: x)
qed simp

declare inclusion_turns.simps [simp del]

definition inclusion_step :: "(bytes \<Rightarrow> hash) \<Rightarrow> hash \<Rightarrow> hash \<times> bool \<Rightarrow> hash" where
  "inclusion_step H h st =
     (case st of (sibling, went_left) \<Rightarrow>
        if went_left then node_hash H h sibling else node_hash H sibling h)"

definition verify_inclusion ::
  "(bytes \<Rightarrow> hash) \<Rightarrow> InclusionProof \<Rightarrow> hash \<Rightarrow> hash \<Rightarrow> log_error + unit" where
  "verify_inclusion H pf leaf root =
     (if MAX_PROOF_LEN < length (ip_path pf) then Inl (ProofTooLong (length (ip_path pf)))
      else if ip_size pf \<le> ip_index pf
        then Inl (OutOfRange (ip_index pf) (ip_size pf))
      else
        let turns = inclusion_turns (ip_index pf) (ip_size pf)
        in if length turns \<noteq> length (ip_path pf) then Inl BadProof
           else if foldl (inclusion_step H) leaf (zip (ip_path pf) (rev turns)) \<noteq> root
             then Inl BadProof
           else Inr ())"

text \<open>The descent loop of \<open>verify_consistency\<close>. The loop runs with \<open>0 < old \<le> new\<close> (checked before
  it and kept by both branches), so its guard \<open>old \<noteq> new\<close> is \<open>0 < old \<and> old < new\<close> here; the
  second result is \<open>complete\<close>.\<close>

function consistency_turns :: "u64 \<Rightarrow> u64 \<Rightarrow> bool \<Rightarrow> bool list \<times> bool" where
  "consistency_turns old new complete =
     (if \<not> (0 < old \<and> old < new) then ([], complete)
      else let split = largest_power_of_two_below new
           in if old \<le> split
              then let (turns, c) = consistency_turns old split complete in (True # turns, c)
              else let (turns, c) = consistency_turns (old - split) (new - split) False
                   in (False # turns, c))"
  by pat_completeness auto
termination
proof (relation "measure (\<lambda>(old, new, complete). unat new)")
  fix old new x :: u64 and complete :: bool
  assume "\<not> \<not> (0 < old \<and> old < new)" and x: "x = largest_power_of_two_below new"
  then have "1 < new" by (auto simp: word_less_nat_alt)
  from split64_less [OF this]
  show "((old, x, complete), old, new, complete) \<in> measure (\<lambda>(old, new, complete). unat new)"
    and "((old - x, new - x, False), old, new, complete)
           \<in> measure (\<lambda>(old, new, complete). unat new)"
    by (auto simp: x)
qed simp

declare consistency_turns.simps [simp del]

definition consistency_step :: "(bytes \<Rightarrow> hash) \<Rightarrow> hash \<times> hash \<Rightarrow> hash \<times> bool \<Rightarrow> hash \<times> hash" where
  "consistency_step H s st =
     (case s of (old_hash, new_hash) \<Rightarrow> case st of (sibling, went_left) \<Rightarrow>
        if went_left then (old_hash, node_hash H new_hash sibling)
        else (node_hash H sibling old_hash, node_hash H sibling new_hash))"

definition verify_consistency ::
  "(bytes \<Rightarrow> hash) \<Rightarrow> ConsistencyProof \<Rightarrow> hash \<Rightarrow> hash \<Rightarrow> log_error + unit" where
  "verify_consistency H pf old_root new_root =
     (if MAX_PROOF_LEN < length (cp_path pf) then Inl (ProofTooLong (length (cp_path pf)))
      else if cp_old_size pf = 0 \<or> cp_new_size pf < cp_old_size pf
        then Inl (NotAPrefix (cp_old_size pf) (cp_new_size pf))
      else if cp_old_size pf = cp_new_size pf
        then (if cp_path pf = [] \<and> old_root = new_root then Inr () else Inl BadProof)
      else
        let (turns, complete) = consistency_turns (cp_old_size pf) (cp_new_size pf) True
        in if length (cp_path pf) \<noteq> length turns + (if complete then 0 else 1) then Inl BadProof
           else
             bindR (if complete then Inr (old_root, cp_path pf)
                    else case cp_path pf of [] \<Rightarrow> Inl BadProof | h # t \<Rightarrow> Inr (h, t))
               (\<lambda>(seed, path).
                  let (old_hash, new_hash) =
                        foldl (consistency_step H) (seed, seed) (zip path (rev turns))
                  in if old_hash \<noteq> old_root \<or> new_hash \<noteq> new_root then Inl BadProof else Inr ()))"

definition encode_checkpoint :: "u64 \<Rightarrow> hash \<Rightarrow> bytes" where
  "encode_checkpoint sz root = be64 sz @ root"

definition decode_checkpoint :: "bytes \<Rightarrow> log_error + u64 \<times> hash" where
  "decode_checkpoint bs =
     (if length bs \<noteq> 40 then Inl LMalformed
      else Inr (u64_from_be (take 8 bs), drop 8 bs))"

text \<open>The byte strings that go into the hash function: the nodes of a tree, and the nodes a
  verifier recomputes from a proof. Soundness is stated for a hash function without collisions
  among these, so a wrong accepted proof exhibits a collision in this finite list.\<close>

function root_inputs :: "(bytes \<Rightarrow> hash) \<Rightarrow> hash list \<Rightarrow> bytes list" where
  "root_inputs H lvs =
     (if length lvs \<le> 1 then []
      else let split = split_point (length lvs)
           in ([NODE_PREFIX] @ root_of H (take split lvs) @ root_of H (drop split lvs))
                # root_inputs H (take split lvs) @ root_inputs H (drop split lvs))"
  by pat_completeness auto
termination
  by (relation "measure (\<lambda>(H, lvs). length lvs)") (auto simp: not_le intro!: split_less)

declare root_inputs.simps [simp del]

fun inclusion_inputs :: "(bytes \<Rightarrow> hash) \<Rightarrow> hash \<Rightarrow> (hash \<times> bool) list \<Rightarrow> bytes list" where
  "inclusion_inputs H h [] = []"
| "inclusion_inputs H h ((s, t) # sts) =
     ([NODE_PREFIX] @ (if t then h @ s else s @ h))
       # inclusion_inputs H (inclusion_step H h (s, t)) sts"

fun consistency_inputs :: "(bytes \<Rightarrow> hash) \<Rightarrow> hash \<times> hash \<Rightarrow> (hash \<times> bool) list \<Rightarrow> bytes list" where
  "consistency_inputs H on [] = []"
| "consistency_inputs H on ((s, t) # sts) =
     (if t then [[NODE_PREFIX] @ snd on @ s]
      else [[NODE_PREFIX] @ s @ fst on, [NODE_PREFIX] @ s @ snd on])
       @ consistency_inputs H (consistency_step H on (s, t)) sts"

end
