(* ===== verification/Hide_Merkle_Lemmas.thy ===== *)
theory Hide_Merkle_Lemmas
  imports Hide_Merkle
begin

text \<open>
  The lemmas behind the log's proofs: the split is the same on both sides, the verifiers' descents
  retrace the provers', and a verified fold of siblings determines the leaves below it.
\<close>

section \<open>The split\<close>

lemma pow2_lessD: "(2::nat) ^ a < 2 ^ b \<Longrightarrow> a < b"
  by simp

lemma split_point_mono_between:
  assumes "split_point n < m" "m \<le> n" "1 < n"
  shows "split_point m = split_point n"
proof -
  have m: "0 < m - 1" using assms split_point_bounds(1) [OF assms(3)] by linarith
  have "ilog2 (m - 1) = ilog2 (n - 1)"
  proof (rule ccontr)
    assume ne: "ilog2 (m - 1) \<noteq> ilog2 (n - 1)"
    have a: "2 ^ ilog2 (m - 1) \<le> m - 1" "m - 1 < 2 ^ Suc (ilog2 (m - 1))"
      using ilog2_bounds [OF m] by auto
    have b: "2 ^ ilog2 (n - 1) \<le> m - 1" "n - 1 < 2 ^ Suc (ilog2 (n - 1))"
      using ilog2_bounds [of "n - 1"] assms by (auto simp: split_point_def)
    have "m - 1 < 2 ^ Suc (ilog2 (n - 1))" using b(2) assms(2) by linarith
    with a(1) have "(2::nat) ^ ilog2 (m - 1) < 2 ^ Suc (ilog2 (n - 1))" by linarith
    then have "ilog2 (m - 1) < Suc (ilog2 (n - 1))" by (rule pow2_lessD)
    moreover have "(2::nat) ^ ilog2 (n - 1) < 2 ^ Suc (ilog2 (m - 1))" using a(2) b(1) by linarith
    then have "ilog2 (n - 1) < Suc (ilog2 (m - 1))" by (rule pow2_lessD)
    ultimately show False using ne by simp
  qed
  then show ?thesis by (simp add: split_point_def)
qed

lemma split_point_le_half:
  assumes "1 < n" "n \<le> 2 ^ Suc m"
  shows "split_point n \<le> 2 ^ m" "n - split_point n \<le> 2 ^ m"
proof -
  have "2 ^ ilog2 (n - 1) \<le> n - 1" using ilog2_bounds [of "n - 1"] assms(1) by simp
  with assms have "(2::nat) ^ ilog2 (n - 1) < 2 ^ Suc m" by linarith
  then have "ilog2 (n - 1) < Suc m" by (rule pow2_lessD)
  then have "(2::nat) ^ ilog2 (n - 1) \<le> 2 ^ m" by (simp add: power_increasing)
  then show "split_point n \<le> 2 ^ m" by (simp add: split_point_def)
  with split_point_bounds(3) [OF assms(1)] show "n - split_point n \<le> 2 ^ m" by linarith
qed


section \<open>Inclusion\<close>

text \<open>The verifier's descent on natural numbers.\<close>

function iturns :: "nat \<Rightarrow> nat \<Rightarrow> bool list" where
  "iturns i n =
     (if n \<le> 1 then []
      else if i < split_point n then True # iturns i (split_point n)
      else False # iturns (i - split_point n) (n - split_point n))"
  by pat_completeness auto
termination
  by (relation "measure (\<lambda>(i, n). n)") (auto simp: not_le split_point_bounds)

declare iturns.simps [simp del]

lemma iturns_small [simp]: "n \<le> 1 \<Longrightarrow> iturns i n = []"
  by (simp add: iturns.simps)

lemma inclusion_turns_eq: "inclusion_turns i n = iturns (unat i) (unat n)"
proof (induction i n rule: inclusion_turns.induct)
  case (1 i n)
  show ?case
  proof (cases "1 < n")
    case True
    let ?s = "largest_power_of_two_below n"
    have s: "unat ?s = split_point (unat n)" by (rule unat_largest_power_of_two_below [OF True])
    have n: "\<not> unat n \<le> 1" using True by (simp add: word_less_nat_alt)
    have d: "unat (n - ?s) = unat n - split_point (unat n)" using split64_less(3) [OF True] s by simp
    have i: "\<not> i < ?s \<Longrightarrow> unat (i - ?s) = unat i - split_point (unat n)"
      using s by (simp add: unat_sub word_less_nat_alt word_le_nat_alt)
    show ?thesis
      using "1.IH" True n s d i
      by (auto simp: Let_def inclusion_turns.simps [of i n] iturns.simps [of "unat i" "unat n"]
          word_less_nat_alt)
  next
    case False
    then show ?thesis by (simp add: inclusion_turns.simps word_less_nat_alt)
  qed
qed

lemma length_iturns: "n \<le> 2 ^ m \<Longrightarrow> length (iturns i n) \<le> m"
proof (induction i n arbitrary: m rule: iturns.induct)
  case (1 i n)
  show ?case
  proof (cases "n \<le> 1")
    case False
    with "1.prems" obtain k where m: "m = Suc k" by (cases m) auto
    from False "1.prems" m have "split_point n \<le> 2 ^ k" "n - split_point n \<le> 2 ^ k"
      using split_point_le_half [of n k] by auto
    with "1.IH" False m show ?thesis by (simp add: iturns.simps [of i n])
  qed simp
qed

lemma zip_rev_Cons:
  "length p = length ts \<Longrightarrow> zip (p @ [s]) (rev (t # ts)) = zip p (rev ts) @ [(s, t)]"
  by simp

lemma root_of_split:
  "1 < length L \<Longrightarrow>
   root_of H L = node_hash H (root_of H (take (split_point (length L)) L))
                   (root_of H (drop (split_point (length L)) L))"
  by (subst root_of.simps) (auto simp: Let_def)

lemma root_of_single: "length L = 1 \<Longrightarrow> root_of H L = L ! 0"
  by (simp add: root_of.simps)

lemma collect_inclusion_verifies:
  assumes "i < length L"
  shows "length (collect_inclusion H L i []) = length (iturns i (length L)) \<and>
    foldl (inclusion_step H) (L ! i) (zip (collect_inclusion H L i []) (rev (iturns i (length L))))
      = root_of H L"
  using assms
proof (induction "length L" arbitrary: L i rule: less_induct)
  case less
  let ?k = "split_point (length L)"
  show ?case
  proof (cases "length L \<le> 1")
    case True
    with less.prems have "length L = 1" "i = 0" by (cases L; simp)+
    then show ?thesis by (simp add: collect_inclusion.simps root_of_single)
  next
    case False
    then have n: "1 < length L" by simp
    note k = split_point_bounds [OF n]
    show ?thesis
    proof (cases "i < ?k")
      case True
      have IH: "length (collect_inclusion H (take ?k L) i []) = length (iturns i ?k) \<and>
        foldl (inclusion_step H) (L ! i)
          (zip (collect_inclusion H (take ?k L) i []) (rev (iturns i ?k))) = root_of H (take ?k L)"
        using less.hyps [of "take ?k L" i] k True by (simp add: min_def)
      then show ?thesis
        using n True
        by (simp add: Let_def collect_inclusion.simps [of H L] iturns.simps [of i "length L"]
            zip_rev_Cons [simplified] inclusion_step_def root_of_split)
    next
      case False
      have IH: "length (collect_inclusion H (drop ?k L) (i - ?k) []) = length (iturns (i - ?k) (length L - ?k)) \<and>
        foldl (inclusion_step H) (L ! i)
          (zip (collect_inclusion H (drop ?k L) (i - ?k) []) (rev (iturns (i - ?k) (length L - ?k))))
          = root_of H (drop ?k L)"
        using less.hyps [of "drop ?k L" "i - ?k"] k less.prems False by simp
      then show ?thesis
        using n False
        by (simp add: Let_def collect_inclusion.simps [of H L] iturns.simps [of i "length L"]
            zip_rev_Cons [simplified] inclusion_step_def root_of_split)
    qed
  qed
qed


lemma node_hash_eqD:
  assumes "inj_on H S" "[NODE_PREFIX] @ a @ b \<in> S" "[NODE_PREFIX] @ c @ d \<in> S"
    and "node_hash H a b = node_hash H c d" "length a = length c"
  shows "a = c \<and> b = d"
  using inj_onD [OF assms(1) _ assms(2,3)] assms(4,5) by (simp add: node_hash_def)

lemma length_root_of:
  assumes "\<And>x. length (H x) = 32" "\<forall>l\<in>set L. length l = 32"
  shows "length (root_of H L) = 32"
proof (cases "length L \<le> 1")
  case True
  with assms show ?thesis by (cases L) (auto simp: root_of.simps)
next
  case False
  then show ?thesis using assms(1) by (simp add: root_of_split node_hash_def)
qed

lemma root_inputs_split:
  assumes "1 < length L"
  shows "set (root_inputs H L) =
     insert ([NODE_PREFIX] @ root_of H (take (split_point (length L)) L)
               @ root_of H (drop (split_point (length L)) L))
       (set (root_inputs H (take (split_point (length L)) L))
        \<union> set (root_inputs H (drop (split_point (length L)) L)))"
  using assms by (subst root_inputs.simps) (simp add: Let_def)

lemma set_take_drop32:
  assumes "\<forall>l\<in>set L. length l = (32::nat)"
  shows "\<forall>l\<in>set (take k L). length l = 32" "\<forall>l\<in>set (drop k L). length l = 32"
  using assms by (auto dest: in_set_takeD in_set_dropD)

lemma inclusion_inputs_append:
  "inclusion_inputs H h (xs @ [(s, t)]) = inclusion_inputs H h xs @
     [[NODE_PREFIX] @ (if t then foldl (inclusion_step H) h xs @ s else s @ foldl (inclusion_step H) h xs)]"
  by (induction H h xs rule: inclusion_inputs.induct) auto

lemma length_inclusion_fold:
  assumes "\<And>x. length (H x) = 32" "length h = 32"
  shows "length (foldl (inclusion_step H) h sts) = 32"
  using assms by (induction sts arbitrary: h) (auto simp: inclusion_step_def node_hash_def)

lemma inclusion_fold_sound:
  assumes H: "\<And>x. length (H x) = 32"
    and "i < length L" "\<forall>l\<in>set L. length l = 32" "\<forall>s\<in>set p. length s = 32" "length leaf = 32"
    and "length p = length (iturns i (length L))"
    and "foldl (inclusion_step H) leaf (zip p (rev (iturns i (length L)))) = root_of H L"
    and "inj_on H (set (root_inputs H L)
           \<union> set (inclusion_inputs H leaf (zip p (rev (iturns i (length L))))))"
  shows "leaf = L ! i"
  using assms(2-)
proof (induction "length L" arbitrary: L i p rule: less_induct)
  case less
  let ?k = "split_point (length L)"
  show ?case
  proof (cases "length L \<le> 1")
    case True
    with less.prems(1) have "length L = 1" "i = 0" by (cases L; simp)+
    with less.prems(6) show ?thesis by (simp add: root_of_single)
  next
    case False
    then have n: "1 < length L" by simp
    note k = split_point_bounds [OF n] and L32 = set_take_drop32 [OF less.prems(2)]
    define t where "t = (i < ?k)"
    define ts where "ts = (if t then iturns i ?k else iturns (i - ?k) (length L - ?k))"
    have it: "iturns i (length L) = t # ts"
      using False by (simp add: iturns.simps [of i "length L"] t_def ts_def)
    then obtain p' s where p: "p = p' @ [s]" "length p' = length ts"
      using less.prems(5) by (cases p rule: rev_cases) auto
    define h where "h = foldl (inclusion_step H) leaf (zip p' (rev ts))"
    define S where "S = set (root_inputs H L) \<union> set (inclusion_inputs H leaf (zip p (rev (t # ts))))"
    have z: "zip p (rev (t # ts)) = zip p' (rev ts) @ [(s, t)]" using p by simp
    have s32: "length s = 32" and p32: "\<forall>s\<in>set p'. length s = 32" using less.prems(3) p by auto
    have h32: "length h = 32" unfolding h_def by (rule length_inclusion_fold [OF H less.prems(4)])
    have inj: "inj_on H S" using less.prems(7) by (simp add: S_def it)
    have mem: "[NODE_PREFIX] @ root_of H (take ?k L) @ root_of H (drop ?k L) \<in> S"
      "[NODE_PREFIX] @ (if t then h @ s else s @ h) \<in> S"
      unfolding S_def z inclusion_inputs_append root_inputs_split [OF n] h_def by simp_all
    have top: "(if t then node_hash H h s else node_hash H s h)
        = node_hash H (root_of H (take ?k L)) (root_of H (drop ?k L))"
      unfolding h_def using less.prems(6)
      by (simp add: it z inclusion_step_def root_of_split [OF n] del: rev.simps split del: if_split)
    have sub: "inj_on H (set (root_inputs H (take ?k L)) \<union> set (inclusion_inputs H leaf (zip p' (rev ts))))"
      "inj_on H (set (root_inputs H (drop ?k L)) \<union> set (inclusion_inputs H leaf (zip p' (rev ts))))"
      by (rule inj_on_subset [OF inj], unfold S_def z inclusion_inputs_append root_inputs_split [OF n], auto)+
    show ?thesis
    proof (cases t)
      case True
      have "h = root_of H (take ?k L)"
        using node_hash_eqD [OF inj _ mem(1), of h s] mem(2) top True h32
          length_root_of [OF H L32(1)] by simp
      then show ?thesis
        using less.hyps [of "take ?k L" i p'] k True p p32 L32 less.prems(4) sub(1)
        by (simp add: min_def t_def ts_def h_def)
    next
      case False
      have "h = root_of H (drop ?k L)"
        using node_hash_eqD [OF inj _ mem(1), of s h] mem(2) top False s32
          length_root_of [OF H L32(1)] by simp
      then show ?thesis
        using less.hyps [of "drop ?k L" "i - ?k" p'] k False p p32 L32 less.prems(1,4) sub(2)
        by (simp add: t_def ts_def h_def)
    qed
  qed
qed

section \<open>Consistency\<close>

text \<open>The verifier's descent on natural numbers: the turns, and whether every turn went left.\<close>

function cturns :: "nat \<Rightarrow> nat \<Rightarrow> bool list" where
  "cturns m n =
     (if \<not> (0 < m \<and> m < n) then []
      else if m \<le> split_point n then True # cturns m (split_point n)
      else False # cturns (m - split_point n) (n - split_point n))"
  by pat_completeness auto
termination
  by (relation "measure (\<lambda>(m, n). n)") (auto simp: split_point_bounds)

declare cturns.simps [simp del]

lemma consistency_turns_eq:
  "consistency_turns m n c = (cturns (unat m) (unat n), c \<and> list_all id (cturns (unat m) (unat n)))"
proof (induction m n c rule: consistency_turns.induct)
  case (1 m n c)
  show ?case
  proof (cases "0 < m \<and> m < n")
    case True
    let ?s = "largest_power_of_two_below n"
    have n1: "1 < n" using True by (auto simp: word_less_nat_alt)
    have s: "unat ?s = split_point (unat n)" by (rule unat_largest_power_of_two_below [OF n1])
    have g: "0 < unat m \<and> unat m < unat n" using True by (simp add: word_less_nat_alt)
    have d: "unat (n - ?s) = unat n - split_point (unat n)" using split64_less(3) [OF n1] s by simp
    have i: "\<not> m \<le> ?s \<Longrightarrow> unat (m - ?s) = unat m - split_point (unat n)"
      using s by (simp add: unat_sub word_le_nat_alt)
    show ?thesis
      using "1.IH" True g s d i
      by (auto simp: Let_def consistency_turns.simps [of m n] cturns.simps [of "unat m" "unat n"]
          word_le_nat_alt)
  next
    case False
    then show ?thesis by (auto simp: consistency_turns.simps cturns.simps word_less_nat_alt)
  qed
qed

lemma length_cturns: "n \<le> 2 ^ k \<Longrightarrow> length (cturns m n) \<le> k"
proof (induction m n arbitrary: k rule: cturns.induct)
  case (1 m n)
  show ?case
  proof (cases "0 < m \<and> m < n")
    case True
    with "1.prems" obtain j where k: "k = Suc j" by (cases k) auto
    from True "1.prems" k have "split_point n \<le> 2 ^ j" "n - split_point n \<le> 2 ^ j"
      using split_point_le_half [of n j] by auto
    with "1.IH" True k show ?thesis by (simp add: cturns.simps [of m n])
  next
    case False
    then show ?thesis by (simp add: cturns.simps [of m n])
  qed
qed


lemma root_of_take_split:
  assumes "split_point (length L) < m" "m \<le> length L" "1 < length L"
  shows "root_of H (take m L) =
     node_hash H (root_of H (take (split_point (length L)) L))
       (root_of H (take (m - split_point (length L)) (drop (split_point (length L)) L)))"
proof -
  have "length (take m L) = m" using assms(2) by simp
  moreover have "1 < m" using assms split_point_bounds(1) [OF assms(3)] by linarith
  ultimately have "root_of H (take m L) =
      node_hash H (root_of H (take (split_point m) (take m L)))
        (root_of H (drop (split_point m) (take m L)))"
    using root_of_split [of "take m L" H] by simp
  moreover have "split_point m = split_point (length L)"
    by (rule split_point_mono_between [OF assms])
  ultimately show ?thesis using assms(1) by (simp add: min_def drop_take)
qed

lemma collect_consistency_verifies:
  assumes "0 < m" "m \<le> length L"
  shows "\<exists>seed p. collect_consistency H L m c [] =
        (if c \<and> list_all id (cturns m (length L)) then [] else [seed]) @ p \<and>
      length p = length (cturns m (length L)) \<and>
      foldl (consistency_step H) (seed, seed) (zip p (rev (cturns m (length L))))
        = (root_of H (take m L), root_of H L) \<and>
      (c \<and> list_all id (cturns m (length L)) \<longrightarrow> seed = root_of H (take m L))"
  using assms
proof (induction "length L" arbitrary: L m c rule: less_induct)
  case less
  let ?k = "split_point (length L)"
  consider (eq) "m = length L" | (left) "m < length L" "m \<le> ?k" | (right) "m < length L" "?k < m"
    using less.prems(2) by linarith
  then show ?case
  proof cases
    case eq
    then show ?thesis
      by (intro exI [of _ "root_of H L"] exI [of _ "[]"])
        (simp add: collect_consistency.simps [of H L] cturns.simps)
  next
    case left
    then have n: "1 < length L" using less.prems(1) by linarith
    note k = split_point_bounds [OF n]
    have ct: "cturns m (length L) = True # cturns m ?k"
      using left less.prems(1) by (simp add: cturns.simps [of m "length L"])
    have cc: "collect_consistency H L m c [] =
        collect_consistency H (take ?k L) m c [] @ [root_of H (drop ?k L)]"
      using left n by (simp add: collect_consistency.simps [of H L] Let_def)
    obtain seed p where IH: "collect_consistency H (take ?k L) m c [] =
          (if c \<and> list_all id (cturns m ?k) then [] else [seed]) @ p"
        "length p = length (cturns m ?k)"
        "foldl (consistency_step H) (seed, seed) (zip p (rev (cturns m ?k)))
          = (root_of H (take m L), root_of H (take ?k L))"
        "c \<and> list_all id (cturns m ?k) \<longrightarrow> seed = root_of H (take m L)"
      using less.hyps [of "take ?k L" m c] k left less.prems(1) by (auto simp: min_def)
    show ?thesis
      using IH by (intro exI [of _ seed] exI [of _ "p @ [root_of H (drop ?k L)]"])
        (simp add: cc ct consistency_step_def root_of_split [OF n])
  next
    case right
    then have n: "1 < length L" using less.prems(1) by linarith
    note k = split_point_bounds [OF n]
    have ct: "cturns m (length L) = False # cturns (m - ?k) (length L - ?k)"
      using right less.prems(1) by (simp add: cturns.simps [of m "length L"])
    have cc: "collect_consistency H L m c [] =
        collect_consistency H (drop ?k L) (m - ?k) False [] @ [root_of H (take ?k L)]"
      using right n by (simp add: collect_consistency.simps [of H L] Let_def)
    have lt: "length L - ?k < length L" "0 < m - ?k" "m - ?k \<le> length L - ?k"
      using k right by linarith+
    obtain seed p where IH: "collect_consistency H (drop ?k L) (m - ?k) False [] = seed # p"
        "length p = length (cturns (m - ?k) (length L - ?k))"
        "foldl (consistency_step H) (seed, seed) (zip p (rev (cturns (m - ?k) (length L - ?k))))
          = (root_of H (take (m - ?k) (drop ?k L)), root_of H (drop ?k L))"
      using less.hyps [of "drop ?k L" "m - ?k" False] lt by auto
    have roots: "root_of H L = node_hash H (root_of H (take ?k L)) (root_of H (drop ?k L))"
      "root_of H (take m L) =
         node_hash H (root_of H (take ?k L)) (root_of H (take (m - ?k) (drop ?k L)))"
      using root_of_split [OF n] root_of_take_split [OF right(2) _ n] right(1) by simp_all
    have a: "foldl (consistency_step H) (seed, seed)
        (zip (p @ [root_of H (take ?k L)]) (rev (cturns m (length L))))
          = (root_of H (take m L), root_of H L)"
      unfolding roots ct rev.simps using IH(2,3) by (simp add: consistency_step_def)
    have b: "list_all id (cturns m (length L)) = False" by (simp add: ct)
    have l: "length (p @ [root_of H (take ?k L)]) = length (cturns m (length L))"
      using IH(2) by (simp add: ct)
    have d: "collect_consistency H L m c [] = [seed] @ p @ [root_of H (take ?k L)]"
      by (simp add: cc IH(1))
    show ?thesis
      by (rule exI [of _ seed], rule exI [of _ "p @ [root_of H (take ?k L)]"])
        (simp only: a b l d if_False simp_thms)
  qed
qed

lemma root_of_inj:
  assumes H: "\<And>x. length (H x) = 32"
    and "length O' = length L" "\<forall>l\<in>set L. length l = 32" "\<forall>l\<in>set O'. length l = 32"
    and "root_of H O' = root_of H L"
    and "inj_on H (set (root_inputs H O') \<union> set (root_inputs H L))"
  shows "O' = L"
  using assms(2-)
proof (induction "length L" arbitrary: L O' rule: less_induct)
  case less
  let ?k = "split_point (length L)"
  show ?case
  proof (cases "length L \<le> 1")
    case True
    with less.prems(1,4) show ?thesis
      by (cases L; cases O') (auto simp: root_of.simps)
  next
    case False
    then have n: "1 < length L" "1 < length O'" using less.prems(1) by simp_all
    note k = split_point_bounds [OF n(1)] and L32 = set_take_drop32 [OF less.prems(2)]
      and O32 = set_take_drop32 [OF less.prems(3)]
    note sp = root_inputs_split [OF n(1), of H] root_inputs_split [OF n(2), of H, unfolded less.prems(1)]
    have "root_of H (take ?k O') = root_of H (take ?k L) \<and> root_of H (drop ?k O') = root_of H (drop ?k L)"
    proof (rule node_hash_eqD [OF less.prems(5)])
      show "node_hash H (root_of H (take ?k O')) (root_of H (drop ?k O'))
          = node_hash H (root_of H (take ?k L)) (root_of H (drop ?k L))"
        using less.prems(1,4) root_of_split [OF n(1), of H] root_of_split [OF n(2), of H] by simp
    qed (auto simp: sp length_root_of [OF H O32(1)] length_root_of [OF H L32(1)])
    moreover have "inj_on H (set (root_inputs H (take ?k O')) \<union> set (root_inputs H (take ?k L)))"
      "inj_on H (set (root_inputs H (drop ?k O')) \<union> set (root_inputs H (drop ?k L)))"
      by (rule inj_on_subset [OF less.prems(5)], auto simp: sp)+
    ultimately have "take ?k O' = take ?k L" "drop ?k O' = drop ?k L"
      using less.hyps [of "take ?k L" "take ?k O'"] less.hyps [of "drop ?k L" "drop ?k O'"]
        less.prems(1) k L32 O32 by (simp_all add: min_def)
    then show ?thesis by (metis append_take_drop_id)
  qed
qed


lemma consistency_inputs_append:
  "consistency_inputs H on (xs @ [(s, t)]) = consistency_inputs H on xs @
     (if t then [[NODE_PREFIX] @ snd (foldl (consistency_step H) on xs) @ s]
      else [[NODE_PREFIX] @ s @ fst (foldl (consistency_step H) on xs),
            [NODE_PREFIX] @ s @ snd (foldl (consistency_step H) on xs)])"
  by (induction H on xs rule: consistency_inputs.induct) auto

lemma length_consistency_fold:
  assumes "\<And>x. length (H x) = 32" "length (fst on) = 32" "length (snd on) = 32"
  shows "length (fst (foldl (consistency_step H) on sts)) = 32 \<and>
    length (snd (foldl (consistency_step H) on sts)) = 32"
  using assms
  by (induction sts arbitrary: on) (auto simp: consistency_step_def node_hash_def split: prod.splits)

lemma consistency_fold_sound:
  assumes H: "\<And>x. length (H x) = 32"
    and "0 < length O'" "length O' \<le> length L"
    and "\<forall>l\<in>set L. length l = 32" "\<forall>l\<in>set O'. length l = 32"
    and "\<forall>s\<in>set p. length s = 32" "length seed = 32"
    and "length p = length (cturns (length O') (length L))"
    and "foldl (consistency_step H) (seed, seed) (zip p (rev (cturns (length O') (length L))))
           = (root_of H O', root_of H L)"
    and "inj_on H (set (root_inputs H O') \<union> set (root_inputs H L)
           \<union> set (consistency_inputs H (seed, seed) (zip p (rev (cturns (length O') (length L))))))"
  shows "O' = take (length O') L"
  using assms(2-)
proof (induction "length L" arbitrary: L O' p rule: less_induct)
  case less
  let ?k = "split_point (length L)" and ?m = "length O'"
  let ?S = "set (root_inputs H O') \<union> set (root_inputs H L)
           \<union> set (consistency_inputs H (seed, seed) (zip p (rev (cturns ?m (length L)))))"
  note L32 = set_take_drop32 [OF less.prems(3)] and O32 = set_take_drop32 [OF less.prems(4)]
  consider (eq) "?m = length L" | (left) "?m < length L" "?m \<le> ?k" | (right) "?m < length L" "?k < ?m"
    using less.prems(2) by linarith
  then show ?case
  proof cases
    case eq
    then have "root_of H O' = root_of H L" using less.prems(8) by (auto simp: cturns.simps)
    moreover have "inj_on H (set (root_inputs H O') \<union> set (root_inputs H L))"
      by (rule inj_on_subset [OF less.prems(9)]) auto
    ultimately show ?thesis using root_of_inj [OF H eq less.prems(3,4)] eq by simp
  next
    case left
    then have n: "1 < length L" using less.prems(1) by linarith
    note k = split_point_bounds [OF n]
    have ct: "cturns ?m (length L) = True # cturns ?m ?k"
      using left less.prems(1) by (simp add: cturns.simps [of ?m "length L"])
    obtain p' s where p: "p = p' @ [s]" "length p' = length (cturns ?m ?k)"
      using less.prems(7) ct by (cases p rule: rev_cases) auto
    obtain o' n' where f: "foldl (consistency_step H) (seed, seed) (zip p' (rev (cturns ?m ?k))) = (o', n')"
      by fastforce
    have z: "zip p (rev (cturns ?m (length L))) = zip p' (rev (cturns ?m ?k)) @ [(s, True)]"
      using p by (simp add: ct)
    have o': "o' = root_of H O'" and nn: "node_hash H n' s = root_of H L"
      using less.prems(8) f by (auto simp: z consistency_step_def)
    have n32: "length n' = 32"
      using length_consistency_fold [where H = H and on = "(seed, seed)"
          and sts = "zip p' (rev (cturns ?m ?k))", OF H] less.prems(6) f
      by simp
    have "n' = root_of H (take ?k L) \<and> s = root_of H (drop ?k L)"
    proof (rule node_hash_eqD [OF less.prems(9)])
      show "[NODE_PREFIX] @ n' @ s \<in> ?S" by (simp add: z consistency_inputs_append f)
      show "[NODE_PREFIX] @ root_of H (take ?k L) @ root_of H (drop ?k L) \<in> ?S"
        by (simp add: root_inputs_split [OF n])
      show "node_hash H n' s = node_hash H (root_of H (take ?k L)) (root_of H (drop ?k L))"
        using nn root_of_split [OF n, of H] by simp
      show "length n' = length (root_of H (take ?k L))" using n32 length_root_of [OF H L32(1)] by simp
    qed
    moreover have "inj_on H (set (root_inputs H O') \<union> set (root_inputs H (take ?k L))
        \<union> set (consistency_inputs H (seed, seed) (zip p' (rev (cturns ?m ?k)))))"
      by (rule inj_on_subset [OF less.prems(9)])
        (auto simp: z consistency_inputs_append root_inputs_split [OF n])
    ultimately have "O' = take ?m (take ?k L)"
      using less.hyps [of "take ?k L" O' p'] k left less.prems(1,4,5,6) L32(1) p f o'
      by (simp add: min_def)
    then show ?thesis using left(2) by (simp add: min_def)
  next
    case right
    then have n: "1 < length L" "1 < ?m"
      using less.prems(1) split_point_bounds(1) [of "length L"] by linarith+
    note k = split_point_bounds [OF n(1)]
    have sk: "split_point ?m = ?k" using split_point_mono_between [OF right(2) _ n(1)] right(1) by simp
    have ct: "cturns ?m (length L) = False # cturns (?m - ?k) (length L - ?k)"
      using right less.prems(1) by (simp add: cturns.simps [of ?m "length L"])
    let ?ts = "cturns (?m - ?k) (length L - ?k)"
    obtain p' s where p: "p = p' @ [s]" "length p' = length ?ts"
      using less.prems(7) ct by (cases p rule: rev_cases) auto
    obtain o' n' where f: "foldl (consistency_step H) (seed, seed) (zip p' (rev ?ts)) = (o', n')"
      by fastforce
    have z: "zip p (rev (cturns ?m (length L))) = zip p' (rev ?ts) @ [(s, False)]"
      using p by (simp add: ct)
    have oo: "node_hash H s o' = root_of H O'" and nn: "node_hash H s n' = root_of H L"
      using less.prems(8) f by (auto simp: z consistency_step_def)
    have s32: "length s = 32" using less.prems(5) p by simp
    have new: "s = root_of H (take ?k L) \<and> n' = root_of H (drop ?k L)"
    proof (rule node_hash_eqD [OF less.prems(9)])
      show "[NODE_PREFIX] @ s @ n' \<in> ?S" by (simp add: z consistency_inputs_append f)
      show "[NODE_PREFIX] @ root_of H (take ?k L) @ root_of H (drop ?k L) \<in> ?S"
        by (simp add: root_inputs_split [OF n(1)])
      show "node_hash H s n' = node_hash H (root_of H (take ?k L)) (root_of H (drop ?k L))"
        using nn root_of_split [OF n(1), of H] by simp
      show "length s = length (root_of H (take ?k L))" using s32 length_root_of [OF H L32(1)] by simp
    qed
    have old: "s = root_of H (take ?k O') \<and> o' = root_of H (drop ?k O')"
    proof (rule node_hash_eqD [OF less.prems(9)])
      show "[NODE_PREFIX] @ s @ o' \<in> ?S" by (simp add: z consistency_inputs_append f)
      show "[NODE_PREFIX] @ root_of H (take ?k O') @ root_of H (drop ?k O') \<in> ?S"
        by (simp add: root_inputs_split [OF n(2)] sk)
      show "node_hash H s o' = node_hash H (root_of H (take ?k O')) (root_of H (drop ?k O'))"
        using oo root_of_split [OF n(2), of H] by (simp add: sk)
      show "length s = length (root_of H (take ?k O'))" using s32 length_root_of [OF H O32(1)] by simp
    qed
    have "take ?k O' = take ?k L"
    proof (rule root_of_inj [OF H _ L32(1) O32(1)])
      show "length (take ?k O') = length (take ?k L)" using right by simp
      show "root_of H (take ?k O') = root_of H (take ?k L)" using old new by simp
      show "inj_on H (set (root_inputs H (take ?k O')) \<union> set (root_inputs H (take ?k L)))"
        by (rule inj_on_subset [OF less.prems(9)])
          (auto simp: root_inputs_split [OF n(1)] root_inputs_split [OF n(2)] sk)
    qed
    moreover have "drop ?k O' = take (length (drop ?k O')) (drop ?k L)"
    proof (rule less.hyps [of _ _ p'])
      show "inj_on H (set (root_inputs H (drop ?k O')) \<union> set (root_inputs H (drop ?k L))
          \<union> set (consistency_inputs H (seed, seed)
                   (zip p' (rev (cturns (length (drop ?k O')) (length (drop ?k L)))))))"
        by (rule inj_on_subset [OF less.prems(9)])
          (auto simp: z consistency_inputs_append root_inputs_split [OF n(1)] root_inputs_split [OF n(2)] sk)
    qed (use k right less.prems(5,6) L32 O32 p f new old in auto)
    ultimately show ?thesis
      using right by (metis append_take_drop_id length_drop less_imp_le take_add add_diff_inverse_nat not_less)
  qed
qed

end
