(* ===== verification/Hide_Transparency.thy ===== *)
theory Hide_Transparency
  imports Hide_Merkle_Lemmas
begin

text \<open>
  What the transparency log promises: proofs are sound and complete, their wire forms are
  bijective, and the leaves it records cannot be confused.
\<close>

section \<open>Properties\<close>

text \<open>What the verifier of a consistency proof feeds to the hash function.\<close>

definition verify_consistency_inputs :: "(bytes \<Rightarrow> hash) \<Rightarrow> ConsistencyProof \<Rightarrow> hash \<Rightarrow> bytes list" where
  "verify_consistency_inputs H pf old_root =
     (let (turns, complete) = consistency_turns (cp_old_size pf) (cp_new_size pf) True
      in if complete
         then consistency_inputs H (old_root, old_root) (zip (cp_path pf) (rev turns))
         else case cp_path pf of [] \<Rightarrow> []
              | seed # path \<Rightarrow> consistency_inputs H (seed, seed) (zip path (rev turns)))"

definition verify_inclusion_inputs :: "(bytes \<Rightarrow> hash) \<Rightarrow> InclusionProof \<Rightarrow> hash \<Rightarrow> bytes list" where
  "verify_inclusion_inputs H pf leaf =
     inclusion_inputs H leaf
       (zip (ip_path pf) (rev (inclusion_turns (ip_index pf) (ip_size pf))))"

text \<open>C3. A consistency proof that verifies against the roots of two lists of leaves shows that the
  older list is a prefix of the newer one: nothing already published was altered or dropped. The
  only hypothesis on the hash function is that it has no collision among the byte strings actually
  hashed for the two trees and by the verifier.\<close>

theorem consistency_sound:
  assumes "\<And>x. length (H x) = 32"
    and "verify_consistency H pf (root_of H old) (root_of H new) = Inr ()"
    and "length old = unat (cp_old_size pf)" "length new = unat (cp_new_size pf)"
    and "\<forall>h\<in>set old \<union> set new \<union> set (cp_path pf). length h = 32"
    and "inj_on H (set (root_inputs H old) \<union> set (root_inputs H new)
           \<union> set (verify_consistency_inputs H pf (root_of H old)))"
  shows "old = take (length old) new"
proof (cases "cp_old_size pf = cp_new_size pf")
  case True
  then have eq: "length old = length new" using assms(3,4) by simp
  have "root_of H old = root_of H new"
    using assms(2) True by (auto simp: verify_consistency_def split: if_splits)
  moreover have "inj_on H (set (root_inputs H old) \<union> set (root_inputs H new))"
    by (rule inj_on_subset [OF assms(6)]) auto
  ultimately have "old = new" using root_of_inj [OF assms(1) eq] assms(5) by simp
  then show ?thesis by simp
next
  case False
  let ?ts = "cturns (length old) (length new)"
  have sizes: "0 < length old" "length old \<le> length new"
    using assms(2,3,4)
    by (auto simp: verify_consistency_def word_less_nat_alt unat_gt_0 split: if_splits)
  obtain seed path where sp:
    "length path = length ?ts" "\<forall>h\<in>set path. length h = 32" "length seed = 32"
    "foldl (consistency_step H) (seed, seed) (zip path (rev ?ts)) = (root_of H old, root_of H new)"
    "verify_consistency_inputs H pf (root_of H old) = consistency_inputs H (seed, seed) (zip path (rev ?ts))"
  proof (cases "list_all id ?ts")
    case True
    then show ?thesis
      using assms(2-5) False length_root_of [of H old, OF assms(1)] that [of "cp_path pf" "root_of H old"]
      by (auto simp: verify_consistency_def verify_consistency_inputs_def consistency_turns_eq
          split: if_splits prod.splits)
  next
    case F: False
    then obtain seed path where "cp_path pf = seed # path"
      using assms(2-4) False by (cases "cp_path pf")
        (auto simp: verify_consistency_def consistency_turns_eq split: if_splits)
    then show ?thesis
      using assms(2-5) False F that [of path seed]
      by (auto simp: verify_consistency_def verify_consistency_inputs_def consistency_turns_eq
          split: if_splits prod.splits)
  qed
  show ?thesis
    using consistency_fold_sound [where H = H, OF assms(1) sizes _ _ sp(2,3,1,4)] assms(5,6) sp(5) by simp
qed

theorem consistency_sound_witness:
  "let a = replicate 32 1; b = replicate 32 2;
       pf = \<lparr>cp_old_size = 1, cp_new_size = 2, cp_path = [b]\<rparr>
   in verify_consistency ref_hash pf (root_of ref_hash [a]) (root_of ref_hash [a, b]) = Inr ()
      \<and> [a] = take (length [a]) [a, b]"
proof -
  let ?a = "replicate 32 1 :: hash" and ?b = "replicate 32 2 :: hash"
  let ?p = "\<lparr>cp_old_size = 1, cp_new_size = 2, cp_path = [?b]\<rparr>"
  have s: "split_point 2 = 1" by (simp add: split_point_def ilog2.simps)
  have t: "consistency_turns 1 2 True = ([True], True)"
    by (simp add: consistency_turns_eq cturns.simps s)
  have r: "root_of ref_hash [?a] = ?a" "root_of ref_hash [?a, ?b] = node_hash ref_hash ?a ?b"
    using root_of_split [of "[?a, ?b]" ref_hash] s
    by (simp_all add: root_of_single numeral_2_eq_2)
  have i: "root_inputs ref_hash [?a] = []" "root_inputs ref_hash [?a, ?b] = [[NODE_PREFIX] @ ?a @ ?b]"
    using s by (simp_all add: root_inputs.simps root_of_single Let_def numeral_2_eq_2)
  have v: "verify_consistency ref_hash ?p (root_of ref_hash [?a]) (root_of ref_hash [?a, ?b]) = Inr ()"
    by (simp add: verify_consistency_def t r consistency_step_def MAX_PROOF_LEN_def)
  moreover have "inj_on ref_hash (set (root_inputs ref_hash [?a]) \<union> set (root_inputs ref_hash [?a, ?b])
      \<union> set (verify_consistency_inputs ref_hash ?p (root_of ref_hash [?a])))"
    by (simp add: i t r verify_consistency_inputs_def)
  ultimately show ?thesis
    using consistency_sound [OF length_ref_hash v] by (simp add: Let_def)
qed

text \<open>C16. An inclusion proof that verifies against the root of a list of leaves is for the leaf at
  that index, again up to a collision among the byte strings actually hashed.\<close>

theorem inclusion_sound:
  assumes "\<And>x. length (H x) = 32"
    and "verify_inclusion H pf leaf (root_of H L) = Inr ()"
    and "length L = unat (ip_size pf)"
    and "\<forall>h\<in>insert leaf (set L \<union> set (ip_path pf)). length h = 32"
    and "inj_on H (set (root_inputs H L) \<union> set (verify_inclusion_inputs H pf leaf))"
  shows "leaf = L ! unat (ip_index pf)"
  using assms inclusion_fold_sound [where H = H, OF assms(1), of "unat (ip_index pf)" L "ip_path pf" leaf]
  by (auto simp: Let_def verify_inclusion_def verify_inclusion_inputs_def inclusion_turns_eq word_le_nat_alt
      split: if_splits)

theorem inclusion_sound_witness:
  "let a = replicate 32 1; b = replicate 32 2;
       pf = \<lparr>ip_index = 1, ip_size = 2, ip_path = [a]\<rparr>
   in verify_inclusion ref_hash pf b (root_of ref_hash [a, b]) = Inr () \<and> b = [a, b] ! unat (ip_index pf)"
proof -
  let ?a = "replicate 32 1 :: hash" and ?b = "replicate 32 2 :: hash"
  let ?p = "\<lparr>ip_index = 1, ip_size = 2, ip_path = [?a]\<rparr>"
  have s: "split_point 2 = 1" by (simp add: split_point_def ilog2.simps)
  have t: "inclusion_turns 1 2 = [False]" by (simp add: inclusion_turns_eq iturns.simps s)
  have r: "root_of ref_hash [?a, ?b] = node_hash ref_hash ?a ?b"
    using root_of_split [of "[?a, ?b]" ref_hash] s
    by (simp add: root_of_single numeral_2_eq_2)
  have i: "root_inputs ref_hash [?a, ?b] = [[NODE_PREFIX] @ ?a @ ?b]"
    using s by (simp add: root_inputs.simps root_of_single Let_def numeral_2_eq_2)
  have v: "verify_inclusion ref_hash ?p ?b (root_of ref_hash [?a, ?b]) = Inr ()"
    by (simp add: verify_inclusion_def t r inclusion_step_def MAX_PROOF_LEN_def word_le_nat_alt)
  moreover have "inj_on ref_hash (set (root_inputs ref_hash [?a, ?b])
      \<union> set (verify_inclusion_inputs ref_hash ?p ?b))"
    by (simp add: i t r verify_inclusion_inputs_def)
  ultimately show ?thesis
    using inclusion_sound [OF length_ref_hash v] by (simp add: Let_def)
qed

text \<open>C29. Whatever sizes an auditor asks about, the log answers with a consistency proof, and that
  proof verifies against the roots the log had at these sizes.\<close>

theorem consistency_complete:
  assumes "length (log_leaves l) \<le> 2 ^ 63" "0 < m" "m \<le> n" "unat n \<le> length (log_leaves l)"
  shows "\<exists>pf rm rn. prove_consistency H l m n = Inr pf \<and> root_at H l m = Inr rm \<and>
    root_at H l n = Inr rn \<and> verify_consistency H pf rm rn = Inr ()"
proof -
  let ?L = "take (unat n) (log_leaves l)" and ?m = "unat m"
  have len: "length ?L = unat n" using assms(4) by simp
  have m: "0 < ?m" "?m \<le> length ?L" using assms by (auto simp: word_less_nat_alt word_le_nat_alt unat_gt_0)
  have bound: "\<not> len64 (log_leaves l) < n" "\<not> len64 (log_leaves l) < m"
    using assms by (auto simp: word_less_nat_alt word_le_nat_alt unat_len64)
  obtain seed p where c: "collect_consistency H ?L ?m True [] =
        (if list_all id (cturns ?m (length ?L)) then [] else [seed]) @ p"
      "length p = length (cturns ?m (length ?L))"
      "foldl (consistency_step H) (seed, seed) (zip p (rev (cturns ?m (length ?L))))
        = (root_of H (take ?m ?L), root_of H ?L)"
      "list_all id (cturns ?m (length ?L)) \<longrightarrow> seed = root_of H (take ?m ?L)"
    using collect_consistency_verifies [OF m, of H True] by auto
  have "length (cturns ?m (length ?L)) \<le> 63"
    using length_cturns [of "length ?L" 63] assms(1,4) by simp
  then have short: "length (collect_consistency H ?L ?m True []) \<le> MAX_PROOF_LEN"
    using c(1,2) by (simp add: MAX_PROOF_LEN_def split: if_splits)
  have tk: "min ?m (unat n) = ?m" using m(2) len by simp
  define pf where "pf = \<lparr>cp_old_size = m, cp_new_size = n, cp_path = collect_consistency H ?L ?m True []\<rparr>"
  have "verify_consistency H pf (root_of H (take ?m (log_leaves l))) (root_of H ?L) = Inr ()"
  proof (cases "m = n")
    case True
    then show ?thesis
      using assms(2) len by (simp add: pf_def verify_consistency_def MAX_PROOF_LEN_def collect_consistency.simps)
  next
    case False
    then show ?thesis
      using assms(2,3) short c len
      by (auto simp: pf_def verify_consistency_def consistency_turns_eq tk not_less split: if_splits)
  qed
  moreover have "prove_consistency H l m n = Inr pf"
    using bound assms(2,3) by (auto simp: prove_consistency_def pf_def)
  ultimately show ?thesis using bound by (simp add: root_at_def)
qed

theorem consistency_complete_witness:
  "\<exists>pf rm rn.
     prove_consistency ref_hash \<lparr>log_leaves = [replicate 32 1, replicate 32 2, replicate 32 3]\<rparr> 2 3 = Inr pf \<and>
     root_at ref_hash \<lparr>log_leaves = [replicate 32 1, replicate 32 2, replicate 32 3]\<rparr> 2 = Inr rm \<and>
     root_at ref_hash \<lparr>log_leaves = [replicate 32 1, replicate 32 2, replicate 32 3]\<rparr> 3 = Inr rn \<and>
     verify_consistency ref_hash pf rm rn = Inr ()"
  by (rule consistency_complete) simp_all

text \<open>Every entry of the log has an audit path, and the path verifies against the root of the
  requested size.\<close>

theorem inclusion_complete:
  assumes "length (log_leaves l) \<le> 2 ^ 63" "i < n" "unat n \<le> length (log_leaves l)"
  shows "\<exists>pf root. prove_inclusion H l i n = Inr pf \<and> root_at H l n = Inr root \<and>
    verify_inclusion H pf (log_leaves l ! unat i) root = Inr ()"
proof -
  let ?L = "take (unat n) (log_leaves l)"
  have len: "length ?L = unat n" using assms(3) by simp
  have i: "unat i < length ?L" using assms(2) len by (simp add: word_less_nat_alt)
  have bound: "\<not> len64 (log_leaves l) < n"
    using assms by (auto simp: word_less_nat_alt unat_len64)
  note c = collect_inclusion_verifies [OF i, of H]
  have "length (iturns (unat i) (length ?L)) \<le> 64"
    using length_iturns [of "length ?L" 64] assms(1,3) by simp
  then show ?thesis
    using c assms(2) bound len i
    by (auto simp: prove_inclusion_def root_at_def verify_inclusion_def inclusion_turns_eq
        MAX_PROOF_LEN_def not_le)
qed

theorem inclusion_complete_witness:
  "\<exists>pf root.
     prove_inclusion ref_hash \<lparr>log_leaves = [replicate 32 1, replicate 32 2, replicate 32 3]\<rparr> 2 3 = Inr pf \<and>
     root_at ref_hash \<lparr>log_leaves = [replicate 32 1, replicate 32 2, replicate 32 3]\<rparr> 3 = Inr root \<and>
     verify_inclusion ref_hash pf
       (log_leaves \<lparr>log_leaves = [replicate 32 1, replicate 32 2, replicate 32 3]\<rparr> ! unat (2 :: u64)) root = Inr ()"
  by (rule inclusion_complete) simp_all

section \<open>Wire forms\<close>

lemma chunks_exact32_concat:
  "\<forall>h\<in>set path. length h = 32 \<Longrightarrow> chunks_exact32 (concat path) = path"
proof (induction path)
  case Nil
  then show ?case by (simp add: chunks_exact32.simps [of "[]"])
next
  case (Cons h path)
  then show ?case by (simp add: chunks_exact32.simps [of "h @ concat path"])
qed

lemma chunks_exact32_inverse:
  "length bs = 32 * n \<Longrightarrow> concat (chunks_exact32 bs) = bs \<and> length (chunks_exact32 bs) = n
     \<and> (\<forall>h\<in>set (chunks_exact32 bs). length h = 32)"
proof (induction n arbitrary: bs)
  case 0
  then show ?case by (simp add: chunks_exact32.simps [of "[]"])
next
  case (Suc n)
  have eq: "chunks_exact32 bs = take 32 bs # chunks_exact32 (drop 32 bs)"
    using Suc.prems by (subst chunks_exact32.simps) simp
  have "length (drop 32 bs) = 32 * n" using Suc.prems by simp
  note IH = Suc.IH [OF this]
  have "length (take 32 bs) = 32" using Suc.prems by simp
  then show ?case
    unfolding eq concat.simps list.set list.size conjunct1 [OF IH] append_take_drop_id
    using IH by (simp del: length_take)
qed

lemma length_concat32: "\<forall>h\<in>set path. length h = 32 \<Longrightarrow> length (concat path) = 32 * length path"
  by (induction path) auto

lemma decode_encode_proof:
  assumes "encode_proof tag a b path = Inr bs" "\<forall>h\<in>set path. length h = 32"
  shows "decode_proof tag bs = Inr (a, b, path)"
proof -
  have c: "length path \<le> 64" and bs: "bs = [tag] @ be64 a @ be64 b @ [of_nat (length path)] @ concat path"
    using assms(1) by (auto simp: encode_proof_def MAX_PROOF_LEN_def split: if_splits)
  have "unat (of_nat (length path) :: byte) = length path"
    using c by (simp add: unat_of_nat)
  moreover have "subslice 1 9 bs = be64 a" "subslice 9 17 bs = be64 b" "bs ! 17 = of_nat (length path)"
    "drop 18 bs = concat path" "length bs = 18 + length (concat path)" "bs ! 0 = tag"
    by (simp_all add: bs subslice_def nth_append)
  ultimately show ?thesis
    using c assms(2)
    by (simp add: decode_proof_def PROOF_HEADER_def MAX_PROOF_LEN_def length_concat32 chunks_exact32_concat)
qed

lemma encode_decode_proof:
  assumes "decode_proof tag bs = Inr (a, b, path)"
  shows "encode_proof tag a b path = Inr bs" "\<forall>h\<in>set path. length h = 32"
proof -
  have len: "length bs = 18 + 32 * unat (bs ! 17)" and c: "unat (bs ! 17) \<le> 64" and tag: "bs ! 0 = tag"
    and a: "a = u64_from_be (subslice 1 9 bs)" and b: "b = u64_from_be (subslice 9 17 bs)"
    and path: "path = chunks_exact32 (drop 18 bs)"
    using assms by (auto simp: decode_proof_def PROOF_HEADER_def MAX_PROOF_LEN_def Let_def split: if_splits)
  have p: "concat path = drop 18 bs" "length path = unat (bs ! 17)" "\<forall>h\<in>set path. length h = 32"
    using chunks_exact32_inverse [of "drop 18 bs" "unat (bs ! 17)"] len path by auto
  have "bs = subslice 0 1 bs @ subslice 1 9 bs @ subslice 9 17 bs @ subslice 17 18 bs @ drop 18 bs"
    by (simp only: subslice_drop) (simp add: subslice_drop)
  moreover have "subslice 0 1 bs = [tag]" "subslice 17 18 bs = [bs ! 17]"
    using len tag by (cases bs, simp_all add: subslice_def take_Suc_conv_app_nth)
  moreover have "be64 a = subslice 1 9 bs" "be64 b = subslice 9 17 bs"
    using len by (simp_all add: a b be64_u64_from_be)
  ultimately show "encode_proof tag a b path = Inr bs"
    using p c by (simp add: encode_proof_def MAX_PROOF_LEN_def)
  show "\<forall>h\<in>set path. length h = 32" by (rule p(3))
qed

text \<open>The wire form of inclusion and consistency proofs is a bijection: a byte string decodes to a
  proof exactly when it is what the encoder writes for that proof, so no proof has a second
  encoding, the two kinds are never mistaken for each other, and every encoded proof is read back.\<close>

theorem proof_wire_bijective:
  "((\<forall>h\<in>set (ip_path p). length h = 32) \<and> inclusion_encode p = Inr bs
      \<longleftrightarrow> inclusion_decode bs = Inr p) \<and>
   ((\<forall>h\<in>set (cp_path q). length h = 32) \<and> consistency_encode q = Inr bs
      \<longleftrightarrow> consistency_decode bs = Inr q)"
  by (auto simp: inclusion_encode_def inclusion_decode_def consistency_encode_def consistency_decode_def
      result_simps dest: decode_encode_proof encode_decode_proof)

theorem proof_wire_bijective_witness:
  "let p = \<lparr>ip_index = 3, ip_size = 7, ip_path = [replicate 32 9]\<rparr>
   in \<exists>bs. inclusion_encode p = Inr bs \<and> inclusion_decode bs = Inr p"
proof -
  let ?p = "\<lparr>ip_index = 3, ip_size = 7, ip_path = [replicate 32 9]\<rparr>"
  obtain bs where "inclusion_encode ?p = Inr bs"
    by (simp add: inclusion_encode_def encode_proof_def MAX_PROOF_LEN_def)
  then show ?thesis using proof_wire_bijective [of ?p bs] by (auto simp: Let_def)
qed

text \<open>The leaves the log records commit to all their fields: two identity leaves, or two epoch
  leaves, with equal bytes record the same history, and an identity leaf is never an epoch leaf.\<close>

theorem leaves_unambiguous:
  assumes "length r = 32" "length c = 32" "length h = 32" "length r' = 32" "length c' = 32" "length h' = 32"
  shows "(identity_leaf r c h n = identity_leaf r' c' h' n' \<longleftrightarrow> r = r' \<and> c = c' \<and> h = h' \<and> n = n') \<and>
    (epoch_leaf r h n = epoch_leaf r' h' n' \<longleftrightarrow> r = r' \<and> h = h' \<and> n = n') \<and>
    identity_leaf r c h n \<noteq> epoch_leaf r' h' n'"
  using assms by (auto simp: identity_leaf_def epoch_leaf_def ascii_def)

theorem leaves_unambiguous_witness:
  "identity_leaf (replicate 32 1) (replicate 32 2) (replicate 32 3) 4
     \<noteq> identity_leaf (replicate 32 1) (replicate 32 2) (replicate 32 3) 5"
  using leaves_unambiguous [of "replicate 32 1" "replicate 32 2" "replicate 32 3"
      "replicate 32 1" "replicate 32 2" "replicate 32 3" 4 5] by simp

end
