(* ===== verification/Hide_Sign.thy ===== *)
theory Hide_Sign
  imports Hide_Prelude
begin

text \<open>
  \<open>crates/hide-sign/src/lib.rs\<close>: the hybrid Ed25519 + ML-DSA-65 signatures. The primitives of the
  crates \<open>ed25519-dalek\<close>, \<open>ml-dsa\<close> and \<open>hkdf\<close> are the fields of \<open>sig_api\<close>, and \<open>sig_laws\<close> states
  what the code relies on of them. A key is represented by its encoding, which is what the code
  compares, stores and hashes.
\<close>

section \<open>Definitions\<close>

definition SEED_LENGTH :: nat where
  "SEED_LENGTH = 32"

definition ED25519_PUBLIC_LEN :: nat where
  "ED25519_PUBLIC_LEN = 32"

definition ED25519_SIGNATURE_LEN :: nat where
  "ED25519_SIGNATURE_LEN = 64"

definition ML_DSA_PUBLIC_LEN :: nat where
  "ML_DSA_PUBLIC_LEN = 1952"

definition ML_DSA_SIGNATURE_LEN :: nat where
  "ML_DSA_SIGNATURE_LEN = 3309"

definition VERIFYING_KEY_LENGTH :: nat where
  "VERIFYING_KEY_LENGTH = ED25519_PUBLIC_LEN + ML_DSA_PUBLIC_LEN"

definition SIGNATURE_LENGTH :: nat where
  "SIGNATURE_LENGTH = ED25519_SIGNATURE_LEN + ML_DSA_SIGNATURE_LEN"

lemmas sign_lengths = SEED_LENGTH_def ED25519_PUBLIC_LEN_def ED25519_SIGNATURE_LEN_def
  ML_DSA_PUBLIC_LEN_def ML_DSA_SIGNATURE_LEN_def VERIFYING_KEY_LENGTH_def SIGNATURE_LENGTH_def

definition ED25519_INFO :: bytes where
  "ED25519_INFO = ascii ''HIDE/0.5 identity ed25519''"

definition ML_DSA_INFO :: bytes where
  "ML_DSA_INFO = ascii ''HIDE/0.5 identity ml-dsa-65''"

definition RESERVED_CONTEXT_PREFIX :: bytes where
  "RESERVED_CONTEXT_PREFIX = ascii ''HIDE/''"

definition starts_with :: "bytes \<Rightarrow> bytes \<Rightarrow> bool" where
  "starts_with bs p \<longleftrightarrow> take (length p) bs = p"

definition is_reserved_context :: "bytes \<Rightarrow> bool" where
  "is_reserved_context context = starts_with context RESERVED_CONTEXT_PREFIX"

datatype SignError =
    Verification
  | InvalidLength string nat nat
  | MalformedKey
  | MalformedChallenge
  | ReservedContext
  | SRandom

text \<open>The primitives. \<open>hkdf_expand prk info\<close> is the 32-byte HKDF-Expand output; the secret keys of
  both halves are 32-byte seeds. \<open>ed_point\<close> is whether \<open>VerifyingKey::from_bytes\<close> accepts 32
  bytes; \<open>ml_sig_decodes\<close> is whether \<open>Signature::decode\<close> does.\<close>

record sig_api =
  hkdf_expand :: "bytes \<Rightarrow> bytes \<Rightarrow> bytes"
  ed_public :: "bytes \<Rightarrow> bytes"
  ed_sign :: "bytes \<Rightarrow> bytes \<Rightarrow> bytes"
  ed_point :: "bytes \<Rightarrow> bool"
  ed_verify_strict :: "bytes \<Rightarrow> bytes \<Rightarrow> bytes \<Rightarrow> bool"
  ml_public :: "bytes \<Rightarrow> bytes"
  ml_sign :: "bytes \<Rightarrow> bytes \<Rightarrow> bytes"
  ml_sig_decodes :: "bytes \<Rightarrow> bool"
  ml_verify :: "bytes \<Rightarrow> bytes \<Rightarrow> bytes \<Rightarrow> bool"

definition sig_laws :: "sig_api \<Rightarrow> bool" where
  "sig_laws P \<longleftrightarrow>
     (\<forall>k i. length (hkdf_expand P k i) = 32) \<and>
     (\<forall>sk. length (ed_public P sk) = ED25519_PUBLIC_LEN \<and> ed_point P (ed_public P sk)
        \<and> length (ml_public P sk) = ML_DSA_PUBLIC_LEN) \<and>
     (\<forall>sk m. length (ed_sign P sk m) = ED25519_SIGNATURE_LEN
        \<and> length (ml_sign P sk m) = ML_DSA_SIGNATURE_LEN \<and> ml_sig_decodes P (ml_sign P sk m)
        \<and> ed_verify_strict P (ed_public P sk) m (ed_sign P sk m)
        \<and> ml_verify P (ml_public P sk) m (ml_sign P sk m))"

definition require_length :: "string \<Rightarrow> nat \<Rightarrow> nat \<Rightarrow> SignError + unit" where
  "require_length name expected actual =
     (if expected = actual then Inr () else Inl (InvalidLength name expected actual))"

definition derive :: "sig_api \<Rightarrow> bytes \<Rightarrow> bytes \<Rightarrow> bytes" where
  "derive P seed info = hkdf_expand P seed info"

record SigningIdentity =
  si_seed :: bytes
  si_ed25519 :: bytes
  si_ml_dsa :: bytes

record VerifyingIdentity =
  vi_ed25519 :: bytes
  vi_ml_dsa :: bytes

definition si_from_seed :: "sig_api \<Rightarrow> bytes \<Rightarrow> SigningIdentity" where
  "si_from_seed P seed =
     (let ed_seed = derive P seed ED25519_INFO;
          ml_seed = derive P seed ML_DSA_INFO
      in \<lparr>si_seed = seed, si_ed25519 = ed_seed, si_ml_dsa = ml_seed\<rparr>)"

text \<open>\<open>rng\<close> is what \<open>getrandom::fill\<close> gives: the bytes, or \<open>None\<close> when it fails.\<close>

definition si_generate :: "sig_api \<Rightarrow> bytes option \<Rightarrow> SignError + SigningIdentity" where
  "si_generate P rng = bindR (ok_or rng SRandom) (\<lambda>seed. Inr (si_from_seed P seed))"

definition si_from_bytes :: "sig_api \<Rightarrow> bytes \<Rightarrow> SignError + SigningIdentity" where
  "si_from_bytes P bs =
     bindR (require_length ''signing seed'' SEED_LENGTH (length bs)) (\<lambda>_.
       Inr (si_from_seed P bs))"

definition si_to_bytes :: "SigningIdentity \<Rightarrow> bytes" where
  "si_to_bytes s = si_seed s"

definition verifying_key :: "sig_api \<Rightarrow> SigningIdentity \<Rightarrow> VerifyingIdentity" where
  "verifying_key P s =
     \<lparr>vi_ed25519 = ed_public P (si_ed25519 s), vi_ml_dsa = ml_public P (si_ml_dsa s)\<rparr>"

definition bind :: "bytes \<Rightarrow> bytes \<Rightarrow> bytes" where
  "bind context message = be64 (len64 context) @ context @ message"

definition sign :: "sig_api \<Rightarrow> SigningIdentity \<Rightarrow> bytes \<Rightarrow> bytes \<Rightarrow> bytes" where
  "sign P s context message =
     (let payload = bind context message;
          ed = ed_sign P (si_ed25519 s) payload;
          ml = ml_sign P (si_ml_dsa s) payload
      in ed @ ml)"

definition sign_application ::
  "sig_api \<Rightarrow> SigningIdentity \<Rightarrow> bytes \<Rightarrow> bytes \<Rightarrow> SignError + bytes" where
  "sign_application P s context message =
     (if is_reserved_context context then Inl ReservedContext
      else Inr (sign P s context message))"

definition ed25519_seed :: "SigningIdentity \<Rightarrow> bytes" where
  "ed25519_seed s = si_ed25519 s"

definition vi_to_bytes :: "VerifyingIdentity \<Rightarrow> bytes" where
  "vi_to_bytes v = vi_ed25519 v @ vi_ml_dsa v"

definition vi_eq :: "VerifyingIdentity \<Rightarrow> VerifyingIdentity \<Rightarrow> bool" where
  "vi_eq v w \<longleftrightarrow> vi_to_bytes v = vi_to_bytes w"

definition vi_from_bytes :: "sig_api \<Rightarrow> bytes \<Rightarrow> SignError + VerifyingIdentity" where
  "vi_from_bytes P bs =
     bindR (require_length ''verifying key'' VERIFYING_KEY_LENGTH (length bs)) (\<lambda>_.
       let ed = take ED25519_PUBLIC_LEN bs;
           ml = drop ED25519_PUBLIC_LEN bs
       in if \<not> ed_point P ed then Inl MalformedKey
          else Inr \<lparr>vi_ed25519 = ed, vi_ml_dsa = ml\<rparr>)"

definition ed25519_bytes :: "VerifyingIdentity \<Rightarrow> bytes" where
  "ed25519_bytes v = vi_ed25519 v"

definition verify ::
  "sig_api \<Rightarrow> VerifyingIdentity \<Rightarrow> bytes \<Rightarrow> bytes \<Rightarrow> bytes \<Rightarrow> SignError + unit" where
  "verify P v context message signature =
     bindR (require_length ''signature'' SIGNATURE_LENGTH (length signature)) (\<lambda>_.
       let payload = bind context message;
           ed = take ED25519_SIGNATURE_LEN signature;
           ml = drop ED25519_SIGNATURE_LEN signature;
           classical = ed_verify_strict P (vi_ed25519 v) payload ed;
           quantum = (if ml_sig_decodes P ml then ml_verify P (vi_ml_dsa v) payload ml else False)
       in if classical \<and> quantum then Inr () else Inl Verification)"

section \<open>Lemmas\<close>

lemma require_length_Inr_iff [result_simps]: "require_length n e a = Inr u \<longleftrightarrow> e = a"
  by (simp add: require_length_def)

lemma starts_with_append [simp]: "starts_with (p @ s) p"
  by (simp add: starts_with_def)

lemma bind_eq_iff:
  assumes "length c < 2 ^ 64" "length c' < 2 ^ 64"
  shows "bind c m = bind c' m' \<longleftrightarrow> c = c' \<and> m = m'"
  using lp64_append_eq [OF assms, of m m'] by (simp add: bind_def lp64_def)

text \<open>A verifying identity as the parser builds it.\<close>

definition vi_wf :: "sig_api \<Rightarrow> VerifyingIdentity \<Rightarrow> bool" where
  "vi_wf P v \<longleftrightarrow> length (vi_ed25519 v) = ED25519_PUBLIC_LEN \<and> length (vi_ml_dsa v) = ML_DSA_PUBLIC_LEN
     \<and> ed_point P (vi_ed25519 v)"

lemma vi_wf_verifying_key: "sig_laws P \<Longrightarrow> vi_wf P (verifying_key P s)"
  by (simp add: sig_laws_def vi_wf_def verifying_key_def)

lemma length_vi_to_bytes: "vi_wf P v \<Longrightarrow> length (vi_to_bytes v) = VERIFYING_KEY_LENGTH"
  by (simp add: vi_wf_def vi_to_bytes_def VERIFYING_KEY_LENGTH_def)

lemma vi_from_bytes_iff: "vi_from_bytes P bs = Inr v \<longleftrightarrow> vi_wf P v \<and> bs = vi_to_bytes v"
  by (cases v)
    (auto simp: vi_from_bytes_def vi_wf_def vi_to_bytes_def sign_lengths result_simps Let_def
      split: if_splits)

lemma length_sign: "sig_laws P \<Longrightarrow> length (sign P s c m) = SIGNATURE_LENGTH"
  by (simp add: sig_laws_def sign_def Let_def SIGNATURE_LENGTH_def)

lemma verify_iff:
  "verify P v c m sig = Inr () \<longleftrightarrow>
     length sig = SIGNATURE_LENGTH
     \<and> ed_verify_strict P (vi_ed25519 v) (bind c m) (take ED25519_SIGNATURE_LEN sig)
     \<and> ml_sig_decodes P (drop ED25519_SIGNATURE_LEN sig)
     \<and> ml_verify P (vi_ml_dsa v) (bind c m) (drop ED25519_SIGNATURE_LEN sig)"
  by (auto simp: verify_def result_simps Let_def split: if_splits)

lemma verify_sign: "sig_laws P \<Longrightarrow> verify P (verifying_key P s) c m (sign P s c m) = Inr ()"
  by (simp add: verify_iff length_sign) (simp add: sig_laws_def sign_def verifying_key_def Let_def)

section \<open>The interface the protocol crates use\<close>

text \<open>What the other components rely on: under the laws of the primitives, a signature made with a
  key verifies under that key's public half in the same context, the public half survives its
  encoding, and everything the parser accepts is in its one form.\<close>

locale signature_scheme =
  fixes laws :: "'p \<Rightarrow> bool"
    and key_wf :: "'p \<Rightarrow> 'v \<Rightarrow> bool"
    and public :: "'p \<Rightarrow> 's \<Rightarrow> 'v"
    and make :: "'p \<Rightarrow> 's \<Rightarrow> bytes \<Rightarrow> bytes \<Rightarrow> bytes"
    and check :: "'p \<Rightarrow> 'v \<Rightarrow> bytes \<Rightarrow> bytes \<Rightarrow> bytes \<Rightarrow> 'e + unit"
    and to_bytes :: "'v \<Rightarrow> bytes"
    and of_bytes :: "'p \<Rightarrow> bytes \<Rightarrow> 'e + 'v"
  assumes check_make: "laws P \<Longrightarrow> check P (public P s) c m (make P s c m) = Inr ()"
    and public_wf: "laws P \<Longrightarrow> key_wf P (public P s)"
    and of_bytes_iff: "of_bytes P bs = Inr v \<longleftrightarrow> key_wf P v \<and> bs = to_bytes v"
begin

lemma of_to_bytes: "key_wf P v \<Longrightarrow> of_bytes P (to_bytes v) = Inr v"
  by (simp add: of_bytes_iff)

lemma to_bytes_inj: "key_wf P v \<Longrightarrow> key_wf P w \<Longrightarrow> to_bytes v = to_bytes w \<Longrightarrow> v = w"
  by (metis of_to_bytes sum.inject(2))

lemma of_bytes_public: "laws P \<Longrightarrow> of_bytes P (to_bytes (public P s)) = Inr (public P s)"
  by (simp add: of_to_bytes public_wf)

end

interpretation hs: signature_scheme sig_laws vi_wf verifying_key sign verify vi_to_bytes vi_from_bytes
  by unfold_locales (simp_all add: verify_sign vi_wf_verifying_key vi_from_bytes_iff)

section \<open>A concrete instance\<close>

definition pad :: "nat \<Rightarrow> bytes \<Rightarrow> bytes" where
  "pad n x = take n (x @ replicate n 0)"

lemma length_pad [simp]: "length (pad n x) = n"
  by (simp add: pad_def)

definition ref_sig :: sig_api where
  "ref_sig = \<lparr>hkdf_expand = (\<lambda>k i. pad 32 (k @ i)),
     ed_public = pad 32, ed_sign = (\<lambda>sk m. pad 64 (pad 32 sk @ m)), ed_point = (\<lambda>_. True),
     ed_verify_strict = (\<lambda>pk m s. s = pad 64 (pk @ m)),
     ml_public = pad 1952, ml_sign = (\<lambda>sk m. pad 3309 (pad 1952 sk @ m)), ml_sig_decodes = (\<lambda>_. True),
     ml_verify = (\<lambda>pk m s. s = pad 3309 (pk @ m))\<rparr>"

lemma sig_laws_ref: "sig_laws ref_sig"
  by (simp add: sig_laws_def ref_sig_def sign_lengths)

section \<open>Properties\<close>

text \<open>No two distinct pairs of context and message give the same signed bytes: the context cannot
  absorb a part of the message.\<close>

theorem bind_unambiguous:
  assumes "length context < 2 ^ 64" "length context' < 2 ^ 64"
  shows "bind context message = bind context' message' \<longleftrightarrow> context = context' \<and> message = message'"
  by (rule bind_eq_iff [OF assms])

theorem bind_unambiguous_witness:
  "bind (ascii ''ab'') (ascii ''c'') \<noteq> bind (ascii ''a'') (ascii ''bc'')"
  using bind_unambiguous [of "ascii ''ab''" "ascii ''a''" "ascii ''c''" "ascii ''bc''"]
  by (simp add: ascii_def)

text \<open>C11. The hybrid scheme: what \<open>sign\<close> makes, \<open>verify\<close> accepts under the public half of the key
  (also after the public half travelled as bytes); and \<open>verify\<close> accepts nothing unless both the
  Ed25519 half and the ML-DSA half verify the same bound payload.\<close>

theorem hybrid_signature:
  assumes "sig_laws P"
  shows "verify P (verifying_key P s) c m (sign P s c m) = Inr () \<and>
    vi_from_bytes P (vi_to_bytes (verifying_key P s)) = Inr (verifying_key P s) \<and>
    (verify P v c m sig = Inr () \<longleftrightarrow>
       (\<exists>ed ml. sig = ed @ ml \<and> length ed = ED25519_SIGNATURE_LEN \<and> length ml = ML_DSA_SIGNATURE_LEN
          \<and> ed_verify_strict P (vi_ed25519 v) (bind c m) ed
          \<and> ml_sig_decodes P ml \<and> ml_verify P (vi_ml_dsa v) (bind c m) ml))"
proof -
  have "verify P v c m sig = Inr () \<longleftrightarrow>
      (\<exists>ed ml. sig = ed @ ml \<and> length ed = ED25519_SIGNATURE_LEN \<and> length ml = ML_DSA_SIGNATURE_LEN
          \<and> ed_verify_strict P (vi_ed25519 v) (bind c m) ed
          \<and> ml_sig_decodes P ml \<and> ml_verify P (vi_ml_dsa v) (bind c m) ml)" (is "_ \<longleftrightarrow> ?R")
  proof
    assume "verify P v c m sig = Inr ()"
    then show ?R
      by (intro exI [of _ "take ED25519_SIGNATURE_LEN sig"] exI [of _ "drop ED25519_SIGNATURE_LEN sig"])
        (auto simp: verify_iff SIGNATURE_LENGTH_def)
  qed (auto simp: verify_iff SIGNATURE_LENGTH_def)
  then show ?thesis using assms by (simp add: hs.check_make hs.of_bytes_public)
qed

theorem hybrid_signature_witness:
  "verify ref_sig (verifying_key ref_sig (si_from_seed ref_sig (replicate 32 7)))
     (ascii ''ctx'') (ascii ''hi'') (sign ref_sig (si_from_seed ref_sig (replicate 32 7)) (ascii ''ctx'') (ascii ''hi''))
   = Inr ()"
  using hybrid_signature [OF sig_laws_ref] by blast

text \<open>The signing API for applications never signs a protocol object: when it signs, the payload
  under the signature is not the payload of any message in a reserved context; and a reserved
  context is refused.\<close>

theorem sign_application_separated:
  assumes "length context < 2 ^ 64"
    and "length proto < 2 ^ 64" "is_reserved_context proto"
  shows "sign_application P s proto message' = Inl ReservedContext \<and>
    (sign_application P s context message = Inr sig \<longrightarrow>
       sig = ed_sign P (si_ed25519 s) (bind context message) @ ml_sign P (si_ml_dsa s) (bind context message)
       \<and> bind context message \<noteq> bind proto message')"
  using assms bind_eq_iff [OF assms(1,2), of message message']
  by (auto simp: sign_application_def sign_def Let_def split: if_splits)

theorem sign_application_separated_witness:
  "sign_application ref_sig \<lparr>si_seed = [], si_ed25519 = [], si_ml_dsa = []\<rparr> (ascii ''HIDE/1.0 x'') [1] = Inl ReservedContext
   \<and> bind (ascii ''app'') [1] \<noteq> bind (ascii ''HIDE/1.0 x'') [1]"
proof -
  let ?s = "\<lparr>si_seed = [], si_ed25519 = [], si_ml_dsa = []\<rparr>"
  have r: "is_reserved_context (ascii ''HIDE/1.0 x'')" "\<not> is_reserved_context (ascii ''app'')"
    by (simp_all add: is_reserved_context_def starts_with_def RESERVED_CONTEXT_PREFIX_def ascii_def)
  then obtain sig where "sign_application ref_sig ?s (ascii ''app'') [1] = Inr sig"
    by (simp add: sign_application_def)
  then show ?thesis
    using sign_application_separated [of "ascii ''app''" "ascii ''HIDE/1.0 x''" ref_sig ?s "[1]" "[1]" sig] r
    by simp
qed

end
