(* ===== verification/Hide_Challenge.thy ===== *)
theory Hide_Challenge
  imports Hide_Sign
begin

text \<open>
  \<open>crates/hide-sign/src/challenge.rs\<close>: challenges, their answers, and the verifier's record of spent
  nonces as a state machine. A challenge is public; its wire form is what both sides sign.
\<close>

section \<open>Definitions\<close>

definition CHALLENGE_CONTEXT :: bytes where
  "CHALLENGE_CONTEXT = ascii ''HIDE/0.5 challenge''"

definition NONCE_LENGTH :: nat where
  "NONCE_LENGTH = 32"

record Challenge =
  ch_nonce :: bytes
  ch_audience :: str
  ch_issued_at :: u64
  ch_valid_for :: u64

definition ch_new :: "bytes option \<Rightarrow> str \<Rightarrow> u64 \<Rightarrow> u64 \<Rightarrow> SignError + Challenge" where
  "ch_new rng aud now validity =
     bindR (ok_or rng SRandom) (\<lambda>n.
       Inr \<lparr>ch_nonce = n, ch_audience = aud, ch_issued_at = now, ch_valid_for = validity\<rparr>)"

definition expires_at :: "Challenge \<Rightarrow> u64" where
  "expires_at c = saturating_add (ch_issued_at c) (ch_valid_for c)"

definition to_signed_bytes :: "Challenge \<Rightarrow> bytes" where
  "to_signed_bytes c =
     ch_nonce c @ be64 (len64 (ch_audience c)) @ ch_audience c @ be64 (ch_issued_at c) @ be64 (ch_valid_for c)"

definition answer :: "sig_api \<Rightarrow> Challenge \<Rightarrow> SigningIdentity \<Rightarrow> bytes" where
  "answer P c identity = sign P identity CHALLENGE_CONTEXT (to_signed_bytes c)"

datatype ChallengeError = NotSigned | Expired | Replayed

record SpentNonces =
  spent_seen :: "(bytes \<times> u64) list"

definition spent_new :: SpentNonces where
  "spent_new = \<lparr>spent_seen = []\<rparr>"

definition forget_expired :: "SpentNonces \<Rightarrow> u64 \<Rightarrow> SpentNonces" where
  "forget_expired s now = s\<lparr>spent_seen := filter (\<lambda>(_, expires). now \<le> expires) (spent_seen s)\<rparr>"

definition accept ::
  "sig_api \<Rightarrow> SpentNonces \<Rightarrow> Challenge \<Rightarrow> bytes \<Rightarrow> VerifyingIdentity \<Rightarrow> u64
     \<Rightarrow> (ChallengeError + unit) \<times> SpentNonces" where
  "accept P s challenge signature prover now =
     (if expires_at challenge < now then (Inl Expired, s)
      else
        case verify P prover CHALLENGE_CONTEXT (to_signed_bytes challenge) signature of
          Inl _ \<Rightarrow> (Inl NotSigned, s)
        | Inr _ \<Rightarrow>
            let s = forget_expired s now
            in if list_ex (\<lambda>(n, _). n = ch_nonce challenge) (spent_seen s) then (Inl Replayed, s)
               else (Inr (), s\<lparr>spent_seen := spent_seen s @ [(ch_nonce challenge, expires_at challenge)]\<rparr>))"

definition spent_len :: "SpentNonces \<Rightarrow> nat" where
  "spent_len s = length (spent_seen s)"

definition ch_encode :: "Challenge \<Rightarrow> bytes" where
  "ch_encode c = to_signed_bytes c"

text \<open>\<open>usize\<close> has 64 bits, so \<open>usize::try_from\<close> of a \<open>u64\<close> never fails.\<close>

definition ch_decode :: "bytes \<Rightarrow> SignError + Challenge" where
  "ch_decode bs =
     bindR (ok_or (split_at_checked bs NONCE_LENGTH) MalformedChallenge) (\<lambda>(n, rest).
     bindR (ok_or (split_at_checked rest 8) MalformedChallenge) (\<lambda>(len, rest).
     let len = unat (u64_from_be len) in
     bindR (ok_or (split_at_checked rest len) MalformedChallenge) (\<lambda>(aud, rest).
     bindR (ok_or (split_at_checked rest 8) MalformedChallenge) (\<lambda>(issued, rest).
     bindR (ok_or (split_at_checked rest 8) MalformedChallenge) (\<lambda>(validity, rest).
     if rest \<noteq> [] then Inl MalformedChallenge
     else if \<not> utf8_valid aud then Inl MalformedChallenge
     else Inr \<lparr>ch_nonce = n, ch_audience = aud, ch_issued_at = u64_from_be issued,
               ch_valid_for = u64_from_be validity\<rparr>)))))"

section \<open>The wire form\<close>

definition ch_wf :: "Challenge \<Rightarrow> bool" where
  "ch_wf c \<longleftrightarrow> length (ch_nonce c) = NONCE_LENGTH \<and> utf8_valid (ch_audience c) \<and> length (ch_audience c) < 2 ^ 64"

lemma ch_decode_encode: "ch_wf c \<Longrightarrow> ch_decode (ch_encode c) = Inr c"
  by (simp add: ch_wf_def ch_decode_def ch_encode_def to_signed_bytes_def unat_len64 Let_def)

lemma ch_encode_decode:
  assumes "ch_decode bs = Inr c"
  shows "ch_wf c \<and> ch_encode c = bs"
proof -
  obtain n l a i v where bs: "bs = n @ l @ a @ i @ v"
      and len: "length n = NONCE_LENGTH" "length l = 8" "length i = 8" "length v = 8"
        "length a = unat (u64_from_be l)"
      and c: "c = \<lparr>ch_nonce = n, ch_audience = a, ch_issued_at = u64_from_be i, ch_valid_for = u64_from_be v\<rparr>"
      and u: "utf8_valid a"
    using assms
    by (auto simp: ch_decode_def result_simps Let_def split_at_checked_Some_iff split: prod.splits if_splits)
  have "length a < 2 ^ 64" using unsigned_less [of "u64_from_be l", where ?'a = nat] len by simp
  moreover have "len64 a = u64_from_be l" by (simp add: len64_def len)
  ultimately show ?thesis
    using len u by (simp add: ch_wf_def ch_encode_def to_signed_bytes_def bs c be64_u64_from_be)
qed

interpretation ch: canonical_codec "\<lambda>_ :: unit. True" "\<lambda>_. ch_wf" "\<lambda>_. ch_encode" "\<lambda>_. ch_decode"
  by unfold_locales (simp_all add: ch_decode_encode ch_encode_decode)

section \<open>The verifier over time\<close>

text \<open>The states a verifier reaches by answering one login after another: \<open>spent_run P t s acc\<close> says
  that at clock \<open>t\<close> the record is \<open>s\<close> and \<open>acc\<close> are the challenges accepted so far, each with the
  time it was accepted. The clock never goes back.\<close>

inductive spent_run :: "sig_api \<Rightarrow> u64 \<Rightarrow> SpentNonces \<Rightarrow> (Challenge \<times> u64) list \<Rightarrow> bool" for P where
  start: "spent_run P t spent_new []"
| accepted: "spent_run P t s acc \<Longrightarrow> t \<le> now \<Longrightarrow>
    accept P s c sig v now = (Inr (), s') \<Longrightarrow> spent_run P now s' (acc @ [(c, now)])"
| refused: "spent_run P t s acc \<Longrightarrow> t \<le> now \<Longrightarrow>
    accept P s c sig v now = (Inl e, s') \<Longrightarrow> spent_run P now s' acc"

definition spent_inv :: "u64 \<Rightarrow> SpentNonces \<Rightarrow> (Challenge \<times> u64) list \<Rightarrow> bool" where
  "spent_inv t s acc \<longleftrightarrow>
     (\<forall>(c, n)\<in>set acc. n \<le> t \<and> n \<le> expires_at c
        \<and> (t \<le> expires_at c \<longrightarrow> (ch_nonce c, expires_at c) \<in> set (spent_seen s)))
     \<and> distinct (map fst (spent_seen s))
     \<and> (\<forall>x\<in>set (spent_seen s). \<exists>(c, n)\<in>set acc. x = (ch_nonce c, expires_at c))
     \<and> sorted_wrt (\<lambda>(c, m) (d, n). ch_nonce c = ch_nonce d \<longrightarrow> expires_at c < n) acc"

lemma accept_expired: "expires_at c < now \<Longrightarrow> accept P s c sig v now = (Inl Expired, s)"
  by (simp add: accept_def)

lemma accept_okD:
  assumes "accept P s c sig v now = (Inr (), s')"
  shows "now \<le> expires_at c" "verify P v CHALLENGE_CONTEXT (to_signed_bytes c) sig = Inr ()"
    "\<forall>x\<in>set (spent_seen s). now \<le> snd x \<longrightarrow> fst x \<noteq> ch_nonce c"
    "spent_seen s' = filter (\<lambda>x. now \<le> snd x) (spent_seen s) @ [(ch_nonce c, expires_at c)]"
  using assms
  by (auto simp: accept_def forget_expired_def list_ex_iff not_less case_prod_unfold Let_def
      split: if_splits sum.splits)

lemma accept_errD:
  assumes "accept P s c sig v now = (Inl e, s')"
  shows "spent_seen s' = spent_seen s \<or> spent_seen s' = filter (\<lambda>x. now \<le> snd x) (spent_seen s)"
  using assms
  by (auto simp: accept_def forget_expired_def case_prod_unfold Let_def split: if_splits sum.splits)

lemma spent_inv_accepted:
  assumes "spent_inv t s acc" "t \<le> now" "accept P s c sig v now = (Inr (), s')"
  shows "spent_inv now s' (acc @ [(c, now)])"
proof -
  note ok = accept_okD [OF assms(3)]
  have old: "n \<le> t \<and> n \<le> expires_at d
        \<and> (t \<le> expires_at d \<longrightarrow> (ch_nonce d, expires_at d) \<in> set (spent_seen s))" if "(d, n) \<in> set acc" for d n
    using assms(1) that by (auto simp: spent_inv_def)
  have "\<forall>(d, n)\<in>set acc. ch_nonce d = ch_nonce c \<longrightarrow> expires_at d < now"
    using old ok(3) assms(2) by (fastforce simp: not_less)
  moreover have "distinct (map fst (spent_seen s'))"
    using assms(1) ok(3) by (auto simp: spent_inv_def ok(4) distinct_map_filter)
  moreover have "\<forall>(d, n)\<in>set acc. n \<le> now \<and> n \<le> expires_at d
      \<and> (now \<le> expires_at d \<longrightarrow> (ch_nonce d, expires_at d) \<in> set (spent_seen s'))"
    using old assms(2) by (auto simp: ok(4)) (meson order_trans)+
  ultimately show ?thesis
    using assms(1) ok(1) by (auto simp: spent_inv_def ok(4) sorted_wrt_append)
qed

lemma spent_inv_refused:
  assumes "spent_inv t s acc" "t \<le> now" "accept P s c sig v now = (Inl e, s')"
  shows "spent_inv now s' acc"
  using assms(1,2) accept_errD [OF assms(3)]
  by (fastforce simp: spent_inv_def distinct_map_filter)

lemma spent_run_inv: "spent_run P t s acc \<Longrightarrow> spent_inv t s acc"
proof (induction rule: spent_run.induct)
  case (start t)
  then show ?case by (simp add: spent_inv_def spent_new_def)
qed (auto intro: spent_inv_accepted spent_inv_refused)

lemma spent_inv_seenD:
  "spent_inv t s acc \<Longrightarrow> (n, e) \<in> set (spent_seen s) \<Longrightarrow>
     \<exists>d m. (d, m) \<in> set acc \<and> n = ch_nonce d \<and> e = expires_at d"
  unfolding spent_inv_def by fastforce

lemma accept_answer:
  assumes "sig_laws P" "now \<le> expires_at c"
    and "\<forall>x\<in>set (spent_seen s). now \<le> snd x \<longrightarrow> fst x \<noteq> ch_nonce c"
  shows "fst (accept P s c (answer P c i) (verifying_key P i) now) = Inr ()"
  using assms hs.check_make [OF assms(1)]
  by (auto simp: accept_def answer_def forget_expired_def list_ex_iff Let_def)

definition demo_challenge :: Challenge where
  "demo_challenge = \<lparr>ch_nonce = replicate 32 5, ch_audience = ascii ''host'', ch_issued_at = 100, ch_valid_for = 60\<rparr>"

lemma demo_accepted:
  "\<exists>s'. accept ref_sig spent_new demo_challenge
      (answer ref_sig demo_challenge (si_from_seed ref_sig (replicate 32 1)))
      (verifying_key ref_sig (si_from_seed ref_sig (replicate 32 1))) 120 = (Inr (), s')"
proof -
  have "(120 :: u64) \<le> expires_at demo_challenge"
    by (simp add: demo_challenge_def expires_at_def saturating_add_def)
  from accept_answer [OF sig_laws_ref this, of spent_new] show ?thesis
    by (metis (no_types) all_not_in_conv empty_set prod.collapse select_convs(1) spent_new_def)
qed

section \<open>Properties\<close>

text \<open>C14. Replay protection. Whatever answers reach a verifier whose clock does not run backwards, in
  whatever order, no challenge is accepted twice; a nonce that was accepted once is accepted again
  only after the challenge it came with has expired; and every acceptance happened before expiry.\<close>

theorem no_replay:
  assumes "spent_run P t s acc"
  shows "distinct (map fst acc) \<and>
    (\<forall>i j. i < j \<and> j < length acc \<and> ch_nonce (fst (acc ! i)) = ch_nonce (fst (acc ! j))
        \<longrightarrow> expires_at (fst (acc ! i)) < snd (acc ! j)) \<and>
    (\<forall>(c, now)\<in>set acc. now \<le> expires_at c)"
proof -
  have inv: "spent_inv t s acc" by (rule spent_run_inv [OF assms])
  then have sw: "\<forall>i j. i < j \<longrightarrow> j < length acc \<longrightarrow> ch_nonce (fst (acc ! i)) = ch_nonce (fst (acc ! j))
        \<longrightarrow> expires_at (fst (acc ! i)) < snd (acc ! j)"
    by (auto simp: spent_inv_def sorted_wrt_iff_nth_less case_prod_unfold)
  have live: "\<forall>x\<in>set acc. snd x \<le> expires_at (fst x)" using inv by (auto simp: spent_inv_def)
  have "fst (acc ! i) \<noteq> fst (acc ! j)" if "i < j" "j < length acc" for i j
    using sw live that by (metis leD nth_mem)
  then have "distinct (map fst acc)"
    by (auto simp: distinct_conv_nth) (metis linorder_neqE_nat)
  with sw live show ?thesis by auto
qed

theorem no_replay_witness:
  "\<exists>s acc. spent_run ref_sig 120 s acc \<and> acc \<noteq> [] \<and> distinct (map fst acc)"
proof -
  obtain s' where "accept ref_sig spent_new demo_challenge
      (answer ref_sig demo_challenge (si_from_seed ref_sig (replicate 32 1)))
      (verifying_key ref_sig (si_from_seed ref_sig (replicate 32 1))) 120 = (Inr (), s')"
    using demo_accepted by blast
  from spent_run.accepted [OF spent_run.start [of ref_sig 110] _ this]
  have "spent_run ref_sig 120 s' ([] @ [(demo_challenge, 120)])" by simp
  from this no_replay [OF this] show ?thesis by blast
qed

text \<open>The record of spent nonces holds only accepted challenges, each nonce once, and an answer
  that is accepted leaves no expired entry behind: the record is bounded by the number of live
  challenges.\<close>

theorem spent_record_bounded:
  assumes "spent_run P t s acc" "t \<le> now" "accept P s c sig v now = (Inr (), s')"
  shows "distinct (map fst (spent_seen s')) \<and>
    (\<forall>(n, e)\<in>set (spent_seen s'). now \<le> e) \<and>
    spent_len s' \<le> card {ch_nonce d |d. d \<in> set (map fst (acc @ [(c, now)])) \<and> now \<le> expires_at d}"
proof -
  have inv: "spent_inv now s' (acc @ [(c, now)])"
    using spent_inv_accepted [OF spent_run_inv [OF assms(1)] assms(2,3)] .
  note ok = accept_okD [OF assms(3)]
  have d: "distinct (map fst (spent_seen s'))" using inv by (simp add: spent_inv_def)
  have live: "\<forall>x\<in>set (spent_seen s'). now \<le> snd x" using ok by auto
  have "set (map fst (spent_seen s')) \<subseteq> {ch_nonce d |d. d \<in> set (map fst (acc @ [(c, now)])) \<and> now \<le> expires_at d}"
    (is "_ \<subseteq> ?N")
  proof
    fix n assume "n \<in> set (map fst (spent_seen s'))"
    then obtain e where x: "(n, e) \<in> set (spent_seen s')" by auto
    then obtain d m where "(d, m) \<in> set (acc @ [(c, now)])" "n = ch_nonce d" "e = expires_at d"
      using spent_inv_seenD [OF inv x] by blast
    moreover have "now \<le> e" using live x by auto
    ultimately show "n \<in> ?N" by (metis (mono_tags, lifting) fst_conv image_eqI list.set_map mem_Collect_eq)
  qed
  then have "card (set (map fst (spent_seen s'))) \<le> card ?N" by (intro card_mono) simp_all
  then have "spent_len s' \<le> card ?N" unfolding distinct_card [OF d] by (simp add: spent_len_def)
  then show ?thesis using d live by auto
qed

theorem spent_record_bounded_witness:
  "\<exists>s'. spent_run ref_sig 110 spent_new [] \<and> accept ref_sig spent_new demo_challenge
      (answer ref_sig demo_challenge (si_from_seed ref_sig (replicate 32 1)))
      (verifying_key ref_sig (si_from_seed ref_sig (replicate 32 1))) 120 = (Inr (), s')
    \<and> distinct (map fst (spent_seen s')) \<and> (\<forall>(n, e)\<in>set (spent_seen s'). 120 \<le> e)"
proof -
  obtain s' where a: "accept ref_sig spent_new demo_challenge
      (answer ref_sig demo_challenge (si_from_seed ref_sig (replicate 32 1)))
      (verifying_key ref_sig (si_from_seed ref_sig (replicate 32 1))) 120 = (Inr (), s')"
    using demo_accepted by blast
  with spent_record_bounded [OF spent_run.start [of ref_sig 110] _ a] spent_run.start [of ref_sig 110]
  show ?thesis by auto
qed

text \<open>A challenge handed to the prover as bytes is read back exactly, and the reader accepts no
  other bytes: two different challenges are never signed as the same bytes.\<close>

theorem challenge_wire:
  "ch_decode bs = Inr c \<longleftrightarrow> ch_wf c \<and> bs = ch_encode c"
  by (rule ch.dec_iff) simp

end
