(* ===== verification/Hide_Crypto.thy ===== *)
theory Hide_Crypto
  imports Hide_Prelude
begin

text \<open>
  \<open>crates/hide-crypto/src/lib.rs\<close>: suite 1. The primitives (HPKE base mode with X-Wing,
  ChaCha20-Poly1305, HKDF-SHA256, HMAC-SHA256, SHA-256) come from third-party crates: they are the
  fields of \<open>crypto_api\<close>, and \<open>crypto_laws\<close> states what they document. An HPKE context is an opaque
  byte string. A call of \<open>getrandom\<close> is an argument: the bytes it filled in, or \<open>None\<close> for a failure.
  Keys and arrays are byte lists.
\<close>

unbundle bit_operations_syntax

section \<open>The primitives\<close>

record crypto_api =
  hkdf :: "bytes \<Rightarrow> bytes \<Rightarrow> bytes \<Rightarrow> bytes"
  hmac :: "bytes \<Rightarrow> bytes \<Rightarrow> bytes"
  sha256 :: "bytes \<Rightarrow> bytes"
  aead_enc :: "bytes \<Rightarrow> bytes \<Rightarrow> bytes \<Rightarrow> bytes \<Rightarrow> (bytes \<times> bytes) option"
  aead_dec :: "bytes \<Rightarrow> bytes \<Rightarrow> bytes \<Rightarrow> bytes \<Rightarrow> bytes \<Rightarrow> bytes option"
  hpke_sk_ok :: "bytes \<Rightarrow> bool"
  hpke_pk :: "bytes \<Rightarrow> bytes"
  hpke_pk_ok :: "bytes \<Rightarrow> bool"
  hpke_encap_ok :: "bytes \<Rightarrow> bool"
  hpke_sender :: "bytes \<Rightarrow> bytes \<Rightarrow> bytes \<Rightarrow> (bytes \<times> bytes) option"
  hpke_receiver :: "bytes \<Rightarrow> bytes \<Rightarrow> bytes \<Rightarrow> bytes option"
  hpke_ctx_seal :: "bytes \<Rightarrow> bytes \<Rightarrow> bytes \<Rightarrow> (bytes \<times> bytes) option"
  hpke_ctx_open :: "bytes \<Rightarrow> bytes \<Rightarrow> bytes \<Rightarrow> bytes \<Rightarrow> bytes option"

text \<open>ChaCha20-Poly1305 is deterministic with a detached 16-byte tag, never refuses a plaintext below
  its length limit, and decrypts a ciphertext to a plaintext exactly when that plaintext encrypts to
  it. A context set up by an HPKE sender is understood by the receiver who holds the secret key.\<close>

definition crypto_laws :: "crypto_api \<Rightarrow> bool" where
  "crypto_laws A \<longleftrightarrow>
     (\<forall>s k i. length (hkdf A s k i) = 32) \<and>
     (\<forall>k m. length (hmac A k m) = 32) \<and>
     (\<forall>m. length (sha256 A m) = 32) \<and>
     (\<forall>k n a p. length p < 2 ^ 32 \<longrightarrow> aead_enc A k n a p \<noteq> None) \<and>
     (\<forall>k n a p c t. aead_enc A k n a p = Some (c, t) \<longrightarrow> length c = length p \<and> length t = 16) \<and>
     (\<forall>k n a p c t. aead_dec A k n a c t = Some p \<longleftrightarrow> aead_enc A k n a p = Some (c, t)) \<and>
     (\<forall>sk. length sk = 32 \<longrightarrow> hpke_sk_ok A sk) \<and>
     (\<forall>sk info seed e ctx. length sk = 32 \<longrightarrow> hpke_sender A (hpke_pk A sk) info seed = Some (e, ctx) \<longrightarrow>
        length e = 1120 \<and> hpke_encap_ok A e \<and>
        (\<exists>ctx'. hpke_receiver A sk e info = Some ctx' \<and>
           (\<forall>aad p c t. hpke_ctx_seal A ctx aad p = Some (c, t) \<longrightarrow>
              length c = length p \<and> length t = 16 \<and> hpke_ctx_open A ctx' aad c t = Some p)))"

section \<open>Definitions\<close>

definition KEY_LENGTH :: nat where
  "KEY_LENGTH = 32"

definition TAG_LENGTH :: nat where
  "TAG_LENGTH = 16"

definition X25519_OFFSET :: nat where
  "X25519_OFFSET = 1184"

definition SMALL_ORDER_POINTS :: "bytes list" where
  "SMALL_ORDER_POINTS =
    [replicate 32 0,
     1 # replicate 31 0,
     [224, 235, 122, 124, 59, 65, 184, 174, 22, 86, 227, 250, 241, 159, 196, 106, 218, 9, 141,
      235, 156, 50, 177, 253, 134, 98, 5, 22, 95, 73, 184, 0],
     [95, 156, 149, 188, 163, 80, 140, 36, 177, 208, 177, 85, 156, 131, 239, 91, 4, 68, 92, 196,
      88, 28, 142, 134, 216, 34, 78, 221, 208, 159, 17, 87],
     236 # replicate 30 255 @ [127],
     237 # replicate 30 255 @ [127],
     238 # replicate 30 255 @ [127]]"

definition ENCAPSULATION_LENGTH :: nat where
  "ENCAPSULATION_LENGTH = 1120"

definition WRAPPED_KEY_LENGTH :: nat where
  "WRAPPED_KEY_LENGTH = 48"

definition CRYPTO_SUITE :: bytes where
  "CRYPTO_SUITE = be16 1"

definition INFO_PREFIX :: bytes where
  "INFO_PREFIX = ascii ''HIDE/0.1 object-key''"

datatype CryptoError =
    Authentication
  | DegeneratePublicKey
  | InvalidParameter
  | CRandom
  | Hpke
  | CInvalidLength string nat nat

definition random_array :: "bytes option \<Rightarrow> CryptoError + bytes" where
  "random_array r = ok_or r CRandom"

definition require_len :: "string \<Rightarrow> nat \<Rightarrow> nat \<Rightarrow> CryptoError + unit" where
  "require_len name expected actual =
     (if actual \<noteq> expected then Inl (CInvalidLength name expected actual) else Inr ())"

definition secret_from_bytes :: "bytes \<Rightarrow> CryptoError + bytes" where
  "secret_from_bytes bs =
     bindR (require_len ''recipient seed'' KEY_LENGTH (length bs)) (\<lambda>_. Inr bs)"

definition public_key :: "crypto_api \<Rightarrow> bytes \<Rightarrow> CryptoError + bytes" where
  "public_key A secret = (if \<not> hpke_sk_ok A secret then Inl Hpke else Inr (hpke_pk A secret))"

definition is_canonical_x25519 :: "bytes \<Rightarrow> bool" where
  "is_canonical_x25519 bs =
     (if bs ! 31 AND 0x80 \<noteq> 0 then False
      else
        let at_least_p = bs ! 31 = 0x7F \<and> list_all (\<lambda>b. b = 0xFF) (subslice 1 31 bs) \<and> 0xED \<le> bs ! 0
        in \<not> at_least_p)"

definition public_from_bytes :: "crypto_api \<Rightarrow> bytes \<Rightarrow> CryptoError + bytes" where
  "public_from_bytes A bs =
     (if \<not> hpke_pk_ok A bs then Inl Hpke
      else if length bs < X25519_OFFSET \<or> length (drop X25519_OFFSET bs) \<noteq> 32
        then Inl DegeneratePublicKey
      else
        let x25519 = drop X25519_OFFSET bs
        in if x25519 \<in> set SMALL_ORDER_POINTS then Inl DegeneratePublicKey
           else if \<not> is_canonical_x25519 x25519 then Inl DegeneratePublicKey
           else Inr bs)"

record WrappedKey =
  wk_encapsulation :: bytes
  wk_wrapped_cek :: bytes

definition object_context :: "bytes \<Rightarrow> bytes \<times> bytes" where
  "object_context object_id =
     (let aad = object_id @ CRYPTO_SUITE in (INFO_PREFIX @ aad, aad))"

definition wrap_with_rng ::
  "crypto_api \<Rightarrow> bytes \<Rightarrow> bytes \<Rightarrow> bytes \<Rightarrow> bytes \<Rightarrow> CryptoError + WrappedKey" where
  "wrap_with_rng A recipient cek object_id seed =
     (let (info, aad) = object_context object_id in
      bindR (ok_or (hpke_sender A recipient info seed) Hpke) (\<lambda>(encapsulation, context).
      bindR (ok_or (hpke_ctx_seal A context aad cek) Hpke) (\<lambda>(ciphertext, tag).
        Inr \<lparr>wk_encapsulation = encapsulation, wk_wrapped_cek = ciphertext @ tag\<rparr>)))"

definition wrap_cek ::
  "crypto_api \<Rightarrow> bytes option \<Rightarrow> bytes \<Rightarrow> bytes \<Rightarrow> bytes \<Rightarrow> CryptoError + WrappedKey" where
  "wrap_cek A rng recipient cek object_id =
     bindR (random_array rng) (\<lambda>seed. wrap_with_rng A recipient cek object_id seed)"

definition unwrap_cek ::
  "crypto_api \<Rightarrow> bytes \<Rightarrow> bytes \<Rightarrow> bytes \<Rightarrow> bytes \<Rightarrow> CryptoError + bytes" where
  "unwrap_cek A secret object_id encapsulation wrapped_cek =
     bindR (require_len ''encapsulation'' ENCAPSULATION_LENGTH (length encapsulation)) (\<lambda>_.
     bindR (require_len ''wrapped CEK'' WRAPPED_KEY_LENGTH (length wrapped_cek)) (\<lambda>_.
     if \<not> hpke_sk_ok A secret then Inl Hpke
     else if \<not> hpke_encap_ok A encapsulation then Inl Hpke
     else
       let (info, aad) = object_context object_id in
       bindR (ok_or (hpke_receiver A secret encapsulation info) Hpke) (\<lambda>context.
       bindR (ok_or (hpke_ctx_open A context aad (take KEY_LENGTH wrapped_cek)
                       (drop KEY_LENGTH wrapped_cek)) Hpke) (\<lambda>plaintext.
         Inr plaintext))))"

definition derive_key :: "crypto_api \<Rightarrow> bytes \<Rightarrow> bytes \<Rightarrow> bytes \<Rightarrow> bytes" where
  "derive_key A cek salt info = hkdf A salt cek info"

text \<open>\<open>new_from_slice\<close> of the cipher accepts exactly 32-byte keys.\<close>

definition cipher_new :: "bytes \<Rightarrow> CryptoError + bytes" where
  "cipher_new k = (if length k \<noteq> 32 then Inl InvalidParameter else Inr k)"

definition seal_in_place ::
  "crypto_api \<Rightarrow> bytes \<Rightarrow> bytes \<Rightarrow> bytes \<Rightarrow> bytes \<Rightarrow> nat \<Rightarrow> CryptoError + nat \<times> bytes" where
  "seal_in_place A cipher nonce aad buffer len =
     bindR (ok_or (split_at_checked buffer len) InvalidParameter) (\<lambda>(plaintext, tail).
     bindR (ok_or (aead_enc A cipher nonce aad plaintext) Authentication) (\<lambda>(ciphertext, tag).
     if length tail < TAG_LENGTH then Inl InvalidParameter
     else Inr (len + TAG_LENGTH, ciphertext @ tag @ drop TAG_LENGTH tail)))"

definition open_in_place ::
  "crypto_api \<Rightarrow> bytes \<Rightarrow> bytes \<Rightarrow> bytes \<Rightarrow> bytes \<Rightarrow> CryptoError + nat \<times> bytes" where
  "open_in_place A cipher nonce aad buffer =
     (if length buffer < TAG_LENGTH then Inl InvalidParameter
      else
        let len = length buffer - TAG_LENGTH;
            ciphertext = take len buffer;
            tag = drop len buffer
        in bindR (ok_or (aead_dec A cipher nonce aad ciphertext tag) Authentication) (\<lambda>plaintext.
             Inr (len, plaintext @ tag)))"

definition seal :: "crypto_api \<Rightarrow> bytes \<Rightarrow> bytes \<Rightarrow> bytes \<Rightarrow> bytes \<Rightarrow> CryptoError + bytes" where
  "seal A k nonce aad plaintext =
     bindR (cipher_new k) (\<lambda>cipher.
     bindR (ok_or (aead_enc A cipher nonce aad plaintext) Authentication) (\<lambda>(ciphertext, tag).
       Inr (ciphertext @ tag)))"

text \<open>\<open>decrypt_in_place\<close> refuses a buffer shorter than the tag.\<close>

definition open_sealed :: "crypto_api \<Rightarrow> bytes \<Rightarrow> bytes \<Rightarrow> bytes \<Rightarrow> bytes \<Rightarrow> CryptoError + bytes" where
  "open_sealed A k nonce aad ciphertext =
     bindR (cipher_new k) (\<lambda>cipher.
     if length ciphertext < TAG_LENGTH then Inl Authentication
     else
       let len = length ciphertext - TAG_LENGTH
       in ok_or (aead_dec A cipher nonce aad (take len ciphertext) (drop len ciphertext)) Authentication)"

definition mac :: "crypto_api \<Rightarrow> bytes \<Rightarrow> bytes list \<Rightarrow> bytes" where
  "mac A k parts = hmac A k (concat parts)"

definition verify_mac :: "crypto_api \<Rightarrow> bytes \<Rightarrow> bytes list \<Rightarrow> bytes \<Rightarrow> CryptoError + unit" where
  "verify_mac A k parts tag = (if mac A k parts = tag then Inr () else Inl Authentication)"

definition hash :: "crypto_api \<Rightarrow> bytes list \<Rightarrow> bytes" where
  "hash A parts = sha256 A (concat parts)"

text \<open>The incremental form: the state is what was absorbed so far.\<close>

definition hasher_new :: bytes where
  "hasher_new = []"

definition hasher_update :: "bytes \<Rightarrow> bytes \<Rightarrow> bytes" where
  "hasher_update st bs = st @ bs"

definition hasher_finish :: "crypto_api \<Rightarrow> bytes \<Rightarrow> bytes" where
  "hasher_finish A st = sha256 A st"

section \<open>Lemmas\<close>

lemma require_len_Inr [result_simps]: "require_len n e a = Inr u \<longleftrightarrow> a = e"
  by (simp add: require_len_def)

lemma crypto_lengths:
  assumes "crypto_laws A"
  shows "length (hkdf A s k i) = 32" "length (hmac A k m) = 32" "length (sha256 A m) = 32"
    "length (derive_key A k s i) = 32"
  using assms by (simp_all add: crypto_laws_def derive_key_def)

lemma aead_total: "crypto_laws A \<Longrightarrow> length p < 2 ^ 32 \<Longrightarrow> \<exists>c t. aead_enc A k n a p = Some (c, t)"
  by (auto simp: crypto_laws_def)

lemma aead_len:
  "crypto_laws A \<Longrightarrow> aead_enc A k n a p = Some (c, t) \<Longrightarrow> length c = length p \<and> length t = 16"
  by (auto simp: crypto_laws_def)

lemma aead_iff: "crypto_laws A \<Longrightarrow> aead_dec A k n a c t = Some p \<longleftrightarrow> aead_enc A k n a p = Some (c, t)"
  by (auto simp: crypto_laws_def)

text \<open>Sealing and opening with the tag appended.\<close>

definition sealed :: "crypto_api \<Rightarrow> bytes \<Rightarrow> bytes \<Rightarrow> bytes \<Rightarrow> bytes \<Rightarrow> bytes" where
  "sealed A k n a p = (case aead_enc A k n a p of None \<Rightarrow> [] | Some (c, t) \<Rightarrow> c @ t)"

lemma length_sealed: "crypto_laws A \<Longrightarrow> length p < 2 ^ 32 \<Longrightarrow> length (sealed A k n a p) = length p + 16"
  using aead_total [of A p k n a] aead_len [of A k n a p] by (auto simp: sealed_def)

lemma dec_sealed_iff:
  assumes "crypto_laws A" "16 \<le> length c" "length c < 2 ^ 32"
  shows "aead_dec A k n a (take (length c - 16) c) (drop (length c - 16) c) = Some p
     \<longleftrightarrow> length p = length c - 16 \<and> c = sealed A k n a p"
proof
  assume "aead_dec A k n a (take (length c - 16) c) (drop (length c - 16) c) = Some p"
  then have "aead_enc A k n a p = Some (take (length c - 16) c, drop (length c - 16) c)"
    by (simp add: aead_iff [OF assms(1)])
  then show "length p = length c - 16 \<and> c = sealed A k n a p"
    using aead_len [OF assms(1)] assms(2) by (fastforce simp: sealed_def)
next
  assume p: "length p = length c - 16 \<and> c = sealed A k n a p"
  then have "length p < 2 ^ 32" using assms(3) by linarith
  then obtain d t where e: "aead_enc A k n a p = Some (d, t)" using aead_total [OF assms(1), of p k n a] by auto
  then have "c = d @ t" "length d = length c - 16"
    using p aead_len [OF assms(1) e] by (auto simp: sealed_def)
  then show "aead_dec A k n a (take (length c - 16) c) (drop (length c - 16) c) = Some p"
    using e by (simp add: aead_iff [OF assms(1)])
qed

lemma seal_iff:
  assumes "crypto_laws A" "length k = 32" "length p < 2 ^ 32"
  shows "seal A k n a p = Inr (sealed A k n a p)"
  using aead_total [OF assms(1,3), of k n a] assms(2) by (auto simp: seal_def cipher_new_def sealed_def)

lemma open_sealed_iff:
  assumes "crypto_laws A" "length k = 32" "length c < 2 ^ 32"
  shows "open_sealed A k n a c = Inr p \<longleftrightarrow> 16 \<le> length c \<and> length p = length c - 16 \<and> c = sealed A k n a p"
  using assms dec_sealed_iff [OF assms(1) _ assms(3), of k n a p]
  by (auto simp: open_sealed_def cipher_new_def TAG_LENGTH_def Let_def result_simps)

lemma open_seal:
  assumes "crypto_laws A" "length k = 32" "length p < 2 ^ 31"
  shows "open_sealed A k n a (sealed A k n a p) = Inr p"
  using assms length_sealed [of A p k n a] by (simp add: open_sealed_iff)

lemma seal_in_place_eq:
  assumes "crypto_laws A" "len < 2 ^ 32" "len + 16 \<le> length buffer"
  shows "seal_in_place A k n a buffer len
    = Inr (len + 16, sealed A k n a (take len buffer) @ drop (len + 16) buffer)"
proof -
  have "length (take len buffer) < 2 ^ 32" using assms(2,3) by simp
  then obtain c t where "aead_enc A k n a (take len buffer) = Some (c, t)"
    using aead_total [OF assms(1), of "take len buffer" k n a] by blast
  then show ?thesis
    using assms(3) by (simp add: seal_in_place_def split_at_checked_def sealed_def TAG_LENGTH_def add.commute)
qed

lemma open_in_place_iff:
  assumes "crypto_laws A" "length c < 2 ^ 32"
  shows "open_in_place A k n a c = Inr (len, b) \<longleftrightarrow>
    16 \<le> length c \<and> len = length c - 16 \<and>
    (\<exists>p. length p = len \<and> c = sealed A k n a p \<and> b = p @ drop len c)"
proof (cases "16 \<le> length c")
  case True
  show ?thesis
    unfolding open_in_place_def TAG_LENGTH_def Let_def result_simps
    using True dec_sealed_iff [OF assms(1) True assms(2), of k n a] by auto
qed (simp add: open_in_place_def TAG_LENGTH_def)

lemma unwrap_wrap:
  assumes "crypto_laws A" "length secret = 32" "length cek = 32"
    and "wrap_with_rng A (hpke_pk A secret) cek oid seed = Inr w"
  shows "unwrap_cek A secret oid (wk_encapsulation w) (wk_wrapped_cek w) = Inr cek"
    "length (wk_encapsulation w) = 1120" "length (wk_wrapped_cek w) = 48"
proof -
  let ?info = "INFO_PREFIX @ oid @ CRYPTO_SUITE" and ?aad = "oid @ CRYPTO_SUITE"
  obtain e ctx c t where s: "hpke_sender A (hpke_pk A secret) ?info seed = Some (e, ctx)"
    and c: "hpke_ctx_seal A ctx ?aad cek = Some (c, t)" and w: "w = \<lparr>wk_encapsulation = e, wk_wrapped_cek = c @ t\<rparr>"
    using assms(4) by (auto simp: wrap_with_rng_def object_context_def Let_def result_simps)
  have law: "length sk = 32 \<Longrightarrow> hpke_sender A (hpke_pk A sk) info seed = Some (e, ctx) \<Longrightarrow>
      length e = 1120 \<and> hpke_encap_ok A e \<and> (\<exists>ctx'. hpke_receiver A sk e info = Some ctx' \<and>
           (\<forall>aad p c t. hpke_ctx_seal A ctx aad p = Some (c, t) \<longrightarrow>
              length c = length p \<and> length t = 16 \<and> hpke_ctx_open A ctx' aad c t = Some p))" for sk info
    using assms(1) unfolding crypto_laws_def by meson
  obtain ctx' where r: "hpke_receiver A secret e ?info = Some ctx'" "length e = 1120" "hpke_encap_ok A e"
      "length c = 32" "length t = 16" "hpke_ctx_open A ctx' ?aad c t = Some cek"
    using law [OF assms(2) s] c assms(3) by metis
  moreover have "hpke_sk_ok A secret" using assms(1,2) by (simp add: crypto_laws_def)
  ultimately show "unwrap_cek A secret oid (wk_encapsulation w) (wk_wrapped_cek w) = Inr cek"
    "length (wk_encapsulation w) = 1120" "length (wk_wrapped_cek w) = 48"
    by (simp_all add: w unwrap_cek_def require_len_def ENCAPSULATION_LENGTH_def WRAPPED_KEY_LENGTH_def
        KEY_LENGTH_def object_context_def Let_def)
qed

section \<open>A concrete instance\<close>

definition ref_crypto :: crypto_api where
  "ref_crypto = \<lparr>
     hkdf = (\<lambda>s k i. ref_hash (i @ k @ s)), hmac = (\<lambda>k m. ref_hash (k @ m)), sha256 = ref_hash,
     aead_enc = (\<lambda>k n a p. Some (p, take 16 (k @ replicate 16 0))),
     aead_dec = (\<lambda>k n a c t. if t = take 16 (k @ replicate 16 0) then Some c else None),
     hpke_sk_ok = (\<lambda>_. True), hpke_pk = (\<lambda>sk. sk), hpke_pk_ok = (\<lambda>_. True), hpke_encap_ok = (\<lambda>_. True),
     hpke_sender = (\<lambda>pk i s. Some (replicate 1120 0, pk)), hpke_receiver = (\<lambda>sk e i. Some sk),
     hpke_ctx_seal = (\<lambda>x a p. Some (p, take 16 (x @ replicate 16 0))),
     hpke_ctx_open = (\<lambda>x a c t. if t = take 16 (x @ replicate 16 0) then Some c else None)\<rparr>"

lemma crypto_laws_ref: "crypto_laws ref_crypto"
  by (auto simp: crypto_laws_def ref_crypto_def)

section \<open>Properties\<close>

text \<open>The value of a little-endian integer.\<close>

definition from_le :: "bytes \<Rightarrow> nat" where
  "from_le bs = from_be (rev bs)"

lemma from_le_Cons [simp]: "from_le (b # bs) = unat b + 256 * from_le bs"
  by (simp add: from_le_def)

lemma from_le_Nil [simp]: "from_le [] = 0"
  by (simp add: from_le_def)

lemma from_le_bound: "from_le bs < 256 ^ length bs"
  using from_be_bound [of "rev bs"] by (simp add: from_le_def)

lemma from_le_append: "from_le (xs @ ys) = from_le xs + 256 ^ length xs * from_le ys"
  by (induction xs) (auto simp: algebra_simps)

lemma digit_carry: "b < 256 \<Longrightarrow> f < N \<Longrightarrow> b + 256 * f = 256 * N - 1 \<longleftrightarrow> b = 255 \<and> f = N - 1" for b f N :: nat
proof
  assume a: "b < 256" "f < N" "b + 256 * f = 256 * N - 1"
  have "\<not> f < N - 1"
  proof
    assume "f < N - 1"
    then have "256 * f + 512 \<le> 256 * N" by linarith
    with a show False by linarith
  qed
  then show "b = 255 \<and> f = N - 1" using a by linarith
qed linarith

lemma from_le_all_ff: "from_le bs = 256 ^ length bs - 1 \<longleftrightarrow> list_all (\<lambda>b. b = 0xFF) bs"
proof (induction bs)
  case (Cons b bs)
  have b: "unat b < 256" "unat b = 255 \<longleftrightarrow> b = 0xFF" by (rule unat_byte_less) (simp add: word_unat_eq_iff)
  have f: "from_le bs < 256 ^ length bs" by (rule from_le_bound)
  then have "from_le (b # bs) = 256 ^ length (b # bs) - 1 \<longleftrightarrow> unat b = 255 \<and> from_le bs = 256 ^ length bs - 1"
    using digit_carry [OF b(1) f] by simp
  with Cons b(2) show ?case by simp
qed simp

lemma high_bit: "(b :: byte) AND 0x80 = 0 \<longleftrightarrow> unat b < 128"
proof -
  have "b AND 0x80 = 0 \<longleftrightarrow> \<not> bit b 7" using and_exp_eq_0_iff_not_bit [of b 7] by simp
  also have "\<dots> \<longleftrightarrow> \<not> bit (unat b) 7" by (simp add: bit_unsigned_iff)
  also have "\<dots> \<longleftrightarrow> even (unat b div 128)" by (simp add: bit_iff_odd)
  also have "\<dots> \<longleftrightarrow> unat b < 128" 
  proof (cases "unat b < 128")
    case False
    then have "unat b div 128 = 1" using unat_byte_less [of b] by (intro div_nat_eqI) auto
    with False show ?thesis by simp
  qed simp
  finally show ?thesis .
qed

lemma from_le_replicate: "from_le (replicate n 0) = 0" "from_le (replicate n 0xFF) = 256 ^ n - 1"
proof -
  show "from_le (replicate n 0) = 0" by (induction n) auto
  show "from_le (replicate n 0xFF) = 256 ^ n - 1"
    using from_le_all_ff [of "replicate n 0xFF"] by (simp add: list_all_iff)
qed

lemma canonical_x25519_iff:
  assumes "length bs = 32"
  shows "is_canonical_x25519 bs \<longleftrightarrow> from_le bs < 2 ^ 255 - 19"
proof -
  have "bs = subslice 0 1 bs @ subslice 1 31 bs @ drop 31 bs"
    by (simp only: subslice_drop) (simp add: subslice_drop)
  moreover have "subslice 0 1 bs = [bs ! 0]" using assms by (cases bs) (simp_all add: subslice_def)
  moreover have "drop 31 bs = [bs ! 31]" using assms by (simp add: Cons_nth_drop_Suc [symmetric])
  ultimately have bs: "bs = bs ! 0 # subslice 1 31 bs @ [bs ! 31]" by simp
  let ?m = "from_le (subslice 1 31 bs)" and ?a = "unat (bs ! 0)" and ?z = "unat (bs ! 31)"
  have v: "from_le bs = ?a + 256 * ?m + 256 ^ 31 * ?z"
    by (subst bs) (simp add: from_le_append assms)
  have bound: "?m < 256 ^ 30" "?a < 256" "?z < 256"
    using from_le_bound [of "subslice 1 31 bs"] assms unat_byte_less by simp_all
  have ff: "list_all (\<lambda>b. b = 0xFF) (subslice 1 31 bs) \<longleftrightarrow> ?m = 256 ^ 30 - 1"
    using from_le_all_ff [of "subslice 1 31 bs"] assms by simp
  have eq: "is_canonical_x25519 bs \<longleftrightarrow> ?z < 128 \<and> \<not> (?z = 127 \<and> ?m = 256 ^ 30 - 1 \<and> 237 \<le> ?a)"
  proof -
    have "bs ! 31 = 0x7F \<longleftrightarrow> ?z = 127" "0xED \<le> bs ! 0 \<longleftrightarrow> 237 \<le> ?a"
      by (simp_all add: word_unat_eq_iff word_le_nat_alt)
    then show ?thesis unfolding is_canonical_x25519_def Let_def ff high_bit by auto
  qed
  show ?thesis unfolding eq v using bound by (simp add: not_le) linarith
qed

lemma from_le_inj: "length a = length b \<Longrightarrow> from_le a = from_le b \<Longrightarrow> a = b"
  by (metis be_bytes_from_be from_le_def length_rev rev_rev_ident)

text \<open>A recipient key is accepted only in its canonical form and only if its X25519 half is not a
  point of small order under any encoding: reduced modulo the field prime it differs from every
  small-order coordinate, so the classical half of the hybrid always contributes.\<close>

theorem recipient_key_not_degenerate:
  assumes "public_from_bytes A bs = Inr k"
  shows "k = bs \<and> length bs = 1216 \<and> hpke_pk_ok A bs \<and> from_le (drop 1184 bs) < 2 ^ 255 - 19 \<and>
    (\<forall>s\<in>set SMALL_ORDER_POINTS. from_le (drop 1184 bs) mod (2 ^ 255 - 19) \<noteq> from_le s mod (2 ^ 255 - 19))"
proof -
  let ?x = "drop 1184 bs"
  have x: "k = bs" "hpke_pk_ok A bs" "\<not> length bs < 1184" "length ?x = 32"
      "?x \<notin> set SMALL_ORDER_POINTS" "is_canonical_x25519 ?x"
    using assms by (auto simp: public_from_bytes_def X25519_OFFSET_def Let_def split: if_splits)
  then have lt: "from_le ?x < 2 ^ 255 - 19" by (simp add: canonical_x25519_iff)
  have ne: "from_le ?x \<noteq> from_le s" if "s \<in> set SMALL_ORDER_POINTS" for s
  proof -
    have "length s = 32" using that by (auto simp: SMALL_ORDER_POINTS_def)
    then show ?thesis using that x(4,5) from_le_inj [of ?x s] by auto
  qed
  have "\<forall>s\<in>set SMALL_ORDER_POINTS. \<exists>t\<in>set SMALL_ORDER_POINTS. from_le s mod (2 ^ 255 - 19) = from_le t"
    by (simp add: SMALL_ORDER_POINTS_def from_le_append from_le_replicate)
  then have "\<forall>s\<in>set SMALL_ORDER_POINTS. from_le ?x mod (2 ^ 255 - 19) \<noteq> from_le s mod (2 ^ 255 - 19)"
    using ne mod_less [OF lt] by metis
  then show ?thesis using x lt by auto
qed

theorem recipient_key_not_degenerate_witness:
  "let bs = replicate 1184 0 @ 9 # replicate 31 0
   in public_from_bytes ref_crypto bs = Inr bs \<and> from_le (drop 1184 bs) mod (2 ^ 255 - 19) \<noteq> 1"
proof -
  let ?bs = "replicate 1184 0 @ 9 # replicate 31 0 :: bytes"
  have d: "drop 1184 ?bs = 9 # replicate 31 0" by simp
  have v: "from_le (9 # replicate 31 0) = 9" by (simp add: from_le_replicate)
  have "is_canonical_x25519 (9 # replicate 31 0)" using v by (simp add: canonical_x25519_iff)
  moreover have "\<forall>s\<in>set SMALL_ORDER_POINTS. from_le s \<noteq> 9"
    by (simp add: SMALL_ORDER_POINTS_def from_le_append from_le_replicate)
  then have "9 # replicate 31 0 \<notin> set SMALL_ORDER_POINTS" using v by metis
  ultimately have p: "public_from_bytes ref_crypto ?bs = Inr ?bs"
    by (simp add: public_from_bytes_def X25519_OFFSET_def d ref_crypto_def)
  have "1 # replicate 31 0 \<in> set SMALL_ORDER_POINTS" by (simp add: SMALL_ORDER_POINTS_def)
  moreover have "from_le (1 # replicate 31 0) mod (2 ^ 255 - 19) = 1" by (simp add: from_le_replicate)
  ultimately show ?thesis using p recipient_key_not_degenerate [OF p] unfolding Let_def by metis
qed

text \<open>A content key wrapped for a recipient is unwrapped with the recipient's secret for the same
  object, and the stanza has the lengths the format fixes.\<close>

theorem wrap_round_trip:
  assumes "crypto_laws A" "length secret = 32" "length cek = 32"
    and "public_key A secret = Inr recipient" "wrap_cek A rng recipient cek oid = Inr w"
  shows "unwrap_cek A secret oid (wk_encapsulation w) (wk_wrapped_cek w) = Inr cek \<and>
    length (wk_encapsulation w) = ENCAPSULATION_LENGTH \<and> length (wk_wrapped_cek w) = WRAPPED_KEY_LENGTH"
proof -
  obtain seed where "wrap_with_rng A (hpke_pk A secret) cek oid seed = Inr w"
    using assms(4,5) by (auto simp: wrap_cek_def public_key_def result_simps split: if_splits)
  from unwrap_wrap [OF assms(1-3) this] show ?thesis
    by (simp add: ENCAPSULATION_LENGTH_def WRAPPED_KEY_LENGTH_def)
qed

theorem wrap_round_trip_witness:
  "\<exists>w. wrap_cek ref_crypto (Some (replicate 32 1)) (replicate 32 2) (replicate 32 3) (replicate 32 4) = Inr w
     \<and> unwrap_cek ref_crypto (replicate 32 2) (replicate 32 4) (wk_encapsulation w) (wk_wrapped_cek w)
         = Inr (replicate 32 3)"
proof -
  have pk: "public_key ref_crypto (replicate 32 2) = Inr (replicate 32 2)"
    by (simp add: public_key_def ref_crypto_def)
  obtain w where w: "wrap_cek ref_crypto (Some (replicate 32 1)) (replicate 32 2) (replicate 32 3) (replicate 32 4) = Inr w"
    by (simp add: wrap_cek_def random_array_def wrap_with_rng_def ref_crypto_def object_context_def Let_def)
  from wrap_round_trip [OF crypto_laws_ref _ _ pk w] w show ?thesis by auto
qed

end
