(* ===== verification/Hide_Preamble.thy ===== *)
theory Hide_Preamble
  imports Hide_Prelude
begin

text \<open>
  \<open>crates/hide-format/src/lib.rs\<close>: the protocol limits, the format errors and the 16-byte preamble
  that opens every container.
\<close>

unbundle bit_operations_syntax

definition MAGIC :: bytes where
  "MAGIC = ascii ''HIDE'' @ [0x0D, 0x0A, 0x1A, 0x0A]"

definition PREAMBLE_LEN :: nat where
  "PREAMBLE_LEN = 16"

definition MAX_HEADER_LEN :: nat where
  "MAX_HEADER_LEN = 1024 * 1024"

definition CHUNK_LEN :: nat where
  "CHUNK_LEN = 65536"

definition SUITE :: u16 where
  "SUITE = 1"

definition MAX_RECIPIENTS :: nat where
  "MAX_RECIPIENTS = 64"

definition MAX_SIGNATURES :: nat where
  "MAX_SIGNATURES = 1"

definition MAX_METADATA_LEN :: nat where
  "MAX_METADATA_LEN = 262144"

definition TAG_LEN :: nat where
  "TAG_LEN = 16"

definition FLAG_SIGNED :: byte where
  "FLAG_SIGNED = 0x01"

definition LEGACY_SIGNED_MINOR :: byte where
  "LEGACY_SIGNED_MINOR = 2"

definition CURRENT_MINOR :: byte where
  "CURRENT_MINOR = 1"

definition MAX_EXTENSIONS :: nat where
  "MAX_EXTENSIONS = 16"

definition MAX_EXTENSION_LEN :: nat where
  "MAX_EXTENSION_LEN = 65536"

definition FIRST_IGNORABLE_KEY :: u64 where
  "FIRST_IGNORABLE_KEY = 64"

definition MAX_STANZA_ITEMS :: nat where
  "MAX_STANZA_ITEMS = 8"

datatype FormatError =
    MalformedHeader
  | NonCanonical
  | UnsupportedSuite
  | InvalidMetadata
  | InvalidContainer
  | UnsupportedVersion
  | UnsupportedFeature
  | HeaderTooLarge

record Preamble =
  pre_header_len :: u32
  pre_minor :: byte
  pre_flags :: byte

definition pre_from_parts :: "nat \<Rightarrow> byte \<Rightarrow> byte \<Rightarrow> FormatError + Preamble" where
  "pre_from_parts header_len minor flags =
     (if minor = 0 then Inl UnsupportedVersion
      else if flags AND NOT FLAG_SIGNED \<noteq> 0 \<or> (minor = LEGACY_SIGNED_MINOR \<and> flags \<noteq> 0)
        then Inl UnsupportedFeature
      else if header_len = 0 \<or> MAX_HEADER_LEN < header_len then Inl HeaderTooLarge
      else Inr \<lparr>pre_header_len = of_nat header_len, pre_minor = minor, pre_flags = flags\<rparr>)"

definition pre_with_signed :: "nat \<Rightarrow> bool \<Rightarrow> FormatError + Preamble" where
  "pre_with_signed header_len is_signed =
     (let flags = if is_signed then FLAG_SIGNED else 0
      in pre_from_parts header_len CURRENT_MINOR flags)"

definition pre_new :: "nat \<Rightarrow> FormatError + Preamble" where
  "pre_new header_len = pre_with_signed header_len False"

definition pre_legacy_signed :: "nat \<Rightarrow> FormatError + Preamble" where
  "pre_legacy_signed header_len = pre_from_parts header_len LEGACY_SIGNED_MINOR 0"

definition pre_is_legacy :: "Preamble \<Rightarrow> bool" where
  "pre_is_legacy p \<longleftrightarrow> pre_minor p = LEGACY_SIGNED_MINOR"

definition pre_is_signed :: "Preamble \<Rightarrow> bool" where
  "pre_is_signed p \<longleftrightarrow> pre_is_legacy p \<or> pre_flags p AND FLAG_SIGNED \<noteq> 0"

definition header_len_usize :: "Preamble \<Rightarrow> nat" where
  "header_len_usize p = unat (pre_header_len p)"

definition pre_encode :: "Preamble \<Rightarrow> bytes" where
  "pre_encode p = MAGIC @ [0, pre_minor p, 1, pre_flags p] @ be32 (pre_header_len p)"

definition pre_signed_prefix :: "Preamble \<Rightarrow> bytes" where
  "pre_signed_prefix p = take 12 (pre_encode p)"

definition pre_decode :: "bytes \<Rightarrow> FormatError + Preamble" where
  "pre_decode bs =
     (if length bs \<noteq> PREAMBLE_LEN \<or> take 8 bs \<noteq> MAGIC then Inl InvalidContainer
      else if bs ! 8 \<noteq> 0 then Inl UnsupportedVersion
      else if bs ! 10 \<noteq> 1 then Inl UnsupportedFeature
      else
        let len = unat (u32_from_be [bs ! 12, bs ! 13, bs ! 14, bs ! 15])
        in pre_from_parts len (bs ! 9) (bs ! 11))"

section \<open>Lemmas\<close>

definition pre_wf :: "Preamble \<Rightarrow> bool" where
  "pre_wf p \<longleftrightarrow> pre_minor p \<noteq> 0 \<and> pre_flags p AND NOT FLAG_SIGNED = 0
     \<and> (pre_minor p = LEGACY_SIGNED_MINOR \<longrightarrow> pre_flags p = 0)
     \<and> 0 < header_len_usize p \<and> header_len_usize p \<le> MAX_HEADER_LEN"

lemma length_MAGIC [simp, wire_len]: "length MAGIC = 8"
  by (simp add: MAGIC_def)

lemma length_pre_encode [simp, wire_len]: "length (pre_encode p) = 16"
  by (simp add: pre_encode_def)

lemma pre_signed_prefix_eq: "pre_signed_prefix p = MAGIC @ [0, pre_minor p, 1, pre_flags p]"
  by (simp add: pre_signed_prefix_def pre_encode_def)

lemma length_pre_signed_prefix [simp, wire_len]: "length (pre_signed_prefix p) = 12"
  by (simp add: pre_signed_prefix_eq)

lemma pre_from_parts_iff:
  "pre_from_parts n m f = Inr p \<longleftrightarrow> pre_wf p \<and> pre_minor p = m \<and> pre_flags p = f
     \<and> n = header_len_usize p"
proof -
  have "unat (of_nat n :: u32) = n" if "n \<le> MAX_HEADER_LEN"
    using that by (simp add: MAX_HEADER_LEN_def unat_of_nat)
  then show ?thesis
    by (cases p) (auto simp: pre_from_parts_def pre_wf_def header_len_usize_def)
qed

lemma four_bytes: "length xs = 4 \<Longrightarrow> [xs ! 0, xs ! 1, xs ! 2, xs ! 3] = xs"
  by (auto simp: numeral_eq_Suc length_Suc_conv)

lemma pre_decode_encode: "pre_wf p \<Longrightarrow> pre_decode (pre_encode p) = Inr p"
  using four_bytes [of "be32 (pre_header_len p)"]
  by (simp add: pre_decode_def PREAMBLE_LEN_def Let_def pre_from_parts_iff header_len_usize_def)
    (simp add: pre_encode_def nth_append)

lemma pre_encode_decode:
  assumes "pre_decode bs = Inr p"
  shows "pre_wf p \<and> pre_encode p = bs"
proof -
  have len: "length bs = 16" and m: "take 8 bs = MAGIC" and b: "bs ! 8 = 0" "bs ! 10 = 1"
    and p: "pre_wf p" "pre_minor p = bs ! 9" "pre_flags p = bs ! 11"
      "unat (u32_from_be [bs ! 12, bs ! 13, bs ! 14, bs ! 15]) = unat (pre_header_len p)"
    using assms
    by (auto simp: pre_decode_def PREAMBLE_LEN_def Let_def pre_from_parts_iff header_len_usize_def
        split: if_splits)
  have t: "drop 12 bs = [bs ! 12, bs ! 13, bs ! 14, bs ! 15]"
    using four_bytes [of "drop 12 bs"] len by simp
  have "u32_from_be (drop 12 bs) = pre_header_len p" using p(4) unfolding t by (simp only: word_unat_eq_iff)
  then have "be32 (pre_header_len p) = drop 12 bs" using be32_u32_from_be [of "drop 12 bs"] len by simp
  moreover have "bs = take 8 bs @ subslice 8 12 bs @ drop 12 bs"
    by (simp add: subslice_drop)
  moreover have "subslice 8 12 bs = [bs ! 8, bs ! 9, bs ! 10, bs ! 11]"
    using four_bytes [of "subslice 8 12 bs"] len by (simp add: subslice_def)
  ultimately show ?thesis using p m b by (simp add: pre_encode_def)
qed

interpretation pre: canonical_codec "\<lambda>_ :: unit. True" "\<lambda>_. pre_wf" "\<lambda>_. pre_encode" "\<lambda>_. pre_decode"
  by unfold_locales (simp_all add: pre_decode_encode pre_encode_decode)

lemma pre_with_signed_iff:
  "pre_with_signed n s = Inr p \<longleftrightarrow> 0 < n \<and> n \<le> MAX_HEADER_LEN
     \<and> p = \<lparr>pre_header_len = of_nat n, pre_minor = CURRENT_MINOR, pre_flags = (if s then FLAG_SIGNED else 0)\<rparr>"
  by (auto simp: pre_with_signed_def pre_from_parts_def CURRENT_MINOR_def LEGACY_SIGNED_MINOR_def
      FLAG_SIGNED_def Let_def split: if_splits)

lemma pre_with_signed_props:
  assumes "pre_with_signed n s = Inr p"
  shows "pre_wf p" "header_len_usize p = n" "pre_is_signed p \<longleftrightarrow> s" "\<not> pre_is_legacy p"
    "pre_signed_prefix p = MAGIC @ [0, CURRENT_MINOR, 1, if s then FLAG_SIGNED else 0]"
proof -
  show "pre_wf p" "header_len_usize p = n"
    using assms by (simp_all add: pre_with_signed_def Let_def pre_from_parts_iff)
  show "pre_is_signed p \<longleftrightarrow> s" "\<not> pre_is_legacy p"
    "pre_signed_prefix p = MAGIC @ [0, CURRENT_MINOR, 1, if s then FLAG_SIGNED else 0]"
    using assms
    by (simp_all add: pre_with_signed_iff pre_is_signed_def pre_is_legacy_def CURRENT_MINOR_def
        LEGACY_SIGNED_MINOR_def FLAG_SIGNED_def pre_signed_prefix_eq)
qed

lemma flags_known: "flags AND NOT FLAG_SIGNED = 0 \<longleftrightarrow> flags \<in> {0, 1}"
proof
  assume "flags AND NOT FLAG_SIGNED = 0"
  moreover have "flags = (flags AND NOT 1) OR (flags AND 1)"
    by (rule bit_eqI) (auto simp: bit_simps)
  ultimately have "flags = flags mod 2" by (simp add: FLAG_SIGNED_def and_one_eq)
  then show "flags \<in> {0, 1}" by (metis insertCI mod2_eq_if)
qed (auto simp: FLAG_SIGNED_def)

lemma flag_signed_odd: "flags AND FLAG_SIGNED = 0 \<longleftrightarrow> even flags"
  by (simp add: FLAG_SIGNED_def and_one_eq mod2_eq_if)

section \<open>Properties\<close>

text \<open>The preamble decoder accepts exactly the encodings of valid preambles, each of which has a
  single encoding: no reader sees a version, flag set or header length other than the writer's.\<close>

theorem preamble_wire:
  "pre_decode bs = Inr p \<longleftrightarrow> pre_wf p \<and> bs = pre_encode p"
  by (rule pre.dec_iff) simp

text \<open>Flags are critical and minors are not: whether a 16-byte prefix with the right magic, major,
  kind and a header length in range is accepted depends only on this: the minor is not 0, no flag
  but SIGNED is set, and the legacy minor 2 carries no flags; and it then reads as signed exactly
  when it is legacy or carries the flag.\<close>

theorem preamble_flags_critical:
  assumes "0 < n" "n \<le> MAX_HEADER_LEN"
  shows "pre_decode (MAGIC @ [0, minor, 1, flags] @ be32 (of_nat n)) =
    (if minor = 0 then Inl UnsupportedVersion
     else if flags \<notin> {0, 1} \<or> minor = 2 \<and> flags = 1 then Inl UnsupportedFeature
     else Inr \<lparr>pre_header_len = of_nat n, pre_minor = minor, pre_flags = flags\<rparr>) \<and>
    (minor \<noteq> 0 \<longrightarrow> pre_is_signed \<lparr>pre_header_len = of_nat n, pre_minor = minor, pre_flags = flags\<rparr>
      \<longleftrightarrow> minor = 2 \<or> odd flags)"
proof -
  have n: "unat (of_nat n :: u32) = n" using assms by (simp add: MAX_HEADER_LEN_def unat_of_nat)
  show ?thesis
    using assms flags_known [of flags] four_bytes [of "be32 (of_nat n)"]
    by (auto simp: pre_decode_def PREAMBLE_LEN_def nth_append pre_from_parts_def n LEGACY_SIGNED_MINOR_def
        pre_is_signed_def pre_is_legacy_def flag_signed_odd)
qed

theorem preamble_flags_critical_witness:
  "pre_decode (MAGIC @ [0, 7, 1, 1] @ be32 100) = Inr \<lparr>pre_header_len = 100, pre_minor = 7, pre_flags = 1\<rparr>
   \<and> pre_decode (MAGIC @ [0, 7, 1, 2] @ be32 100) = Inl UnsupportedFeature"
  using preamble_flags_critical [of 100 7 1] preamble_flags_critical [of 100 7 2]
  by (simp add: MAX_HEADER_LEN_def)

end
