(* ===== verification/Hide_Stream.thy ===== *)
theory Hide_Stream
  imports Hide_Crypto Hide_Preamble
begin

text \<open>
  The payload of a container (\<open>crates/hide-object/src/lib.rs\<close>): readers, the record stream and its
  encryption and decryption loops. A reader is the sequence of what its \<open>read\<close> calls will deliver:
  pieces of any size (a call returns at most what fits the buffer and keeps the rest), interruptions
  and failures. Writers do not fail; a result carries what was written, and what a failing run left
  in staging is not part of the result, since the caller must discard it. Counters and totals stay
  below \<open>2 ^ 49\<close> and are \<open>nat\<close>.
\<close>

section \<open>Readers\<close>

datatype io_error = UnexpectedEof | IoOther

datatype read_event = Chunk bytes | Interrupted | Fail

type_synonym reader = "read_event list"

datatype read_result = ROk bytes | RInterrupted | RErr

text \<open>One call of \<open>Read::read\<close> with a buffer of \<open>n\<close> bytes.\<close>

fun reader_read :: "reader \<Rightarrow> nat \<Rightarrow> read_result \<times> reader" where
  "reader_read [] n = (ROk [], [])"
| "reader_read (Chunk c # r) n = (ROk (take n c), if length c \<le> n then r else Chunk (drop n c) # r)"
| "reader_read (Interrupted # r) n = (RInterrupted, r)"
| "reader_read (Fail # r) n = (RErr, r)"

function read_chunk :: "reader \<Rightarrow> nat \<Rightarrow> io_error + bytes \<times> reader" where
  "read_chunk r n =
     (if n = 0 then Inr ([], r)
      else
        case reader_read r n of
          (ROk d, r') \<Rightarrow>
            if d = [] then Inr ([], r')
            else bindR (read_chunk r' (n - length d)) (\<lambda>(ds, r''). Inr (d @ ds, r''))
        | (RInterrupted, r') \<Rightarrow> read_chunk r' n
        | (RErr, r') \<Rightarrow> Inl IoOther)"
  by pat_completeness auto
termination
proof (relation "measures [\<lambda>(r, n). n, \<lambda>(r, n). length r]")
  show "wf (measures [\<lambda>(r :: reader, n). n, \<lambda>(r, n). length r])" by simp
next
  fix r r' :: reader and n :: nat and p q d
  assume "n \<noteq> 0" and "(q, r') = reader_read r n" and "q = ROk d" and "d \<noteq> []"
  then show "((r', n - length d), r, n) \<in> measures [\<lambda>(r, n). n, \<lambda>(r, n). length r]"
    by simp
next
  fix r r' :: reader and n :: nat and q
  assume "(q, r') = reader_read r n" and "q = RInterrupted"
  then show "((r', n), r, n) \<in> measures [\<lambda>(r, n). n, \<lambda>(r, n). length r]"
    by (cases "(r, n)" rule: reader_read.cases) auto
qed

declare read_chunk.simps [simp del]

text \<open>\<open>Read::read_exact\<close> of the standard library.\<close>

definition read_exact :: "reader \<Rightarrow> nat \<Rightarrow> io_error + bytes \<times> reader" where
  "read_exact r n =
     bindR (read_chunk r n) (\<lambda>(bs, r). if length bs < n then Inl UnexpectedEof else Inr (bs, r))"

fun content :: "reader \<Rightarrow> bytes" where
  "content [] = []"
| "content (Chunk c # r) = c @ content r"
| "content (_ # r) = content r"

definition reader_ok :: "reader \<Rightarrow> bool" where
  "reader_ok r \<longleftrightarrow> Fail \<notin> set r \<and> Chunk [] \<notin> set r"

text \<open>Short reads and interruptions do not matter: a reader that does not fail delivers its content.\<close>

lemma read_chunk_content:
  assumes "reader_ok r"
  shows "\<exists>r'. read_chunk r n = Inr (take n (content r), r') \<and> reader_ok r' \<and> content r' = drop n (content r)"
  using assms
proof (induction r n rule: read_chunk.induct)
  case (1 r n)
  show ?case
  proof (cases "n = 0")
    case True
    then show ?thesis using "1.prems" by (simp add: read_chunk.simps)
  next
    case False
    show ?thesis
    proof (cases "(r, n)" rule: reader_read.cases)
      case (1 m)
      then show ?thesis using False by (simp add: read_chunk.simps reader_ok_def)
    next
      case (2 c r0 m)
      let ?r' = "if length c \<le> n then r0 else Chunk (drop n c) # r0"
      have c: "c \<noteq> []" "r = Chunk c # r0" using "1.prems" 2 by (auto simp: reader_ok_def)
      have ok: "reader_ok ?r'" using "1.prems" c by (auto simp: reader_ok_def)
      have t: "take n c \<noteq> []" using c False by simp
      obtain r'' where "read_chunk ?r' (n - length (take n c))
            = Inr (take (n - length (take n c)) (content ?r'), r'')" "reader_ok r''"
          "content r'' = drop (n - length (take n c)) (content ?r')"
        using "1.IH"(1) [OF False, of "ROk (take n c)" ?r' "take n c"] t ok c by auto
      then show ?thesis
        using False c t
        by (cases "length c \<le> n") (auto simp: read_chunk.simps [of "Chunk c # r0" n] read_chunk.simps [of _ 0])
    next
      case (3 r0 m)
      then have r: "r = Interrupted # r0" "reader_ok r0" using "1.prems" by (auto simp: reader_ok_def)
      then show ?thesis
        using "1.IH"(2) [OF False, of RInterrupted r0] False
        by (simp add: read_chunk.simps [of "Interrupted # r0" n])
    next
      case (4 r0 m)
      then show ?thesis using "1.prems" by (simp add: reader_ok_def)
    qed
  qed
qed

lemma read_exact_content:
  assumes "reader_ok r" "n \<le> length (content r)"
  shows "\<exists>r'. read_exact r n = Inr (take n (content r), r') \<and> reader_ok r' \<and> content r' = drop n (content r)"
  using read_chunk_content [OF assms(1), of n] assms(2) by (auto simp: read_exact_def)

lemma read_exact_eof:
  assumes "reader_ok r" "length (content r) < n"
  shows "read_exact r n = Inl UnexpectedEof"
  using read_chunk_content [OF assms(1), of n] assms(2) by (auto simp: read_exact_def)

lemma read_exact_Inr:
  assumes "reader_ok r" "read_exact r n = Inr (bs, r')"
  shows "content r = bs @ content r' \<and> length bs = n \<and> reader_ok r'"
proof (cases "n \<le> length (content r)")
  case True
  then show ?thesis using read_exact_content [OF assms(1) True] assms(2) by auto
next
  case False
  then show ?thesis using read_exact_eof [OF assms(1), of n] assms(2) by simp
qed

section \<open>Records\<close>

definition DATA :: byte where
  "DATA = 1"

definition FINAL :: byte where
  "FINAL = 2"

definition MAX_CHUNKS :: nat where
  "MAX_CHUNKS = 2 ^ 32"

definition RECORD_LEN :: nat where
  "RECORD_LEN = CHUNK_LEN + TAG_LEN"

datatype ObjectError =
    Format FormatError
  | Crypto CryptoError
  | Io io_error
  | NoMatchingRecipient
  | TruncatedPayload
  | InvalidRecord
  | TrailingData
  | ObjectTooLarge
  | InvalidRecipients
  | InvalidSignature
  | UnexpectedSignature
  | MissingSignature

definition chunk_nonce :: "nat \<Rightarrow> byte \<Rightarrow> bytes" where
  "chunk_nonce counter kind =
     [0, 0, 0] @ be64 (of_nat counter) @ [if kind = FINAL then 1 else 0]"

definition chunk_aad :: "bytes \<Rightarrow> bytes \<Rightarrow> nat \<Rightarrow> byte \<Rightarrow> nat \<Rightarrow> bytes" where
  "chunk_aad object_id header_hash counter kind len =
     ascii ''HIDE/0.1 chunk'' @ object_id @ header_hash @ be64 (of_nat counter) @ [kind]
       @ be32 (of_nat len)"

text \<open>The encryption loop. \<open>current\<close> and \<open>nxt\<close> (the source calls it \<open>next\<close>) are the two record buffers, swapped after each record;
  \<open>len\<close> bytes of \<open>current\<close> are plaintext still to be sealed.\<close>

function encrypt_loop ::
  "crypto_api \<Rightarrow> bytes \<Rightarrow> bytes \<Rightarrow> bytes \<Rightarrow> bytes \<Rightarrow> bytes \<Rightarrow> nat \<Rightarrow> nat \<Rightarrow> nat \<Rightarrow> reader \<Rightarrow> bytes
     \<Rightarrow> ObjectError + nat \<times> bytes" where
  "encrypt_loop A k object_id header_hash current nxt len counter tot input output =
     (if MAX_CHUNKS \<le> counter then Inl ObjectTooLarge
      else
        bindR (map_err Io (read_chunk input CHUNK_LEN)) (\<lambda>(piece, input).
        let nxt = piece @ drop (length piece) nxt;
            next_length = length piece;
            kind = (if next_length = 0 then FINAL else DATA);
            aad = chunk_aad object_id header_hash counter kind len
        in bindR (map_err Crypto (seal_in_place A k (chunk_nonce counter kind) aad current len)) (\<lambda>(sealed_len, current).
        let output = output @ [kind] @ be32 (of_nat sealed_len) @ take sealed_len current;
            tot = tot + len
        in if kind = FINAL then Inr (tot, output)
           else encrypt_loop A k object_id header_hash nxt current next_length (counter + 1) tot input output)))"
  by pat_completeness auto
termination
  by (relation "measure (\<lambda>(A, k, o', h, c, n, l, counter, t, i, out). MAX_CHUNKS - counter)") auto

declare encrypt_loop.simps [simp del]

definition encrypt_records ::
  "crypto_api \<Rightarrow> reader \<Rightarrow> bytes \<Rightarrow> bytes \<Rightarrow> bytes \<Rightarrow> bytes \<Rightarrow> ObjectError + nat \<times> bytes" where
  "encrypt_records A input output k object_id header_hash =
     bindR (map_err Crypto (cipher_new k)) (\<lambda>cipher.
     let current = replicate RECORD_LEN 0;
         nxt = replicate RECORD_LEN 0
     in bindR (map_err Io (read_chunk input CHUNK_LEN)) (\<lambda>(piece, input).
     let current = piece @ drop (length piece) current
     in encrypt_loop A cipher object_id header_hash current nxt (length piece) 0 0 input output))"

definition record_length :: "byte \<Rightarrow> nat \<Rightarrow> nat \<Rightarrow> ObjectError + nat" where
  "record_length kind ciphertext_len counter =
     (if \<not> (TAG_LEN \<le> ciphertext_len \<and> ciphertext_len \<le> CHUNK_LEN + TAG_LEN) then Inl InvalidRecord
      else
        let len = ciphertext_len - TAG_LEN
        in if kind = DATA \<and> len = CHUNK_LEN then Inr len
           else if kind = FINAL \<and> (0 < len \<or> counter = 0) then Inr len
           else Inl InvalidRecord)"

definition read_payload :: "reader \<Rightarrow> nat \<Rightarrow> ObjectError + bytes \<times> reader" where
  "read_payload r n =
     map_err (\<lambda>e. if e = UnexpectedEof then TruncatedPayload else Io e) (read_exact r n)"

text \<open>The decryption loop writes into a sink with state \<open>s\<close>.\<close>

function decrypt_loop ::
  "crypto_api \<Rightarrow> ('s \<Rightarrow> bytes \<Rightarrow> 's) \<Rightarrow> bytes \<Rightarrow> bytes \<Rightarrow> bytes \<Rightarrow> nat \<Rightarrow> nat \<Rightarrow> reader \<Rightarrow> 's
     \<Rightarrow> ObjectError + nat \<times> 's" where
  "decrypt_loop A wr k object_id header_hash counter tot input s =
     (if MAX_CHUNKS \<le> counter then Inl ObjectTooLarge
      else
        bindR (read_payload input 5) (\<lambda>(rec, input).
        let kind = rec ! 0;
            ciphertext_len = unat (u32_from_be [rec ! 1, rec ! 2, rec ! 3, rec ! 4])
        in bindR (record_length kind ciphertext_len counter) (\<lambda>len.
        bindR (read_payload input ciphertext_len) (\<lambda>(ciphertext, input).
        let aad = chunk_aad object_id header_hash counter kind len
        in bindR (map_err Crypto (open_in_place A k (chunk_nonce counter kind) aad ciphertext)) (\<lambda>(opened, buffer).
        bindR (if kind = FINAL
               then bindR (map_err Io (read_chunk input 1)) (\<lambda>(extra, input).
                      if extra \<noteq> [] then Inl TrailingData else Inr input)
               else Inr input) (\<lambda>input.
        let s = wr s (take opened buffer);
            tot = tot + opened
        in if kind = FINAL then Inr (tot, s)
           else decrypt_loop A wr k object_id header_hash (counter + 1) tot input s))))))"
  by pat_completeness auto
termination
  by (relation "measure (\<lambda>(A, w, k, o', h, counter, t, i, s). MAX_CHUNKS - counter)") auto

declare decrypt_loop.simps [simp del]

definition decrypt_records ::
  "crypto_api \<Rightarrow> ('s \<Rightarrow> bytes \<Rightarrow> 's) \<Rightarrow> reader \<Rightarrow> 's \<Rightarrow> bytes \<Rightarrow> bytes \<Rightarrow> bytes \<Rightarrow> ObjectError + nat \<times> 's" where
  "decrypt_records A wr input staging k object_id header_hash =
     bindR (map_err Crypto (cipher_new k)) (\<lambda>cipher.
       decrypt_loop A wr cipher object_id header_hash 0 0 input staging)"

section \<open>The stream as a specification\<close>

definition record_bytes :: "crypto_api \<Rightarrow> bytes \<Rightarrow> bytes \<Rightarrow> bytes \<Rightarrow> nat \<Rightarrow> byte \<Rightarrow> bytes \<Rightarrow> bytes" where
  "record_bytes A k oid hh counter kind p =
     [kind] @ be32 (of_nat (length p + TAG_LEN))
       @ sealed A k (chunk_nonce counter kind) (chunk_aad oid hh counter kind (length p)) p"

function records :: "crypto_api \<Rightarrow> bytes \<Rightarrow> bytes \<Rightarrow> bytes \<Rightarrow> nat \<Rightarrow> bytes \<Rightarrow> bytes" where
  "records A k oid hh counter pt =
     (if length pt \<le> CHUNK_LEN then record_bytes A k oid hh counter FINAL pt
      else record_bytes A k oid hh counter DATA (take CHUNK_LEN pt)
             @ records A k oid hh (counter + 1) (drop CHUNK_LEN pt))"
  by pat_completeness auto
termination
  by (relation "measure (\<lambda>(A, k, oid, hh, counter, pt). length pt)") (auto simp: CHUNK_LEN_def)

declare records.simps [simp del]

lemma DATA_FINAL [simp]: "DATA \<noteq> FINAL" "FINAL \<noteq> DATA"
  by (simp_all add: DATA_def FINAL_def)

lemma CHUNK_pos: "0 < CHUNK_LEN" "CHUNK_LEN < 2 ^ 32" "RECORD_LEN = CHUNK_LEN + 16" "TAG_LEN = 16"
  "CHUNK_LEN + 16 < 2 ^ 32"
  by (simp_all add: CHUNK_LEN_def RECORD_LEN_def TAG_LEN_def)

lemma chunks_left:
  "counter < MAX_CHUNKS \<Longrightarrow> (MAX_CHUNKS - counter) * CHUNK_LEN = CHUNK_LEN + (MAX_CHUNKS - (counter + 1)) * CHUNK_LEN"
  by (simp add: Suc_diff_Suc [symmetric])

lemma read_piece:
  assumes "reader_ok r"
  obtains piece r' where "read_chunk r CHUNK_LEN = Inr (piece, r')" "reader_ok r'"
    "content r = piece @ content r'" "length piece \<le> CHUNK_LEN"
    "content r' \<noteq> [] \<longrightarrow> length piece = CHUNK_LEN" "piece = [] \<longleftrightarrow> content r = []"
proof -
  obtain r' where "read_chunk r CHUNK_LEN = Inr (take CHUNK_LEN (content r), r')"
      "reader_ok r'" "content r' = drop CHUNK_LEN (content r)"
    using read_chunk_content [OF assms] by blast
  then show thesis using CHUNK_pos(1) by (intro that [of "take CHUNK_LEN (content r)" r']) auto
qed

text \<open>One iteration of the encryption loop.\<close>

lemma encrypt_loop_step:
  assumes "crypto_laws A" "read_chunk input CHUNK_LEN = Inr (piece, input')"
    and "counter < MAX_CHUNKS" "len \<le> CHUNK_LEN" "length current = RECORD_LEN"
    and "kind = (if piece = [] then FINAL else DATA)"
  shows "\<exists>cur. length cur = RECORD_LEN \<and>
    encrypt_loop A k oid hh current nxt len counter tot input out =
      (if piece = [] then Inr (tot + len, out @ record_bytes A k oid hh counter kind (take len current))
       else encrypt_loop A k oid hh (piece @ drop (length piece) nxt) cur (length piece) (counter + 1) (tot + len)
              input' (out @ record_bytes A k oid hh counter kind (take len current)))"
proof -
  let ?s = "sealed A k (chunk_nonce counter kind) (chunk_aad oid hh counter kind len) (take len current)"
  have len: "length (take len current) = len" "len < 2 ^ 32" "len + 16 \<le> length current"
    using assms(4,5) CHUNK_pos by auto
  have sl: "length ?s = len + 16" using length_sealed [OF assms(1), of "take len current"] len by simp
  note seal = seal_in_place_eq [OF assms(1) len(2,3)]
  show ?thesis
    using assms(2,3,5,6) len sl
    by (intro exI [of _ "?s @ drop (len + 16) current"], subst encrypt_loop.simps)
      (auto simp: seal record_bytes_def Let_def CHUNK_pos(4))
qed

lemma encrypt_loop_records:
  assumes "crypto_laws A"
    and "reader_ok input" "length current = RECORD_LEN" "length nxt = RECORD_LEN"
    and "len \<le> CHUNK_LEN" "content input \<noteq> [] \<longrightarrow> len = CHUNK_LEN" "counter < MAX_CHUNKS"
    and "len + length (content input) \<le> (MAX_CHUNKS - counter) * CHUNK_LEN"
  shows "encrypt_loop A k oid hh current nxt len counter tot input out
    = Inr (tot + len + length (content input), out @ records A k oid hh counter (take len current @ content input))"
  using assms(2-)
proof (induction "length (content input)" arbitrary: input current nxt len counter tot out rule: less_induct)
  case less
  obtain piece input' where rc: "read_chunk input CHUNK_LEN = Inr (piece, input')" "reader_ok input'"
      "content input = piece @ content input'" "length piece \<le> CHUNK_LEN"
      "content input' \<noteq> [] \<longrightarrow> length piece = CHUNK_LEN" "piece = [] \<longleftrightarrow> content input = []"
    using less.prems(1) by (rule read_piece)
  have len: "length (take len current) = len" using less.prems(2,4) CHUNK_pos by simp
  note step = encrypt_loop_step [OF assms(1) rc(1) less.prems(6,4,2) refl, of k oid hh nxt tot out]
  show ?case
  proof (cases "piece = []")
    case True
    then show ?thesis using step rc(6) less.prems(4) len by (auto simp: records.simps)
  next
    case False
    let ?nxt = "piece @ drop (length piece) nxt" and ?out = "out @ record_bytes A k oid hh counter DATA (take len current)"
    have lc: "len = CHUNK_LEN" using less.prems(5) False rc(6) by simp
    have c2: "counter + 1 < MAX_CHUNKS"
    proof (rule ccontr)
      assume "\<not> counter + 1 < MAX_CHUNKS"
      then have "MAX_CHUNKS - counter = 1" using less.prems(6) by simp
      then show False using less.prems(7) lc False rc(6) by simp
    qed
    have mul: "(MAX_CHUNKS - counter) * CHUNK_LEN = CHUNK_LEN + (MAX_CHUNKS - (counter + 1)) * CHUNK_LEN"
      by (rule chunks_left) (use c2 in simp)
    obtain cur where cur: "length cur = RECORD_LEN" "encrypt_loop A k oid hh current nxt len counter tot input out
        = encrypt_loop A k oid hh ?nxt cur (length piece) (counter + 1) (tot + len) input' ?out"
      using step False by auto
    have "encrypt_loop A k oid hh ?nxt cur (length piece) (counter + 1) (tot + len) input' ?out
        = Inr (tot + len + length piece + length (content input'),
            ?out @ records A k oid hh (counter + 1) (take (length piece) ?nxt @ content input'))"
    proof (rule less.hyps)
      show "length (content input') < length (content input)" using False rc(3) by simp
      show "length ?nxt = RECORD_LEN" using less.prems(3) rc(4) CHUNK_pos by simp
      show "length piece + length (content input') \<le> (MAX_CHUNKS - (counter + 1)) * CHUNK_LEN"
        using less.prems(7) mul lc rc(3) by simp
    qed (use rc c2 cur in auto)
    moreover have "records A k oid hh counter (take len current @ content input)
        = record_bytes A k oid hh counter DATA (take len current) @ records A k oid hh (counter + 1) (content input)"
      using False rc(6) len lc by (subst records.simps) simp
    ultimately show ?thesis using cur(2) rc(3) by simp
  qed
qed

lemma encrypt_loop_too_large:
  assumes "crypto_laws A"
    and "reader_ok input" "length current = RECORD_LEN" "length nxt = RECORD_LEN"
    and "len \<le> CHUNK_LEN" "content input \<noteq> [] \<longrightarrow> len = CHUNK_LEN" "counter \<le> MAX_CHUNKS"
    and "(MAX_CHUNKS - counter) * CHUNK_LEN < len + length (content input)"
  shows "encrypt_loop A k oid hh current nxt len counter tot input out = Inl ObjectTooLarge"
  using assms(2-)
proof (induction "MAX_CHUNKS - counter" arbitrary: input current nxt len counter tot out)
  case 0
  then show ?case by (simp add: encrypt_loop.simps)
next
  case (Suc n)
  obtain piece input' where rc: "read_chunk input CHUNK_LEN = Inr (piece, input')" "reader_ok input'"
      "content input = piece @ content input'" "length piece \<le> CHUNK_LEN"
      "content input' \<noteq> [] \<longrightarrow> length piece = CHUNK_LEN" "piece = [] \<longleftrightarrow> content input = []"
    using Suc.prems(1) by (rule read_piece)
  have c: "counter < MAX_CHUNKS" and n: "MAX_CHUNKS - (counter + 1) = n" using Suc.hyps(2) by simp_all
  have mul: "(MAX_CHUNKS - counter) * CHUNK_LEN = CHUNK_LEN + n * CHUNK_LEN"
    using mult_Suc [of n CHUNK_LEN] Suc.hyps(2) by simp
  have ne: "piece \<noteq> []" and lc: "len = CHUNK_LEN" using Suc.prems(4,5,7) mul rc(6) by auto
  obtain cur where "length cur = RECORD_LEN" "encrypt_loop A k oid hh current nxt len counter tot input out
      = encrypt_loop A k oid hh (piece @ drop (length piece) nxt) cur (length piece) (counter + 1) (tot + len) input'
          (out @ record_bytes A k oid hh counter DATA (take len current))"
    using encrypt_loop_step [OF assms(1) rc(1) c Suc.prems(4,2) refl, of k oid hh nxt tot out] ne by auto
  moreover have "encrypt_loop A k oid hh (piece @ drop (length piece) nxt) cur (length piece) (counter + 1) (tot + len) input'
          (out @ record_bytes A k oid hh counter DATA (take len current)) = Inl ObjectTooLarge"
  proof (rule Suc.hyps(1))
    show "n = MAX_CHUNKS - (counter + 1)" using n by simp
    show "length (piece @ drop (length piece) nxt) = RECORD_LEN" using Suc.prems(3) rc(4) CHUNK_pos by simp
    show "(MAX_CHUNKS - (counter + 1)) * CHUNK_LEN < length piece + length (content input')"
      using Suc.prems(7) mul lc rc(3) n by simp
  qed (use rc c calculation(1) in auto)
  ultimately show ?case by simp
qed

lemma encrypt_records_spec:
  assumes "crypto_laws A" "reader_ok input" "length k = 32"
  shows "encrypt_records A input out k oid hh =
    (if length (content input) \<le> MAX_CHUNKS * CHUNK_LEN
     then Inr (length (content input), out @ records A k oid hh 0 (content input))
     else Inl ObjectTooLarge)"
proof -
  obtain piece input' where rc: "read_chunk input CHUNK_LEN = Inr (piece, input')" "reader_ok input'"
      "content input = piece @ content input'" "length piece \<le> CHUNK_LEN"
      "content input' \<noteq> [] \<longrightarrow> length piece = CHUNK_LEN"
    using assms(2) by (rule read_piece)
  let ?cur = "piece @ drop (length piece) (replicate RECORD_LEN 0)"
  have e: "encrypt_records A input out k oid hh
      = encrypt_loop A k oid hh ?cur (replicate RECORD_LEN 0) (length piece) 0 0 input' out"
    using assms(3) rc(1) by (simp add: encrypt_records_def cipher_new_def Let_def)
  have "length ?cur = RECORD_LEN" using rc(4) CHUNK_pos by simp
  from encrypt_loop_records [OF assms(1) rc(2) this _ rc(4,5), of "replicate RECORD_LEN 0" 0 k oid hh 0 out]
    encrypt_loop_too_large [OF assms(1) rc(2) this _ rc(4,5), of "replicate RECORD_LEN 0" 0 k oid hh 0 out]
  show ?thesis unfolding e by (simp add: rc(3) MAX_CHUNKS_def)
qed

section \<open>Reading the stream\<close>

lemma read_payload_Inr:
  "reader_ok r \<Longrightarrow> read_payload r n = Inr (bs, r') \<Longrightarrow> content r = bs @ content r' \<and> length bs = n \<and> reader_ok r'"
  by (auto simp: read_payload_def result_simps dest: read_exact_Inr)

lemma read_payload_prefix:
  assumes "reader_ok r" "content r = bs @ rest"
  shows "\<exists>r'. read_payload r (length bs) = Inr (bs, r') \<and> reader_ok r' \<and> content r' = rest"
  using read_exact_content [OF assms(1), of "length bs"] assms(2) by (auto simp: read_payload_def)

lemma five_bytes: "length xs = 5 \<Longrightarrow> xs = xs ! 0 # [xs ! 1, xs ! 2, xs ! 3, xs ! 4]"
  by (auto simp: numeral_eq_Suc length_Suc_conv)

lemma record_length_iff:
  "record_length kind n counter = Inr len \<longleftrightarrow> n = len + 16 \<and> len \<le> CHUNK_LEN \<and>
     (kind = DATA \<and> len = CHUNK_LEN \<or> kind = FINAL \<and> (0 < len \<or> counter = 0))"
  by (auto simp: record_length_def Let_def CHUNK_pos(4) split: if_splits)

text \<open>A sink: writing twice is writing the concatenation. It is what the staging writers of the
  decryption loop satisfy.\<close>

locale sink =
  fixes wr :: "'s \<Rightarrow> bytes \<Rightarrow> 's"
  assumes write_append: "wr (wr s a) b = wr s (a @ b)"
begin

lemma decrypt_loop_reads:
  assumes "crypto_laws A" "reader_ok input" "content input = records A k oid hh counter pt"
    and "pt \<noteq> [] \<or> counter = 0" "counter < MAX_CHUNKS" "length pt \<le> (MAX_CHUNKS - counter) * CHUNK_LEN"
  shows "decrypt_loop A wr k oid hh counter tot input s = Inr (tot + length pt, wr s pt)"
  using assms(2-)
proof (induction "length pt" arbitrary: pt input counter tot s rule: less_induct)
  case less
  define kind where "kind = (if length pt \<le> CHUNK_LEN then FINAL else DATA)"
  define p where "p = take CHUNK_LEN pt"
  define rest where "rest = (if length pt \<le> CHUNK_LEN then [] else records A k oid hh (counter + 1) (drop CHUNK_LEN pt))"
  define h where "h = [kind] @ be32 (of_nat (length p + TAG_LEN))"
  let ?ct = "sealed A k (chunk_nonce counter kind) (chunk_aad oid hh counter kind (length p)) p"
  have p: "length p \<le> CHUNK_LEN" "pt = p @ drop CHUNK_LEN pt" "length p < 2 ^ 32" "length p + 16 < 2 ^ 32"
    using CHUNK_pos by (auto simp: p_def)
  have ct: "length ?ct = length p + 16" by (rule length_sealed [OF assms(1) p(3)])
  have inp: "content input = h @ ?ct @ rest"
    using less.prems(2) by (simp add: records.simps [of A k oid hh counter] record_bytes_def kind_def p_def rest_def h_def)
  obtain i1 where i1: "read_payload input 5 = Inr (h, i1)" "reader_ok i1" "content i1 = ?ct @ rest"
    using read_payload_prefix [OF less.prems(1) inp] by (auto simp: h_def)
  obtain i2 where i2: "read_payload i1 (length p + 16) = Inr (?ct, i2)" "reader_ok i2" "content i2 = rest"
    using read_payload_prefix [OF i1(2,3)] ct by auto
  have cl: "unat (u32_from_be [h ! 1, h ! 2, h ! 3, h ! 4]) = length p + 16"
  proof -
    have "[h ! 1, h ! 2, h ! 3, h ! 4] = be32 (of_nat (length p + TAG_LEN))"
      using four_bytes [of "be32 (of_nat (length p + TAG_LEN))"] by (simp add: h_def del: of_nat_add)
    then show ?thesis using p(4) by (simp add: CHUNK_pos(4) unat_of_nat del: of_nat_add)
  qed
  have h0: "h ! 0 = kind" by (simp add: h_def)
  have rl: "record_length kind (length p + 16) counter = Inr (length p)"
    using less.prems(3) p(1) CHUNK_pos(1) by (auto simp: record_length_iff kind_def p_def)
  have op: "open_in_place A k (chunk_nonce counter kind) (chunk_aad oid hh counter kind (length p)) ?ct
      = Inr (length p, p @ drop (length p) ?ct)"
    using ct p(4) by (subst open_in_place_iff [OF assms(1)]) auto
  obtain i3 where i3: "read_chunk i2 1 = Inr (take 1 rest, i3)"
    using read_chunk_content [OF i2(2), of 1] i2(3) by auto
  have step: "decrypt_loop A wr k oid hh counter tot input s =
      (if kind = FINAL then Inr (tot + length p, wr s p)
       else decrypt_loop A wr k oid hh (counter + 1) (tot + length p) i2 (wr s p))"
    using less.prems(4) i1(1) i2(1) rl op i3
    by (subst decrypt_loop.simps) (auto simp: cl [simplified] h0 Let_def kind_def rest_def)
  show ?case
  proof (cases "length pt \<le> CHUNK_LEN")
    case True
    then show ?thesis using step by (simp add: kind_def p_def)
  next
    case False
    have c2: "counter + 1 < MAX_CHUNKS"
    proof (rule ccontr)
      assume "\<not> counter + 1 < MAX_CHUNKS"
      then have "MAX_CHUNKS - counter = 1" using less.prems(4) by simp
      then show False using less.prems(5) False by simp
    qed
    have mul: "(MAX_CHUNKS - counter) * CHUNK_LEN = CHUNK_LEN + (MAX_CHUNKS - (counter + 1)) * CHUNK_LEN"
      by (rule chunks_left) (use c2 in simp)
    have "decrypt_loop A wr k oid hh (counter + 1) (tot + length p) i2 (wr s p)
        = Inr (tot + length p + length (drop CHUNK_LEN pt), wr (wr s p) (drop CHUNK_LEN pt))"
      by (rule less.hyps) (use False CHUNK_pos(1) i2 c2 mul less.prems(5) in \<open>auto simp: rest_def\<close>)
    then show ?thesis
      using step False p(2) by (simp add: kind_def write_append p_def)
  qed
qed

lemma decrypt_loop_accepts:
  assumes "crypto_laws A"
  shows "reader_ok input \<Longrightarrow> decrypt_loop A wr k oid hh counter tot input s = Inr (n, s') \<Longrightarrow>
    \<exists>pt. content input = records A k oid hh counter pt \<and> n = tot + length pt \<and> s' = wr s pt
      \<and> (pt \<noteq> [] \<or> counter = 0) \<and> counter < MAX_CHUNKS \<and> length pt \<le> (MAX_CHUNKS - counter) * CHUNK_LEN"
proof (induction "MAX_CHUNKS - counter" arbitrary: counter tot input s)
  case 0
  then show ?case by (simp add: decrypt_loop.simps)
next
  case (Suc m)
  have c: "counter < MAX_CHUNKS" and m: "m = MAX_CHUNKS - (counter + 1)" using Suc.hyps(2) by simp_all
  obtain rec i1 len ct i2 opened buffer i3 where r: "read_payload input 5 = Inr (rec, i1)"
    and rl: "record_length (rec ! 0) (unat (u32_from_be [rec ! 1, rec ! 2, rec ! 3, rec ! 4])) counter = Inr len"
    and rc: "read_payload i1 (unat (u32_from_be [rec ! 1, rec ! 2, rec ! 3, rec ! 4])) = Inr (ct, i2)"
    and op: "open_in_place A k (chunk_nonce counter (rec ! 0)) (chunk_aad oid hh counter (rec ! 0) len) ct = Inr (opened, buffer)"
    and fin: "(if rec ! 0 = FINAL
               then bindR (map_err Io (read_chunk i2 1)) (\<lambda>(extra, input).
                      if extra \<noteq> [] then Inl TrailingData else Inr input)
               else Inr i2) = Inr i3"
    and res: "(if rec ! 0 = FINAL then Inr (tot + opened, wr s (take opened buffer))
       else decrypt_loop A wr k oid hh (counter + 1) (tot + opened) i3 (wr s (take opened buffer))) = Inr (n, s')"
    using Suc.prems(2) [unfolded decrypt_loop.simps [of A wr k oid hh counter tot input s] Let_def]
    by (elim result_steps) blast
  let ?w = "u32_from_be [rec ! 1, rec ! 2, rec ! 3, rec ! 4]"
  from read_payload_Inr [OF Suc.prems(1) r] have rec: "content input = rec @ content i1" "length rec = 5" "reader_ok i1" by auto
  from read_payload_Inr [OF rec(3) rc] have ct: "content i1 = ct @ content i2" "length ct = unat ?w" "reader_ok i2" by auto
  from rl have len: "unat ?w = len + 16" "len \<le> CHUNK_LEN"
    "rec ! 0 = DATA \<and> len = CHUNK_LEN \<or> rec ! 0 = FINAL \<and> (0 < len \<or> counter = 0)"
    by (auto simp: record_length_iff)
  have "length ct < 2 ^ 32" using ct(2) len CHUNK_pos by simp
  note o' = op [unfolded open_in_place_iff [OF assms this]]
  have opened: "opened = len" using o' ct(2) len(1) by linarith
  obtain p where p: "length p = len" "opened = len" "buffer = p @ drop len ct"
      "ct = sealed A k (chunk_nonce counter (rec ! 0)) (chunk_aad oid hh counter (rec ! 0) len) p"
    using o' unfolding opened by blast
  have hd: "rec = [rec ! 0] @ be32 (of_nat (length p + TAG_LEN))"
  proof -
    have "length p + TAG_LEN = unat ?w" using len(1) p(1) CHUNK_pos(4) by simp
    then have "(of_nat (length p + TAG_LEN) :: u32) = ?w" by (simp only: of_nat_unat ucast_id)
    then show ?thesis using five_bytes [OF rec(2)] by (simp add: be32_u32_from_be del: of_nat_add)
  qed
  have rb: "content input = record_bytes A k oid hh counter (rec ! 0) p @ content i2"
    using rec(1) ct(1) hd p(1,4) by (metis append.assoc record_bytes_def)
  show ?case
  proof (cases "rec ! 0 = FINAL")
    case True
    then have "read_chunk i2 1 = Inr ([], i3)" using fin by (auto simp: result_simps split: if_splits)
    then have "content i2 = []" using read_chunk_content [OF ct(3), of 1] by auto
    moreover have "len \<le> (MAX_CHUNKS - counter) * CHUNK_LEN" using len(2) c by (simp add: le_trans [OF _ mult_le_mono1 [of 1 "MAX_CHUNKS - counter" CHUNK_LEN]])
    ultimately show ?thesis
      using True rb res p len c by (intro exI [of _ p]) (auto simp: records.simps [of A k oid hh counter])
  next
    case False
    then have kind: "rec ! 0 = DATA" "len = CHUNK_LEN" using len(3) by auto
    have "decrypt_loop A wr k oid hh (counter + 1) (tot + len) i2 (wr s p) = Inr (n, s')"
      using res False fin p(1-3) by simp
    from Suc.hyps(1) [OF m ct(3) this] obtain pt where pt: "content i2 = records A k oid hh (counter + 1) pt"
      "n = tot + len + length pt" "s' = wr (wr s p) pt" "pt \<noteq> []"
      "length pt \<le> (MAX_CHUNKS - (counter + 1)) * CHUNK_LEN" by auto
    have "(MAX_CHUNKS - counter) * CHUNK_LEN = CHUNK_LEN + (MAX_CHUNKS - (counter + 1)) * CHUNK_LEN"
      by (rule chunks_left [OF c])
    then show ?thesis
      using rb pt p(1) kind c
      by (intro exI [of _ "p @ pt"]) (simp add: records.simps [of A k oid hh counter "p @ pt"] write_append)
  qed
qed

lemma decrypt_records_iff:
  assumes "crypto_laws A" "reader_ok input" "length k = 32"
  shows "decrypt_records A wr input s k oid hh = Inr (n, s') \<longleftrightarrow>
    (\<exists>pt. content input = records A k oid hh 0 pt \<and> n = length pt \<and> s' = wr s pt
       \<and> length pt \<le> MAX_CHUNKS * CHUNK_LEN)"
proof -
  have e: "decrypt_records A wr input s k oid hh = decrypt_loop A wr k oid hh 0 0 input s"
    using assms(3) by (simp add: decrypt_records_def cipher_new_def)
  show ?thesis
    unfolding e using decrypt_loop_accepts [OF assms(1,2), of k oid hh 0 0 s n s']
      decrypt_loop_reads [OF assms(1,2), of k oid hh 0 _ 0 s]
    by (auto simp: MAX_CHUNKS_def)
qed

end

interpretation vec: sink "(@) :: bytes \<Rightarrow> bytes \<Rightarrow> bytes"
  by unfold_locales simp

section \<open>Properties\<close>

text \<open>Encrypting a payload and decrypting the records returns the payload, for every payload up to
  \<open>2 ^ 48\<close> bytes and however the two input readers fragment or interrupt their data; a longer
  payload is refused.\<close>

theorem records_round_trip:
  assumes "crypto_laws A" "length k = 32" "reader_ok input" "reader_ok input'"
    and "encrypt_records A input [] k oid hh = Inr (n, stream)" "content input' = stream"
  shows "n = length (content input) \<and> n \<le> 2 ^ 48 \<and>
    decrypt_records A (@) input' [] k oid hh = Inr (n, content input)"
proof -
  have "length (content input) \<le> MAX_CHUNKS * CHUNK_LEN" "n = length (content input)"
    "stream = records A k oid hh 0 (content input)"
    using encrypt_records_spec [OF assms(1,3,2), of "[]" oid hh] assms(5) by (auto split: if_splits)
  then show ?thesis
    using vec.decrypt_records_iff [OF assms(1,4,2), of "[]" oid hh n "content input"] assms(6)
    by (auto simp: MAX_CHUNKS_def CHUNK_LEN_def)
qed

lemma demo_stream:
  "\<exists>stream. encrypt_records ref_crypto [Chunk [1, 2], Interrupted, Chunk [3]] [] (replicate 32 1) oid hh = Inr (3, stream)
     \<and> reader_ok [Chunk stream] \<and> content [Chunk stream] = stream"
proof -
  have ok: "reader_ok [Chunk [1, 2], Interrupted, Chunk [3]]" by (simp add: reader_ok_def)
  let ?s = "records ref_crypto (replicate 32 1) oid hh 0 [1, 2, 3]"
  have "?s \<noteq> []" by (simp add: records.simps record_bytes_def)
  then show ?thesis
    using encrypt_records_spec [OF crypto_laws_ref ok, of "replicate 32 1" "[]" oid hh]
    by (simp add: MAX_CHUNKS_def CHUNK_LEN_def reader_ok_def)
qed

theorem records_round_trip_witness:
  "\<exists>stream. encrypt_records ref_crypto [Chunk [1, 2], Interrupted, Chunk [3]] [] (replicate 32 1) [] [] = Inr (3, stream)
     \<and> decrypt_records ref_crypto (@) [Chunk stream] [] (replicate 32 1) [] [] = Inr (3, [1, 2, 3])"
proof -
  obtain stream where s: "encrypt_records ref_crypto [Chunk [1, 2], Interrupted, Chunk [3]] [] (replicate 32 1) [] [] = Inr (3, stream)"
      "reader_ok [Chunk stream]" "content [Chunk stream] = stream"
    using demo_stream by blast
  have "reader_ok [Chunk [1, 2], Interrupted, Chunk [3]]" by (simp add: reader_ok_def)
  from records_round_trip [OF crypto_laws_ref _ this s(2,1,3)] s(1) show ?thesis by auto
qed

text \<open>C15. Integrity of the payload: whatever stream the reader delivers, decryption succeeds only on the
  exact byte sequence that encrypting the returned plaintext produces. No record can be dropped,
  repeated, reordered, re-split or appended, also not by someone who can predict the chunking.\<close>

theorem decrypt_only_genuine:
  assumes "crypto_laws A" "length k = 32" "reader_ok input" "reader_ok source"
    and "decrypt_records A (@) input [] k oid hh = Inr (n, pt)" "content source = pt"
  shows "encrypt_records A source [] k oid hh = Inr (n, content input)"
  using vec.decrypt_records_iff [OF assms(1,3,2), of "[]" oid hh n pt] assms(5,6)
    encrypt_records_spec [OF assms(1,4,2), of "[]" oid hh]
  by auto

theorem decrypt_only_genuine_witness:
  "\<exists>stream. decrypt_records ref_crypto (@) [Chunk stream] [] (replicate 32 1) [] [] = Inr (3, [1, 2, 3])
     \<and> encrypt_records ref_crypto [Chunk [1, 2, 3]] [] (replicate 32 1) [] [] = Inr (3, stream)"
proof -
  obtain stream where s: "encrypt_records ref_crypto [Chunk [1, 2], Interrupted, Chunk [3]] [] (replicate 32 1) [] [] = Inr (3, stream)"
      "reader_ok [Chunk stream]" "content [Chunk stream] = stream"
    using demo_stream by blast
  have ok: "reader_ok [Chunk [1, 2], Interrupted, Chunk [3]]" "reader_ok [Chunk [1, 2, 3]]" by (simp_all add: reader_ok_def)
  have e: "stream = records ref_crypto (replicate 32 1) [] [] 0 [1, 2, 3]"
    using encrypt_records_spec [OF crypto_laws_ref ok(1), of "replicate 32 1" "[]" "[]" "[]"] s(1)
    by (simp split: if_splits)
  have d: "decrypt_records ref_crypto (@) [Chunk stream] [] (replicate 32 1) [] [] = Inr (3, [1, 2, 3])"
    using vec.decrypt_records_iff [OF crypto_laws_ref s(2), of "replicate 32 1" "[]" "[]" "[]" 3 "[1, 2, 3]"] e
    by (auto simp: MAX_CHUNKS_def CHUNK_LEN_def)
  from decrypt_only_genuine [OF crypto_laws_ref _ s(2) ok(2) d] d s(3) show ?thesis by auto
qed

text \<open>Within an object no two records are sealed under the same nonce: the nonce determines the
  counter and whether the record is the final one.\<close>

theorem chunk_nonce_unique:
  assumes "i < MAX_CHUNKS" "j < MAX_CHUNKS" "kind \<in> {DATA, FINAL}" "kind' \<in> {DATA, FINAL}"
  shows "chunk_nonce i kind = chunk_nonce j kind' \<longleftrightarrow> i = j \<and> kind = kind'"
proof -
  have "(of_nat i :: u64) = of_nat j \<longleftrightarrow> i = j"
    using assms(1,2) by (intro of_nat_u64_inj) (simp_all add: MAX_CHUNKS_def)
  then show ?thesis using assms(3,4) by (auto simp: chunk_nonce_def)
qed

theorem chunk_nonce_unique_witness: "chunk_nonce 0 DATA \<noteq> chunk_nonce 0 FINAL \<and> chunk_nonce 3 DATA \<noteq> chunk_nonce 4 DATA"
  using chunk_nonce_unique [of 0 0 DATA FINAL] chunk_nonce_unique [of 3 4 DATA DATA] by (simp add: MAX_CHUNKS_def)

end
