(* ===== verification/Hide_Cbor.thy ===== *)
theory Hide_Cbor
  imports Hide_Prelude
begin

text \<open>
  The CBOR library (crate \<open>minicbor\<close>) as the formats use it. It is not part of the sources, so its
  encoder and decoder are the fields of \<open>cbor_api\<close> and \<open>cbor_laws\<close> states what it documents: the
  encoder writes integers in their smallest form, and each decoder call reads back what the
  corresponding encoder call wrote, leaving the rest of the input. A decoder call works on the
  input that remains; \<open>Decoder::position()\<close> is the length of what it consumed. An error of any
  call is \<open>None\<close>: the sources discard its content. \<open>ref_cbor\<close> is an RFC 8949 codec that satisfies
  the laws.
\<close>

record cbor_api =
  enc_u8 :: "byte \<Rightarrow> bytes"
  enc_u16 :: "u16 \<Rightarrow> bytes"
  enc_u64 :: "u64 \<Rightarrow> bytes"
  enc_bytes :: "bytes \<Rightarrow> bytes"
  enc_str :: "str \<Rightarrow> bytes"
  enc_array :: "u64 \<Rightarrow> bytes"
  enc_map :: "u64 \<Rightarrow> bytes"
  dec_u8 :: "bytes \<Rightarrow> (byte \<times> bytes) option"
  dec_u16 :: "bytes \<Rightarrow> (u16 \<times> bytes) option"
  dec_u64 :: "bytes \<Rightarrow> (u64 \<times> bytes) option"
  dec_bytes :: "bytes \<Rightarrow> (bytes \<times> bytes) option"
  dec_str :: "bytes \<Rightarrow> (str \<times> bytes) option"
  dec_array :: "bytes \<Rightarrow> (u64 option \<times> bytes) option"
  dec_map :: "bytes \<Rightarrow> (u64 option \<times> bytes) option"

definition cbor_laws :: "cbor_api \<Rightarrow> bool" where
  "cbor_laws C \<longleftrightarrow>
     (\<forall>v r. dec_u8 C (enc_u8 C v @ r) = Some (v, r)) \<and>
     (\<forall>v r. dec_u16 C (enc_u16 C v @ r) = Some (v, r)) \<and>
     (\<forall>v r. dec_u64 C (enc_u64 C v @ r) = Some (v, r)) \<and>
     (\<forall>v. enc_u8 C v = enc_u64 C (ucast v)) \<and>
     (\<forall>v. enc_u16 C v = enc_u64 C (ucast v)) \<and>
     (\<forall>b r. length b < 2 ^ 64 \<longrightarrow> dec_bytes C (enc_bytes C b @ r) = Some (b, r)) \<and>
     (\<forall>s r. utf8_valid s \<longrightarrow> length s < 2 ^ 64 \<longrightarrow> dec_str C (enc_str C s @ r) = Some (s, r)) \<and>
     (\<forall>n r. dec_array C (enc_array C n @ r) = Some (Some n, r)) \<and>
     (\<forall>n r. dec_map C (enc_map C n @ r) = Some (Some n, r)) \<and>
     (\<forall>bs b r. dec_bytes C bs = Some (b, r) \<longrightarrow> length b + length r \<le> length bs) \<and>
     (\<forall>bs s r. dec_str C bs = Some (s, r) \<longrightarrow> utf8_valid s) \<and>
     (\<forall>a b. length a = length b \<longrightarrow> length (enc_bytes C a) = length (enc_bytes C b))"

lemma cbor_read_back:
  assumes "cbor_laws C"
  shows "dec_u8 C (enc_u8 C v8 @ r) = Some (v8, r)"
    "dec_u16 C (enc_u16 C v16 @ r) = Some (v16, r)"
    "dec_u64 C (enc_u64 C v64 @ r) = Some (v64, r)"
    "dec_u64 C (enc_u8 C v8 @ r) = Some (ucast v8, r)"
    "dec_u64 C (enc_u16 C v16 @ r) = Some (ucast v16, r)"
    "length b < 2 ^ 64 \<Longrightarrow> dec_bytes C (enc_bytes C b @ r) = Some (b, r)"
    "utf8_valid b \<Longrightarrow> length b < 2 ^ 64 \<Longrightarrow> dec_str C (enc_str C b @ r) = Some (b, r)"
    "dec_array C (enc_array C n @ r) = Some (Some n, r)"
    "dec_map C (enc_map C n @ r) = Some (Some n, r)"
proof -
  have 8: "\<forall>v r. dec_u8 C (enc_u8 C v @ r) = Some (v, r)"
    using assms unfolding cbor_laws_def by (rule conjunct1)
  have 16: "\<forall>v r. dec_u16 C (enc_u16 C v @ r) = Some (v, r)"
    using assms unfolding cbor_laws_def by (rule conjunct1 [OF conjunct2])
  show "dec_u8 C (enc_u8 C v8 @ r) = Some (v8, r)" by (simp only: 8)
  show "dec_u16 C (enc_u16 C v16 @ r) = Some (v16, r)" by (simp only: 16)
qed (use assms in \<open>simp_all add: cbor_laws_def\<close>)

lemma cbor_read_back_end:
  assumes "cbor_laws C"
  shows "dec_u8 C (enc_u8 C v8) = Some (v8, [])"
    "dec_u64 C (enc_u64 C v64) = Some (v64, [])"
    "length b < 2 ^ 64 \<Longrightarrow> dec_bytes C (enc_bytes C b) = Some (b, [])"
    "utf8_valid b \<Longrightarrow> length b < 2 ^ 64 \<Longrightarrow> dec_str C (enc_str C b) = Some (b, [])"
    "dec_array C (enc_array C n) = Some (Some n, [])"
    "dec_map C (enc_map C n) = Some (Some n, [])"
  using cbor_read_back [OF assms, where r = "[]"] by simp_all

lemma cbor_str_utf8: "cbor_laws C \<Longrightarrow> dec_str C bs = Some (s, r) \<Longrightarrow> utf8_valid s"
  unfolding cbor_laws_def by meson

lemma cbor_bytes_length: "cbor_laws C \<Longrightarrow> length a = length b \<Longrightarrow> length (enc_bytes C a) = length (enc_bytes C b)"
  unfolding cbor_laws_def by meson

lemma cbor_bytes_consume: "cbor_laws C \<Longrightarrow> dec_bytes C bs = Some (b, r) \<Longrightarrow> length b + length r \<le> length bs"
  unfolding cbor_laws_def by meson

section \<open>A reference codec\<close>

definition cbor_head :: "nat \<Rightarrow> u64 \<Rightarrow> bytes" where
  "cbor_head m v =
     (if unat v < 24 then [of_nat (m * 32 + unat v)]
      else if unat v < 2 ^ 8 then of_nat (m * 32 + 24) # be_bytes 1 (unat v)
      else if unat v < 2 ^ 16 then of_nat (m * 32 + 25) # be_bytes 2 (unat v)
      else if unat v < 2 ^ 32 then of_nat (m * 32 + 26) # be_bytes 4 (unat v)
      else of_nat (m * 32 + 27) # be_bytes 8 (unat v))"

definition cbor_unhead :: "nat \<Rightarrow> bytes \<Rightarrow> (u64 \<times> bytes) option" where
  "cbor_unhead m bs =
     (case bs of [] \<Rightarrow> None
      | b # r \<Rightarrow>
          if unat b div 32 \<noteq> m then None
          else
            let i = unat b mod 32
            in if i < 24 then Some (of_nat i, r)
               else if i \<le> 27 then
                 (let k = 2 ^ (i - 24)
                  in if length r < k then None
                     else Some (of_nat (from_be (take k r)), drop k r))
               else None)"

definition cbor_unhead_indef :: "nat \<Rightarrow> bytes \<Rightarrow> (u64 option \<times> bytes) option" where
  "cbor_unhead_indef m bs =
     (if bs \<noteq> [] \<and> unat (hd bs) = m * 32 + 31 then Some (None, tl bs)
      else map_option (\<lambda>(v, r). (Some v, r)) (cbor_unhead m bs))"

definition cbor_take :: "nat \<Rightarrow> bytes \<Rightarrow> (bytes \<times> bytes) option" where
  "cbor_take m bs =
     Option.bind (cbor_unhead m bs) (\<lambda>(n, r). split_at_checked r (unat n))"

definition ref_cbor :: cbor_api where
  "ref_cbor = \<lparr>
     enc_u8 = (\<lambda>v. cbor_head 0 (ucast v)), enc_u16 = (\<lambda>v. cbor_head 0 (ucast v)), enc_u64 = cbor_head 0,
     enc_bytes = (\<lambda>b. cbor_head 2 (len64 b) @ b), enc_str = (\<lambda>s. cbor_head 3 (len64 s) @ s),
     enc_array = cbor_head 4, enc_map = cbor_head 5,
     dec_u8 = (\<lambda>bs. Option.bind (cbor_unhead 0 bs)
                  (\<lambda>(v, r). if v < 2 ^ 8 then Some (ucast v, r) else None)),
     dec_u16 = (\<lambda>bs. Option.bind (cbor_unhead 0 bs)
                  (\<lambda>(v, r). if v < 2 ^ 16 then Some (ucast v, r) else None)),
     dec_u64 = cbor_unhead 0, dec_bytes = cbor_take 2,
     dec_str = (\<lambda>bs. Option.bind (cbor_take 3 bs) (\<lambda>(s, r). if utf8_valid s then Some (s, r) else None)),
     dec_array = cbor_unhead_indef 4, dec_map = cbor_unhead_indef 5\<rparr>"

lemma unat_first_byte: "m < 8 \<Longrightarrow> i < 32 \<Longrightarrow> unat (of_nat (m * 32 + i) :: byte) = m * 32 + i"
  by (simp add: unat_of_nat del: of_nat_add of_nat_mult)

lemma cbor_unhead_step:
  assumes "m < 8" "i \<in> {24, 25, 26, 27}" "k = 2 ^ (i - 24)" "unat v < 256 ^ k"
  shows "cbor_unhead m (of_nat (m * 32 + i) # be_bytes k (unat v) @ r) = Some (v, r)"
proof -
  have "unat (of_nat (m * 32 + i) :: byte) = m * 32 + i" by (rule unat_first_byte) (use assms in auto)
  then show ?thesis using assms by (auto simp: cbor_unhead_def from_be_be_bytes Let_def)
qed

lemma cbor_unhead_head:
  assumes "m < 8"
  shows "cbor_unhead m (cbor_head m v @ r) = Some (v, r)"
proof -
  have "unat v < 24 \<Longrightarrow> cbor_unhead m (of_nat (m * 32 + unat v) # r) = Some (v, r)"
    using unat_first_byte [OF assms, of "unat v"] by (simp add: cbor_unhead_def del: of_nat_add of_nat_mult)
  moreover have "unat v < 256 ^ 8" using unsigned_less [of v, where ?'a = nat] by simp
  ultimately show ?thesis
    using cbor_unhead_step [OF assms, of 24 1 v r] cbor_unhead_step [OF assms, of 25 2 v r]
      cbor_unhead_step [OF assms, of 26 4 v r] cbor_unhead_step [OF assms, of 27 8 v r]
    unfolding cbor_head_def by (simp del: of_nat_add of_nat_mult be_bytes.simps)
qed

lemma length_cbor_head: "length (cbor_head m v) \<le> 9"
  by (simp add: cbor_head_def)

lemma cbor_head_not_indef:
  assumes "m < 8"
  shows "unat (hd (cbor_head m v @ r)) \<noteq> m * 32 + 31" "cbor_head m v \<noteq> []"
  using unat_first_byte [OF assms, of "unat v"] unat_first_byte [OF assms, of 24]
    unat_first_byte [OF assms, of 25] unat_first_byte [OF assms, of 26] unat_first_byte [OF assms, of 27]
  unfolding cbor_head_def by (simp_all del: of_nat_add of_nat_mult)

lemma cbor_unhead_indef_head: "m < 8 \<Longrightarrow> cbor_unhead_indef m (cbor_head m v @ r) = Some (Some v, r)"
  using cbor_head_not_indef [of m v] by (simp add: cbor_unhead_indef_def cbor_unhead_head)

lemma cbor_take_head: "m < 8 \<Longrightarrow> length b < 2 ^ 64 \<Longrightarrow> cbor_take m (cbor_head m (len64 b) @ b @ r) = Some (b, r)"
  by (simp add: cbor_take_def cbor_unhead_head unat_len64)

lemma cbor_unhead_consumes: "cbor_unhead m bs = Some (n, r) \<Longrightarrow> length r \<le> length bs"
  by (auto simp: cbor_unhead_def Let_def split: list.splits if_splits)

lemma cbor_take_consumes: "cbor_take m bs = Some (b, r) \<Longrightarrow> length b + length r \<le> length bs"
  by (auto simp: cbor_take_def bind_eq_Some_conv split_at_checked_Some_iff dest!: cbor_unhead_consumes)

text \<open>A CBOR head is at most nine bytes long.\<close>

definition cbor_small :: "cbor_api \<Rightarrow> bool" where
  "cbor_small C \<longleftrightarrow>
     (\<forall>v. length (enc_u8 C v) \<le> 9) \<and> (\<forall>v. length (enc_u16 C v) \<le> 9) \<and> (\<forall>v. length (enc_u64 C v) \<le> 9) \<and>
     (\<forall>b. length b \<le> length (enc_bytes C b) \<and> length (enc_bytes C b) \<le> 9 + length b) \<and>
     (\<forall>v. length (enc_array C v) \<le> 9) \<and> (\<forall>v. length (enc_map C v) \<le> 9)"

lemma cbor_smallD:
  assumes "cbor_small C"
  shows "length (enc_u8 C a) \<le> 9" "length (enc_u16 C w) \<le> 9" "length (enc_u64 C v) \<le> 9"
    "length (enc_bytes C b) \<le> 9 + length b" "length (enc_array C v) \<le> 9" "length (enc_map C v) \<le> 9"
    "length b \<le> length (enc_bytes C b)"
  using assms by (simp_all add: cbor_small_def)

lemma cbor_small_ref: "cbor_small ref_cbor"
  using length_cbor_head by (simp add: cbor_small_def ref_cbor_def)

lemma ucast_small: "(ucast (v :: byte) :: u64) < 2 ^ 8" "(ucast (w :: u16) :: u64) < 2 ^ 16"
  using unsigned_less [of v, where ?'a = nat] unsigned_less [of w, where ?'a = nat]
  by (simp_all add: word_less_nat_alt unsigned_ucast_eq take_bit_nat_def)

lemma cbor_laws_ref: "cbor_laws ref_cbor"
  unfolding cbor_laws_def
  using ucast_small
  by (auto simp: ref_cbor_def ucast_up_ucast_id is_up cbor_unhead_head cbor_unhead_indef_head cbor_take_head
      bind_eq_Some_conv split: if_splits dest: cbor_take_consumes)
    (simp add: len64_def)

end
