(* ===== verification/Hide_Codec.thy ===== *)
theory Hide_Codec
  imports Hide_Cbor Hide_Preamble
begin

text \<open>
  \<open>crates/hide-format/src/codec.rs\<close>: the protected header, its outer frame and the file metadata,
  encoded as canonical CBOR. A reader is a function on the input that remains; the encoder's writes
  into a \<open>Vec\<close> cannot fail, so an encoder fails only where the source returns an error.
\<close>

section \<open>Data\<close>

definition XWING_TAG :: u64 where
  "XWING_TAG = 1"

definition ENCAPSULATION_LEN :: nat where
  "ENCAPSULATION_LEN = 1120"

definition WRAPPED_CEK_LEN :: nat where
  "WRAPPED_CEK_LEN = 48"

definition VERIFYING_KEY_LEN :: nat where
  "VERIFYING_KEY_LEN = 1984"

definition SIGNATURE_LEN :: nat where
  "SIGNATURE_LEN = 3373"

lemmas format_limits = MAX_HEADER_LEN_def MAX_RECIPIENTS_def MAX_SIGNATURES_def MAX_METADATA_LEN_def
  TAG_LEN_def MAX_EXTENSIONS_def MAX_EXTENSION_LEN_def FIRST_IGNORABLE_KEY_def MAX_STANZA_ITEMS_def
  XWING_TAG_def ENCAPSULATION_LEN_def WRAPPED_CEK_LEN_def VERIFYING_KEY_LEN_def SIGNATURE_LEN_def SUITE_def

record RecipientStanza =
  rs_encapsulation :: bytes
  rs_wrapped_cek :: bytes

record UnknownStanza =
  us_tag :: u16
  us_fields :: "bytes list"

datatype Stanza = XWing RecipientStanza | Unknown UnknownStanza

definition stanza_tag :: "Stanza \<Rightarrow> u16" where
  "stanza_tag s = (case s of XWing _ \<Rightarrow> ucast XWING_TAG | Unknown u \<Rightarrow> us_tag u)"

definition stanza_fields :: "Stanza \<Rightarrow> bytes list" where
  "stanza_fields s =
     (case s of XWing x \<Rightarrow> [rs_encapsulation x, rs_wrapped_cek x] | Unknown u \<Rightarrow> us_fields u)"

definition as_xwing :: "Stanza \<Rightarrow> RecipientStanza option" where
  "as_xwing s = (case s of XWing x \<Rightarrow> Some x | Unknown _ \<Rightarrow> None)"

record Extension =
  ext_key :: u16
  ext_value :: bytes

record SignatureStanza =
  ss_verifying_key :: bytes
  ss_signature :: bytes

record ProtectedHeader =
  ph_object_id :: bytes
  ph_recipients :: "Stanza list"
  ph_encrypted_metadata :: bytes
  ph_signatures :: "SignatureStanza list"
  ph_extensions :: "Extension list"

record Metadata =
  md_filename :: "str option"
  md_media_type :: "str option"
  md_signature :: "SignatureStanza option"
  md_extensions :: "Extension list"

section \<open>Shared readers and checks\<close>

text \<open>A decoder call under the question mark: its error becomes \<open>MalformedHeader\<close>.\<close>

definition rd :: "(bytes \<Rightarrow> ('a \<times> bytes) option) \<Rightarrow> bytes \<Rightarrow> FormatError + 'a \<times> bytes" where
  "rd f s = ok_or (f s) MalformedHeader"

definition u16_try_from :: "u64 \<Rightarrow> u16 option" where
  "u16_try_from v = (if unat v < 2 ^ 16 then Some (ucast v) else None)"

definition key :: "cbor_api \<Rightarrow> bytes \<Rightarrow> byte \<Rightarrow> FormatError + bytes" where
  "key C s expected =
     bindR (rd (dec_u8 C) s) (\<lambda>(k, s). if k \<noteq> expected then Inl MalformedHeader else Inr s)"

definition check_header_len :: "nat \<Rightarrow> FormatError + unit" where
  "check_header_len len = (if len = 0 \<or> MAX_HEADER_LEN < len then Inl HeaderTooLarge else Inr ())"

definition canonical :: "bytes \<Rightarrow> nat \<Rightarrow> bytes \<Rightarrow> FormatError + unit" where
  "canonical original consumed encoded =
     (if consumed \<noteq> length original \<or> original \<noteq> encoded then Inl NonCanonical else Inr ())"

text \<open>\<open>decoder.position()\<close> when \<open>rest\<close> remains of \<open>original\<close>.\<close>

definition position :: "bytes \<Rightarrow> bytes \<Rightarrow> nat" where
  "position original rest = length original - length rest"

primrec check_extensions_from :: "u64 \<Rightarrow> Extension list \<Rightarrow> FormatError + unit" where
  "check_extensions_from previous [] = Inr ()"
| "check_extensions_from previous (e # es) =
     (let k = ucast (ext_key e) :: u64
      in if k < FIRST_IGNORABLE_KEY \<or> k \<le> previous \<or> MAX_EXTENSION_LEN < length (ext_value e)
         then Inl MalformedHeader
         else check_extensions_from k es)"

definition check_extensions :: "Extension list \<Rightarrow> FormatError + unit" where
  "check_extensions es =
     (if MAX_EXTENSIONS < length es then Inl MalformedHeader else check_extensions_from 0 es)"

definition encode_extensions :: "cbor_api \<Rightarrow> Extension list \<Rightarrow> bytes" where
  "encode_extensions C es = concat (map (\<lambda>e. enc_u16 C (ext_key e) @ enc_bytes C (ext_value e)) es)"

primrec decode_extensions ::
  "cbor_api \<Rightarrow> nat \<Rightarrow> u64 \<Rightarrow> bytes \<Rightarrow> FormatError + Extension list \<times> bytes" where
  "decode_extensions C 0 previous s = Inr ([], s)"
| "decode_extensions C (Suc n) previous s =
     bindR (rd (dec_u64 C) s) (\<lambda>(k, s).
       if k \<le> previous then Inl MalformedHeader
       else if k < FIRST_IGNORABLE_KEY then Inl UnsupportedFeature
       else
         bindR (ok_or (u16_try_from k) MalformedHeader) (\<lambda>k.
         bindR (rd (dec_bytes C) s) (\<lambda>(v, s).
           if MAX_EXTENSION_LEN < length v then Inl MalformedHeader
           else
             bindR (decode_extensions C n (ucast k) s) (\<lambda>(es, s).
               Inr (\<lparr>ext_key = k, ext_value = v\<rparr> # es, s)))))"

definition encode_stanza :: "cbor_api \<Rightarrow> Stanza \<Rightarrow> FormatError + bytes" where
  "encode_stanza C stanza =
     (case stanza of
        XWing x \<Rightarrow>
          if length (rs_encapsulation x) \<noteq> ENCAPSULATION_LEN \<or> length (rs_wrapped_cek x) \<noteq> WRAPPED_CEK_LEN
          then Inl MalformedHeader
          else Inr (enc_array C 3 @ enc_u64 C XWING_TAG @ enc_bytes C (rs_encapsulation x)
                      @ enc_bytes C (rs_wrapped_cek x))
      | Unknown u \<Rightarrow>
          if (ucast (us_tag u) :: u64) \<le> XWING_TAG \<or> MAX_STANZA_ITEMS \<le> length (us_fields u)
             \<or> list_ex (\<lambda>f. MAX_EXTENSION_LEN < length f) (us_fields u)
          then Inl MalformedHeader
          else Inr (enc_array C (1 + len64 (us_fields u)) @ enc_u16 C (us_tag u)
                      @ concat (map (enc_bytes C) (us_fields u))))"

definition decode_field :: "cbor_api \<Rightarrow> bytes \<Rightarrow> FormatError + bytes \<times> bytes" where
  "decode_field C s =
     bindR (rd (dec_bytes C) s) (\<lambda>(f, s).
       if MAX_EXTENSION_LEN < length f then Inl MalformedHeader else Inr (f, s))"

definition decode_stanza :: "cbor_api \<Rightarrow> bytes \<Rightarrow> FormatError + Stanza \<times> bytes" where
  "decode_stanza C s =
     bindR (rd (dec_array C) s) (\<lambda>(items, s).
     bindR (ok_or items MalformedHeader) (\<lambda>items.
     if \<not> (1 \<le> unat items \<and> unat items \<le> MAX_STANZA_ITEMS) then Inl MalformedHeader
     else
       bindR (rd (dec_u64 C) s) (\<lambda>(tag, s).
       if tag = XWING_TAG then
         (if items \<noteq> 3 then Inl MalformedHeader
          else
            bindR (rd (dec_bytes C) s) (\<lambda>(encapsulation, s).
            bindR (rd (dec_bytes C) s) (\<lambda>(wrapped, s).
              if length encapsulation \<noteq> ENCAPSULATION_LEN \<or> length wrapped \<noteq> WRAPPED_CEK_LEN
              then Inl MalformedHeader
              else Inr (XWing \<lparr>rs_encapsulation = encapsulation, rs_wrapped_cek = wrapped\<rparr>, s))))
       else
         bindR (ok_or (u16_try_from tag) MalformedHeader) (\<lambda>tag.
           if tag = 0 then Inl MalformedHeader
           else
             bindR (repeatR (unat items - 1) (decode_field C) s) (\<lambda>(fields, s).
               Inr (Unknown \<lparr>us_tag = tag, us_fields = fields\<rparr>, s))))))"

definition encode_signature :: "cbor_api \<Rightarrow> SignatureStanza \<Rightarrow> bytes" where
  "encode_signature C st =
     enc_array C 3 @ enc_u8 C 1 @ enc_bytes C (ss_verifying_key st) @ enc_bytes C (ss_signature st)"

definition signature_bad :: "SignatureStanza \<Rightarrow> bool" where
  "signature_bad st \<longleftrightarrow>
     length (ss_verifying_key st) \<noteq> VERIFYING_KEY_LEN \<or> length (ss_signature st) \<noteq> SIGNATURE_LEN"

definition decode_signature :: "cbor_api \<Rightarrow> bytes \<Rightarrow> FormatError + SignatureStanza \<times> bytes" where
  "decode_signature C s =
     bindR (rd (dec_array C) s) (\<lambda>(items, s).
     if items \<noteq> Some 3 then Inl UnsupportedFeature
     else
       bindR (rd (dec_u8 C) s) (\<lambda>(version, s).
       if version \<noteq> 1 then Inl UnsupportedFeature
       else
         bindR (rd (dec_bytes C) s) (\<lambda>(vk, s).
         bindR (rd (dec_bytes C) s) (\<lambda>(sig, s).
           let st = \<lparr>ss_verifying_key = vk, ss_signature = sig\<rparr>
           in if signature_bad st then Inl MalformedHeader else Inr (st, s)))))"

section \<open>The protected header\<close>

definition ph_encode_with_signatures ::
  "cbor_api \<Rightarrow> ProtectedHeader \<Rightarrow> bool \<Rightarrow> FormatError + bytes" where
  "ph_encode_with_signatures C h include =
     (if ph_recipients h = [] \<or> MAX_RECIPIENTS < length (ph_recipients h) then Inl MalformedHeader
      else if \<not> (TAG_LEN \<le> length (ph_encrypted_metadata h)
                  \<and> length (ph_encrypted_metadata h) \<le> MAX_METADATA_LEN + TAG_LEN)
        then Inl InvalidMetadata
      else if MAX_SIGNATURES < length (ph_signatures h) then Inl MalformedHeader
      else
        bindR (map_err (\<lambda>_. MalformedHeader) (check_extensions (ph_extensions h))) (\<lambda>_.
        bindR (mapR (encode_stanza C) (ph_recipients h)) (\<lambda>stanzas.
        let signatures = (if include then ph_signatures h else []) in
        if list_ex signature_bad signatures then Inl MalformedHeader
        else
          let bytes =
            enc_map C (5 + len64 (ph_extensions h))
              @ enc_u8 C 1 @ enc_u16 C SUITE
              @ enc_u8 C 2 @ enc_bytes C (ph_object_id h)
              @ enc_u8 C 3 @ enc_array C (len64 (ph_recipients h)) @ concat stanzas
              @ enc_u8 C 4 @ enc_bytes C (ph_encrypted_metadata h)
              @ enc_u8 C 5 @ enc_array C (len64 signatures) @ concat (map (encode_signature C) signatures)
              @ encode_extensions C (ph_extensions h)
          in bindR (check_header_len (length bytes)) (\<lambda>_. Inr bytes))))"

definition ph_encode :: "cbor_api \<Rightarrow> ProtectedHeader \<Rightarrow> FormatError + bytes" where
  "ph_encode C h = ph_encode_with_signatures C h True"

definition ph_signing_base :: "cbor_api \<Rightarrow> ProtectedHeader \<Rightarrow> FormatError + bytes" where
  "ph_signing_base C h = ph_encode_with_signatures C h False"

text \<open>The error of the extension reader: a critical key stays \<open>UnsupportedFeature\<close>.\<close>

definition ext_error :: "FormatError \<Rightarrow> FormatError \<Rightarrow> FormatError" where
  "ext_error other e = (if e = UnsupportedFeature then e else other)"

definition ph_decode :: "cbor_api \<Rightarrow> bytes \<Rightarrow> FormatError + ProtectedHeader" where
  "ph_decode C bs =
     bindR (check_header_len (length bs)) (\<lambda>_.
     bindR (rd (dec_map C) bs) (\<lambda>(entries, s).
     bindR (ok_or entries MalformedHeader) (\<lambda>entries.
     if \<not> (5 \<le> unat entries \<and> unat entries \<le> 5 + MAX_EXTENSIONS) then Inl MalformedHeader
     else
     bindR (key C s 1) (\<lambda>s.
     bindR (rd (dec_u16 C) s) (\<lambda>(suite, s).
     if suite \<noteq> SUITE then Inl UnsupportedSuite
     else
     bindR (key C s 2) (\<lambda>s.
     bindR (rd (dec_bytes C) s) (\<lambda>(object_id, s).
     if length object_id \<noteq> 32 then Inl MalformedHeader
     else
     bindR (key C s 3) (\<lambda>s.
     bindR (rd (dec_array C) s) (\<lambda>(count, s).
     bindR (ok_or count MalformedHeader) (\<lambda>count.
     if count = 0 \<or> MAX_RECIPIENTS < unat count then Inl MalformedHeader
     else
     bindR (repeatR (unat count) (decode_stanza C) s) (\<lambda>(recipients, s).
     bindR (key C s 4) (\<lambda>s.
     bindR (rd (dec_bytes C) s) (\<lambda>(metadata, s).
     if \<not> (TAG_LEN \<le> length metadata \<and> length metadata \<le> MAX_METADATA_LEN + TAG_LEN)
     then Inl InvalidMetadata
     else
     bindR (key C s 5) (\<lambda>s.
     bindR (rd (dec_array C) s) (\<lambda>(signature_count, s).
     bindR (ok_or signature_count MalformedHeader) (\<lambda>signature_count.
     if MAX_SIGNATURES < unat signature_count then Inl MalformedHeader
     else
     bindR (repeatR (unat signature_count) (decode_signature C) s) (\<lambda>(signatures, s).
     bindR (map_err (ext_error MalformedHeader) (decode_extensions C (unat entries - 5) 5 s)) (\<lambda>(extensions, s).
     let header = \<lparr>ph_object_id = object_id, ph_recipients = recipients,
                   ph_encrypted_metadata = metadata, ph_signatures = signatures,
                   ph_extensions = extensions\<rparr> in
     bindR (ph_encode C header) (\<lambda>encoded.
     bindR (canonical bs (position bs s) encoded) (\<lambda>_.
     Inr header))))))))))))))))))))"

definition encode_header :: "cbor_api \<Rightarrow> bytes \<Rightarrow> bytes \<Rightarrow> FormatError + bytes" where
  "encode_header C protected mac =
     bindR (check_header_len (length protected)) (\<lambda>_.
       let bytes = enc_array C 2 @ enc_bytes C protected @ enc_bytes C mac
       in bindR (check_header_len (length bytes)) (\<lambda>_. Inr bytes))"

definition decode_header :: "cbor_api \<Rightarrow> bytes \<Rightarrow> FormatError + bytes \<times> bytes" where
  "decode_header C bs =
     bindR (check_header_len (length bs)) (\<lambda>_.
     bindR (rd (dec_array C) bs) (\<lambda>(items, s).
     if items \<noteq> Some 2 then Inl MalformedHeader
     else
     bindR (rd (dec_bytes C) s) (\<lambda>(protected, s).
     bindR (rd (dec_bytes C) s) (\<lambda>(mac, s).
     if length mac \<noteq> 32 then Inl MalformedHeader
     else
     bindR (encode_header C protected mac) (\<lambda>encoded.
     bindR (canonical bs (position bs s) encoded) (\<lambda>_.
     Inr (protected, mac)))))))"

section \<open>Metadata\<close>

definition to_ascii_uppercase :: "bytes \<Rightarrow> bytes" where
  "to_ascii_uppercase = map (\<lambda>b. if 0x61 \<le> b \<and> b \<le> 0x7A then b - 0x20 else b)"

text \<open>\<open>char::is_control\<close> on the bytes of a UTF-8 string: U+0000 to U+001F, U+007F, and U+0080 to
  U+009F, which UTF-8 writes as \<open>C2 80\<close> to \<open>C2 9F\<close>.\<close>

fun has_control :: "str \<Rightarrow> bool" where
  "has_control [] = False"
| "has_control (a # r) =
     (a < 0x20 \<or> a = 0x7F
      \<or> (a = 0xC2 \<and> (case r of [] \<Rightarrow> False | b # _ \<Rightarrow> 0x80 \<le> b \<and> b \<le> 0x9F))
      \<or> has_control r)"

definition FORBIDDEN :: bytes where
  "FORBIDDEN = [0x3C, 0x3E, 0x3A, 0x22, 0x2F, 0x5C, 0x7C, 0x3F, 0x2A]"

definition validate_filename :: "str \<Rightarrow> FormatError + unit" where
  "validate_filename filename =
     (let stem = to_ascii_uppercase (takeWhile (\<lambda>b. b \<noteq> 0x2E) filename);
          reserved = stem \<in> {ascii ''CON'', ascii ''PRN'', ascii ''AUX'', ascii ''NUL''}
            \<or> (length stem = 4 \<and> (take 3 stem = ascii ''COM'' \<or> take 3 stem = ascii ''LPT'')
               \<and> 0x31 \<le> stem ! 3 \<and> stem ! 3 \<le> 0x39)
      in if filename = [] \<or> 255 < length filename
            \<or> filename = ascii ''.'' \<or> filename = ascii ''..''
            \<or> last filename = 0x2E \<or> last filename = 0x20
            \<or> reserved
            \<or> has_control filename \<or> list_ex (\<lambda>b. b \<in> set FORBIDDEN) filename
         then Inl InvalidMetadata else Inr ())"

definition encode_filename :: "cbor_api \<Rightarrow> str option \<Rightarrow> FormatError + bytes" where
  "encode_filename C f =
     (case f of None \<Rightarrow> Inr []
      | Some filename \<Rightarrow>
          bindR (validate_filename filename) (\<lambda>_. Inr (enc_u8 C 1 @ enc_str C filename)))"

definition encode_media_type :: "cbor_api \<Rightarrow> str option \<Rightarrow> FormatError + bytes" where
  "encode_media_type C m =
     (case m of None \<Rightarrow> Inr []
      | Some media_type \<Rightarrow>
          if media_type = [] \<or> 255 < length media_type
             \<or> \<not> list_all (\<lambda>b. 32 \<le> b \<and> b \<le> 126) media_type
          then Inl InvalidMetadata
          else Inr (enc_u8 C 2 @ enc_str C media_type))"

definition encode_md_signature :: "cbor_api \<Rightarrow> SignatureStanza option \<Rightarrow> FormatError + bytes" where
  "encode_md_signature C sig =
     (case sig of None \<Rightarrow> Inr []
      | Some st \<Rightarrow>
          if signature_bad st then Inl InvalidMetadata else Inr (enc_u8 C 3 @ encode_signature C st))"

definition count_opt :: "'a option \<Rightarrow> u64" where
  "count_opt x = (case x of None \<Rightarrow> 0 | Some _ \<Rightarrow> 1)"

definition md_encode_with_signature :: "cbor_api \<Rightarrow> Metadata \<Rightarrow> bool \<Rightarrow> FormatError + bytes" where
  "md_encode_with_signature C m include =
     (let signature = (if include then md_signature m else None) in
      bindR (map_err (\<lambda>_. InvalidMetadata) (check_extensions (md_extensions m))) (\<lambda>_.
      bindR (encode_filename C (md_filename m)) (\<lambda>f.
      bindR (encode_media_type C (md_media_type m)) (\<lambda>t.
      bindR (encode_md_signature C signature) (\<lambda>g.
        Inr (enc_map C (count_opt (md_filename m) + count_opt (md_media_type m) + count_opt signature
                          + len64 (md_extensions m))
               @ f @ t @ g @ encode_extensions C (md_extensions m)))))))"

definition md_encode :: "cbor_api \<Rightarrow> Metadata \<Rightarrow> FormatError + bytes" where
  "md_encode C m = md_encode_with_signature C m True"

definition md_signing_base :: "cbor_api \<Rightarrow> Metadata \<Rightarrow> FormatError + bytes" where
  "md_signing_base C m = md_encode_with_signature C m False"

definition md_default :: Metadata where
  "md_default = \<lparr>md_filename = None, md_media_type = None, md_signature = None, md_extensions = []\<rparr>"

text \<open>The loop over the core keys: it stops at the first key past 3, without consuming it.\<close>

primrec md_loop ::
  "cbor_api \<Rightarrow> nat \<Rightarrow> u64 \<Rightarrow> Metadata \<Rightarrow> bytes \<Rightarrow> FormatError + nat \<times> u64 \<times> Metadata \<times> bytes" where
  "md_loop C 0 previous m s = Inr (0, previous, m, s)"
| "md_loop C (Suc n) previous m s =
     bindR (rd (dec_u64 C) s) (\<lambda>(field, s').
       if 3 < field then Inr (Suc n, previous, m, s)
       else if field \<le> previous \<or> field = 0 then Inl InvalidMetadata
       else if field = 3 then
         bindR (map_err (\<lambda>_. InvalidMetadata) (decode_signature C s')) (\<lambda>(st, s).
           md_loop C n field (m\<lparr>md_signature := Some st\<rparr>) s)
       else
         bindR (rd (dec_str C) s') (\<lambda>(t, s).
           if 255 < length t then Inl InvalidMetadata
           else if field = 1 then md_loop C n field (m\<lparr>md_filename := Some t\<rparr>) s
           else if field = 2 then md_loop C n field (m\<lparr>md_media_type := Some t\<rparr>) s
           else Inl InvalidMetadata))"

definition md_decode :: "cbor_api \<Rightarrow> bytes \<Rightarrow> FormatError + Metadata" where
  "md_decode C bs =
     (if MAX_METADATA_LEN < length bs then Inl InvalidMetadata
      else
        bindR (rd (dec_map C) bs) (\<lambda>(count, s).
        bindR (ok_or count InvalidMetadata) (\<lambda>count.
        if 3 + MAX_EXTENSIONS < unat count then Inl InvalidMetadata
        else
        bindR (md_loop C (unat count) 0 md_default s) (\<lambda>(remaining, previous, m, s).
        bindR (map_err (ext_error InvalidMetadata) (decode_extensions C remaining previous s)) (\<lambda>(es, s).
        let m = m\<lparr>md_extensions := es\<rparr> in
        bindR (md_encode C m) (\<lambda>encoded.
        bindR (canonical bs (position bs s) encoded) (\<lambda>_.
        Inr m)))))))"

section \<open>Lemmas\<close>

lemma rd_Some [simp]: "f s = Some x \<Longrightarrow> rd f s = Inr x"
  by (simp add: rd_def)

lemma rd_Inr_iff [result_simps]: "rd f s = Inr x \<longleftrightarrow> f s = Some x"
  by (simp add: rd_def result_simps)

lemma unat_ucast16 [simp]: "unat (ucast (k :: u16) :: u64) = unat k"
  using unsigned_less [of k, where ?'a = nat] by (simp add: unsigned_ucast_eq take_bit_nat_def)

lemma u16_try_from_ucast [simp]: "u16_try_from (ucast k) = Some k"
  using unsigned_less [of k, where ?'a = nat] by (simp add: u16_try_from_def ucast_up_ucast_id is_up)

lemma check_header_len_Inr [result_simps]: "check_header_len n = Inr u \<longleftrightarrow> 0 < n \<and> n \<le> MAX_HEADER_LEN"
  by (auto simp: check_header_len_def)

lemma canonical_Inr [result_simps]: "canonical bs n e = Inr u \<longleftrightarrow> n = length bs \<and> bs = e"
  by (auto simp: canonical_def)

lemma key_read_back [simp]: "cbor_laws C \<Longrightarrow> key C (enc_u8 C k @ r) k = Inr r"
  by (simp add: key_def cbor_read_back)

lemma decode_encode_extensions:
  assumes "cbor_laws C"
  shows "check_extensions_from p es = Inr () \<Longrightarrow> q = p \<or> q < FIRST_IGNORABLE_KEY \<Longrightarrow>
    decode_extensions C (length es) q (encode_extensions C es @ r) = Inr (es, r)"
proof (induction es arbitrary: p q)
  case (Cons e es)
  let ?k = "ucast (ext_key e) :: u64"
  have k: "\<not> ?k < FIRST_IGNORABLE_KEY" "p < ?k" "length (ext_value e) \<le> MAX_EXTENSION_LEN"
    and es: "check_extensions_from ?k es = Inr ()"
    using Cons.prems(1) by (auto simp: Let_def split: if_splits)
  have "\<not> ?k \<le> q" using Cons.prems(2) k by auto
  moreover have "length (ext_value e) < 2 ^ 64" using k(3) by (simp add: format_limits)
  ultimately show ?case
    using Cons.IH [OF es, of ?k] k cbor_read_back [OF assms]
    by (simp add: encode_extensions_def)
qed (simp add: encode_extensions_def)

lemma decode_encode_stanza:
  assumes "cbor_laws C" "encode_stanza C st = Inr bs"
  shows "decode_stanza C (bs @ r) = Inr (st, r)"
proof (cases st)
  case (XWing x)
  then show ?thesis
    using assms cbor_read_back [OF assms(1)]
    by (auto simp: encode_stanza_def decode_stanza_def format_limits split: if_splits)
next
  case (Unknown u)
  let ?n = "length (us_fields u)"
  have tag: "\<not> (ucast (us_tag u) :: u64) \<le> XWING_TAG" and n: "?n < 8"
    and f: "\<forall>f\<in>set (us_fields u). length f \<le> MAX_EXTENSION_LEN"
    and bs: "bs = enc_array C (1 + len64 (us_fields u)) @ enc_u16 C (us_tag u)
                    @ concat (map (enc_bytes C) (us_fields u))"
    using assms(2) Unknown
    by (auto simp: encode_stanza_def MAX_STANZA_ITEMS_def list_ex_iff not_le not_less split: if_splits)
  have items: "unat (1 + len64 (us_fields u) :: u64) = 1 + ?n"
    using n by (simp add: len64_def unat_word_ariths unat_of_nat)
  have "us_tag u \<noteq> 0" "(ucast (us_tag u) :: u64) \<noteq> XWING_TAG" using tag by (auto simp: format_limits)
  moreover have "repeatR ?n (decode_field C) (concat (map (enc_bytes C) (us_fields u)) @ r) = Inr (us_fields u, r)"
    using f by (intro repeatR_concat) (auto simp: decode_field_def cbor_read_back(6) [OF assms(1)] format_limits
        dest!: bspec)
  ultimately show ?thesis
    using n cbor_read_back [OF assms(1)] Unknown
    by (simp add: bs decode_stanza_def items MAX_STANZA_ITEMS_def)
qed

lemma decode_encode_signature:
  assumes "cbor_laws C" "\<not> signature_bad st"
  shows "decode_signature C (encode_signature C st @ r) = Inr (st, r)"
  using assms cbor_read_back [OF assms(1)]
  by (simp add: decode_signature_def encode_signature_def signature_bad_def format_limits)

lemma repeatR_mapR:
  assumes "mapR enc xs = Inr bs" "\<And>x b r. x \<in> set xs \<Longrightarrow> enc x = Inr b \<Longrightarrow> item (b @ r) = Inr (x, r)"
  shows "repeatR (length xs) item (concat bs @ r) = Inr (xs, r)"
  using assms
proof (induction xs arbitrary: bs)
  case (Cons x xs)
  then obtain b bs' where "enc x = Inr b" "mapR enc xs = Inr bs'" "bs = b # bs'"
    by (auto simp: result_simps)
  moreover have "item (b @ concat bs' @ r) = Inr (x, concat bs' @ r)"
    by (rule Cons.prems(2)) (simp_all add: \<open>enc x = Inr b\<close>)
  moreover have "repeatR (length xs) item (concat bs' @ r) = Inr (xs, r)"
    using \<open>mapR enc xs = Inr bs'\<close> by (rule Cons.IH) (simp add: Cons.prems(2))
  ultimately show ?case by simp
qed simp

section \<open>The header codec\<close>

definition ph_ty :: "ProtectedHeader \<Rightarrow> bool" where
  "ph_ty h \<longleftrightarrow> length (ph_object_id h) = 32"

lemma unat_len64_small: "length xs \<le> 2 ^ 32 \<Longrightarrow> unat (len64 xs) = length xs"
  by (rule unat_len64) simp

lemma ph_eta: "\<lparr>ph_object_id = ph_object_id h, ph_recipients = ph_recipients h,
    ph_encrypted_metadata = ph_encrypted_metadata h, ph_signatures = ph_signatures h,
    ph_extensions = ph_extensions h\<rparr> = h"
  by simp

lemma ph_decode_encode:
  assumes "cbor_laws C" "ph_ty h" "ph_encode C h = Inr bs"
  shows "ph_decode C bs = Inr h"
proof -
  obtain stanzas where st: "mapR (encode_stanza C) (ph_recipients h) = Inr stanzas"
    and rec: "ph_recipients h \<noteq> []" "length (ph_recipients h) \<le> 64"
    and md: "TAG_LEN \<le> length (ph_encrypted_metadata h)" "length (ph_encrypted_metadata h) \<le> MAX_METADATA_LEN + TAG_LEN"
    and sg: "length (ph_signatures h) \<le> 1" "\<forall>s\<in>set (ph_signatures h). \<not> signature_bad s"
    and ex: "length (ph_extensions h) \<le> 16" "check_extensions_from 0 (ph_extensions h) = Inr ()"
    and bs: "bs = enc_map C (5 + len64 (ph_extensions h))
              @ enc_u8 C 1 @ enc_u16 C SUITE
              @ enc_u8 C 2 @ enc_bytes C (ph_object_id h)
              @ enc_u8 C 3 @ enc_array C (len64 (ph_recipients h)) @ concat stanzas
              @ enc_u8 C 4 @ enc_bytes C (ph_encrypted_metadata h)
              @ enc_u8 C 5 @ enc_array C (len64 (ph_signatures h))
              @ concat (map (encode_signature C) (ph_signatures h))
              @ encode_extensions C (ph_extensions h)"
    and len: "check_header_len (length bs) = Inr ()"
    using assms(3)
    by (auto simp: ph_encode_def ph_encode_with_signatures_def result_simps Let_def list_ex_iff
        check_extensions_def MAX_RECIPIENTS_def MAX_SIGNATURES_def MAX_EXTENSIONS_def split: if_splits)
  have e: "unat (5 + len64 (ph_extensions h) :: u64) = 5 + length (ph_extensions h)"
    using ex(1) by (simp add: len64_def unat_word_ariths unat_of_nat)
  have n: "unat (len64 (ph_recipients h)) = length (ph_recipients h)"
    "unat (len64 (ph_signatures h)) = length (ph_signatures h)" "len64 (ph_recipients h) \<noteq> 0"
    using rec sg(1) by (auto simp: unat_len64 unat_eq_0 [symmetric])
  have b: "length (ph_object_id h) < 2 ^ 64" "length (ph_encrypted_metadata h) < 2 ^ 64"
    using assms(2) md by (auto simp: ph_ty_def format_limits)
  note rb = cbor_read_back [OF assms(1)] key_read_back [OF assms(1)]
  have "repeatR (length (ph_recipients h)) (decode_stanza C) (concat stanzas @ r) = Inr (ph_recipients h, r)" for r
    using st by (rule repeatR_mapR) (rule decode_encode_stanza [OF assms(1)])
  moreover have "repeatR (length (ph_signatures h)) (decode_signature C)
      (concat (map (encode_signature C) (ph_signatures h)) @ r) = Inr (ph_signatures h, r)" for r
    using sg(2) by (intro repeatR_concat decode_encode_signature [OF assms(1)]) simp
  moreover have "decode_extensions C (length (ph_extensions h)) 5 (encode_extensions C (ph_extensions h)) = Inr (ph_extensions h, [])"
    using decode_encode_extensions [OF assms(1) ex(2), of 5 "[]"] by (simp add: FIRST_IGNORABLE_KEY_def)
  ultimately show ?thesis
    unfolding ph_decode_def len
    using assms(2,3) rec md sg ex n e b
    by (simp add: bs rb ph_ty_def MAX_RECIPIENTS_def MAX_SIGNATURES_def MAX_EXTENSIONS_def position_def canonical_def
        Let_def ph_eta)
qed

lemma ph_encode_decode:
  assumes "ph_decode C bs = Inr h"
  shows "ph_ty h \<and> ph_encode C h = Inr bs"
  using assms unfolding ph_decode_def Let_def
  by (elim result_elims) (clarsimp simp: ph_ty_def result_simps)

interpretation ph: checked_codec cbor_laws ph_ty ph_encode ph_decode
  by unfold_locales (fact ph_decode_encode, rule ph_encode_decode)

definition frame_ty :: "bytes \<times> bytes \<Rightarrow> bool" where
  "frame_ty f \<longleftrightarrow> length (snd f) = 32"

lemma decode_encode_header:
  assumes "cbor_laws C" "length mac = 32" "encode_header C protected mac = Inr bs"
  shows "decode_header C bs = Inr (protected, mac)"
proof -
  have len: "0 < length protected" "length protected \<le> MAX_HEADER_LEN"
    and bs: "bs = enc_array C 2 @ enc_bytes C protected @ enc_bytes C mac"
    and c: "check_header_len (length bs) = Inr ()"
    using assms(3) by (auto simp: encode_header_def result_simps Let_def)
  have "length protected < 2 ^ 64" "length mac < 2 ^ 64" using len assms(2) by (auto simp: format_limits)
  then show ?thesis
    unfolding decode_header_def c
    using assms(2,3) cbor_read_back [OF assms(1)] cbor_read_back_end [OF assms(1)]
    by (simp add: bs canonical_def position_def)
qed

lemma encode_decode_header:
  "decode_header C bs = Inr (protected, mac) \<Longrightarrow> length mac = 32 \<and> encode_header C protected mac = Inr bs"
  by (auto simp: decode_header_def result_simps split: prod.splits if_splits)

interpretation frame: checked_codec cbor_laws frame_ty "\<lambda>C (p, m). encode_header C p m" decode_header
  by unfold_locales
    (auto simp: frame_ty_def decode_encode_header dest: encode_decode_header)

section \<open>The metadata codec\<close>

definition md_ty :: "Metadata \<Rightarrow> bool" where
  "md_ty m \<longleftrightarrow> (\<forall>f. md_filename m = Some f \<longrightarrow> utf8_valid f) \<and> (\<forall>t. md_media_type m = Some t \<longrightarrow> utf8_valid t)"

lemma validate_filename_len: "validate_filename f = Inr () \<Longrightarrow> length f \<le> 255"
  by (auto simp: validate_filename_def Let_def split: if_splits)

text \<open>The core-key loop, one optional field after the other. \<open>E\<close> is the extension run that follows.\<close>

definition opt_n :: "'a option \<Rightarrow> nat" where
  "opt_n x = (case x of None \<Rightarrow> 0 | Some _ \<Rightarrow> 1)"

lemma opt_n_simps [simp]: "opt_n None = 0" "opt_n (Some x) = 1"
  by (simp_all add: opt_n_def)

lemma md_loop_stop:
  assumes "cbor_laws C" "check_extensions_from 0 es = Inr ()"
  shows "md_loop C (length es) p m (encode_extensions C es) = Inr (length es, p, m, encode_extensions C es)"
proof (cases es)
  case (Cons e es')
  then have "\<not> (ucast (ext_key e) :: u64) < FIRST_IGNORABLE_KEY"
    using assms(2) by (auto simp: Let_def split: if_splits)
  then have "3 < (ucast (ext_key e) :: u64)" by (simp add: FIRST_IGNORABLE_KEY_def word_less_nat_alt word_le_nat_alt)
  then show ?thesis
    using cbor_read_back [OF assms(1)] Cons by (simp add: encode_extensions_def)
qed simp

lemma md_loop_signature:
  assumes "cbor_laws C" "check_extensions_from 0 es = Inr ()" "encode_md_signature C sg = Inr g"
    and "p < 3" "md_signature m = None"
  shows "\<exists>q. q \<le> 3 \<and> md_loop C (opt_n sg + length es) p m (g @ encode_extensions C es)
    = Inr (length es, q, m\<lparr>md_signature := sg\<rparr>, encode_extensions C es)"
proof (cases sg)
  case None
  then have "g = []" using assms(3) by (simp add: encode_md_signature_def)
  then show ?thesis
    using md_loop_stop [OF assms(1,2), of p m] assms(4,5) None
    by (intro exI [of _ p]) (cases m, simp)
next
  case (Some st)
  then have st: "\<not> signature_bad st" "g = enc_u8 C 3 @ encode_signature C st"
    using assms(3) by (auto simp: encode_md_signature_def split: if_splits)
  then show ?thesis
    using md_loop_stop [OF assms(1,2), of 3 "m\<lparr>md_signature := Some st\<rparr>"] assms(4) Some
      cbor_read_back [OF assms(1)] decode_encode_signature [OF assms(1) st(1)]
    by (intro exI [of _ 3]) (simp add: not_le)
qed

lemma md_loop_media_type:
  assumes "cbor_laws C" "check_extensions_from 0 es = Inr ()" "encode_md_signature C sg = Inr g"
    and "encode_media_type C mt = Inr t" "\<forall>x. mt = Some x \<longrightarrow> utf8_valid x"
    and "p < 2" "md_signature m = None" "md_media_type m = None"
  shows "\<exists>q. q \<le> 3 \<and> md_loop C (opt_n mt + (opt_n sg + length es)) p m (t @ g @ encode_extensions C es)
    = Inr (length es, q, m\<lparr>md_media_type := mt, md_signature := sg\<rparr>, encode_extensions C es)"
proof (cases mt)
  case None
  then have "t = []" using assms(4) by (simp add: encode_media_type_def)
  moreover have "p < 3" using assms(6) by (rule less_trans) simp
  moreover have "m\<lparr>md_media_type := None\<rparr> = m" using assms(8) by (cases m) simp
  ultimately show ?thesis
    using md_loop_signature [OF assms(1-3) _ assms(7), of p] None by simp
next
  case (Some x)
  then have t: "length x \<le> 255" "t = enc_u8 C 2 @ enc_str C x" "utf8_valid x"
    using assms(4,5) by (auto simp: encode_media_type_def split: if_splits)
  obtain q where "q \<le> 3" "md_loop C (opt_n sg + length es) 2 (m\<lparr>md_media_type := mt\<rparr>) (g @ encode_extensions C es)
    = Inr (length es, q, m\<lparr>md_media_type := mt, md_signature := sg\<rparr>, encode_extensions C es)"
    using md_loop_signature [OF assms(1-3), of 2 "m\<lparr>md_media_type := mt\<rparr>"] assms(7) by auto
  then show ?thesis
    using assms(6) t Some cbor_read_back [OF assms(1)]
    by (intro exI [of _ q]) (simp add: not_le)
qed

lemma md_loop_filename:
  assumes "cbor_laws C" "check_extensions_from 0 es = Inr ()" "encode_md_signature C sg = Inr g"
    and "encode_media_type C mt = Inr t" "\<forall>x. mt = Some x \<longrightarrow> utf8_valid x"
    and "encode_filename C fn = Inr f" "\<forall>x. fn = Some x \<longrightarrow> utf8_valid x"
  shows "\<exists>q. q \<le> 3 \<and> md_loop C (opt_n fn + (opt_n mt + (opt_n sg + length es))) 0 md_default
      (f @ t @ g @ encode_extensions C es)
    = Inr (length es, q, md_default\<lparr>md_filename := fn, md_media_type := mt, md_signature := sg\<rparr>, encode_extensions C es)"
proof (cases fn)
  case None
  then have "f = []" using assms(6) by (simp add: encode_filename_def)
  moreover have "md_default\<lparr>md_filename := None\<rparr> = md_default" by (simp add: md_default_def)
  ultimately show ?thesis
    using md_loop_media_type [OF assms(1-5), of 0 md_default] None by (simp add: md_default_def)
next
  case (Some x)
  then have f: "length x \<le> 255" "f = enc_u8 C 1 @ enc_str C x" "utf8_valid x"
    using assms(6,7) by (auto simp: encode_filename_def result_simps dest: validate_filename_len)
  obtain q where "q \<le> 3" "md_loop C (opt_n mt + (opt_n sg + length es)) 1 (md_default\<lparr>md_filename := fn\<rparr>)
        (t @ g @ encode_extensions C es)
    = Inr (length es, q, md_default\<lparr>md_filename := fn, md_media_type := mt, md_signature := sg\<rparr>, encode_extensions C es)"
    using md_loop_media_type [OF assms(1-5), of 1 "md_default\<lparr>md_filename := fn\<rparr>"] by (auto simp: md_default_def)
  then show ?thesis
    using f Some cbor_read_back [OF assms(1)] by (intro exI [of _ q]) simp
qed

text \<open>\<open>encode\<close> followed by the size limit that the header encoder enforces on the sealed metadata.\<close>

definition md_encode_bounded :: "cbor_api \<Rightarrow> Metadata \<Rightarrow> FormatError + bytes" where
  "md_encode_bounded C m =
     bindR (md_encode C m) (\<lambda>bs. if MAX_METADATA_LEN < length bs then Inl InvalidMetadata else Inr bs)"

lemma md_decode_encode:
  assumes "cbor_laws C" "md_ty m" "md_encode C m = Inr bs" "length bs \<le> MAX_METADATA_LEN"
  shows "md_decode C bs = Inr m"
proof -
  let ?es = "md_extensions m"
  obtain f t g where p: "encode_filename C (md_filename m) = Inr f" "encode_media_type C (md_media_type m) = Inr t"
      "encode_md_signature C (md_signature m) = Inr g"
    and ex: "length ?es \<le> 16" "check_extensions_from 0 ?es = Inr ()"
    and bs: "bs = enc_map C (count_opt (md_filename m) + count_opt (md_media_type m)
        + count_opt (md_signature m) + len64 ?es) @ f @ t @ g @ encode_extensions C ?es"
    using assms(3)
    by (auto simp: md_encode_def md_encode_with_signature_def result_simps Let_def check_extensions_def
        MAX_EXTENSIONS_def split: if_splits)
  have n: "unat (count_opt (md_filename m) + count_opt (md_media_type m) + count_opt (md_signature m) + len64 ?es)
      = opt_n (md_filename m) + (opt_n (md_media_type m) + (opt_n (md_signature m) + length ?es))"
    using ex(1) by (auto simp: count_opt_def opt_n_def len64_def unat_word_ariths unat_of_nat split: option.splits)
  have small: "opt_n (md_filename m) + (opt_n (md_media_type m) + (opt_n (md_signature m) + length ?es)) \<le> 19"
    using ex(1) by (auto simp: opt_n_def split: option.splits)
  obtain q where q: "q \<le> 3"
    and loop: "md_loop C (opt_n (md_filename m) + (opt_n (md_media_type m) + (opt_n (md_signature m) + length ?es)))
        0 md_default (f @ t @ g @ encode_extensions C ?es)
      = Inr (length ?es, q, md_default\<lparr>md_filename := md_filename m, md_media_type := md_media_type m,
          md_signature := md_signature m\<rparr>, encode_extensions C ?es)"
    using md_loop_filename [OF assms(1) ex(2) p(3,2) _ p(1)] assms(2) by (auto simp: md_ty_def)
  have "q < FIRST_IGNORABLE_KEY" using q by (rule le_less_trans) (simp add: FIRST_IGNORABLE_KEY_def)
  then have "decode_extensions C (length ?es) q (encode_extensions C ?es) = Inr (?es, [])"
    using decode_encode_extensions [OF assms(1) ex(2), of q "[]"] by simp
  moreover have eta: "md_default\<lparr>md_filename := md_filename m, md_media_type := md_media_type m,
      md_signature := md_signature m, md_extensions := ?es\<rparr> = m" by (cases m) (simp add: md_default_def)
  ultimately show ?thesis
    using assms(3,4) cbor_read_back [OF assms(1)] small
    by (simp add: bs md_decode_def n loop MAX_EXTENSIONS_def canonical_def position_def Let_def eta)
qed

lemma md_ty_update [simp]:
  "md_ty (m\<lparr>md_signature := x\<rparr>) = md_ty m"
  "md_ty (m\<lparr>md_extensions := es\<rparr>) = md_ty m"
  "md_ty m \<Longrightarrow> utf8_valid t \<Longrightarrow> md_ty (m\<lparr>md_filename := Some t\<rparr>)"
  "md_ty m \<Longrightarrow> utf8_valid t \<Longrightarrow> md_ty (m\<lparr>md_media_type := Some t\<rparr>)"
  by (simp_all add: md_ty_def)

lemma md_loop_ty:
  assumes "cbor_laws C"
  shows "md_loop C n p m s = Inr (k, q, m', s') \<Longrightarrow> md_ty m \<Longrightarrow> md_ty m'"
proof (induction n arbitrary: p m s)
  case (Suc n)
  show ?case
    using Suc.prems
    by (auto simp: result_simps split: prod.splits if_splits
        dest: cbor_str_utf8 [OF assms] intro: Suc.IH md_ty_update)
qed auto

lemma md_encode_decode:
  assumes "cbor_laws C" "md_decode C bs = Inr m"
  shows "md_ty m \<and> md_encode C m = Inr bs \<and> length bs \<le> MAX_METADATA_LEN"
proof -
  have "md_ty md_default" by (simp add: md_ty_def md_default_def)
  with assms(2) show ?thesis
    unfolding md_decode_def Let_def
    by (elim result_elims) (auto simp: result_simps dest: md_loop_ty [OF assms(1)])
qed

interpretation md: checked_codec cbor_laws md_ty md_encode_bounded md_decode
  by unfold_locales
    (auto simp: md_encode_bounded_def result_simps md_decode_encode dest: md_encode_decode split: if_splits)

section \<open>Signing bases\<close>

lemma ph_signing_base_eq:
  "length (ph_signatures h) \<le> MAX_SIGNATURES \<Longrightarrow> ph_signing_base C h = ph_encode C (h\<lparr>ph_signatures := []\<rparr>)"
  by (simp add: ph_signing_base_def ph_encode_def ph_encode_with_signatures_def)

lemma ph_signing_base_len: "ph_signing_base C h = Inr b \<Longrightarrow> length (ph_signatures h) \<le> MAX_SIGNATURES"
  by (auto simp: ph_signing_base_def ph_encode_with_signatures_def split: if_splits)

lemma ph_signing_base_inj:
  assumes "cbor_laws C" "ph_ty h" "ph_ty h'" "ph_signing_base C h = Inr b" "ph_signing_base C h' = Inr b"
  shows "h\<lparr>ph_signatures := []\<rparr> = h'\<lparr>ph_signatures := []\<rparr>"
proof (rule ph.enc_inj [OF assms(1)])
  show "ph_ty (h\<lparr>ph_signatures := []\<rparr>)" "ph_ty (h'\<lparr>ph_signatures := []\<rparr>)" using assms(2,3) by (simp_all add: ph_ty_def)
  show "ph_encode C (h\<lparr>ph_signatures := []\<rparr>) = Inr b" "ph_encode C (h'\<lparr>ph_signatures := []\<rparr>) = Inr b"
    using assms(4,5) ph_signing_base_len ph_signing_base_eq by metis+
qed

lemma md_signing_base_eq: "md_signing_base C m = md_encode C (m\<lparr>md_signature := None\<rparr>)"
  by (simp add: md_signing_base_def md_encode_def md_encode_with_signature_def)

lemma md_signing_base_inj:
  assumes "cbor_laws C" "md_ty m" "md_ty m'" "md_signing_base C m = Inr b" "md_signing_base C m' = Inr b"
    and "length b \<le> MAX_METADATA_LEN"
  shows "m\<lparr>md_signature := None\<rparr> = m'\<lparr>md_signature := None\<rparr>"
  using md.enc_inj [OF assms(1), of "m\<lparr>md_signature := None\<rparr>" "m'\<lparr>md_signature := None\<rparr>" b] assms(2-)
  by (simp add: md_signing_base_eq md_encode_bounded_def)

section \<open>A concrete header\<close>

definition demo_header :: ProtectedHeader where
  "demo_header = \<lparr>ph_object_id = replicate 32 7,
     ph_recipients = [Unknown \<lparr>us_tag = 9, us_fields = [[1, 2]]\<rparr>],
     ph_encrypted_metadata = replicate 16 0, ph_signatures = [],
     ph_extensions = [\<lparr>ext_key = 64, ext_value = [5]\<rparr>]\<rparr>"

definition demo_metadata :: Metadata where
  "demo_metadata = \<lparr>md_filename = Some (ascii ''a.txt''), md_media_type = None, md_signature = None,
     md_extensions = [\<lparr>ext_key = 70, ext_value = [5]\<rparr>]\<rparr>"

lemma demo_header_encodes: "\<exists>bs. ph_encode ref_cbor demo_header = Inr bs"
  by (simp add: ph_encode_def ph_encode_with_signatures_def demo_header_def ref_cbor_def cbor_head_def
      encode_stanza_def encode_extensions_def check_extensions_def check_header_len_def format_limits len64_def
      word_less_nat_alt word_le_nat_alt Let_def)

lemma demo_metadata_encodes: "\<exists>bs. md_encode ref_cbor demo_metadata = Inr bs \<and> length bs \<le> MAX_METADATA_LEN"
  by (simp add: md_encode_def md_encode_with_signature_def demo_metadata_def ref_cbor_def cbor_head_def
      encode_extensions_def check_extensions_def format_limits len64_def encode_filename_def encode_media_type_def
      encode_md_signature_def count_opt_def validate_filename_def ascii_def to_ascii_uppercase_def FORBIDDEN_def
      word_less_nat_alt word_le_nat_alt Let_def)

section \<open>Properties\<close>

text \<open>The limits of the protocol, as a condition on a decoded header.\<close>

definition extensions_wf :: "Extension list \<Rightarrow> bool" where
  "extensions_wf es \<longleftrightarrow> length es \<le> MAX_EXTENSIONS \<and> sorted_wrt (<) (map ext_key es)
     \<and> (\<forall>e\<in>set es. 64 \<le> ext_key e \<and> length (ext_value e) \<le> MAX_EXTENSION_LEN)"

lemma check_extensions_from_wf:
  "check_extensions_from p es = Inr () \<Longrightarrow> sorted_wrt (<) (map ext_key es)
     \<and> (\<forall>e\<in>set es. p < ucast (ext_key e) \<and> 64 \<le> ext_key e \<and> length (ext_value e) \<le> MAX_EXTENSION_LEN)"
proof (induction es arbitrary: p)
  case (Cons e es)
  let ?k = "ucast (ext_key e) :: u64"
  have k: "64 \<le> ?k" "p < ?k" "length (ext_value e) \<le> MAX_EXTENSION_LEN"
    and es: "check_extensions_from ?k es = Inr ()"
    using Cons.prems by (auto simp: Let_def FIRST_IGNORABLE_KEY_def split: if_splits)
  have "64 \<le> ext_key e" using k(1) by (simp add: word_le_nat_alt)
  moreover have "\<forall>d\<in>set es. ext_key e < ext_key d \<and> p < ucast (ext_key d)"
    using Cons.IH [OF es] k(2) by (auto simp: word_less_nat_alt)
  ultimately show ?case using Cons.IH [OF es] k by auto
qed simp

lemma check_extensions_wf: "check_extensions es = Inr () \<Longrightarrow> extensions_wf es"
  by (auto simp: check_extensions_def extensions_wf_def split: if_splits dest: check_extensions_from_wf)

definition stanza_wf :: "Stanza \<Rightarrow> bool" where
  "stanza_wf st \<longleftrightarrow> (case st of
       XWing x \<Rightarrow> length (rs_encapsulation x) = 1120 \<and> length (rs_wrapped_cek x) = 48
     | Unknown u \<Rightarrow> 1 < us_tag u \<and> length (us_fields u) < 8 \<and> (\<forall>f\<in>set (us_fields u). length f \<le> 65536))"

lemma encode_stanza_wf: "encode_stanza C st = Inr b \<Longrightarrow> stanza_wf st"
  by (auto simp: encode_stanza_def stanza_wf_def format_limits list_ex_iff not_less not_le word_less_nat_alt
      word_le_nat_alt split: Stanza.splits if_splits)

lemma mapR_all: "mapR f xs = Inr ys \<Longrightarrow> (\<And>x y. f x = Inr y \<Longrightarrow> P x) \<Longrightarrow> \<forall>x\<in>set xs. P x"
  by (induction xs arbitrary: ys) (auto simp: result_simps)

lemma header_decoded_limits:
  assumes "ph_decode C bs = Inr h"
  shows "length bs \<le> MAX_HEADER_LEN \<and> length (ph_object_id h) = 32 \<and>
    0 < length (ph_recipients h) \<and> length (ph_recipients h) \<le> MAX_RECIPIENTS \<and>
    (\<forall>st\<in>set (ph_recipients h). stanza_wf st) \<and>
    TAG_LEN \<le> length (ph_encrypted_metadata h) \<and>
    length (ph_encrypted_metadata h) \<le> MAX_METADATA_LEN + TAG_LEN \<and>
    length (ph_signatures h) \<le> MAX_SIGNATURES \<and>
    (\<forall>s\<in>set (ph_signatures h). length (ss_verifying_key s) = VERIFYING_KEY_LEN
        \<and> length (ss_signature s) = SIGNATURE_LEN) \<and>
    extensions_wf (ph_extensions h)"
proof -
  from ph_encode_decode [OF assms] have e: "ph_encode C h = Inr bs" "length (ph_object_id h) = 32"
    by (simp_all add: ph_ty_def)
  then obtain stanzas where "mapR (encode_stanza C) (ph_recipients h) = Inr stanzas"
    and c: "check_extensions (ph_extensions h) = Inr ()"
    and rest: "length bs \<le> MAX_HEADER_LEN" "0 < length (ph_recipients h)"
      "length (ph_recipients h) \<le> MAX_RECIPIENTS" "TAG_LEN \<le> length (ph_encrypted_metadata h)"
      "length (ph_encrypted_metadata h) \<le> MAX_METADATA_LEN + TAG_LEN"
      "length (ph_signatures h) \<le> MAX_SIGNATURES" "\<not> list_ex signature_bad (ph_signatures h)"
    unfolding ph_encode_def ph_encode_with_signatures_def Let_def
    by (elim result_elims) (auto simp: result_simps)
  from this(1) have "\<forall>st\<in>set (ph_recipients h). stanza_wf st" by (rule mapR_all) (rule encode_stanza_wf)
  with rest e(2) check_extensions_wf [OF c] show ?thesis by (auto simp: list_ex_iff signature_bad_def)
qed

text \<open>The header decoder accepts exactly what the encoder writes: every header the encoder accepts
  is read back, and every accepted byte string is the one canonical encoding of the header it
  decodes to. A header cannot be reworded without changing the decoded value.\<close>

theorem header_wire:
  assumes "cbor_laws C"
  shows "ph_decode C bs = Inr h \<longleftrightarrow> length (ph_object_id h) = 32 \<and> ph_encode C h = Inr bs"
  using ph.dec_iff [OF assms, of bs h] by (simp add: ph_ty_def)

theorem header_wire_witness:
  "\<exists>bs. ph_decode ref_cbor bs = Inr demo_header"
  using header_wire [OF cbor_laws_ref, of _ demo_header] demo_header_encodes by (auto simp: demo_header_def)

text \<open>Every decoded header respects the limits of the protocol: 1 to 64 recipients with the
  lengths of their type, at most one signature of the right size, metadata within bounds, and
  extensions with strictly ascending keys of at least 64. A critical key is never skipped.\<close>

theorem header_limits:
  assumes "ph_decode C bs = Inr h"
  shows "length bs \<le> MAX_HEADER_LEN \<and> length (ph_object_id h) = 32 \<and>
    0 < length (ph_recipients h) \<and> length (ph_recipients h) \<le> MAX_RECIPIENTS \<and>
    (\<forall>st\<in>set (ph_recipients h). stanza_wf st) \<and>
    TAG_LEN \<le> length (ph_encrypted_metadata h) \<and>
    length (ph_encrypted_metadata h) \<le> MAX_METADATA_LEN + TAG_LEN \<and>
    length (ph_signatures h) \<le> MAX_SIGNATURES \<and>
    (\<forall>s\<in>set (ph_signatures h). length (ss_verifying_key s) = VERIFYING_KEY_LEN
        \<and> length (ss_signature s) = SIGNATURE_LEN) \<and>
    extensions_wf (ph_extensions h)"
  by (rule header_decoded_limits [OF assms])

theorem header_limits_witness:
  "\<exists>bs. ph_decode ref_cbor bs = Inr demo_header \<and> length bs \<le> MAX_HEADER_LEN"
proof -
  obtain bs where "ph_encode ref_cbor demo_header = Inr bs" using demo_header_encodes by blast
  then have "ph_decode ref_cbor bs = Inr demo_header"
    by (intro ph.dec_enc [OF cbor_laws_ref]) (simp_all add: ph_ty_def demo_header_def)
  from this header_limits [OF this] show ?thesis by blast
qed

text \<open>The metadata decoder accepts exactly what the encoder writes within the size limit.\<close>

theorem metadata_wire:
  assumes "cbor_laws C"
  shows "md_decode C bs = Inr m \<longleftrightarrow> md_ty m \<and> md_encode C m = Inr bs \<and> length bs \<le> MAX_METADATA_LEN"
  using md_decode_encode [OF assms] md_encode_decode [OF assms] by blast

theorem metadata_wire_witness:
  "\<exists>bs. md_decode ref_cbor bs = Inr demo_metadata"
  using metadata_wire [OF cbor_laws_ref, of _ demo_metadata] demo_metadata_encodes
  by (auto simp: md_ty_def demo_metadata_def ascii_def)

text \<open>A file name that comes out of decrypted metadata is safe to create: it is not empty, at most
  255 bytes, names no parent or current directory, and has no path separator, no NUL or other
  control byte, and no trailing dot or space.\<close>

theorem metadata_filename_safe:
  assumes "cbor_laws C" "md_decode C bs = Inr m" "md_filename m = Some f"
  shows "f \<noteq> [] \<and> length f \<le> 255 \<and> utf8_valid f \<and> f \<notin> {ascii ''.'', ascii ''..''} \<and>
    0x2F \<notin> set f \<and> 0x5C \<notin> set f \<and> 0x3A \<notin> set f \<and> (\<forall>b\<in>set f. 0x20 \<le> b \<and> b \<noteq> 0x7F) \<and>
    last f \<notin> {0x2E, 0x20}"
proof -
  from md_encode_decode [OF assms(1,2)] have "md_encode C m = Inr bs" "utf8_valid f"
    using assms(3) by (auto simp: md_ty_def)
  then have v: "validate_filename f = Inr ()"
    using assms(3) by (auto simp: md_encode_def md_encode_with_signature_def encode_filename_def result_simps Let_def)
  have c: "\<not> has_control g \<Longrightarrow> \<forall>b\<in>set g. 0x20 \<le> b \<and> b \<noteq> 0x7F" for g
    by (induction g) (auto simp: not_less)
  from v have "f \<noteq> []" "length f \<le> 255" "f \<noteq> ascii ''.''" "f \<noteq> ascii ''..''" "last f \<noteq> 0x2E" "last f \<noteq> 0x20"
    "\<not> has_control f" "\<forall>b\<in>set f. b \<notin> set FORBIDDEN"
    by (auto simp: validate_filename_def Let_def list_ex_iff split: if_splits)
  with c [of f] \<open>utf8_valid f\<close> show ?thesis by (auto simp: FORBIDDEN_def)
qed

theorem metadata_filename_safe_witness:
  "\<exists>bs. md_decode ref_cbor bs = Inr demo_metadata \<and> md_filename demo_metadata = Some (ascii ''a.txt'')
     \<and> 0x2F \<notin> set (ascii ''a.txt'')"
proof -
  obtain bs where "md_encode ref_cbor demo_metadata = Inr bs" "length bs \<le> MAX_METADATA_LEN"
    using demo_metadata_encodes by blast
  then have d: "md_decode ref_cbor bs = Inr demo_metadata"
    by (intro md_decode_encode [OF cbor_laws_ref]) (simp_all add: md_ty_def demo_metadata_def ascii_def)
  have n: "md_filename demo_metadata = Some (ascii ''a.txt'')" by (simp add: demo_metadata_def)
  from d n metadata_filename_safe [OF cbor_laws_ref d n] show ?thesis by blast
qed

text \<open>What a signature covers: the signing base of a header does not depend on its signatures,
  so that attaching one does not change it, and it determines everything else of the header.\<close>

theorem signing_base_covers_header:
  assumes "cbor_laws C" "length (ph_object_id h) = 32" "length (ph_object_id h') = 32"
    and "length (ph_signatures h) \<le> MAX_SIGNATURES" "length (ph_signatures h') \<le> MAX_SIGNATURES"
    and "ph_signing_base C h = Inr b"
  shows "ph_signing_base C h' = Inr b \<longleftrightarrow> h'\<lparr>ph_signatures := []\<rparr> = h\<lparr>ph_signatures := []\<rparr>"
  using ph_signing_base_inj [OF assms(1), of h' h b] ph_signing_base_eq [of h C] ph_signing_base_eq [of h' C] assms(2-)
  by (auto simp: ph_ty_def)

theorem signing_base_covers_header_witness:
  "\<exists>b. ph_signing_base ref_cbor demo_header = Inr b \<and>
     ph_signing_base ref_cbor (demo_header\<lparr>ph_signatures :=
        [\<lparr>ss_verifying_key = replicate 1984 0, ss_signature = replicate 3373 0\<rparr>]\<rparr>) = Inr b"
proof -
  let ?h = "demo_header\<lparr>ph_signatures := [\<lparr>ss_verifying_key = replicate 1984 0, ss_signature = replicate 3373 0\<rparr>]\<rparr>"
  obtain b where "ph_encode ref_cbor demo_header = Inr b" using demo_header_encodes by blast
  moreover have "demo_header\<lparr>ph_signatures := []\<rparr> = demo_header" by (simp add: demo_header_def)
  ultimately have b: "ph_signing_base ref_cbor demo_header = Inr b"
    using ph_signing_base_eq [of demo_header ref_cbor] by (simp add: demo_header_def)
  have "length (ph_object_id demo_header) = 32" "length (ph_object_id ?h) = 32"
    "length (ph_signatures demo_header) \<le> MAX_SIGNATURES" "length (ph_signatures ?h) \<le> MAX_SIGNATURES"
    by (simp_all add: demo_header_def MAX_SIGNATURES_def)
  from signing_base_covers_header [OF cbor_laws_ref this b] b show ?thesis by auto
qed

end
