(* ===== verification/Hide_Object.thy ===== *)
theory Hide_Object
  imports Hide_Stream Hide_Codec Hide_Sign
begin

text \<open>
  \<open>crates/hide-object/src/lib.rs\<close>: containers. Encryption writes a preamble, an authenticated header
  and the record stream; decryption reads them back, finds the content key, checks the header MAC
  and, once the whole payload has been read, the signature. The parameters are the primitives
  \<open>A\<close>, the CBOR library \<open>C\<close> and the signature primitives \<open>P\<close>. The test-vector feature is enabled,
  so all four placements exist.
\<close>

section \<open>Data\<close>

definition MAX_SIGNED_INPUT :: nat where
  "MAX_SIGNED_INPUT = 2 ^ 30"

definition SIGNING_CONTEXT :: bytes where
  "SIGNING_CONTEXT = ascii ''HIDE/1.0 container''"

definition LEGACY_SIGNING_CONTEXT :: bytes where
  "LEGACY_SIGNING_CONTEXT = ascii ''HIDE/0.5 container''"

datatype SignaturePlacement = Public | Confidential | Stripped | LegacyPublic

record VerifiedObject =
  vo_metadata :: Metadata
  vo_plaintext_len :: nat
  vo_signer :: "VerifyingIdentity option"

record ObjectMaterial =
  om_cek :: bytes
  om_object_id :: bytes
  om_payload_salt :: bytes

record VectorShape =
  vs_minor :: byte
  vs_header_extensions :: "Extension list"
  vs_leading_stanzas :: "Stanza list"

definition shape_default :: VectorShape where
  "shape_default = \<lparr>vs_minor = CURRENT_MINOR, vs_header_extensions = [], vs_leading_stanzas = []\<rparr>"

section \<open>Transcripts\<close>

definition stanza_transcript :: "Stanza \<Rightarrow> bytes" where
  "stanza_transcript st =
     be64 (ucast (stanza_tag st)) @ be64 (len64 (stanza_fields st)) @ concat (map lp64 (stanza_fields st))"

definition extension_transcript :: "Extension \<Rightarrow> bytes" where
  "extension_transcript e = be16 (ext_key e) @ be64 (len64 (ext_value e)) @ ext_value e"

definition legacy_transcript :: "ProtectedHeader \<Rightarrow> bytes \<Rightarrow> bytes \<Rightarrow> u64 \<Rightarrow> bytes" where
  "legacy_transcript header metadata_base plaintext_hash plaintext_len =
     ascii ''HIDE/0.5 transcript'' @ be16 SUITE @ ph_object_id header
       @ be64 (len64 (ph_recipients header))
       @ concat (map (\<lambda>x. rs_encapsulation x @ rs_wrapped_cek x) (List.map_filter as_xwing (ph_recipients header)))
       @ be64 (len64 metadata_base) @ metadata_base @ plaintext_hash @ be64 plaintext_len"

definition transcript :: "Preamble \<Rightarrow> ProtectedHeader \<Rightarrow> bytes \<Rightarrow> bytes \<Rightarrow> u64 \<Rightarrow> bytes" where
  "transcript preamble header metadata_base plaintext_hash plaintext_len =
     (if pre_is_legacy preamble
      then legacy_transcript header metadata_base plaintext_hash plaintext_len
      else
        ascii ''HIDE/1.0 transcript'' @ pre_signed_prefix preamble @ be16 SUITE @ ph_object_id header
          @ be64 (len64 (ph_recipients header)) @ concat (map stanza_transcript (ph_recipients header))
          @ be64 (len64 (ph_extensions header)) @ concat (map extension_transcript (ph_extensions header))
          @ be64 (len64 metadata_base) @ metadata_base @ plaintext_hash @ be64 plaintext_len)"

definition signing_context :: "Preamble \<Rightarrow> bytes" where
  "signing_context preamble =
     (if pre_is_legacy preamble then LEGACY_SIGNING_CONTEXT else SIGNING_CONTEXT)"

section \<open>Keys\<close>

definition metadata_aad :: "bytes \<Rightarrow> bytes" where
  "metadata_aad object_id = ascii ''HIDE/0.1 metadata'' @ object_id @ be16 SUITE"

definition metadata_key :: "crypto_api \<Rightarrow> bytes \<Rightarrow> bytes \<Rightarrow> bytes" where
  "metadata_key A cek object_id = derive_key A cek object_id (ascii ''HIDE/0.1 metadata'')"

definition header_mac_key :: "crypto_api \<Rightarrow> bytes \<Rightarrow> bytes \<Rightarrow> bytes" where
  "header_mac_key A cek object_id = derive_key A cek object_id (ascii ''HIDE/0.1 header-mac'')"

definition payload_key :: "crypto_api \<Rightarrow> bytes \<Rightarrow> bytes \<Rightarrow> bytes \<Rightarrow> bytes" where
  "payload_key A cek object_id salt = derive_key A cek salt (ascii ''HIDE/0.1 payload'' @ object_id)"

section \<open>Encryption\<close>

definition validate_recipients :: "bytes list \<Rightarrow> ObjectError + unit" where
  "validate_recipients recipients =
     (if recipients = [] \<or> MAX_RECIPIENTS < length recipients then Inl InvalidRecipients else Inr ())"

definition preamble_for :: "bool \<Rightarrow> bool \<Rightarrow> VectorShape \<Rightarrow> nat \<Rightarrow> FormatError + Preamble" where
  "preamble_for legacy with_signer shape len =
     (if legacy then pre_legacy_signed len
      else
        let flags = (if with_signer then FLAG_SIGNED else 0)
        in pre_from_parts len (vs_minor shape) flags)"

definition is_legacy_placement :: "(SigningIdentity \<times> SignaturePlacement) option \<Rightarrow> bool" where
  "is_legacy_placement signer = (case signer of Some (_, p) \<Rightarrow> p = LegacyPublic | None \<Rightarrow> False)"

text \<open>A slice as a reader.\<close>

definition slice_reader :: "bytes \<Rightarrow> reader" where
  "slice_reader bs = (if bs = [] then [] else [Chunk bs])"

text \<open>The signature, made over the transcript before the metadata is sealed, and where it goes.\<close>

definition attach_signature ::
  "sig_api \<Rightarrow> crypto_api \<Rightarrow> (SigningIdentity \<times> SignaturePlacement) option \<Rightarrow> VectorShape \<Rightarrow> ProtectedHeader
     \<Rightarrow> Metadata \<Rightarrow> bytes \<Rightarrow> bytes \<Rightarrow> ObjectError + ProtectedHeader \<times> Metadata" where
  "attach_signature P A signer shape header metadata base_metadata plaintext =
     (case signer of
        None \<Rightarrow> Inr (header, metadata)
      | Some (identity, placement) \<Rightarrow>
          bindR (map_err Format (preamble_for (is_legacy_placement signer) True shape 1)) (\<lambda>provisional.
          let message = transcript provisional header base_metadata (hash A [plaintext]) (len64 plaintext);
              stanza = \<lparr>ss_verifying_key = vi_to_bytes (verifying_key P identity),
                        ss_signature = sign P identity (signing_context provisional) message\<rparr>
          in Inr (case placement of
                    Public \<Rightarrow> (header\<lparr>ph_signatures := ph_signatures header @ [stanza]\<rparr>, metadata)
                  | Confidential \<Rightarrow> (header, metadata\<lparr>md_signature := Some stanza\<rparr>)
                  | Stripped \<Rightarrow> (header, metadata)
                  | LegacyPublic \<Rightarrow> (header\<lparr>ph_signatures := ph_signatures header @ [stanza]\<rparr>, metadata))))"

definition encrypt_inner ::
  "crypto_api \<Rightarrow> cbor_api \<Rightarrow> sig_api \<Rightarrow> reader \<Rightarrow> Metadata \<Rightarrow> ObjectMaterial \<Rightarrow> RecipientStanza list
     \<Rightarrow> (SigningIdentity \<times> SignaturePlacement) option \<Rightarrow> VectorShape \<Rightarrow> ObjectError + nat \<times> bytes" where
  "encrypt_inner A C P input metadata material recipients signer shape =
     (let cek = om_cek material; object_id = om_object_id material; salt = om_payload_salt material in
      bindR (if signer = None then Inr ([], input)
             else
               bindR (map_err Io (read_chunk input (MAX_SIGNED_INPUT + 1))) (\<lambda>(plaintext, input).
                 if MAX_SIGNED_INPUT < length plaintext then Inl ObjectTooLarge
                 else Inr (plaintext, input))) (\<lambda>(plaintext, input).
      bindR (map_err Format (md_signing_base C metadata)) (\<lambda>base_metadata.
      let header = \<lparr>ph_object_id = object_id,
                    ph_recipients = vs_leading_stanzas shape @ map XWing recipients,
                    ph_encrypted_metadata = [], ph_signatures = [],
                    ph_extensions = vs_header_extensions shape\<rparr> in
      bindR (attach_signature P A signer shape header metadata base_metadata plaintext) (\<lambda>(header, metadata).
      bindR (map_err Format (md_encode C metadata)) (\<lambda>final_metadata.
      bindR (map_err Crypto (seal A (metadata_key A cek object_id) (replicate 12 0)
                               (metadata_aad object_id) final_metadata)) (\<lambda>encrypted.
      let header = header\<lparr>ph_encrypted_metadata := encrypted\<rparr> in
      bindR (map_err Format (ph_encode C header)) (\<lambda>protected.
      bindR (map_err Format (encode_header C protected (replicate 32 0))) (\<lambda>sized.
      bindR (map_err Format (preamble_for (is_legacy_placement signer) (signer \<noteq> None) shape (length sized))) (\<lambda>preamble.
      let preamble = pre_encode preamble;
          tag = mac A (header_mac_key A cek object_id) [preamble, protected] in
      bindR (map_err Format (encode_header C protected tag)) (\<lambda>framed.
      let output = preamble @ framed @ salt;
          k = payload_key A cek object_id salt;
          header_hash = hash A [protected] in
      if signer \<noteq> None
      then encrypt_records A (slice_reader plaintext) output k object_id header_hash
      else encrypt_records A input output k object_id header_hash))))))))))"

text \<open>The randomness of one call: \<open>draw i n\<close> is what the \<open>i\<close>-th request for \<open>n\<close> bytes returns.\<close>

type_synonym rng = "nat \<Rightarrow> nat \<Rightarrow> bytes option"

primrec wrap_all ::
  "crypto_api \<Rightarrow> rng \<Rightarrow> nat \<Rightarrow> bytes list \<Rightarrow> bytes \<Rightarrow> bytes \<Rightarrow> CryptoError + RecipientStanza list" where
  "wrap_all A draw i [] cek object_id = Inr []"
| "wrap_all A draw i (r # rs) cek object_id =
     bindR (wrap_cek A (draw i 32) r cek object_id) (\<lambda>w.
     bindR (wrap_all A draw (i + 1) rs cek object_id) (\<lambda>ws.
       Inr (\<lparr>rs_encapsulation = wk_encapsulation w, rs_wrapped_cek = wk_wrapped_cek w\<rparr> # ws)))"

definition draw_material :: "rng \<Rightarrow> CryptoError + ObjectMaterial" where
  "draw_material draw =
     bindR (random_array (draw 0 32)) (\<lambda>cek.
     bindR (random_array (draw 1 32)) (\<lambda>object_id.
     bindR (random_array (draw 2 16)) (\<lambda>salt.
       Inr \<lparr>om_cek = cek, om_object_id = object_id, om_payload_salt = salt\<rparr>)))"

definition encrypt_with_material ::
  "crypto_api \<Rightarrow> cbor_api \<Rightarrow> sig_api \<Rightarrow> reader \<Rightarrow> Metadata \<Rightarrow> ObjectMaterial \<Rightarrow> RecipientStanza list
     \<Rightarrow> ObjectError + nat \<times> bytes" where
  "encrypt_with_material A C P input metadata material recipients =
     encrypt_inner A C P input metadata material recipients None shape_default"

definition encrypt ::
  "crypto_api \<Rightarrow> cbor_api \<Rightarrow> sig_api \<Rightarrow> rng \<Rightarrow> reader \<Rightarrow> bytes list \<Rightarrow> Metadata \<Rightarrow> ObjectError + nat \<times> bytes" where
  "encrypt A C P draw input recipients metadata =
     bindR (validate_recipients recipients) (\<lambda>_.
     bindR (map_err Crypto (draw_material draw)) (\<lambda>material.
     bindR (map_err Crypto (wrap_all A draw 3 recipients (om_cek material) (om_object_id material))) (\<lambda>stanzas.
       encrypt_with_material A C P input metadata material stanzas)))"

definition encrypt_signed ::
  "crypto_api \<Rightarrow> cbor_api \<Rightarrow> sig_api \<Rightarrow> rng \<Rightarrow> reader \<Rightarrow> bytes list \<Rightarrow> Metadata \<Rightarrow> SigningIdentity
     \<Rightarrow> SignaturePlacement \<Rightarrow> ObjectError + nat \<times> bytes" where
  "encrypt_signed A C P draw input recipients metadata identity placement =
     bindR (validate_recipients recipients) (\<lambda>_.
     bindR (map_err Crypto (draw_material draw)) (\<lambda>material.
     bindR (map_err Crypto (wrap_all A draw 3 recipients (om_cek material) (om_object_id material))) (\<lambda>stanzas.
       encrypt_inner A C P input metadata material stanzas (Some (identity, placement)) shape_default)))"

section \<open>Decryption\<close>

definition verify_signature ::
  "sig_api \<Rightarrow> cbor_api \<Rightarrow> Preamble \<Rightarrow> ProtectedHeader \<Rightarrow> Metadata \<Rightarrow> bytes \<Rightarrow> u64
     \<Rightarrow> ObjectError + VerifyingIdentity option" where
  "verify_signature P C preamble header metadata plaintext_hash plaintext_len =
     (let preamble_says_signed = pre_is_signed preamble;
          check = (\<lambda>stanza.
            if \<not> preamble_says_signed then Inl UnexpectedSignature
            else
              bindR (map_err (\<lambda>_. InvalidSignature) (vi_from_bytes P (ss_verifying_key stanza))) (\<lambda>identity.
              bindR (map_err Format (md_signing_base C metadata)) (\<lambda>base.
              let message = transcript preamble header base plaintext_hash plaintext_len in
              bindR (map_err (\<lambda>_. InvalidSignature)
                       (verify P identity (signing_context preamble) message (ss_signature stanza))) (\<lambda>_.
                Inr (Some identity)))))
      in case (ph_signatures header, md_signature metadata) of
           (_ # _, Some _) \<Rightarrow> Inl InvalidSignature
         | (stanza # _, None) \<Rightarrow> check stanza
         | ([], Some stanza) \<Rightarrow> check stanza
         | ([], None) \<Rightarrow> if preamble_says_signed then Inl MissingSignature else Inr None)"

fun recover_loop ::
  "crypto_api \<Rightarrow> bytes \<Rightarrow> bytes \<Rightarrow> bytes \<Rightarrow> bytes \<Rightarrow> bytes \<Rightarrow> RecipientStanza list \<Rightarrow> ObjectError + bytes" where
  "recover_loop A secret object_id preamble protected tag [] = Inl NoMatchingRecipient"
| "recover_loop A secret object_id preamble protected tag (st # sts) =
     (case unwrap_cek A secret object_id (rs_encapsulation st) (rs_wrapped_cek st) of
        Inr cek \<Rightarrow>
          if is_ok (verify_mac A (header_mac_key A cek object_id) [preamble, protected] tag)
          then Inr cek
          else recover_loop A secret object_id preamble protected tag sts
      | Inl _ \<Rightarrow> recover_loop A secret object_id preamble protected tag sts)"

definition recover_cek ::
  "crypto_api \<Rightarrow> bytes \<Rightarrow> ProtectedHeader \<Rightarrow> bytes \<Rightarrow> bytes \<Rightarrow> bytes \<Rightarrow> ObjectError + bytes" where
  "recover_cek A secret header preamble protected tag =
     recover_loop A secret (ph_object_id header) preamble protected tag
       (List.map_filter as_xwing (ph_recipients header))"

text \<open>\<open>PlaintextHasher\<close>: what was written to staging, and the state of the hasher.\<close>

definition hasher_write :: "bytes \<times> bytes \<Rightarrow> bytes \<Rightarrow> bytes \<times> bytes" where
  "hasher_write s buffer = (fst s @ buffer, hasher_update (snd s) buffer)"

definition decrypt_to_staging ::
  "crypto_api \<Rightarrow> cbor_api \<Rightarrow> sig_api \<Rightarrow> reader \<Rightarrow> bytes \<Rightarrow> ObjectError + VerifiedObject \<times> bytes" where
  "decrypt_to_staging A C P input secret =
     bindR (map_err Io (read_exact input PREAMBLE_LEN)) (\<lambda>(preamble_bytes, input).
     bindR (map_err Format (pre_decode preamble_bytes)) (\<lambda>preamble.
     bindR (map_err Io (read_exact input (header_len_usize preamble))) (\<lambda>(header_bytes, input).
     bindR (map_err Format (decode_header C header_bytes)) (\<lambda>(protected, tag).
     bindR (map_err Format (ph_decode C protected)) (\<lambda>header.
     if pre_is_legacy preamble
        \<and> (ph_extensions header \<noteq> [] \<or> list_ex (\<lambda>st. as_xwing st = None) (ph_recipients header))
     then Inl (Format MalformedHeader)
     else
     bindR (recover_cek A secret header preamble_bytes protected tag) (\<lambda>cek.
     bindR (map_err Crypto (open_sealed A (metadata_key A cek (ph_object_id header)) (replicate 12 0)
                              (metadata_aad (ph_object_id header)) (ph_encrypted_metadata header))) (\<lambda>metadata_plaintext.
     bindR (map_err Format (md_decode C metadata_plaintext)) (\<lambda>metadata.
     if pre_is_legacy preamble \<and> md_extensions metadata \<noteq> [] then Inl (Format InvalidMetadata)
     else
     bindR (read_payload input 16) (\<lambda>(salt, input).
     let k = payload_key A cek (ph_object_id header) salt in
     bindR (decrypt_records A hasher_write input ([], hasher_new) k (ph_object_id header) (hash A [protected])) (\<lambda>(plaintext_len, staging, hasher).
     let plaintext_hash = hasher_finish A hasher in
     bindR (verify_signature P C preamble header metadata plaintext_hash (of_nat plaintext_len)) (\<lambda>signer.
     Inr (\<lparr>vo_metadata = metadata, vo_plaintext_len = plaintext_len, vo_signer = signer\<rparr>, staging))))))))))))"

interpretation hw: sink hasher_write
  by unfold_locales (simp add: hasher_write_def hasher_update_def)

section \<open>What a transcript binds\<close>

text \<open>What the decoder guarantees of a header, and the extra restriction on legacy containers.\<close>

definition header_sane :: "ProtectedHeader \<Rightarrow> bool" where
  "header_sane h \<longleftrightarrow> length (ph_object_id h) = 32 \<and> length (ph_recipients h) \<le> MAX_RECIPIENTS
     \<and> (\<forall>st\<in>set (ph_recipients h). stanza_wf st) \<and> extensions_wf (ph_extensions h)"

definition legacy_sane :: "ProtectedHeader \<Rightarrow> bool" where
  "legacy_sane h \<longleftrightarrow> ph_extensions h = [] \<and> (\<forall>st\<in>set (ph_recipients h). as_xwing st \<noteq> None)"

lemma stanza_view_inj:
  "stanza_wf a \<Longrightarrow> stanza_wf b \<Longrightarrow> stanza_tag a = stanza_tag b \<Longrightarrow> stanza_fields a = stanza_fields b \<Longrightarrow> a = b"
  by (cases a; cases b) (auto simp: stanza_wf_def stanza_tag_def stanza_fields_def XWING_TAG_def)

lemma stanza_fields_bound:
  "stanza_wf st \<Longrightarrow> length (stanza_fields st) < 8 \<and> (\<forall>f\<in>set (stanza_fields st). length f < 2 ^ 64)"
  by (cases st) (auto simp: stanza_wf_def stanza_fields_def)

lemma ucast16_inj: "(ucast (a :: u16) :: u64) = ucast b \<longleftrightarrow> a = b"
  by (metis unat_ucast16 word_unat_eq_iff)

lemma stanza_transcript_prefix:
  assumes "stanza_wf a" "stanza_wf b" "stanza_transcript a @ r = stanza_transcript b @ s"
  shows "a = b \<and> r = s"
proof -
  note ba = stanza_fields_bound [OF assms(1)] and bb = stanza_fields_bound [OF assms(2)]
  have eq: "stanza_tag a = stanza_tag b" "len64 (stanza_fields a) = len64 (stanza_fields b)"
    "concat (map lp64 (stanza_fields a)) @ r = concat (map lp64 (stanza_fields b)) @ s"
    using assms(3) by (simp_all add: stanza_transcript_def ucast16_inj)
  have "length (stanza_fields a) = length (stanza_fields b)"
    by (rule len64_eqD [OF eq(2)]) (use ba bb in auto)
  from concat_prefix_inj [OF eq(3) this] have "stanza_fields a = stanza_fields b \<and> r = s"
    using ba bb by (meson lp64_append_eq)
  then show ?thesis using stanza_view_inj [OF assms(1,2) eq(1)] by simp
qed

lemma extension_transcript_prefix:
  assumes "length (ext_value a) \<le> MAX_EXTENSION_LEN" "length (ext_value b) \<le> MAX_EXTENSION_LEN"
    and "extension_transcript a @ r = extension_transcript b @ s"
  shows "a = b \<and> r = s"
proof -
  have "length (ext_value a) < 2 ^ 64" "length (ext_value b) < 2 ^ 64"
    using assms(1,2) by (simp_all add: MAX_EXTENSION_LEN_def)
  from lp64_append_eq [OF this, of r s] assms(3) show ?thesis
    by (cases a; cases b) (simp add: extension_transcript_def lp64_def)
qed

lemma transcript_inj:
  assumes "header_sane h" "header_sane h'" "length base < 2 ^ 64" "length base' < 2 ^ 64"
    and "length ph = 32" "length ph' = 32" "\<not> pre_is_legacy p" "\<not> pre_is_legacy p'"
    and "transcript p h base ph n = transcript p' h' base' ph' n'"
  shows "pre_signed_prefix p = pre_signed_prefix p' \<and> ph_object_id h = ph_object_id h' \<and>
    ph_recipients h = ph_recipients h' \<and> ph_extensions h = ph_extensions h' \<and> base = base' \<and> ph = ph' \<and> n = n'"
proof -
  let ?tl = "\<lambda>b ph n. be64 (len64 b) @ b @ ph @ be64 n"
  have eq: "pre_signed_prefix p = pre_signed_prefix p'" "ph_object_id h = ph_object_id h'"
    "len64 (ph_recipients h) = len64 (ph_recipients h')"
    and eq2: "concat (map stanza_transcript (ph_recipients h)) @ be64 (len64 (ph_extensions h))
        @ concat (map extension_transcript (ph_extensions h)) @ ?tl base ph n
      = concat (map stanza_transcript (ph_recipients h')) @ be64 (len64 (ph_extensions h'))
        @ concat (map extension_transcript (ph_extensions h')) @ ?tl base' ph' n'"
    using assms(1,2,7-9) by (simp_all add: transcript_def header_sane_def)
  have "length (ph_recipients h) = length (ph_recipients h')"
    by (rule len64_eqD [OF eq(3)]) (use assms(1,2) in \<open>auto simp: header_sane_def MAX_RECIPIENTS_def\<close>)
  note l1 = this
  have st: "x = y \<and> r = s" if "x \<in> set (ph_recipients h)" "y \<in> set (ph_recipients h')"
      "stanza_transcript x @ r = stanza_transcript y @ s" for x y r s
    by (rule stanza_transcript_prefix [OF _ _ that(3)]) (use assms(1,2) that in \<open>auto simp: header_sane_def\<close>)
  have c1: "ph_recipients h = ph_recipients h' \<and> be64 (len64 (ph_extensions h))
        @ concat (map extension_transcript (ph_extensions h)) @ ?tl base ph n
      = be64 (len64 (ph_extensions h')) @ concat (map extension_transcript (ph_extensions h')) @ ?tl base' ph' n'"
    using eq2 l1 by (rule concat_prefix_inj) (erule (2) st)
  then have r: "ph_recipients h = ph_recipients h'" and l: "len64 (ph_extensions h) = len64 (ph_extensions h')"
    and eq3: "concat (map extension_transcript (ph_extensions h)) @ ?tl base ph n
      = concat (map extension_transcript (ph_extensions h')) @ ?tl base' ph' n'"
    by simp_all
  have "length (ph_extensions h) = length (ph_extensions h')"
    by (rule len64_eqD [OF l]) (use assms(1,2) in \<open>auto simp: header_sane_def extensions_wf_def MAX_EXTENSIONS_def\<close>)
  note l2 = this
  have ex: "x = y \<and> r = s" if "x \<in> set (ph_extensions h)" "y \<in> set (ph_extensions h')"
      "extension_transcript x @ r = extension_transcript y @ s" for x y r s
    by (rule extension_transcript_prefix [OF _ _ that(3)])
      (use assms(1,2) that in \<open>auto simp: header_sane_def extensions_wf_def\<close>)
  have "ph_extensions h = ph_extensions h' \<and> ?tl base ph n = ?tl base' ph' n'"
    using eq3 l2 by (rule concat_prefix_inj) (erule (2) ex)
  then have e: "ph_extensions h = ph_extensions h'" "lp64 base @ ph @ be64 n = lp64 base' @ ph' @ be64 n'"
    by (simp_all add: lp64_def)
  then show ?thesis using lp64_append_eq [OF assms(3,4)] assms(5,6) eq r by simp
qed

lemma legacy_transcript_inj:
  assumes "header_sane h" "header_sane h'" "legacy_sane h" "legacy_sane h'"
    and "length base < 2 ^ 64" "length base' < 2 ^ 64" "length ph = 32" "length ph' = 32"
    and "legacy_transcript h base ph n = legacy_transcript h' base' ph' n'"
  shows "ph_object_id h = ph_object_id h' \<and> ph_recipients h = ph_recipients h' \<and> base = base' \<and> ph = ph' \<and> n = n'"
proof -
  let ?f = "\<lambda>x. rs_encapsulation x @ rs_wrapped_cek x"
  let ?g = "\<lambda>st. case st of XWing x \<Rightarrow> ?f x | Unknown _ \<Rightarrow> []"
  have conv: "concat (map ?f (List.map_filter as_xwing sts)) = concat (map ?g sts)"
    if "\<forall>st\<in>set sts. as_xwing st \<noteq> None" for sts
    using that by (induction sts) (auto simp: List.map_filter_simps as_xwing_def split: Stanza.splits)
  have eq: "ph_object_id h = ph_object_id h'" "len64 (ph_recipients h) = len64 (ph_recipients h')"
    and eq2: "concat (map ?g (ph_recipients h)) @ lp64 base @ ph @ be64 n
      = concat (map ?g (ph_recipients h')) @ lp64 base' @ ph' @ be64 n'"
    using assms(1-4,9) by (simp_all add: legacy_transcript_def header_sane_def legacy_sane_def conv lp64_def)
  have "length (ph_recipients h) = length (ph_recipients h')"
    by (rule len64_eqD [OF eq(2)]) (use assms(1,2) in \<open>auto simp: header_sane_def MAX_RECIPIENTS_def\<close>)
  note l1 = this
  have st: "x = y \<and> r = s" if xy: "x \<in> set (ph_recipients h)" "y \<in> set (ph_recipients h')" "?g x @ r = ?g y @ s" for x y r s
  proof -
    have "stanza_wf x" "stanza_wf y" "as_xwing x \<noteq> None" "as_xwing y \<noteq> None"
      using assms(1-4) xy(1,2) by (auto simp: header_sane_def legacy_sane_def)
    then show ?thesis using xy(3) by (cases x; cases y) (auto simp: stanza_wf_def as_xwing_def)
  qed
  have "ph_recipients h = ph_recipients h' \<and> lp64 base @ ph @ be64 n = lp64 base' @ ph' @ be64 n'"
    using eq2 l1 by (rule concat_prefix_inj) (erule (2) st)
  then show ?thesis using lp64_append_eq [OF assms(5,6)] assms(7,8) eq by simp
qed

lemma header_sane_decoded: "ph_decode C bs = Inr h \<Longrightarrow> header_sane h"
  using header_decoded_limits [of C bs h] by (simp add: header_sane_def)

section \<open>Signature outcomes\<close>

text \<open>The one signature of a container, wherever it is.\<close>

definition the_signature :: "ProtectedHeader \<Rightarrow> Metadata \<Rightarrow> SignatureStanza option" where
  "the_signature h m =
     (case (ph_signatures h, md_signature m) of
        ([], None) \<Rightarrow> None | (st # _, None) \<Rightarrow> Some st | ([], Some st) \<Rightarrow> Some st | _ \<Rightarrow> None)"

lemma verify_signature_None_iff:
  "verify_signature P C p h m ph n = Inr None \<longleftrightarrow>
     ph_signatures h = [] \<and> md_signature m = None \<and> \<not> pre_is_signed p"
  by (auto simp: verify_signature_def Let_def result_simps split: list.splits option.splits if_splits)

lemma verify_signature_Some_iff:
  "verify_signature P C p h m ph n = Inr (Some v) \<longleftrightarrow>
     pre_is_signed p \<and>
     (\<exists>st base. the_signature h m = Some st \<and> vi_from_bytes P (ss_verifying_key st) = Inr v \<and>
        md_signing_base C m = Inr base \<and>
        verify P v (signing_context p) (transcript p h base ph n) (ss_signature st) = Inr ())"
  by (auto simp: verify_signature_def the_signature_def Let_def result_simps split: list.splits option.splits if_splits)

section \<open>Round trip of a container\<close>

lemma slice_reader_ok: "reader_ok (slice_reader bs)" "content (slice_reader bs) = bs"
  by (simp_all add: slice_reader_def reader_ok_def)

lemma transcript_cong:
  assumes "pre_signed_prefix p = pre_signed_prefix p'" "pre_is_legacy p = pre_is_legacy p'"
    and "ph_object_id h = ph_object_id h'" "ph_recipients h = ph_recipients h'" "ph_extensions h = ph_extensions h'"
  shows "transcript p h = transcript p' h'"
  using assms by (intro ext) (simp add: transcript_def legacy_transcript_def)

lemma recover_loop_finds:
  assumes "\<exists>st\<in>set sts. unwrap_cek A secret oid (rs_encapsulation st) (rs_wrapped_cek st) = Inr cek"
    and "\<forall>st\<in>set sts. \<forall>k. unwrap_cek A secret oid (rs_encapsulation st) (rs_wrapped_cek st) = Inr k \<longrightarrow> k = cek"
    and "verify_mac A (header_mac_key A cek oid) [pre, prot] tag = Inr ()"
  shows "recover_loop A secret oid pre prot tag sts = Inr cek"
  using assms(1,2)
proof (induction sts)
  case (Cons st sts)
  show ?case
  proof (cases "unwrap_cek A secret oid (rs_encapsulation st) (rs_wrapped_cek st)")
    case (Inl e)
    then show ?thesis using Cons by simp
  next
    case (Inr k)
    then have "k = cek" using Cons.prems(2) by simp
    then show ?thesis using Inr assms(3) by simp
  qed
qed simp

lemma map_filter_xwing [simp]: "List.map_filter as_xwing (map XWing xs) = xs"
  by (induction xs) (simp_all add: List.map_filter_simps as_xwing_def)

lemma preamble_for_default:
  "preamble_for False s shape_default n = pre_with_signed n s"
  by (simp add: preamble_for_def shape_default_def pre_with_signed_def Let_def)

text \<open>What a successful encryption with the default shape and a modern placement has written.\<close>

definition modern :: "(SigningIdentity \<times> SignaturePlacement) option \<Rightarrow> bool" where
  "modern signer \<longleftrightarrow> (case signer of None \<Rightarrow> True | Some (_, p) \<Rightarrow> p = Public \<or> p = Confidential)"

lemma modern_not_legacy [simp]: "modern signer \<Longrightarrow> is_legacy_placement signer = False"
  by (auto simp: modern_def is_legacy_placement_def split: option.splits)

lemma encrypt_innerE:
  assumes "crypto_laws A" "reader_ok input" "\<not> is_legacy_placement signer"
    and "encrypt_inner A C P input metadata material recipients signer shape_default = Inr (n, out)"
  obtains base hdr md m em protected sized pre framed where
    "md_signing_base C metadata = Inr base"
    "attach_signature P A signer shape_default \<lparr>ph_object_id = om_object_id material,
       ph_recipients = map XWing recipients, ph_encrypted_metadata = [], ph_signatures = [],
       ph_extensions = []\<rparr> metadata base (content input) = Inr (hdr, md)"
    "md_encode C md = Inr m"
    "seal A (metadata_key A (om_cek material) (om_object_id material)) (replicate 12 0)
       (metadata_aad (om_object_id material)) m = Inr em"
    "ph_encode C (hdr\<lparr>ph_encrypted_metadata := em\<rparr>) = Inr protected"
    "encode_header C protected (replicate 32 0) = Inr sized"
    "pre_with_signed (length sized) (signer \<noteq> None) = Inr pre"
    "encode_header C protected (mac A (header_mac_key A (om_cek material) (om_object_id material))
       [pre_encode pre, protected]) = Inr framed"
    "n = length (content input)" "n \<le> MAX_CHUNKS * CHUNK_LEN"
    "out = pre_encode pre @ framed @ om_payload_salt material
       @ records A (payload_key A (om_cek material) (om_object_id material) (om_payload_salt material))
           (om_object_id material) (hash A [protected]) 0 (content input)"
proof -
  from assms(4) obtain plaintext input' base hdr md m em protected sized pre framed where
    pt: "(if signer = None then Inr ([], input)
          else bindR (map_err Io (read_chunk input (MAX_SIGNED_INPUT + 1))) (\<lambda>(plaintext, input).
                 if MAX_SIGNED_INPUT < length plaintext then Inl ObjectTooLarge
                 else Inr (plaintext, input))) = Inr (plaintext, input')"
    and f: "md_signing_base C metadata = Inr base"
      "attach_signature P A signer shape_default \<lparr>ph_object_id = om_object_id material,
         ph_recipients = vs_leading_stanzas shape_default @ map XWing recipients, ph_encrypted_metadata = [], ph_signatures = [],
         ph_extensions = vs_header_extensions shape_default\<rparr> metadata base plaintext = Inr (hdr, md)"
      "md_encode C md = Inr m"
      "seal A (metadata_key A (om_cek material) (om_object_id material)) (replicate 12 0)
         (metadata_aad (om_object_id material)) m = Inr em"
      "ph_encode C (hdr\<lparr>ph_encrypted_metadata := em\<rparr>) = Inr protected"
      "encode_header C protected (replicate 32 0) = Inr sized"
      "preamble_for (is_legacy_placement signer) (signer \<noteq> None) shape_default (length sized) = Inr pre"
      "encode_header C protected (mac A (header_mac_key A (om_cek material) (om_object_id material))
         [pre_encode pre, protected]) = Inr framed"
    and enc: "(if signer \<noteq> None
        then encrypt_records A (slice_reader plaintext) (pre_encode pre @ framed @ om_payload_salt material)
          (payload_key A (om_cek material) (om_object_id material) (om_payload_salt material))
          (om_object_id material) (hash A [protected])
        else encrypt_records A input' (pre_encode pre @ framed @ om_payload_salt material)
          (payload_key A (om_cek material) (om_object_id material) (om_payload_salt material))
          (om_object_id material) (hash A [protected])) = Inr (n, out)"
    unfolding encrypt_inner_def Let_def by (elim result_steps) blast
  define src where "src = (if signer \<noteq> None then slice_reader plaintext else input')"
  have src: "reader_ok src" "content src = content input" "signer \<noteq> None \<longrightarrow> plaintext = content input"
  proof -
    obtain r' where "read_chunk input (MAX_SIGNED_INPUT + 1) = Inr (take (MAX_SIGNED_INPUT + 1) (content input), r')"
      using read_chunk_content [OF assms(2)] by blast
    then show "reader_ok src" "content src = content input" "signer \<noteq> None \<longrightarrow> plaintext = content input"
      using pt assms(2) by (auto simp: src_def slice_reader_ok split: if_splits)
  qed
  have k: "length (payload_key A (om_cek material) (om_object_id material) (om_payload_salt material)) = 32"
    by (simp add: payload_key_def crypto_lengths [OF assms(1)])
  have at: "attach_signature P A signer shape_default \<lparr>ph_object_id = om_object_id material,
       ph_recipients = map XWing recipients, ph_encrypted_metadata = [], ph_signatures = [],
       ph_extensions = []\<rparr> metadata base (content input) = Inr (hdr, md)"
    using f(2) src(3) by (cases signer) (auto simp: shape_default_def attach_signature_def)
  have "n = length (content input)" "n \<le> MAX_CHUNKS * CHUNK_LEN"
    "out = pre_encode pre @ framed @ om_payload_salt material
       @ records A (payload_key A (om_cek material) (om_object_id material) (om_payload_salt material))
           (om_object_id material) (hash A [protected]) 0 (content input)"
    using enc encrypt_records_spec [OF assms(1) src(1) k] src(2) by (auto simp: src_def split: if_splits)
  with f at assms(3) show thesis by (intro that) (simp_all add: preamble_for_default)
qed

lemma attach_signature_fields:
  assumes "md_ty metadata" "attach_signature P A signer shape hdr0 metadata base pt = Inr (hdr, md)"
  shows "md_ty md" "md_filename md = md_filename metadata" "md_media_type md = md_media_type metadata"
    "md_extensions md = md_extensions metadata" "ph_object_id hdr = ph_object_id hdr0"
    "ph_recipients hdr = ph_recipients hdr0" "ph_extensions hdr = ph_extensions hdr0"
  using assms by (cases signer; cases "snd (the signer)"; auto simp: attach_signature_def result_simps Let_def)+

lemma attach_signatureD:
  assumes "sig_laws P" "modern signer" "md_ty metadata" "md_signature metadata = None" "md_signing_base C metadata = Inr base"
    and "attach_signature P A signer shape_default hdr0 metadata base pt = Inr (hdr, md)"
    and "ph_signatures hdr0 = []" "pre_with_signed len (signer \<noteq> None) = Inr pre"
  shows "verify_signature P C pre (hdr\<lparr>ph_encrypted_metadata := em\<rparr>) md (hash A [pt]) (len64 pt)
       = Inr (map_option (\<lambda>(i, _). verifying_key P i) signer)"
proof -
  note pre = pre_with_signed_props [OF assms(8)]
  note same = attach_signature_fields [OF assms(3,6)]
  show "verify_signature P C pre (hdr\<lparr>ph_encrypted_metadata := em\<rparr>) md (hash A [pt]) (len64 pt)
       = Inr (map_option (\<lambda>(i, _). verifying_key P i) signer)"
  proof (cases signer)
    case None
    then show ?thesis
      using assms(4,6,7) pre(3) by (simp add: attach_signature_def verify_signature_None_iff)
  next
    case (Some ip)
    obtain i p where ip: "ip = (i, p)" by (cases ip)
    have nl: "\<not> is_legacy_placement (Some (i, p))" using assms(2) Some ip by simp
    obtain prov where prov: "pre_with_signed 1 True = Inr prov"
        and at: "(hdr, md) = (case p of
                    Public \<Rightarrow> (hdr0\<lparr>ph_signatures := ph_signatures hdr0 @ [\<lparr>ss_verifying_key = vi_to_bytes (verifying_key P i),
                        ss_signature = sign P i (signing_context prov) (transcript prov hdr0 base (hash A [pt]) (len64 pt))\<rparr>]\<rparr>, metadata)
                  | Confidential \<Rightarrow> (hdr0, metadata\<lparr>md_signature := Some \<lparr>ss_verifying_key = vi_to_bytes (verifying_key P i),
                        ss_signature = sign P i (signing_context prov) (transcript prov hdr0 base (hash A [pt]) (len64 pt))\<rparr>\<rparr>)
                  | Stripped \<Rightarrow> (hdr0, metadata)
                  | LegacyPublic \<Rightarrow> (hdr0\<lparr>ph_signatures := ph_signatures hdr0 @ [\<lparr>ss_verifying_key = vi_to_bytes (verifying_key P i),
                        ss_signature = sign P i (signing_context prov) (transcript prov hdr0 base (hash A [pt]) (len64 pt))\<rparr>]\<rparr>, metadata))"
      using assms(6) Some ip nl by (auto simp: attach_signature_def result_simps Let_def preamble_for_default)
    note pp = pre_with_signed_props [OF prov]
    have "pre_signed_prefix prov = pre_signed_prefix pre" "pre_is_legacy prov = pre_is_legacy pre"
      using pp pre Some by simp_all
    then have t: "transcript pre (hdr\<lparr>ph_encrypted_metadata := em\<rparr>) = transcript prov hdr0"
        "signing_context pre = signing_context prov"
      using same(5-7) by (auto simp: signing_context_def intro!: transcript_cong)
    have b: "md_signing_base C md = Inr base"
      using assms(5) at by (auto simp: md_signing_base_eq split: SignaturePlacement.splits)
    have sg: "the_signature (hdr\<lparr>ph_encrypted_metadata := em\<rparr>) md = Some \<lparr>ss_verifying_key = vi_to_bytes (verifying_key P i),
        ss_signature = sign P i (signing_context prov) (transcript prov hdr0 base (hash A [pt]) (len64 pt))\<rparr>"
      using at assms(2,4,7) Some ip by (auto simp: the_signature_def modern_def split: SignaturePlacement.splits)
    have "verify_signature P C pre (hdr\<lparr>ph_encrypted_metadata := em\<rparr>) md (hash A [pt]) (len64 pt)
        = Inr (Some (verifying_key P i))"
      using pre(3) Some sg b t hs.of_bytes_public [OF assms(1)] hs.check_make [OF assms(1)]
      by (simp add: verify_signature_Some_iff)
    then show ?thesis using Some ip by simp
  qed
qed

lemma read_exact_prefix:
  assumes "reader_ok r" "content r = bs @ rest" "n = length bs"
  obtains r' where "read_exact r n = Inr (bs, r')" "reader_ok r'" "content r' = rest"
  using read_exact_content [OF assms(1), of n] assms(2,3) by auto

lemma encode_header_length:
  assumes "cbor_laws C" "encode_header C p a = Inr x" "encode_header C p b = Inr y" "length a = length b"
  shows "length x = length y"
  using assms(2,3) cbor_bytes_length [OF assms(1,4)] by (auto simp: encode_header_def result_simps Let_def)

lemma seal_lengthD:
  assumes "crypto_laws A" "length k = 32" "seal A k n a m = Inr c"
  shows "length c = length m + 16" "c = sealed A k n a m"
  using assms aead_len [OF assms(1), of k n a m] by (auto simp: seal_def cipher_new_def sealed_def result_simps)

lemma ph_encode_metadata_bound: "ph_encode C h = Inr b \<Longrightarrow> length (ph_encrypted_metadata h) \<le> MAX_METADATA_LEN + TAG_LEN"
  by (auto simp: ph_encode_def ph_encode_with_signatures_def split: if_splits)

text \<open>Decryption of a container given part by part, up to the check of the signature.\<close>

lemma decrypt_parts:
  assumes "crypto_laws A" "reader_ok r" "length preb = PREAMBLE_LEN" "length salt = 16" "length pt \<le> MAX_CHUNKS * CHUNK_LEN"
    and "content r = preb @ framed @ salt
      @ records A (payload_key A cek (ph_object_id header) salt) (ph_object_id header) (hash A [protected]) 0 pt"
    and "pre_decode preb = Inr pre" "header_len_usize pre = length framed" "decode_header C framed = Inr (protected, tag)"
    and "ph_decode C protected = Inr header" "recover_cek A secret header preb protected tag = Inr cek"
    and "open_sealed A (metadata_key A cek (ph_object_id header)) (replicate 12 0)
      (metadata_aad (ph_object_id header)) (ph_encrypted_metadata header) = Inr m" "md_decode C m = Inr md"
    and "\<not> (pre_is_legacy pre \<and> (ph_extensions header \<noteq> [] \<or> list_ex (\<lambda>st. as_xwing st = None) (ph_recipients header)))"
    and "\<not> (pre_is_legacy pre \<and> md_extensions md \<noteq> [])"
  shows "decrypt_to_staging A C P r secret =
    bindR (verify_signature P C pre header md (sha256 A pt) (of_nat (length pt))) (\<lambda>signer.
      Inr (\<lparr>vo_metadata = md, vo_plaintext_len = length pt, vo_signer = signer\<rparr>, pt))"
proof -
  let ?oid = "ph_object_id header"
  let ?rec = "records A (payload_key A cek ?oid salt) ?oid (hash A [protected]) 0 pt"
  obtain i1 where i1: "read_exact r PREAMBLE_LEN = Inr (preb, i1)" "reader_ok i1" "content i1 = framed @ salt @ ?rec"
    using read_exact_prefix [OF assms(2,6)] assms(3) by auto
  obtain i2 where i2: "read_exact i1 (header_len_usize pre) = Inr (framed, i2)" "reader_ok i2" "content i2 = salt @ ?rec"
    using read_exact_prefix [OF i1(2,3) assms(8)] by auto
  obtain i3 where i3: "read_payload i2 16 = Inr (salt, i3)" "reader_ok i3" "content i3 = ?rec"
    using read_payload_prefix [OF i2(2,3)] assms(4) by auto
  have k: "length (payload_key A cek ?oid salt) = 32" by (simp add: payload_key_def crypto_lengths [OF assms(1)])
  have rec: "decrypt_records A hasher_write i3 ([], hasher_new) (payload_key A cek ?oid salt) ?oid (hash A [protected])
      = Inr (length pt, pt, pt)"
    using hw.decrypt_records_iff [OF assms(1) i3(2) k, of "([], hasher_new)" ?oid "hash A [protected]" "length pt"] i3(3) assms(5)
    by (auto simp: hasher_write_def hasher_new_def hasher_update_def)
  show ?thesis
    unfolding decrypt_to_staging_def using i1(1) i2(1) i3(1) rec assms(7,9-15) by (auto simp: hasher_finish_def)
qed

text \<open>What a recipient of an encryption with the default shape decrypts, again up to the signature.\<close>

lemma decrypt_written:
  assumes "crypto_laws A" "cbor_laws C" "reader_ok input" "reader_ok input'"
    and "\<not> is_legacy_placement signer" "md_ty metadata"
    and "length (om_object_id material) = 32" "length (om_payload_salt material) = 16"
    and "encrypt_inner A C P input metadata material recipients signer shape_default = Inr (n, out)"
    and "content input' = out"
    and "\<exists>st\<in>set recipients. unwrap_cek A secret (om_object_id material) (rs_encapsulation st) (rs_wrapped_cek st)
           = Inr (om_cek material)"
    and "\<forall>st\<in>set recipients. \<forall>k. unwrap_cek A secret (om_object_id material) (rs_encapsulation st) (rs_wrapped_cek st)
           = Inr k \<longrightarrow> k = om_cek material"
  obtains base hdr md em len pre where "md_signing_base C metadata = Inr base"
    "attach_signature P A signer shape_default \<lparr>ph_object_id = om_object_id material, ph_recipients = map XWing recipients,
       ph_encrypted_metadata = [], ph_signatures = [], ph_extensions = []\<rparr> metadata base (content input) = Inr (hdr, md)"
    "pre_with_signed len (signer \<noteq> None) = Inr pre" "n = length (content input)"
    "decrypt_to_staging A C P input' secret =
       bindR (verify_signature P C pre (hdr\<lparr>ph_encrypted_metadata := em\<rparr>) md (hash A [content input]) (len64 (content input)))
         (\<lambda>s. Inr (\<lparr>vo_metadata = md, vo_plaintext_len = n, vo_signer = s\<rparr>, content input))"
proof -
  let ?cek = "om_cek material" and ?oid = "om_object_id material" and ?salt = "om_payload_salt material"
  obtain base hdr md m em protected sized pre framed where
    base: "md_signing_base C metadata = Inr base" and
    at: "attach_signature P A signer shape_default \<lparr>ph_object_id = ?oid,
       ph_recipients = map XWing recipients, ph_encrypted_metadata = [], ph_signatures = [],
       ph_extensions = []\<rparr> metadata base (content input) = Inr (hdr, md)" and
    m: "md_encode C md = Inr m" and
    em: "seal A (metadata_key A ?cek ?oid) (replicate 12 0) (metadata_aad ?oid) m = Inr em" and
    prot: "ph_encode C (hdr\<lparr>ph_encrypted_metadata := em\<rparr>) = Inr protected" and
    sized: "encode_header C protected (replicate 32 0) = Inr sized" and
    pre: "pre_with_signed (length sized) (signer \<noteq> None) = Inr pre" and
    framed: "encode_header C protected (mac A (header_mac_key A ?cek ?oid) [pre_encode pre, protected]) = Inr framed" and
    n: "n = length (content input)" "n \<le> MAX_CHUNKS * CHUNK_LEN" and
    out: "out = pre_encode pre @ framed @ ?salt
       @ records A (payload_key A ?cek ?oid ?salt) ?oid (hash A [protected]) 0 (content input)"
    using encrypt_innerE [OF assms(1,3,5,9)] .
  let ?hdr = "hdr\<lparr>ph_encrypted_metadata := em\<rparr>" and ?tag = "mac A (header_mac_key A ?cek ?oid) [pre_encode pre, protected]"
  note at' = attach_signature_fields [OF assms(6) at, simplified]
  note pp = pre_with_signed_props [OF pre]
  have tag: "length ?tag = 32" by (simp add: mac_def crypto_lengths [OF assms(1)])
  have hl: "header_len_usize pre = length framed"
    using encode_header_length [OF assms(2) sized framed] tag pp(2) by simp
  have dec: "pre_decode (pre_encode pre) = Inr pre" "decode_header C framed = Inr (protected, ?tag)"
      "ph_decode C protected = Inr ?hdr"
    using pre_decode_encode [OF pp(1)] decode_encode_header [OF assms(2) tag framed]
      ph_decode_encode [OF assms(2) _ prot] at'(5) assms(7) by (simp_all add: ph_ty_def)
  have cek: "recover_cek A secret ?hdr (pre_encode pre) protected ?tag = Inr ?cek"
    using recover_loop_finds [OF assms(11,12)] at'(5,6) by (simp add: recover_cek_def verify_mac_def)
  have k32: "length (metadata_key A ?cek ?oid) = 32" by (simp add: metadata_key_def crypto_lengths [OF assms(1)])
  have ml: "length m \<le> MAX_METADATA_LEN"
    using seal_lengthD [OF assms(1) k32 em] ph_encode_metadata_bound [OF prot] by (simp add: TAG_LEN_def)
  have op: "open_sealed A (metadata_key A ?cek ?oid) (replicate 12 0) (metadata_aad ?oid) em = Inr m"
    using open_seal [OF assms(1) k32] seal_lengthD [OF assms(1) k32 em] ml by (simp add: MAX_METADATA_LEN_def)
  have md: "md_decode C m = Inr md" by (rule md_decode_encode [OF assms(2) at'(1) m ml])
  have "decrypt_to_staging A C P input' secret =
       bindR (verify_signature P C pre ?hdr md (sha256 A (content input)) (of_nat (length (content input))))
         (\<lambda>s. Inr (\<lparr>vo_metadata = md, vo_plaintext_len = length (content input), vo_signer = s\<rparr>, content input))"
    by (rule decrypt_parts [OF assms(1,4), of "pre_encode pre" ?salt _ framed ?cek ?hdr protected pre C ?tag secret m])
       (use assms(8,10) n out dec hl cek op md pp(4) at'(5) in \<open>simp_all add: PREAMBLE_LEN_def\<close>)
  then show thesis using that [OF base at pre n(1)] n(1) by (simp add: hash_def len64_def)
qed

lemma decrypt_inner:
  assumes "crypto_laws A" "cbor_laws C" "sig_laws P" "reader_ok input" "reader_ok input'"
    and "modern signer" "md_ty metadata" "md_signature metadata = None"
    and "length (om_object_id material) = 32" "length (om_payload_salt material) = 16"
    and "encrypt_inner A C P input metadata material recipients signer shape_default = Inr (n, out)"
    and "content input' = out"
    and "\<exists>st\<in>set recipients. unwrap_cek A secret (om_object_id material) (rs_encapsulation st) (rs_wrapped_cek st)
           = Inr (om_cek material)"
    and "\<forall>st\<in>set recipients. \<forall>k. unwrap_cek A secret (om_object_id material) (rs_encapsulation st) (rs_wrapped_cek st)
           = Inr k \<longrightarrow> k = om_cek material"
  shows "\<exists>md. decrypt_to_staging A C P input' secret
      = Inr (\<lparr>vo_metadata = md, vo_plaintext_len = n, vo_signer = map_option (\<lambda>(i, _). verifying_key P i) signer\<rparr>,
             content input)
    \<and> md\<lparr>md_signature := None\<rparr> = metadata \<and> n = length (content input)"
proof -
  have "\<not> is_legacy_placement signer" using assms(6) by simp
  then obtain base hdr md em len pre where w: "md_signing_base C metadata = Inr base"
    "attach_signature P A signer shape_default \<lparr>ph_object_id = om_object_id material, ph_recipients = map XWing recipients,
       ph_encrypted_metadata = [], ph_signatures = [], ph_extensions = []\<rparr> metadata base (content input) = Inr (hdr, md)"
    "pre_with_signed len (signer \<noteq> None) = Inr pre" "n = length (content input)"
    "decrypt_to_staging A C P input' secret =
       bindR (verify_signature P C pre (hdr\<lparr>ph_encrypted_metadata := em\<rparr>) md (hash A [content input]) (len64 (content input)))
         (\<lambda>s. Inr (\<lparr>vo_metadata = md, vo_plaintext_len = n, vo_signer = s\<rparr>, content input))"
    by (rule decrypt_written [OF assms(1,2,4,5) _ assms(7,9-14)])
  have "md\<lparr>md_signature := None\<rparr> = metadata"
    using attach_signature_fields(2-4) [OF assms(7) w(2)] assms(8) by (cases md; cases metadata) simp
  then show ?thesis
    using w(4,5) attach_signatureD [OF assms(3,6-8) w(1,2) _ w(3), of em] by simp
qed

lemma wrap_all_stanzas:
  "wrap_all A draw i rs cek oid = Inr sts \<Longrightarrow>
     list_all2 (\<lambda>r st. \<exists>seed w. wrap_with_rng A r cek oid seed = Inr w
       \<and> rs_encapsulation st = wk_encapsulation w \<and> rs_wrapped_cek st = wk_wrapped_cek w) rs sts"
proof (induction rs arbitrary: i sts)
  case (Cons r rs)
  then obtain w ws where "wrap_cek A (draw i 32) r cek oid = Inr w" "wrap_all A draw (i + 1) rs cek oid = Inr ws"
    "sts = \<lparr>rs_encapsulation = wk_encapsulation w, rs_wrapped_cek = wk_wrapped_cek w\<rparr> # ws"
    by (auto simp: result_simps)
  then show ?case using Cons.IH by (auto simp: wrap_cek_def result_simps)
qed simp

lemma list_all2_partner:
  "list_all2 R xs ys \<Longrightarrow> x \<in> set xs \<Longrightarrow> \<exists>y\<in>set ys. R x y"
  "list_all2 R xs ys \<Longrightarrow> y \<in> set ys \<Longrightarrow> \<exists>x\<in>set xs. R x y"
  by (induction rule: list_all2_induct) auto

text \<open>A stanza made for another recipient does not open under this secret.\<close>

definition closed_to :: "crypto_api \<Rightarrow> bytes \<Rightarrow> bytes \<Rightarrow> bool" where
  "closed_to A secret r \<longleftrightarrow> (\<forall>cek oid seed w. wrap_with_rng A r cek oid seed = Inr w \<longrightarrow>
     \<not> is_ok (unwrap_cek A secret oid (wk_encapsulation w) (wk_wrapped_cek w)))"

definition fills :: "rng \<Rightarrow> bool" where
  "fills draw \<longleftrightarrow> (\<forall>i n bs. draw i n = Some bs \<longrightarrow> length bs = n)"

lemma own_stanza:
  assumes "crypto_laws A" "length secret = 32" "length cek = 32" "public_key A secret = Inr r0" "r0 \<in> set recipients"
    and "\<forall>r\<in>set recipients. r \<noteq> r0 \<longrightarrow> closed_to A secret r"
    and "wrap_all A draw i recipients cek oid = Inr sts"
  shows "\<exists>st\<in>set sts. unwrap_cek A secret oid (rs_encapsulation st) (rs_wrapped_cek st) = Inr cek"
    "\<forall>st\<in>set sts. \<forall>k. unwrap_cek A secret oid (rs_encapsulation st) (rs_wrapped_cek st) = Inr k \<longrightarrow> k = cek"
proof -
  have r0: "r0 = hpke_pk A secret" using assms(4) by (auto simp: public_key_def split: if_splits)
  note l = wrap_all_stanzas [OF assms(7)]
  have un: "unwrap_cek A secret oid (rs_encapsulation st) (rs_wrapped_cek st) = Inr cek"
    if "wrap_with_rng A r0 cek oid seed = Inr w" "rs_encapsulation st = wk_encapsulation w" "rs_wrapped_cek st = wk_wrapped_cek w"
    for st seed w using unwrap_wrap(1) [OF assms(1-3)] that r0 by simp
  show "\<exists>st\<in>set sts. unwrap_cek A secret oid (rs_encapsulation st) (rs_wrapped_cek st) = Inr cek"
    using list_all2_partner(1) [OF l assms(5)] un by blast
  show "\<forall>st\<in>set sts. \<forall>k. unwrap_cek A secret oid (rs_encapsulation st) (rs_wrapped_cek st) = Inr k \<longrightarrow> k = cek"
  proof (intro ballI allI impI)
    fix st k assume st: "st \<in> set sts" and k: "unwrap_cek A secret oid (rs_encapsulation st) (rs_wrapped_cek st) = Inr k"
    obtain r seed w where r: "r \<in> set recipients" "wrap_with_rng A r cek oid seed = Inr w"
        "rs_encapsulation st = wk_encapsulation w" "rs_wrapped_cek st = wk_wrapped_cek w"
      using list_all2_partner(2) [OF l st] by blast
    show "k = cek"
    proof (cases "r = r0")
      case True
      then show ?thesis using un [of seed w st] r k by simp
    next
      case False
      then have "closed_to A secret r" using assms(6) r(1) by blast
      then show ?thesis using r(2-4) k unfolding closed_to_def by (metis is_ok_simps(2))
    qed
  qed
qed

lemma draw_materialD:
  "fills draw \<Longrightarrow> draw_material draw = Inr mat \<Longrightarrow>
     length (om_cek mat) = 32 \<and> length (om_object_id mat) = 32 \<and> length (om_payload_salt mat) = 16"
  by (auto simp: draw_material_def fills_def random_array_def result_simps)

lemma recover_loopD:
  "recover_loop A secret oid pre prot tag sts = Inr cek \<Longrightarrow>
     (\<exists>st\<in>set sts. unwrap_cek A secret oid (rs_encapsulation st) (rs_wrapped_cek st) = Inr cek)
     \<and> tag = mac A (header_mac_key A cek oid) [pre, prot]"
  by (induction sts) (auto simp: verify_mac_def split: sum.splits if_splits)

lemma map_filter_xwing_mem: "st \<in> set (List.map_filter as_xwing sts) \<longleftrightarrow> XWing st \<in> set sts"
  by (induction sts) (auto simp: List.map_filter_simps as_xwing_def split: Stanza.splits)

lemma encrypt_then_decrypt:
  assumes "crypto_laws A" "cbor_laws C" "sig_laws P" "fills draw" "reader_ok input" "reader_ok input'"
    and "md_ty metadata" "md_signature metadata = None"
    and "length secret = 32" "public_key A secret = Inr r0" "r0 \<in> set recipients"
    and "\<forall>r\<in>set recipients. r \<noteq> r0 \<longrightarrow> closed_to A secret r"
    and "encrypt A C P draw input recipients metadata = Inr (n, out)" "content input' = out"
  shows "\<exists>md. decrypt_to_staging A C P input' secret
      = Inr (\<lparr>vo_metadata = md, vo_plaintext_len = length (content input), vo_signer = None\<rparr>, content input)
    \<and> md\<lparr>md_signature := None\<rparr> = metadata \<and> n = length (content input)"
proof -
  obtain mat sts where mat: "draw_material draw = Inr mat"
    and sts: "wrap_all A draw 3 recipients (om_cek mat) (om_object_id mat) = Inr sts"
    and inner: "encrypt_inner A C P input metadata mat sts None shape_default = Inr (n, out)"
    using assms(13) by (auto simp: encrypt_def encrypt_with_material_def result_simps)
  have l: "length (om_cek mat) = 32" "length (om_object_id mat) = 32" "length (om_payload_salt mat) = 16"
    using draw_materialD [OF assms(4) mat] by auto
  have "modern None" by (simp add: modern_def)
  from decrypt_inner [OF assms(1-3,5,6) this assms(7,8) l(2,3) inner assms(14) own_stanza [OF assms(1,9) l(1) assms(10-12) sts]]
  show ?thesis by auto
qed

lemma encrypt_signed_then_decrypt:
  assumes "crypto_laws A" "cbor_laws C" "sig_laws P" "fills draw" "reader_ok input" "reader_ok input'"
    and "md_ty metadata" "md_signature metadata = None"
    and "length secret = 32" "public_key A secret = Inr r0" "r0 \<in> set recipients"
    and "\<forall>r\<in>set recipients. r \<noteq> r0 \<longrightarrow> closed_to A secret r"
    and "placement = Public \<or> placement = Confidential"
    and "encrypt_signed A C P draw input recipients metadata identity placement = Inr (n, out)" "content input' = out"
  shows "\<exists>md. decrypt_to_staging A C P input' secret
      = Inr (\<lparr>vo_metadata = md, vo_plaintext_len = length (content input),
             vo_signer = Some (verifying_key P identity)\<rparr>, content input)
    \<and> md\<lparr>md_signature := None\<rparr> = metadata \<and> n = length (content input)"
proof -
  obtain mat sts where mat: "draw_material draw = Inr mat"
    and sts: "wrap_all A draw 3 recipients (om_cek mat) (om_object_id mat) = Inr sts"
    and inner: "encrypt_inner A C P input metadata mat sts (Some (identity, placement)) shape_default = Inr (n, out)"
    using assms(14) by (auto simp: encrypt_signed_def result_simps)
  have l: "length (om_cek mat) = 32" "length (om_object_id mat) = 32" "length (om_payload_salt mat) = 16"
    using draw_materialD [OF assms(4) mat] by auto
  have "modern (Some (identity, placement))" using assms(13) by (auto simp: modern_def)
  from decrypt_inner [OF assms(1-3,5,6) this assms(7,8) l(2,3) inner assms(15) own_stanza [OF assms(1,9) l(1) assms(10-12) sts]]
  show ?thesis by auto
qed

section \<open>Encryption succeeds\<close>

lemma md_encode_unsigned: "md_signature md = None \<Longrightarrow> md_encode C md = md_signing_base C md"
  by (simp add: md_encode_def md_signing_base_def md_encode_with_signature_def)

lemma signature_size:
  assumes "cbor_small C" "\<not> signature_bad st"
  shows "length (encode_signature C st) \<le> 5393"
  using cbor_smallD(5) [OF assms(1), of 3] cbor_smallD(1) [OF assms(1), of 1] assms(2)
    cbor_smallD(4) [OF assms(1), of "ss_verifying_key st"] cbor_smallD(4) [OF assms(1), of "ss_signature st"]
  by (simp add: encode_signature_def signature_bad_def format_limits)

lemma md_encode_signed:
  assumes "cbor_small C" "md_signing_base C md = Inr m" "\<not> signature_bad st"
  shows "\<exists>m'. md_encode C (md\<lparr>md_signature := Some st\<rparr>) = Inr m' \<and> length m' \<le> length m + 6000"
proof -
  obtain f t where ft: "encode_filename C (md_filename md) = Inr f" "encode_media_type C (md_media_type md) = Inr t"
      "check_extensions (md_extensions md) = Inr ()"
      "m = enc_map C (count_opt (md_filename md) + count_opt (md_media_type md) + count_opt (None :: SignatureStanza option)
             + len64 (md_extensions md)) @ f @ t @ encode_extensions C (md_extensions md)"
    using assms(2) by (auto simp: md_signing_base_def md_encode_with_signature_def encode_md_signature_def Let_def result_simps)
  show ?thesis
    using ft assms(3) signature_size [OF assms(1,3)] cbor_smallD(1) [OF assms(1), of 3]
      cbor_smallD(6) [OF assms(1), of "count_opt (md_filename md) + count_opt (md_media_type md) + count_opt (Some st)
             + len64 (md_extensions md)"]
    by (simp add: md_encode_def md_encode_with_signature_def encode_md_signature_def Let_def)
qed

lemma stanzas_size:
  assumes "cbor_small C" "\<forall>st\<in>set sts. length (rs_encapsulation st) = 1120 \<and> length (rs_wrapped_cek st) = 48"
  shows "\<exists>ss. mapR (encode_stanza C) (map XWing sts) = Inr ss \<and> length (concat ss) \<le> 1204 * length sts"
  using assms(2)
proof (induction sts)
  case (Cons st sts)
  then obtain ss where ss: "mapR (encode_stanza C) (map XWing sts) = Inr ss" "length (concat ss) \<le> 1204 * length sts" by auto
  have "encode_stanza C (XWing st) = Inr (enc_array C 3 @ enc_u64 C XWING_TAG @ enc_bytes C (rs_encapsulation st)
      @ enc_bytes C (rs_wrapped_cek st))" using Cons.prems by (simp add: encode_stanza_def format_limits)
  then show ?case
    using ss Cons.prems cbor_smallD(4) [OF assms(1), of "rs_encapsulation st"] cbor_smallD(4) [OF assms(1), of "rs_wrapped_cek st"]
      cbor_smallD(5) [OF assms(1), of 3] cbor_smallD(3) [OF assms(1), of XWING_TAG]
    by simp
qed simp

lemma header_fits:
  assumes "cbor_small C" "\<forall>st\<in>set sts. length (rs_encapsulation st) = 1120 \<and> length (rs_wrapped_cek st) = 48"
    and "sts \<noteq> []" "length sts \<le> MAX_RECIPIENTS"
    and "length (ph_object_id h) = 32" "ph_recipients h = map XWing sts" "ph_extensions h = []"
    and "16 \<le> length (ph_encrypted_metadata h)" "length (ph_encrypted_metadata h) \<le> MAX_METADATA_LEN + 16"
    and "ph_signatures h = [] \<or> (\<exists>sg. ph_signatures h = [sg] \<and> \<not> signature_bad sg)"
  shows "\<exists>bs. ph_encode C h = Inr bs \<and> 0 < length bs \<and> length bs \<le> 500000"
proof -
  obtain ss where ss: "mapR (encode_stanza C) (map XWing sts) = Inr ss" "length (concat ss) \<le> 1204 * length sts"
    using stanzas_size [OF assms(1,2)] by blast
  have sl: "length (concat (map (encode_signature C) (ph_signatures h))) \<le> 5393"
    using assms(10) signature_size [OF assms(1)] by auto
  let ?b = "enc_map C (5 + len64 (ph_extensions h)) @ enc_u8 C 1 @ enc_u16 C SUITE @ enc_u8 C 2 @ enc_bytes C (ph_object_id h)
    @ enc_u8 C 3 @ enc_array C (len64 (ph_recipients h)) @ concat ss
    @ enc_u8 C 4 @ enc_bytes C (ph_encrypted_metadata h)
    @ enc_u8 C 5 @ enc_array C (len64 (ph_signatures h)) @ concat (map (encode_signature C) (ph_signatures h))
    @ encode_extensions C (ph_extensions h)"
  have "0 < length ?b \<and> length ?b \<le> 500000"
    using assms(4,5,7,9) ss(2) sl cbor_smallD(1) [OF assms(1), of 1] cbor_smallD(1) [OF assms(1), of 2]
      cbor_smallD(1) [OF assms(1), of 3] cbor_smallD(1) [OF assms(1), of 4] cbor_smallD(1) [OF assms(1), of 5]
      cbor_smallD(2) [OF assms(1), of SUITE] cbor_smallD(4,7) [OF assms(1), of "ph_object_id h"]
      cbor_smallD(4) [OF assms(1), of "ph_encrypted_metadata h"] cbor_smallD(5) [OF assms(1), of "len64 (ph_recipients h)"]
      cbor_smallD(5) [OF assms(1), of "len64 (ph_signatures h)"] cbor_smallD(6) [OF assms(1), of "5 + len64 (ph_extensions h)"]
    by (auto simp: format_limits encode_extensions_def simp del: length_concat)
  moreover have "list_ex signature_bad (ph_signatures h) = False" using assms(10) by auto
  ultimately have "ph_encode C h = Inr ?b"
    using assms(3,4,6-10) ss(1)
    by (auto simp: ph_encode_def ph_encode_with_signatures_def format_limits check_extensions_def check_header_len_def Let_def
        simp del: length_append length_concat)
  then show ?thesis using \<open>0 < length ?b \<and> length ?b \<le> 500000\<close> by blast
qed

lemma frame_fits:
  assumes "cbor_small C" "0 < length protected" "length protected \<le> 500000" "length tag = 32"
  shows "\<exists>framed. encode_header C protected tag = Inr framed \<and> 0 < length framed \<and> length framed \<le> 500100"
  using assms(2-4) cbor_smallD(5) [OF assms(1), of 2] cbor_smallD(4,7) [OF assms(1), of protected] cbor_smallD(4) [OF assms(1), of tag]
  by (auto simp: encode_header_def check_header_len_def format_limits Let_def)

lemma preamble_fits:
  assumes "0 < n" "n \<le> 500100"
  shows "\<exists>p. preamble_for False b shape_default n = Inr p"
  using assms
  by (cases b) (simp_all add: preamble_for_def shape_default_def pre_from_parts_def CURRENT_MINOR_def
      LEGACY_SIGNED_MINOR_def FLAG_SIGNED_def format_limits Let_def)

lemma shape_default_simps [simp]:
  "vs_leading_stanzas shape_default = []" "vs_header_extensions shape_default = []"
  by (simp_all add: shape_default_def)

text \<open>The bound on what a call can encrypt: the counter, and for a signed container the buffer.\<close>

definition payload_fits :: "(SigningIdentity \<times> SignaturePlacement) option \<Rightarrow> bytes \<Rightarrow> bool" where
  "payload_fits signer pt \<longleftrightarrow>
     length pt \<le> (if signer = None then MAX_CHUNKS * CHUNK_LEN else MAX_SIGNED_INPUT)"

lemma attach_succeeds:
  assumes "sig_laws P" "cbor_small C" "\<not> is_legacy_placement signer" "md_signature metadata = None" "md_signing_base C metadata = Inr base"
    and "ph_signatures hdr0 = []"
  shows "\<exists>hdr md m. attach_signature P A signer shape_default hdr0 metadata base pt = Inr (hdr, md) \<and> md_encode C md = Inr m \<and>
    length m \<le> length base + 6000 \<and> hdr = hdr0\<lparr>ph_signatures := ph_signatures hdr\<rparr> \<and>
    (ph_signatures hdr = [] \<or> (\<exists>sg. ph_signatures hdr = [sg] \<and> \<not> signature_bad sg))"
proof (cases signer)
  case None
  then show ?thesis using assms(4-6) by (simp add: attach_signature_def md_encode_unsigned)
next
  case (Some ip)
  obtain i p where ip: "signer = Some (i, p)" "p \<noteq> LegacyPublic" using Some assms(3) by (cases ip) (auto simp: is_legacy_placement_def)
  obtain pp where pp: "preamble_for False True shape_default 1 = Inr pp" using preamble_fits [of 1 True] by auto
  define sg where "sg = \<lparr>ss_verifying_key = vi_to_bytes (verifying_key P i),
    ss_signature = sign P i (signing_context pp) (transcript pp hdr0 base (hash A [pt]) (len64 pt))\<rparr>"
  have bad: "\<not> signature_bad sg"
    using length_sign [OF assms(1)] vi_wf_verifying_key [OF assms(1), of i]
    by (simp add: signature_bad_def sg_def format_limits length_vi_to_bytes SIGNATURE_LENGTH_def VERIFYING_KEY_LENGTH_def sign_lengths)
  have at: "attach_signature P A signer shape_default hdr0 metadata base pt
      = Inr (if p = Public then (hdr0\<lparr>ph_signatures := [sg]\<rparr>, metadata)
             else if p = Stripped then (hdr0, metadata) else (hdr0, metadata\<lparr>md_signature := Some sg\<rparr>))"
    using ip assms(6) pp by (cases p) (auto simp: attach_signature_def is_legacy_placement_def sg_def Let_def)
  show ?thesis
    using at ip(2) bad assms(4-6) md_encode_signed [OF assms(2,5) bad] by (auto simp: md_encode_unsigned)
qed

lemma encrypt_inner_succeeds:
  assumes "crypto_laws A" "sig_laws P" "cbor_small C" "reader_ok input" "\<not> is_legacy_placement signer" "payload_fits signer (content input)"
    and "md_signature metadata = None" "md_signing_base C metadata = Inr base" "length base + 6000 \<le> MAX_METADATA_LEN"
    and "\<forall>st\<in>set sts. length (rs_encapsulation st) = 1120 \<and> length (rs_wrapped_cek st) = 48" "sts \<noteq> []" "length sts \<le> MAX_RECIPIENTS"
    and "length (om_object_id mat) = 32"
  shows "\<exists>out. encrypt_inner A C P input metadata mat sts signer shape_default = Inr (length (content input), out)"
proof -
  let ?cek = "om_cek mat" and ?oid = "om_object_id mat" and ?salt = "om_payload_salt mat" and ?pt = "content input"
  let ?h = "\<lparr>ph_object_id = ?oid, ph_recipients = map XWing sts, ph_encrypted_metadata = [], ph_signatures = [], ph_extensions = []\<rparr>"
  obtain i' where rd: "signer \<noteq> None \<Longrightarrow> read_chunk input (MAX_SIGNED_INPUT + 1) = Inr (?pt, i')"
    using read_chunk_content [OF assms(4), of "MAX_SIGNED_INPUT + 1"] assms(6) by (fastforce simp: payload_fits_def split: if_splits)
  define pt where "pt = (if signer = None then [] else ?pt)"
  obtain hdr md m where at: "attach_signature P A signer shape_default ?h metadata base pt = Inr (hdr, md)" "md_encode C md = Inr m"
      "length m \<le> length base + 6000" "hdr = ?h\<lparr>ph_signatures := ph_signatures hdr\<rparr>"
      "ph_signatures hdr = [] \<or> (\<exists>sg. ph_signatures hdr = [sg] \<and> \<not> signature_bad sg)"
    using attach_succeeds [OF assms(2,3,5,7,8), of ?h A pt] by auto
  have ml: "length m < 2 ^ 32" using at(3) assms(9) by (simp add: MAX_METADATA_LEN_def)
  obtain em where em: "seal A (metadata_key A ?cek ?oid) (replicate 12 0) (metadata_aad ?oid) m = Inr em" "length em = length m + 16"
    using seal_iff [OF assms(1) _ ml] length_sealed [OF assms(1) ml]
    by (simp add: metadata_key_def crypto_lengths [OF assms(1)])
  let ?hdr = "hdr\<lparr>ph_encrypted_metadata := em\<rparr>"
  have hf: "ph_object_id ?hdr = ?oid" "ph_recipients ?hdr = map XWing sts" "ph_extensions ?hdr = []" "ph_signatures ?hdr = ph_signatures hdr"
    by (subst at(4), simp)+
  obtain protected where prot: "ph_encode C ?hdr = Inr protected" "0 < length protected" "length protected \<le> 500000"
    using header_fits [OF assms(3,10-12), of ?hdr] hf assms(9,13) em(2) at(3,5) by auto
  obtain sized where sized: "encode_header C protected (replicate 32 0) = Inr sized" "0 < length sized" "length sized \<le> 500100"
    using frame_fits [OF assms(3) prot(2,3), of "replicate 32 0"] by auto
  obtain pre where pre: "preamble_for False (signer \<noteq> None) shape_default (length sized) = Inr pre"
    using preamble_fits [OF sized(2,3)] by blast
  obtain framed where framed: "encode_header C protected (mac A (header_mac_key A ?cek ?oid) [pre_encode pre, protected]) = Inr framed"
    using frame_fits [OF assms(3) prot(2,3), of "mac A (header_mac_key A ?cek ?oid) [pre_encode pre, protected]"]
    by (auto simp: mac_def crypto_lengths [OF assms(1)])
  have len: "length ?pt \<le> MAX_CHUNKS * CHUNK_LEN"
    using assms(6) by (auto simp: payload_fits_def MAX_CHUNKS_def CHUNK_LEN_def MAX_SIGNED_INPUT_def split: if_splits)
  have rec: "\<exists>o'. encrypt_records A r out (payload_key A ?cek ?oid ?salt) ?oid hh = Inr (length ?pt, o')"
    if "reader_ok r" "content r = ?pt" for r out hh
    using encrypt_records_spec [OF assms(1) that(1), of "payload_key A ?cek ?oid ?salt" out ?oid hh] that(2) len
    by (simp add: payload_key_def crypto_lengths [OF assms(1)])
  show ?thesis
    using rd at(1,2) em(1) prot(1) sized(1) pre framed rec [OF assms(4) refl] rec [OF slice_reader_ok] assms(5,6,8)
    by (auto simp: encrypt_inner_def Let_def pt_def payload_fits_def split: if_splits)
qed

text \<open>A recipient key that the key encapsulation accepts.\<close>

definition usable_key :: "crypto_api \<Rightarrow> bytes \<Rightarrow> bool" where
  "usable_key A r \<longleftrightarrow> (\<exists>sk. length sk = 32 \<and> r = hpke_pk A sk) \<and> (\<forall>cek oid seed. is_ok (wrap_with_rng A r cek oid seed))"

lemma wrap_all_succeeds:
  assumes "crypto_laws A" "\<forall>i n. draw i n \<noteq> None" "\<forall>r\<in>set rs. usable_key A r" "length cek = 32"
  shows "\<exists>sts. wrap_all A draw i rs cek oid = Inr sts \<and> length sts = length rs \<and>
    (\<forall>st\<in>set sts. length (rs_encapsulation st) = 1120 \<and> length (rs_wrapped_cek st) = 48)"
  using assms(3)
proof (induction rs arbitrary: i)
  case (Cons r rs)
  then obtain sts where sts: "wrap_all A draw (i + 1) rs cek oid = Inr sts" "length sts = length rs"
      "\<forall>st\<in>set sts. length (rs_encapsulation st) = 1120 \<and> length (rs_wrapped_cek st) = 48" by (metis list.set_intros(2))
  obtain seed where seed: "draw i 32 = Some seed" using assms(2) by blast
  obtain w where w: "wrap_with_rng A r cek oid seed = Inr w"
    using Cons.prems by (auto simp: usable_key_def is_ok_def split: sum.splits) (metis sumE)
  obtain sk where sk: "length sk = 32" "r = hpke_pk A sk" using Cons.prems by (auto simp: usable_key_def)
  then show ?case using sts seed w unwrap_wrap(2,3) [OF assms(1) sk(1) assms(4)]
    by (auto simp: wrap_cek_def random_array_def)
qed simp

lemma encrypt_total:
  assumes "crypto_laws A" "sig_laws P" "cbor_small C" "fills draw" "\<forall>i n. draw i n \<noteq> None" "reader_ok input"
    and "\<forall>r\<in>set recipients. usable_key A r" "recipients \<noteq> []" "length recipients \<le> MAX_RECIPIENTS"
    and "md_signature metadata = None" "md_signing_base C metadata = Inr base" "length base + 6000 \<le> MAX_METADATA_LEN"
  shows "payload_fits None (content input) \<Longrightarrow>
      \<exists>out. encrypt A C P draw input recipients metadata = Inr (length (content input), out)"
    "placement = Public \<or> placement = Confidential \<Longrightarrow> payload_fits (Some (identity, placement)) (content input) \<Longrightarrow>
      \<exists>out. encrypt_signed A C P draw input recipients metadata identity placement = Inr (length (content input), out)"
proof -
  obtain a b c where "draw 0 32 = Some a" "draw 1 32 = Some b" "draw 2 16 = Some c" using assms(5) by blast
  then obtain mat where mat: "draw_material draw = Inr mat" by (simp add: draw_material_def random_array_def)
  have l: "length (om_cek mat) = 32" "length (om_object_id mat) = 32" using draw_materialD [OF assms(4) mat] by auto
  obtain sts where sts: "wrap_all A draw 3 recipients (om_cek mat) (om_object_id mat) = Inr sts" "length sts = length recipients"
      "\<forall>st\<in>set sts. length (rs_encapsulation st) = 1120 \<and> length (rs_wrapped_cek st) = 48"
    using wrap_all_succeeds [OF assms(1,5,7) l(1)] by metis
  have v: "validate_recipients recipients = Inr ()" using assms(8,9) by (simp add: validate_recipients_def)
  have "sts \<noteq> []" "length sts \<le> MAX_RECIPIENTS" using sts(2) assms(8,9) by auto
  note inner = encrypt_inner_succeeds [OF assms(1-3,6) _ _ assms(10-12) sts(3) this l(2)]
  show "payload_fits None (content input) \<Longrightarrow>
      \<exists>out. encrypt A C P draw input recipients metadata = Inr (length (content input), out)"
    using inner [of None] mat sts(1) v by (simp add: encrypt_def encrypt_with_material_def modern_def)
  show "placement = Public \<or> placement = Confidential \<Longrightarrow> payload_fits (Some (identity, placement)) (content input) \<Longrightarrow>
      \<exists>out. encrypt_signed A C P draw input recipients metadata identity placement = Inr (length (content input), out)"
    using inner [of "Some (identity, placement)"] mat sts(1) v by (auto simp: encrypt_signed_def modern_def)
qed

text \<open>What a container adds to its records is bounded.\<close>

lemma container_overhead:
  assumes "crypto_laws A" "cbor_small C" "fills draw" "reader_ok input"
    and "\<forall>r\<in>set recipients. usable_key A r" "encrypt A C P draw input recipients metadata = Inr (n, out)"
  shows "\<exists>h k oid hh. out = h @ records A k oid hh 0 (content input) \<and> length h \<le> 500200 \<and> length k = 32"
proof -
  obtain mat sts where mat: "draw_material draw = Inr mat" and v: "validate_recipients recipients = Inr ()"
    and sts: "wrap_all A draw 3 recipients (om_cek mat) (om_object_id mat) = Inr sts"
    and inner: "encrypt_inner A C P input metadata mat sts None shape_default = Inr (n, out)"
    using assms(6) by (auto simp: encrypt_def encrypt_with_material_def result_simps)
  let ?cek = "om_cek mat" and ?oid = "om_object_id mat" and ?salt = "om_payload_salt mat"
  have l: "length ?cek = 32" "length ?oid = 32" "length ?salt = 16" using draw_materialD [OF assms(3) mat] by auto
  have mod: "\<not> is_legacy_placement None" by (simp add: is_legacy_placement_def)
  obtain base hdr md em protected sized pre framed where
    at: "attach_signature P A None shape_default \<lparr>ph_object_id = ?oid, ph_recipients = map XWing sts,
       ph_encrypted_metadata = [], ph_signatures = [], ph_extensions = []\<rparr> metadata base (content input) = Inr (hdr, md)" and
    prot: "ph_encode C (hdr\<lparr>ph_encrypted_metadata := em\<rparr>) = Inr protected" and
    framed: "encode_header C protected (mac A (header_mac_key A ?cek ?oid) [pre_encode pre, protected]) = Inr framed" and
    out: "out = pre_encode pre @ framed @ ?salt
       @ records A (payload_key A ?cek ?oid ?salt) ?oid (hash A [protected]) 0 (content input)"
    by (rule encrypt_innerE [OF assms(1,4) mod inner]) blast
  note la = wrap_all_stanzas [OF sts]
  have sl: "\<forall>st\<in>set sts. length (rs_encapsulation st) = 1120 \<and> length (rs_wrapped_cek st) = 48"
  proof
    fix st assume "st \<in> set sts"
    then obtain r seed w where w: "r \<in> set recipients" "wrap_with_rng A r ?cek ?oid seed = Inr w"
        "rs_encapsulation st = wk_encapsulation w" "rs_wrapped_cek st = wk_wrapped_cek w"
      using list_all2_partner(2) [OF la] by blast
    then obtain sk where "length sk = 32" "r = hpke_pk A sk" using assms(5) by (auto simp: usable_key_def)
    then show "length (rs_encapsulation st) = 1120 \<and> length (rs_wrapped_cek st) = 48"
      using unwrap_wrap(2,3) [OF assms(1) _ l(1)] w by simp
  qed
  have n: "sts \<noteq> []" "length sts \<le> MAX_RECIPIENTS"
    using v list_all2_lengthD [OF la] by (auto simp: validate_recipients_def split: if_splits)
  have em: "16 \<le> length em" "length em \<le> MAX_METADATA_LEN + 16"
    using prot by (auto simp: ph_encode_def ph_encode_with_signatures_def TAG_LEN_def split: if_splits)
  have "hdr = \<lparr>ph_object_id = ?oid, ph_recipients = map XWing sts, ph_encrypted_metadata = [], ph_signatures = [], ph_extensions = []\<rparr>"
    using at by (simp add: attach_signature_def)
  then have pl: "0 < length protected" "length protected \<le> 500000"
    using header_fits [OF assms(2) sl n, of "hdr\<lparr>ph_encrypted_metadata := em\<rparr>"] l(2) em prot by auto
  have "length framed \<le> 500100"
    using frame_fits [OF assms(2) pl, of "mac A (header_mac_key A ?cek ?oid) [pre_encode pre, protected]"] framed
    by (auto simp: mac_def crypto_lengths [OF assms(1)])
  moreover have "length (pre_encode pre) = 16" by (simp add: pre_encode_def MAGIC_def)
  moreover have "length (payload_key A ?cek ?oid ?salt) = 32" by (simp add: payload_key_def crypto_lengths [OF assms(1)])
  ultimately show ?thesis
    using out l(3)
    by (intro exI [of _ "pre_encode pre @ framed @ ?salt"] exI [of _ "payload_key A ?cek ?oid ?salt"] exI [of _ ?oid]
        exI [of _ "hash A [protected]"] conjI) simp_all
qed

section \<open>Strangers\<close>

lemma recover_loop_none:
  "\<forall>st\<in>set sts. \<not> is_ok (unwrap_cek A secret oid (rs_encapsulation st) (rs_wrapped_cek st)) \<Longrightarrow>
     recover_loop A secret oid pre prot tag sts = Inl NoMatchingRecipient"
  by (induction sts) (auto split: sum.splits)

text \<open>A secret that no stanza is for gets no further than the header.\<close>

lemma encrypt_then_stranger:
  assumes "crypto_laws A" "cbor_laws C" "sig_laws P" "fills draw" "reader_ok input" "reader_ok input'"
    and "md_ty metadata" "md_signature metadata = None" "\<forall>r\<in>set recipients. closed_to A secret r"
    and "encrypt A C P draw input recipients metadata = Inr (n, out)" "content input' = out"
  shows "decrypt_to_staging A C P input' secret = Inl NoMatchingRecipient"
proof -
  obtain mat sts where mat: "draw_material draw = Inr mat"
    and sts: "wrap_all A draw 3 recipients (om_cek mat) (om_object_id mat) = Inr sts"
    and inner: "encrypt_inner A C P input metadata mat sts None shape_default = Inr (n, out)"
    using assms(10) by (auto simp: encrypt_def encrypt_with_material_def result_simps)
  let ?cek = "om_cek mat" and ?oid = "om_object_id mat"
  have mod: "\<not> is_legacy_placement None" by (simp add: is_legacy_placement_def)
  obtain base hdr md em protected sized pre framed where
    base: "md_signing_base C metadata = Inr base" and
    at: "attach_signature P A None shape_default \<lparr>ph_object_id = ?oid,
       ph_recipients = map XWing sts, ph_encrypted_metadata = [], ph_signatures = [],
       ph_extensions = []\<rparr> metadata base (content input) = Inr (hdr, md)" and
    prot: "ph_encode C (hdr\<lparr>ph_encrypted_metadata := em\<rparr>) = Inr protected" and
    sized: "encode_header C protected (replicate 32 0) = Inr sized" and
    pre: "pre_with_signed (length sized) (None \<noteq> (None :: (SigningIdentity \<times> SignaturePlacement) option)) = Inr pre" and
    framed: "encode_header C protected (mac A (header_mac_key A ?cek ?oid) [pre_encode pre, protected]) = Inr framed" and
    out: "\<exists>rest. out = pre_encode pre @ framed @ rest"
    using encrypt_innerE [OF assms(1,5) mod inner] by metis
  let ?hdr = "hdr\<lparr>ph_encrypted_metadata := em\<rparr>" and ?tag = "mac A (header_mac_key A ?cek ?oid) [pre_encode pre, protected]"
  note at' = attach_signature_fields [OF assms(7) at, simplified]
  note pp = pre_with_signed_props [OF pre]
  have tag: "length ?tag = 32" by (simp add: mac_def crypto_lengths [OF assms(1)])
  have hl: "header_len_usize pre = length framed"
    using encode_header_length [OF assms(2) sized framed] tag pp(2) by simp
  obtain rest where rest: "out = pre_encode pre @ framed @ rest" using out by blast
  obtain i1 where i1: "read_exact input' PREAMBLE_LEN = Inr (pre_encode pre, i1)" "reader_ok i1" "content i1 = framed @ rest"
    using read_exact_prefix [OF assms(6), of "pre_encode pre"] assms(11) rest by (auto simp: PREAMBLE_LEN_def)
  obtain i2 where i2: "read_exact i1 (header_len_usize pre) = Inr (framed, i2)"
    using read_exact_prefix [OF i1(2,3) hl] by auto
  have dec: "pre_decode (pre_encode pre) = Inr pre" "decode_header C framed = Inr (protected, ?tag)"
      "ph_decode C protected = Inr ?hdr"
    using pre_decode_encode [OF pp(1)] decode_encode_header [OF assms(2) tag framed]
      ph_decode_encode [OF assms(2) _ prot] at'(5) draw_materialD [OF assms(4) mat] by (simp_all add: ph_ty_def)
  have "\<forall>st\<in>set sts. \<not> is_ok (unwrap_cek A secret ?oid (rs_encapsulation st) (rs_wrapped_cek st))"
    using list_all2_partner(2) [OF wrap_all_stanzas [OF sts]] assms(9) by (fastforce simp: closed_to_def)
  then have "recover_cek A secret ?hdr (pre_encode pre) protected ?tag = Inl NoMatchingRecipient"
    using recover_loop_none at'(5,6) by (simp add: recover_cek_def)
  then show ?thesis
    unfolding decrypt_to_staging_def using i1(1) i2 dec pp(4) at'(5) by simp
qed

section \<open>A concrete container\<close>

definition demo_draw :: rng where
  "demo_draw i n = Some (replicate n 5)"

definition demo_secret :: bytes where
  "demo_secret = replicate 32 2"

lemma demo_setup: "fills demo_draw" "length demo_secret = 32" "public_key ref_crypto demo_secret = Inr demo_secret"
  "md_ty md_default" "md_signature md_default = None"
  by (simp_all add: fills_def demo_draw_def demo_secret_def public_key_def ref_crypto_def md_ty_def md_default_def)

definition demo_identity :: SigningIdentity where
  "demo_identity = si_from_seed ref_sig (replicate 32 7)"

definition demo_input :: reader where
  "demo_input = [Chunk [1, 2, 3]]"

lemma demo_input: "reader_ok demo_input" "content demo_input = [1, 2, 3]"
  by (simp_all add: demo_input_def reader_ok_def)

lemma demo_md: "md_encode ref_cbor md_default = Inr [160]" "md_signing_base ref_cbor md_default = Inr [160]"
  by (simp_all add: md_encode_def md_signing_base_def md_encode_with_signature_def md_default_def encode_filename_def
      encode_media_type_def encode_md_signature_def check_extensions_def encode_extensions_def count_opt_def
      ref_cbor_def cbor_head_def len64_def format_limits Let_def)

lemma demo_lengths:
  "length (vi_to_bytes (verifying_key ref_sig demo_identity)) = 1984"
  "length (sign ref_sig demo_identity c m) = 3373"
  using length_sign [OF sig_laws_ref, of demo_identity c m]
  by (simp_all add: vi_to_bytes_def verifying_key_def ref_sig_def SIGNATURE_LENGTH_def sign_lengths)

lemma demo_inner:
  assumes "length (rs_encapsulation st) = 1120" "length (rs_wrapped_cek st) = 48"
    and "length (om_object_id mat) = 32"
    and "\<not> is_legacy_placement signer"
  shows "\<exists>out. encrypt_inner ref_crypto ref_cbor ref_sig demo_input md_default mat [st] signer shape_default = Inr (3, out)"
proof -
  have "payload_fits signer (content demo_input)"
    by (simp add: payload_fits_def demo_input(2) MAX_CHUNKS_def CHUNK_LEN_def MAX_SIGNED_INPUT_def)
  then have "\<exists>out. encrypt_inner ref_crypto ref_cbor ref_sig demo_input md_default mat [st] signer shape_default
      = Inr (length (content demo_input), out)"
    by (intro encrypt_inner_succeeds [OF crypto_laws_ref sig_laws_ref cbor_small_ref demo_input(1) _ _ demo_setup(5) demo_md(2)])
       (use assms in \<open>simp_all add: format_limits\<close>)
  moreover have "length (content demo_input) = 3" by (simp add: demo_input(2))
  ultimately show ?thesis by simp
qed

lemma demo_wrap:
  "\<exists>st. wrap_all ref_crypto demo_draw i [demo_secret] cek oid = Inr [st]
     \<and> length (rs_encapsulation st) = 1120 \<and> (length cek = 32 \<longrightarrow> length (rs_wrapped_cek st) = 48)"
  by (auto simp: wrap_cek_def random_array_def wrap_with_rng_def demo_draw_def demo_secret_def ref_crypto_def object_context_def Let_def)

lemma demo_encrypt:
  "\<exists>out. encrypt ref_crypto ref_cbor ref_sig demo_draw demo_input [demo_secret] md_default = Inr (3, out)"
  "\<exists>out. encrypt_signed ref_crypto ref_cbor ref_sig demo_draw demo_input [demo_secret] md_default demo_identity Public
     = Inr (3, out)"
proof -
  let ?mat = "\<lparr>om_cek = replicate 32 5, om_object_id = replicate 32 5, om_payload_salt = replicate 16 5\<rparr>"
  have mat: "draw_material demo_draw = Inr ?mat" by (simp add: draw_material_def demo_draw_def random_array_def)
  obtain st where st: "wrap_all ref_crypto demo_draw 3 [demo_secret] (replicate 32 5) (replicate 32 5) = Inr [st]"
      "length (rs_encapsulation st) = 1120" "length (rs_wrapped_cek st) = 48"
    using demo_wrap [of 3 "replicate 32 5" "replicate 32 5"] by auto
  have v: "validate_recipients [demo_secret] = Inr ()" by (simp add: validate_recipients_def MAX_RECIPIENTS_def)
  note inner = demo_inner [OF st(2,3), of ?mat]
  show "\<exists>out. encrypt ref_crypto ref_cbor ref_sig demo_draw demo_input [demo_secret] md_default = Inr (3, out)"
    using inner [of None] mat st(1) v by (simp add: encrypt_def encrypt_with_material_def is_legacy_placement_def del: wrap_all.simps)
  show "\<exists>out. encrypt_signed ref_crypto ref_cbor ref_sig demo_draw demo_input [demo_secret] md_default demo_identity Public
     = Inr (3, out)"
    using inner [of "Some (demo_identity, Public)"] mat st(1) v by (simp add: encrypt_signed_def is_legacy_placement_def del: wrap_all.simps)
qed

lemma demo_delivery: "\<exists>r. reader_ok r \<and> content r = out"
  using slice_reader_ok by blast

lemma demo_decrypts:
  "\<exists>r vo. reader_ok r \<and> decrypt_to_staging ref_crypto ref_cbor ref_sig r demo_secret = Inr (vo, [1, 2, 3])"
proof -
  obtain out where e: "encrypt ref_crypto ref_cbor ref_sig demo_draw demo_input [demo_secret] md_default = Inr (3, out)"
    using demo_encrypt(1) by blast
  obtain r where r: "reader_ok r" "content r = out" using demo_delivery by blast
  from encrypt_then_decrypt [OF crypto_laws_ref cbor_laws_ref sig_laws_ref demo_setup(1) demo_input(1) r(1) demo_setup(4,5)
      demo_setup(2,3) _ _ e r(2)] r(1) show ?thesis by (auto simp: demo_input(2))
qed

text \<open>What a successful decryption has read and checked, step by step.\<close>

lemma decrypt_to_stagingE:
  assumes "decrypt_to_staging A C P input secret = Inr (vo, pt)"
  obtains preb i1 pre framed i2 protected tag header cek m md salt i3 n staging hasher signer where
    "read_exact input PREAMBLE_LEN = Inr (preb, i1)" "pre_decode preb = Inr pre"
      "read_exact i1 (header_len_usize pre) = Inr (framed, i2)" "decode_header C framed = Inr (protected, tag)"
      "ph_decode C protected = Inr header" "recover_cek A secret header preb protected tag = Inr cek"
      "open_sealed A (metadata_key A cek (ph_object_id header)) (replicate 12 0)
         (metadata_aad (ph_object_id header)) (ph_encrypted_metadata header) = Inr m"
      "md_decode C m = Inr md" "read_payload i2 16 = Inr (salt, i3)"
      "decrypt_records A hasher_write i3 ([], hasher_new) (payload_key A cek (ph_object_id header) salt)
         (ph_object_id header) (hash A [protected]) = Inr (n, staging, hasher)"
      "verify_signature P C pre header md (hasher_finish A hasher) (of_nat n) = Inr signer"
      "\<not> (pre_is_legacy pre \<and> (ph_extensions header \<noteq> [] \<or> list_ex (\<lambda>st. as_xwing st = None) (ph_recipients header)))"
      "\<not> (pre_is_legacy pre \<and> md_extensions md \<noteq> [])"
      "vo = \<lparr>vo_metadata = md, vo_plaintext_len = n, vo_signer = signer\<rparr>" "pt = staging"
  using assms unfolding decrypt_to_staging_def Let_def by (elim result_steps) blast

lemma decrypted_length:
  assumes "crypto_laws A" "reader_ok input" "decrypt_to_staging A C P input secret = Inr (vo, pt)"
  shows "vo_plaintext_len vo = length pt"
  using assms(3)
proof (rule decrypt_to_stagingE)
  fix preb i1 pre framed i2 protected tag header cek m md salt i3 n staging hasher signer
  assume r: "read_exact input PREAMBLE_LEN = Inr (preb, i1)" "read_exact i1 (header_len_usize pre) = Inr (framed, i2)"
    "read_payload i2 16 = Inr (salt, i3)"
    "decrypt_records A hasher_write i3 ([], hasher_new) (payload_key A cek (ph_object_id header) salt)
         (ph_object_id header) (hash A [protected]) = Inr (n, staging, hasher)"
    "vo = \<lparr>vo_metadata = md, vo_plaintext_len = n, vo_signer = signer\<rparr>" "pt = staging"
  have k: "length (payload_key A cek (ph_object_id header) salt) = 32" by (simp add: payload_key_def crypto_lengths [OF assms(1)])
  have "reader_ok i3" using read_exact_Inr [OF assms(2) r(1)] read_exact_Inr [OF _ r(2)] read_payload_Inr [OF _ r(3)] by auto
  then show ?thesis
    using hw.decrypt_records_iff [OF assms(1) _ k, of i3 "([], hasher_new)"] r(4-6) by (auto simp: hasher_write_def)
qed

section \<open>Properties\<close>

text \<open>C25. Encryption succeeds on every input within the documented limits: one to 64 usable recipient keys,
  metadata that encodes to at most the metadata limit less the room for a signature, and a payload of
  at most \<open>MAX_CHUNKS\<close> chunks (of \<open>MAX_SIGNED_INPUT\<close> bytes when it is signed). In particular the header
  always fits the limit that the reader enforces.\<close>

theorem encrypt_succeeds:
  assumes "crypto_laws A" "sig_laws P" "cbor_small C" "fills draw" "\<forall>i n. draw i n \<noteq> None" "reader_ok input"
    and "\<forall>r\<in>set recipients. usable_key A r" "recipients \<noteq> []" "length recipients \<le> MAX_RECIPIENTS"
    and "md_signature metadata = None" "md_signing_base C metadata = Inr base" "length base + 6000 \<le> MAX_METADATA_LEN"
    and "placement = Public \<or> placement = Confidential"
  shows "(length (content input) \<le> MAX_CHUNKS * CHUNK_LEN \<longrightarrow>
      (\<exists>out. encrypt A C P draw input recipients metadata = Inr (length (content input), out))) \<and>
    (length (content input) \<le> MAX_SIGNED_INPUT \<longrightarrow>
      (\<exists>out. encrypt_signed A C P draw input recipients metadata identity placement = Inr (length (content input), out)))"
  using encrypt_total [OF assms(1-12)] assms(13) by (simp add: payload_fits_def)

theorem encrypt_succeeds_witness:
  "\<exists>out. encrypt_signed ref_crypto ref_cbor ref_sig demo_draw demo_input [demo_secret] md_default demo_identity Confidential
     = Inr (3, out)"
proof -
  have u: "usable_key ref_crypto demo_secret"
    using demo_setup(2) by (auto simp: usable_key_def ref_crypto_def wrap_with_rng_def object_context_def Let_def)
  have "length (content demo_input) = 3" by (simp add: demo_input(2))
  then show ?thesis
    using encrypt_succeeds [OF crypto_laws_ref sig_laws_ref cbor_small_ref demo_setup(1) _ demo_input(1) _ _ _ demo_setup(5) demo_md(2),
        of "[demo_secret]" Confidential demo_identity] u
    by (simp add: demo_draw_def format_limits MAX_SIGNED_INPUT_def)
qed

text \<open>C2. What is encrypted for a recipient, the recipient decrypts: the container that \<open>encrypt\<close> writes
  decrypts, under the secret of any of its recipients and however the reader fragments it, to the
  same payload and metadata, reported as unsigned.\<close>

theorem container_round_trip:
  assumes "crypto_laws A" "cbor_laws C" "sig_laws P" "fills draw" "reader_ok input" "reader_ok input'"
    and "md_ty metadata" "md_signature metadata = None"
    and "length secret = 32" "public_key A secret = Inr r0" "r0 \<in> set recipients"
    and "\<forall>r\<in>set recipients. r \<noteq> r0 \<longrightarrow> closed_to A secret r"
    and "encrypt A C P draw input recipients metadata = Inr (n, out)" "content input' = out"
  shows "\<exists>md. decrypt_to_staging A C P input' secret
      = Inr (\<lparr>vo_metadata = md, vo_plaintext_len = length (content input), vo_signer = None\<rparr>, content input)
    \<and> md\<lparr>md_signature := None\<rparr> = metadata \<and> n = length (content input)"
  by (rule encrypt_then_decrypt [OF assms])

theorem container_round_trip_witness:
  "\<exists>out r md. encrypt ref_crypto ref_cbor ref_sig demo_draw demo_input [demo_secret] md_default = Inr (3, out)
     \<and> content r = out
     \<and> decrypt_to_staging ref_crypto ref_cbor ref_sig r demo_secret
        = Inr (\<lparr>vo_metadata = md, vo_plaintext_len = 3, vo_signer = None\<rparr>, [1, 2, 3])"
proof -
  obtain out where e: "encrypt ref_crypto ref_cbor ref_sig demo_draw demo_input [demo_secret] md_default = Inr (3, out)"
    using demo_encrypt(1) by blast
  obtain r where r: "reader_ok r" "content r = out" using demo_delivery by blast
  from container_round_trip [OF crypto_laws_ref cbor_laws_ref sig_laws_ref demo_setup(1) demo_input(1) r(1) demo_setup(4,5)
      demo_setup(2,3) _ _ e r(2)] e r(2) show ?thesis by (auto simp: demo_input(2))
qed

text \<open>C24. A signed container decrypts to the same payload and metadata, and names the signer: the
  signature, public or confidential, verifies and is attributed to the key that made it.\<close>

theorem signed_container_round_trip:
  assumes "crypto_laws A" "cbor_laws C" "sig_laws P" "fills draw" "reader_ok input" "reader_ok input'"
    and "md_ty metadata" "md_signature metadata = None"
    and "length secret = 32" "public_key A secret = Inr r0" "r0 \<in> set recipients"
    and "\<forall>r\<in>set recipients. r \<noteq> r0 \<longrightarrow> closed_to A secret r"
    and "placement = Public \<or> placement = Confidential"
    and "encrypt_signed A C P draw input recipients metadata identity placement = Inr (n, out)" "content input' = out"
  shows "\<exists>md. decrypt_to_staging A C P input' secret
      = Inr (\<lparr>vo_metadata = md, vo_plaintext_len = length (content input),
             vo_signer = Some (verifying_key P identity)\<rparr>, content input)
    \<and> md\<lparr>md_signature := None\<rparr> = metadata \<and> n = length (content input)"
  by (rule encrypt_signed_then_decrypt [OF assms])

theorem signed_container_round_trip_witness:
  "\<exists>out r md. encrypt_signed ref_crypto ref_cbor ref_sig demo_draw demo_input [demo_secret] md_default demo_identity Public
       = Inr (3, out) \<and> content r = out
     \<and> decrypt_to_staging ref_crypto ref_cbor ref_sig r demo_secret
        = Inr (\<lparr>vo_metadata = md, vo_plaintext_len = 3, vo_signer = Some (verifying_key ref_sig demo_identity)\<rparr>, [1, 2, 3])"
proof -
  obtain out where e: "encrypt_signed ref_crypto ref_cbor ref_sig demo_draw demo_input [demo_secret] md_default
      demo_identity Public = Inr (3, out)"
    using demo_encrypt(2) by blast
  obtain r where r: "reader_ok r" "content r = out" using demo_delivery by blast
  from signed_container_round_trip [OF crypto_laws_ref cbor_laws_ref sig_laws_ref demo_setup(1) demo_input(1) r(1)
      demo_setup(4,5) demo_setup(2,3) _ _ _ e r(2)] e r(2) show ?thesis by (auto simp: demo_input(2))
qed

text \<open>C1. Everything decryption returns is authenticated. When it succeeds, the container is exactly
  preamble, header, salt and records, with nothing after them; the header is the canonical encoding
  of the decoded header and its MAC verifies under the content key that one of its stanzas yields;
  the metadata and the payload are what was sealed under keys derived from that content key; and the
  signature check was made on the hash and the length of the very plaintext that is returned.\<close>

theorem decrypt_only_authentic:
  assumes "crypto_laws A" "cbor_laws C" "reader_ok input"
    and "decrypt_to_staging A C P input secret = Inr (vo, pt)"
  shows "\<exists>pre header protected framed salt cek m.
    content input = pre_encode pre @ framed @ salt
      @ records A (payload_key A cek (ph_object_id header) salt) (ph_object_id header) (hash A [protected]) 0 pt \<and>
    pre_wf pre \<and> header_len_usize pre = length framed \<and> length salt = 16 \<and> vo_plaintext_len vo = length pt \<and>
    ph_encode C header = Inr protected \<and>
    encode_header C protected (mac A (header_mac_key A cek (ph_object_id header)) [pre_encode pre, protected]) = Inr framed \<and>
    (\<exists>st. XWing st \<in> set (ph_recipients header) \<and>
       unwrap_cek A secret (ph_object_id header) (rs_encapsulation st) (rs_wrapped_cek st) = Inr cek) \<and>
    md_encode C (vo_metadata vo) = Inr m \<and>
    ph_encrypted_metadata header = sealed A (metadata_key A cek (ph_object_id header)) (replicate 12 0)
      (metadata_aad (ph_object_id header)) m \<and>
    verify_signature P C pre header (vo_metadata vo) (sha256 A pt) (of_nat (length pt)) = Inr (vo_signer vo)"
proof -
  obtain preb i1 pre framed i2 protected tag header cek m md salt i3 n staging hasher signer where
    r: "read_exact input PREAMBLE_LEN = Inr (preb, i1)" "pre_decode preb = Inr pre"
      "read_exact i1 (header_len_usize pre) = Inr (framed, i2)" "decode_header C framed = Inr (protected, tag)"
      "ph_decode C protected = Inr header" "recover_cek A secret header preb protected tag = Inr cek"
      "open_sealed A (metadata_key A cek (ph_object_id header)) (replicate 12 0)
         (metadata_aad (ph_object_id header)) (ph_encrypted_metadata header) = Inr m"
      "md_decode C m = Inr md" "read_payload i2 16 = Inr (salt, i3)"
      "decrypt_records A hasher_write i3 ([], hasher_new) (payload_key A cek (ph_object_id header) salt)
         (ph_object_id header) (hash A [protected]) = Inr (n, staging, hasher)"
      "verify_signature P C pre header md (hasher_finish A hasher) (of_nat n) = Inr signer"
      "\<not> (pre_is_legacy pre \<and> (ph_extensions header \<noteq> [] \<or> list_ex (\<lambda>st. as_xwing st = None) (ph_recipients header)))"
      "\<not> (pre_is_legacy pre \<and> md_extensions md \<noteq> [])"
    and vo: "vo = \<lparr>vo_metadata = md, vo_plaintext_len = n, vo_signer = signer\<rparr>" "pt = staging"
    by (rule decrypt_to_stagingE [OF assms(4)])
  have i: "content input = preb @ content i1" "reader_ok i1" using read_exact_Inr [OF assms(3) r(1)] by auto
  have i': "content i1 = framed @ content i2" "length framed = header_len_usize pre" "reader_ok i2"
    using read_exact_Inr [OF i(2) r(3)] by auto
  have s: "content i2 = salt @ content i3" "length salt = 16" "reader_ok i3"
    using read_payload_Inr [OF i'(3) r(9)] by auto
  have p: "pre_wf pre" "preb = pre_encode pre" using pre_encode_decode [OF r(2)] by auto
  have h: "ph_encode C header = Inr protected" "encode_header C protected tag = Inr framed"
    using ph_encode_decode [OF r(5)] encode_decode_header [OF r(4)] by auto
  have c: "\<exists>st. XWing st \<in> set (ph_recipients header) \<and>
       unwrap_cek A secret (ph_object_id header) (rs_encapsulation st) (rs_wrapped_cek st) = Inr cek"
    "tag = mac A (header_mac_key A cek (ph_object_id header)) [pre_encode pre, protected]"
    using recover_loopD [OF r(6) [unfolded recover_cek_def]] p(2)
    by (auto simp: map_filter_xwing_mem)
  have k32: "length (metadata_key A cek (ph_object_id header)) = 32" "length (payload_key A cek (ph_object_id header) salt) = 32"
    by (simp_all add: metadata_key_def payload_key_def crypto_lengths [OF assms(1)])
  have "length (ph_encrypted_metadata header) < 2 ^ 32"
    using ph_encode_metadata_bound [OF h(1)] by (simp add: MAX_METADATA_LEN_def TAG_LEN_def)
  then have m: "ph_encrypted_metadata header = sealed A (metadata_key A cek (ph_object_id header)) (replicate 12 0)
      (metadata_aad (ph_object_id header)) m" "md_encode C md = Inr m"
    using r(7) open_sealed_iff [OF assms(1) k32(1)] md_encode_decode [OF assms(2) r(8)] by auto
  have d: "content i3 = records A (payload_key A cek (ph_object_id header) salt) (ph_object_id header) (hash A [protected]) 0 pt"
    "n = length pt" "hasher = pt"
    using hw.decrypt_records_iff [OF assms(1) s(3) k32(2), of "([], hasher_new)"] r(10) vo(2)
    by (auto simp: hasher_write_def hasher_new_def hasher_update_def)
  show ?thesis
    using i(1) i'(1,2) s(1,2) p h c m d r(11) vo
    by (intro exI [of _ pre] exI [of _ header] exI [of _ protected] exI [of _ framed] exI [of _ salt]
        exI [of _ cek] exI [of _ m]) (simp add: hasher_finish_def)
qed

theorem decrypt_only_authentic_witness:
  "\<exists>r pre framed salt hk oid hh.
     decrypt_to_staging ref_crypto ref_cbor ref_sig r demo_secret \<noteq> Inl NoMatchingRecipient \<and>
     content r = pre_encode pre @ framed @ salt @ records ref_crypto hk oid hh 0 [1, 2, 3] \<and> length salt = 16"
proof -
  obtain r vo where r: "reader_ok r" "decrypt_to_staging ref_crypto ref_cbor ref_sig r demo_secret = Inr (vo, [1, 2, 3])"
    using demo_decrypts by blast
  from r(2) have "decrypt_to_staging ref_crypto ref_cbor ref_sig r demo_secret \<noteq> Inl NoMatchingRecipient" by simp
  with decrypt_only_authentic [OF crypto_laws_ref cbor_laws_ref r] show ?thesis by blast
qed




end
