(* ===== verification/Hide_Identity.thy ===== *)
theory Hide_Identity
  imports Hide_Sign Hide_Cbor "HOL-Library.Finite_Map"
begin

text \<open>
  \<open>crates/hide-identity/src/lib.rs\<close>: an identity is an ordered, hash-linked log of events, each signed
  by a key that the log authorises at that point. \<open>apply_entry\<close> is the check and effect of one entry
  (\<open>apply\<close>), \<open>replay\<close> that of a whole log; \<open>enrol\<close>, \<open>revoke\<close> and \<open>recover\<close> append to a log. The
  parameters are SHA-256 (\<open>H\<close>), the signature primitives (\<open>P\<close>) and the CBOR library (\<open>C\<close>). A
  \<open>BTreeMap\<close> is a finite map; \<open>usize\<close> has 64 bits.
\<close>

section \<open>Data\<close>

definition ENTRY_CONTEXT :: bytes where
  "ENTRY_CONTEXT = ascii ''HIDE/0.6 identity entry''"

definition MAX_ENTRIES :: nat where
  "MAX_ENTRIES = 100000"

definition ENTRY_FIELDS :: u64 where
  "ENTRY_FIELDS = 7"

definition LEGACY_ENTRY_HEADER :: u64 where
  "LEGACY_ENTRY_HEADER = 6"

datatype Framing = Current | Legacy

definition framing_header :: "Framing \<Rightarrow> u64" where
  "framing_header f = (case f of Current \<Rightarrow> ENTRY_FIELDS | Legacy \<Rightarrow> LEGACY_ENTRY_HEADER)"

definition MAX_LABEL_BYTES :: nat where
  "MAX_LABEL_BYTES = 256"

type_synonym Sequence = u64
type_synonym DeviceId = bytes
type_synonym sha = "bytes \<Rightarrow> bytes"

definition device_id :: "sha \<Rightarrow> VerifyingIdentity \<Rightarrow> DeviceId" where
  "device_id H k = H (ascii ''HIDE/0.6 device id'' @ vi_to_bytes k)"

datatype IdentityError =
    IEmpty
  | Unauthorised Sequence
  | BadSignature Sequence
  | OutOfOrder Sequence Sequence
  | BrokenLink Sequence
  | BadRoot string
  | AlreadyEnrolled Sequence
  | NotEnrolled Sequence
  | WouldOrphan Sequence
  | Malformed
  | TooManyEntries nat
  | LabelTooLong
  | ISign string
  | WrongIdentity
  | BadBinding
  | StaleBinding

datatype Event =
    Create bytes str
  | Enrol bytes str
  | Revoke DeviceId
  | Recover bytes str

definition event_tag :: "Event \<Rightarrow> byte" where
  "event_tag ev = (case ev of Create _ _ \<Rightarrow> 1 | Enrol _ _ \<Rightarrow> 2 | Revoke _ \<Rightarrow> 3 | Recover _ _ \<Rightarrow> 4)"

definition event_label :: "Event \<Rightarrow> str option" where
  "event_label ev =
     (case ev of Create _ label \<Rightarrow> Some label | Enrol _ label \<Rightarrow> Some label | Recover _ label \<Rightarrow> Some label
      | Revoke _ \<Rightarrow> None)"

record Entry =
  en_sequence :: Sequence
  en_event :: Event
  en_signer :: DeviceId
  en_link :: bytes
  en_signature :: bytes

record Device =
  dv_id :: DeviceId
  dv_key :: VerifyingIdentity
  dv_label :: str
  dv_enrolled_at :: Sequence

record Membership =
  devices :: "(DeviceId, Device) fmap"
  revoked :: "(DeviceId, Sequence) fmap"

record IdentityLog =
  il_entries :: "Entry list"
  il_recovery :: VerifyingIdentity

definition membership_default :: Membership where
  "membership_default = \<lparr>devices = fmempty, revoked = fmempty\<rparr>"

definition m_contains :: "Membership \<Rightarrow> DeviceId \<Rightarrow> bool" where
  "m_contains m d = (fmlookup (devices m) d \<noteq> None)"

definition m_get :: "Membership \<Rightarrow> DeviceId \<Rightarrow> Device option" where
  "m_get m d = fmlookup (devices m) d"

definition m_len :: "Membership \<Rightarrow> nat" where
  "m_len m = fcard (fmdom (devices m))"

definition m_is_empty :: "Membership \<Rightarrow> bool" where
  "m_is_empty m = (m_len m = 0)"

definition revoked_at :: "Membership \<Rightarrow> DeviceId \<Rightarrow> Sequence option" where
  "revoked_at m d = fmlookup (revoked m) d"

section \<open>Signing and linking\<close>

definition signed_bytes :: "bytes \<Rightarrow> Sequence \<Rightarrow> Event \<Rightarrow> DeviceId \<Rightarrow> bytes" where
  "signed_bytes previous sequence event signer =
     previous @ be64 sequence @ [event_tag event] @ signer @
     (case event of
        Create device label \<Rightarrow> lp64 device @ lp64 label
      | Enrol device label \<Rightarrow> lp64 device @ lp64 label
      | Recover device label \<Rightarrow> lp64 device @ lp64 label
      | Revoke device \<Rightarrow> lp64 device)"

definition entry_signed_bytes :: "Entry \<Rightarrow> bytes \<Rightarrow> bytes" where
  "entry_signed_bytes e previous = signed_bytes previous (en_sequence e) (en_event e) (en_signer e)"

text \<open>\<open>link_image\<close> is what the hasher of \<open>link_for\<close> is fed.\<close>

definition link_image :: "bytes \<Rightarrow> bytes \<Rightarrow> bytes" where
  "link_image message signature = ascii ''HIDE/0.6 identity link'' @ lp64 message @ lp64 signature"

definition link_for :: "sha \<Rightarrow> bytes \<Rightarrow> bytes \<Rightarrow> bytes" where
  "link_for H message signature = H (link_image message signature)"

section \<open>Replaying a log\<close>

definition check_label :: "str \<Rightarrow> IdentityError + unit" where
  "check_label label = (if MAX_LABEL_BYTES < length label then Inl LabelTooLong else Inr ())"

definition parse_key :: "sig_api \<Rightarrow> bytes \<Rightarrow> Sequence \<Rightarrow> IdentityError + VerifyingIdentity" where
  "parse_key P bs sequence =
     (if length bs \<noteq> VERIFYING_KEY_LENGTH then Inl Malformed
      else map_err (\<lambda>_. BadSignature sequence) (vi_from_bytes P bs))"

text \<open>The key that may have signed an entry, given the membership so far.\<close>

definition author_of ::
  "sha \<Rightarrow> sig_api \<Rightarrow> Membership \<Rightarrow> Entry \<Rightarrow> VerifyingIdentity \<Rightarrow> IdentityError + VerifyingIdentity" where
  "author_of H P m e recovery =
     (case en_event e of
        Create device _ \<Rightarrow>
          if en_sequence e \<noteq> 0 then Inl (BadRoot ''a later Create'')
          else
            bindR (parse_key P device (en_sequence e)) (\<lambda>k.
              if device_id H k \<noteq> en_signer e then Inl (Unauthorised (en_sequence e)) else Inr k)
      | Recover _ _ \<Rightarrow>
          if device_id H recovery \<noteq> en_signer e then Inl (Unauthorised (en_sequence e)) else Inr recovery
      | Enrol _ _ \<Rightarrow> ok_or (map_option dv_key (fmlookup (devices m) (en_signer e))) (Unauthorised (en_sequence e))
      | Revoke _ \<Rightarrow> ok_or (map_option dv_key (fmlookup (devices m) (en_signer e))) (Unauthorised (en_sequence e)))"

text \<open>What an entry does to the membership once its signature has been checked.\<close>

definition effect_of :: "sha \<Rightarrow> sig_api \<Rightarrow> Membership \<Rightarrow> Entry \<Rightarrow> IdentityError + Membership" where
  "effect_of H P m e =
     (case en_event e of
        Create device label \<Rightarrow>
          bindR (parse_key P device (en_sequence e)) (\<lambda>k.
          let d = device_id H k in
          Inr (m\<lparr>devices := fmupd d \<lparr>dv_id = d, dv_key = k, dv_label = label, dv_enrolled_at = en_sequence e\<rparr> (devices m)\<rparr>))
      | Enrol device label \<Rightarrow>
          bindR (parse_key P device (en_sequence e)) (\<lambda>k.
          let d = device_id H k in
          if fmlookup (devices m) d \<noteq> None then Inl (AlreadyEnrolled (en_sequence e))
          else
            Inr (m\<lparr>revoked := fmdrop d (revoked m),
                   devices := fmupd d \<lparr>dv_id = d, dv_key = k, dv_label = label, dv_enrolled_at = en_sequence e\<rparr> (devices m)\<rparr>))
      | Revoke device \<Rightarrow>
          if fmlookup (devices m) device = None then Inl (NotEnrolled (en_sequence e))
          else if m_len m = 1 then Inl (WouldOrphan (en_sequence e))
          else Inr (m\<lparr>devices := fmdrop device (devices m), revoked := fmupd device (en_sequence e) (revoked m)\<rparr>)
      | Recover device label \<Rightarrow>
          bindR (parse_key P device (en_sequence e)) (\<lambda>k.
          let d = device_id H k;
              revoked' = fmadd (revoked m) (fmmap (\<lambda>_. en_sequence e) (devices m)) in
          Inr (m\<lparr>revoked := fmdrop d revoked',
                 devices := fmupd d \<lparr>dv_id = d, dv_key = k, dv_label = label, dv_enrolled_at = en_sequence e\<rparr> fmempty\<rparr>)))"

definition apply_entry ::
  "sha \<Rightarrow> sig_api \<Rightarrow> Membership \<Rightarrow> Entry \<Rightarrow> VerifyingIdentity \<Rightarrow> bytes \<Rightarrow> IdentityError + Membership" where
  "apply_entry H P m e recovery previous =
     (if (case event_label (en_event e) of Some label \<Rightarrow> MAX_LABEL_BYTES < length label | None \<Rightarrow> False)
      then Inl LabelTooLong
      else
        let message = signed_bytes previous (en_sequence e) (en_event e) (en_signer e) in
        if link_for H message (en_signature e) \<noteq> en_link e then Inl (BrokenLink (en_sequence e))
        else if length (en_signature e) \<noteq> SIGNATURE_LENGTH then Inl (BadSignature (en_sequence e))
        else
          bindR (author_of H P m e recovery) (\<lambda>author.
          bindR (map_err (\<lambda>_. BadSignature (en_sequence e)) (verify P author ENTRY_CONTEXT message (en_signature e))) (\<lambda>_.
            effect_of H P m e)))"

primrec replay_from ::
  "sha \<Rightarrow> sig_api \<Rightarrow> VerifyingIdentity \<Rightarrow> nat \<Rightarrow> bytes \<Rightarrow> Membership \<Rightarrow> Entry list \<Rightarrow> IdentityError + Membership" where
  "replay_from H P recovery index previous m [] = Inr m"
| "replay_from H P recovery index previous m (e # es) =
     (let expected = of_nat index in
      if en_sequence e \<noteq> expected then Inl (OutOfOrder expected (en_sequence e))
      else
        bindR (apply_entry H P m e recovery previous) (\<lambda>m.
          replay_from H P recovery (index + 1) (en_link e) m es))"

definition is_create :: "Event \<Rightarrow> bool" where
  "is_create ev = (case ev of Create _ _ \<Rightarrow> True | _ \<Rightarrow> False)"

definition replay :: "sha \<Rightarrow> sig_api \<Rightarrow> Entry list \<Rightarrow> VerifyingIdentity \<Rightarrow> IdentityError + Membership" where
  "replay H P entries recovery =
     (if entries = [] then Inl IEmpty
      else if MAX_ENTRIES < length entries then Inl (TooManyEntries (length entries))
      else if \<not> is_create (en_event (hd entries)) then Inl (BadRoot ''another event'')
      else replay_from H P recovery 0 (replicate 32 0) membership_default entries)"

section \<open>Operations on a log\<close>

definition il_create ::
  "sha \<Rightarrow> sig_api \<Rightarrow> SigningIdentity \<Rightarrow> str \<Rightarrow> VerifyingIdentity \<Rightarrow> IdentityError + IdentityLog" where
  "il_create H P founder label recovery =
     bindR (check_label label) (\<lambda>_.
       let k = verifying_key P founder;
           event = Create (vi_to_bytes k) label;
           signer = device_id H k;
           message = signed_bytes (replicate 32 0) 0 event signer;
           signature = sign P founder ENTRY_CONTEXT message
       in Inr \<lparr>il_entries = [\<lparr>en_sequence = 0, en_event = event, en_signer = signer,
                               en_link = link_for H message signature, en_signature = signature\<rparr>],
               il_recovery = recovery\<rparr>)"

definition il_membership :: "sha \<Rightarrow> sig_api \<Rightarrow> IdentityLog \<Rightarrow> Membership" where
  "il_membership H P log =
     (case replay H P (il_entries log) (il_recovery log) of Inr m \<Rightarrow> m | Inl _ \<Rightarrow> membership_default)"

definition il_head :: "IdentityLog \<Rightarrow> bytes" where
  "il_head log = (if il_entries log = [] then replicate 32 0 else en_link (last (il_entries log)))"

definition il_root :: "IdentityLog \<Rightarrow> bytes" where
  "il_root log = (if il_entries log = [] then replicate 32 0 else en_link (hd (il_entries log)))"

definition il_append ::
  "sha \<Rightarrow> sig_api \<Rightarrow> SigningIdentity \<Rightarrow> Event \<Rightarrow> IdentityLog \<Rightarrow> IdentityError + Sequence \<times> IdentityLog" where
  "il_append H P author event log =
     (if MAX_ENTRIES \<le> length (il_entries log) then Inl (TooManyEntries (length (il_entries log)))
      else
        bindR (case event_label event of Some label \<Rightarrow> check_label label | None \<Rightarrow> Inr ()) (\<lambda>_.
        let sequence = len64 (il_entries log);
            previous = (if il_entries log = [] then replicate 32 0 else en_link (last (il_entries log)));
            signer = device_id H (verifying_key P author);
            message = signed_bytes previous sequence event signer;
            signature = sign P author ENTRY_CONTEXT message;
            candidate = \<lparr>en_sequence = sequence, en_event = event, en_signer = signer,
                         en_link = link_for H message signature, en_signature = signature\<rparr> in
        bindR (apply_entry H P (il_membership H P log) candidate (il_recovery log) previous) (\<lambda>_.
          Inr (sequence, log\<lparr>il_entries := il_entries log @ [candidate]\<rparr>))))"

definition enrol ::
  "sha \<Rightarrow> sig_api \<Rightarrow> SigningIdentity \<Rightarrow> VerifyingIdentity \<Rightarrow> str \<Rightarrow> IdentityLog \<Rightarrow> IdentityError + Sequence \<times> IdentityLog" where
  "enrol H P author device label log = il_append H P author (Enrol (vi_to_bytes device) label) log"

definition revoke ::
  "sha \<Rightarrow> sig_api \<Rightarrow> SigningIdentity \<Rightarrow> DeviceId \<Rightarrow> IdentityLog \<Rightarrow> IdentityError + Sequence \<times> IdentityLog" where
  "revoke H P author device log = il_append H P author (Revoke device) log"

definition recover ::
  "sha \<Rightarrow> sig_api \<Rightarrow> SigningIdentity \<Rightarrow> VerifyingIdentity \<Rightarrow> str \<Rightarrow> IdentityLog \<Rightarrow> IdentityError + Sequence \<times> IdentityLog" where
  "recover H P recovery_key device label log = il_append H P recovery_key (Recover (vi_to_bytes device) label) log"

definition from_entries ::
  "sha \<Rightarrow> sig_api \<Rightarrow> Entry list \<Rightarrow> VerifyingIdentity \<Rightarrow> IdentityError + IdentityLog" where
  "from_entries H P entries recovery =
     bindR (replay H P entries recovery) (\<lambda>_. Inr \<lparr>il_entries = entries, il_recovery = recovery\<rparr>)"

definition il_verify :: "sha \<Rightarrow> sig_api \<Rightarrow> Entry list \<Rightarrow> VerifyingIdentity \<Rightarrow> IdentityError + Membership" where
  "il_verify H P entries recovery = replay H P entries recovery"

section \<open>Transport\<close>

definition encode_entry :: "cbor_api \<Rightarrow> Framing \<Rightarrow> Entry \<Rightarrow> bytes" where
  "encode_entry C framing e =
     enc_array C (framing_header framing) @ enc_u64 C (en_sequence e) @ enc_u8 C (event_tag (en_event e)) @
     (case en_event e of
        Create device label \<Rightarrow> enc_bytes C device @ enc_str C label
      | Enrol device label \<Rightarrow> enc_bytes C device @ enc_str C label
      | Recover device label \<Rightarrow> enc_bytes C device @ enc_str C label
      | Revoke device \<Rightarrow> enc_bytes C device @ enc_str C []) @
     enc_bytes C (en_signer e) @ enc_bytes C (en_link e) @ enc_bytes C (en_signature e)"

definition encode_framed :: "cbor_api \<Rightarrow> Entry list \<Rightarrow> Framing \<Rightarrow> IdentityError + bytes" where
  "encode_framed C entries framing =
     Inr (enc_array C (len64 entries) @ concat (map (encode_entry C framing) entries))"

definition id_encode :: "cbor_api \<Rightarrow> Entry list \<Rightarrow> IdentityError + bytes" where
  "id_encode C entries = encode_framed C entries Current"

definition decode_entry ::
  "cbor_api \<Rightarrow> Framing option \<times> bytes \<Rightarrow> IdentityError + Entry \<times> Framing option \<times> bytes" where
  "decode_entry C fs =
     (let (framing, s) = fs in
     bindR (ok_or (dec_array C s) Malformed) (\<lambda>(header, s).
     bindR (ok_or header Malformed) (\<lambda>header.
     bindR (if header = ENTRY_FIELDS then Inr Current
            else if header = LEGACY_ENTRY_HEADER then Inr Legacy else Inl Malformed) (\<lambda>this.
     if (case framing of Some seen \<Rightarrow> seen \<noteq> this | None \<Rightarrow> False) then Inl Malformed
     else
     bindR (ok_or (dec_u64 C s) Malformed) (\<lambda>(sequence, s).
     bindR (ok_or (dec_u8 C s) Malformed) (\<lambda>(tag, s).
     bindR (ok_or (dec_bytes C s) Malformed) (\<lambda>(payload, s).
     bindR (ok_or (dec_str C s) Malformed) (\<lambda>(label, s).
     if MAX_LABEL_BYTES < length label then Inl LabelTooLong
     else
     bindR (if tag = 1 then Inr (Create payload label)
            else if tag = 2 then Inr (Enrol payload label)
            else if tag = 3 then (if length payload \<noteq> 32 then Inl Malformed else Inr (Revoke payload))
            else if tag = 4 then Inr (Recover payload label)
            else Inl Malformed) (\<lambda>event.
     bindR (ok_or (dec_bytes C s) Malformed) (\<lambda>(signer, s).
     if length signer \<noteq> 32 then Inl Malformed
     else
     bindR (ok_or (dec_bytes C s) Malformed) (\<lambda>(link, s).
     if length link \<noteq> 32 then Inl Malformed
     else
     bindR (ok_or (dec_bytes C s) Malformed) (\<lambda>(signature, s).
     if length signature \<noteq> SIGNATURE_LENGTH then Inl Malformed
     else Inr (\<lparr>en_sequence = sequence, en_event = event, en_signer = signer, en_link = link,
                 en_signature = signature\<rparr>, Some this, s)))))))))))))"

definition id_decode :: "cbor_api \<Rightarrow> bytes \<Rightarrow> IdentityError + Entry list" where
  "id_decode C bs =
     bindR (ok_or (dec_array C bs) Malformed) (\<lambda>(count, s).
     bindR (ok_or count Malformed) (\<lambda>count.
     if of_nat MAX_ENTRIES < count then Inl (TooManyEntries (unat count))
     else
     bindR (repeatR (unat count) (decode_entry C) (None, s)) (\<lambda>(entries, framing, s).
     if length bs - length s \<noteq> length bs then Inl Malformed
     else
     bindR (encode_framed C entries (case framing of None \<Rightarrow> Current | Some f \<Rightarrow> f)) (\<lambda>encoded.
     if encoded \<noteq> bs then Inl Malformed else Inr entries))))"

section \<open>Runs\<close>

inductive id_step :: "sha \<Rightarrow> sig_api \<Rightarrow> IdentityLog \<Rightarrow> IdentityLog \<Rightarrow> bool" for H P where
  step_enrol: "enrol H P author device label log = Inr (n, log') \<Longrightarrow> id_step H P log log'"
| step_revoke: "revoke H P author d log = Inr (n, log') \<Longrightarrow> id_step H P log log'"
| step_recover: "recover H P author device label log = Inr (n, log') \<Longrightarrow> id_step H P log log'"

inductive id_reach :: "sha \<Rightarrow> sig_api \<Rightarrow> IdentityLog \<Rightarrow> IdentityLog \<Rightarrow> bool" for H P where
  id_reach_refl: "id_reach H P log log"
| id_reach_step: "id_reach H P log log' \<Longrightarrow> id_step H P log' log'' \<Longrightarrow> id_reach H P log log''"

section \<open>One entry\<close>

lemma parse_key_Inr [result_simps]:
  "parse_key P bs n = Inr k \<longleftrightarrow> vi_wf P k \<and> bs = vi_to_bytes k"
  using length_vi_to_bytes [of P k] by (auto simp: parse_key_def vi_from_bytes_iff result_simps)

lemma apply_entryE:
  assumes "apply_entry H P m e r p = Inr m'"
  obtains author where "author_of H P m e r = Inr author"
    "verify P author ENTRY_CONTEXT (entry_signed_bytes e p) (en_signature e) = Inr ()"
    "effect_of H P m e = Inr m'"
    "en_link e = link_for H (entry_signed_bytes e p) (en_signature e)"
    "length (en_signature e) = SIGNATURE_LENGTH"
    "\<And>label. event_label (en_event e) = Some label \<Longrightarrow> length label \<le> MAX_LABEL_BYTES"
  using assms
  by (auto simp: apply_entry_def entry_signed_bytes_def Let_def result_simps not_less split: if_splits option.splits)

lemma apply_entryI:
  assumes "author_of H P m e r = Inr author"
    "verify P author ENTRY_CONTEXT (entry_signed_bytes e p) (en_signature e) = Inr ()"
    "effect_of H P m e = Inr m'" "en_link e = link_for H (entry_signed_bytes e p) (en_signature e)"
    "length (en_signature e) = SIGNATURE_LENGTH"
    "\<And>label. event_label (en_event e) = Some label \<Longrightarrow> length label \<le> MAX_LABEL_BYTES"
  shows "apply_entry H P m e r p = Inr m'"
  using assms by (auto simp: apply_entry_def entry_signed_bytes_def Let_def not_less split: option.splits)

text \<open>What replaying keeps of a membership: a device is filed under the hash of its own well-formed
  key, and no device is both trusted and revoked.\<close>

definition m_inv :: "sha \<Rightarrow> sig_api \<Rightarrow> Membership \<Rightarrow> bool" where
  "m_inv H P m \<longleftrightarrow>
     (\<forall>d v. fmlookup (devices m) d = Some v \<longrightarrow> dv_id v = d \<and> device_id H (dv_key v) = d \<and> vi_wf P (dv_key v)
        \<and> fmlookup (revoked m) d = None)"

lemma m_inv_default [simp]: "m_inv H P membership_default"
  by (simp add: m_inv_def membership_default_def)

lemma m_contains_iff: "m_contains m d \<longleftrightarrow> d |\<in>| fmdom (devices m)"
  by (auto simp: m_contains_def fmlookup_dom_iff)

lemma m_is_empty_iff: "m_is_empty m \<longleftrightarrow> fmdom (devices m) = {||}"
  by (auto simp: m_is_empty_def m_len_def)

lemma effect_of_inv:
  assumes "effect_of H P m e = Inr m'" "m_inv H P m" "is_create (en_event e) \<longrightarrow> revoked m = fmempty"
  shows "m_inv H P m' \<and> \<not> m_is_empty m'"
proof (cases "en_event e")
  case (Revoke d)
  then have m': "devices m' = fmdrop d (devices m)" "revoked m' = fmupd d (en_sequence e) (revoked m)"
    and d: "d |\<in>| fmdom (devices m)" "fcard (fmdom (devices m)) \<noteq> 1"
    using assms(1) by (auto simp: effect_of_def m_len_def fmlookup_dom_iff split: if_splits)
  have "fcard (fmdom (devices m)) \<noteq> 0" using d(1) by auto
  then have "fmdom (devices m) |-| {|d|} \<noteq> {||}"
    using d fcard_fminus_fsingleton [of d "fmdom (devices m)"] by (metis (no_types, lifting) One_nat_def diff_is_0_eq fcard_fempty le_SucE le_zero_eq)
  then show ?thesis using assms(2) m' by (auto simp: m_inv_def m_is_empty_iff fmlookup_drop split: if_splits)
qed (use assms in \<open>auto simp: effect_of_def is_create_def m_inv_def m_is_empty_iff Let_def result_simps split: if_splits\<close>)

section \<open>Whole logs\<close>

lemma replay_from_append:
  "replay_from H P r i p m (es @ fs) =
     bindR (replay_from H P r i p m es) (\<lambda>m. replay_from H P r (i + length es) (link_head en_link p es) m fs)"
  by (induction es arbitrary: i p m) (auto simp: Let_def bindR_assoc)

lemma replay_from_inv:
  assumes "replay_from H P r i p m es = Inr m'" "m_inv H P m" "i + length es \<le> MAX_ENTRIES"
    and "i = 0 \<longrightarrow> m = membership_default"
  shows "m_inv H P m' \<and> (es \<noteq> [] \<longrightarrow> \<not> m_is_empty m')"
  using assms
proof (induction es arbitrary: i p m)
  case (Cons e es)
  from Cons.prems(1) obtain m1 where m1: "apply_entry H P m e r p = Inr m1" "en_sequence e = of_nat i"
      "replay_from H P r (Suc i) (en_link e) m1 es = Inr m'"
    by (auto simp: Let_def result_simps split: if_splits)
  from m1(1) obtain author where a: "author_of H P m e r = Inr author" "effect_of H P m e = Inr m1" by (rule apply_entryE)
  have "i < 2 ^ 64" using Cons.prems(3) by (simp add: MAX_ENTRIES_def)
  then have "is_create (en_event e) \<longrightarrow> i = 0"
    using a(1) m1(2) of_nat_u64_inj [of i 0] by (auto simp: author_of_def is_create_def split: Event.splits if_splits)
  then have i1: "m_inv H P m1 \<and> \<not> m_is_empty m1"
    using effect_of_inv [OF a(2) Cons.prems(2)] Cons.prems(4) by (auto simp: membership_default_def)
  then have "m_inv H P m' \<and> (es \<noteq> [] \<longrightarrow> \<not> m_is_empty m')"
    using Cons.IH [OF m1(3)] Cons.prems(3) by simp
  then show ?case using i1 m1(3) by (cases es) auto
qed simp

lemma replay_iff:
  "replay H P es r = Inr m \<longleftrightarrow> es \<noteq> [] \<and> length es \<le> MAX_ENTRIES \<and> is_create (en_event (hd es)) \<and>
     replay_from H P r 0 (replicate 32 0) membership_default es = Inr m"
  by (auto simp: replay_def not_less)

lemma replay_inv: "replay H P es r = Inr m \<Longrightarrow> m_inv H P m \<and> \<not> m_is_empty m"
  using replay_from_inv [of H P r 0 "replicate 32 0" membership_default es m] by (auto simp: replay_iff)

text \<open>Splitting a verified log: the prefix verifies on its own, and the rest is checked against what it
  yields.\<close>

lemma replay_append:
  assumes "es \<noteq> []"
  shows "replay H P (es @ fs) r = Inr m \<longleftrightarrow>
    length (es @ fs) \<le> MAX_ENTRIES \<and>
    (\<exists>m0. replay H P es r = Inr m0 \<and>
       replay_from H P r (length es) (link_head en_link (replicate 32 0) es) m0 fs = Inr m)"
  using assms by (auto simp: replay_iff replay_from_append result_simps)

lemma il_head_chain: "il_head log = link_head en_link (replicate 32 0) (il_entries log)"
  by (simp add: il_head_def link_head_last)

lemma entry_authority:
  assumes "replay H P (es @ e # fs) r = Inr m" "es \<noteq> []"
  obtains m0 m1 author where "replay H P es r = Inr m0" "m_inv H P m0" "\<not> is_create (en_event e)"
    "author_of H P m0 e r = Inr author"
    "verify P author ENTRY_CONTEXT (entry_signed_bytes e (link_head en_link (replicate 32 0) es)) (en_signature e) = Inr ()"
    "effect_of H P m0 e = Inr m1" "en_sequence e = of_nat (length es)"
proof -
  from assms obtain m0 where m0: "replay H P es r = Inr m0" "length (es @ e # fs) \<le> MAX_ENTRIES"
      "replay_from H P r (length es) (link_head en_link (replicate 32 0) es) m0 (e # fs) = Inr m"
    by (auto simp: replay_append simp del: replay_from.simps)
  from m0(3) obtain m1 where m1: "apply_entry H P m0 e r (link_head en_link (replicate 32 0) es) = Inr m1"
      "en_sequence e = of_nat (length es)"
    by (auto simp: Let_def result_simps split: if_splits)
  from m1(1) obtain author where a: "author_of H P m0 e r = Inr author"
      "verify P author ENTRY_CONTEXT (entry_signed_bytes e (link_head en_link (replicate 32 0) es)) (en_signature e) = Inr ()"
      "effect_of H P m0 e = Inr m1" by (rule apply_entryE)
  have "length es < 2 ^ 64" using m0(2) by (simp add: MAX_ENTRIES_def)
  then have "en_sequence e \<noteq> 0" using m1(2) of_nat_u64_inj [of "length es" 0] assms(2) by simp
  then have "\<not> is_create (en_event e)" using a(1) by (auto simp: author_of_def is_create_def split: Event.splits)
  with that m0(1) m1(2) a replay_inv [OF m0(1)] show ?thesis by blast
qed

section \<open>Revoked devices\<close>

text \<open>The entry brings device \<open>d\<close> into the membership.\<close>

definition introduces :: "sha \<Rightarrow> sig_api \<Rightarrow> Entry \<Rightarrow> DeviceId \<Rightarrow> bool" where
  "introduces H P e d \<longleftrightarrow>
     (\<exists>k label. vi_wf P k \<and> device_id H k = d \<and>
        (en_event e = Create (vi_to_bytes k) label \<or> en_event e = Enrol (vi_to_bytes k) label
         \<or> en_event e = Recover (vi_to_bytes k) label))"

definition is_recover :: "Event \<Rightarrow> bool" where
  "is_recover ev = (case ev of Recover _ _ \<Rightarrow> True | _ \<Rightarrow> False)"

lemma effect_of_introduces:
  assumes "effect_of H P m e = Inr m'" "\<not> m_contains m d" "m_contains m' d"
  shows "introduces H P e d"
  using assms
  by (cases "en_event e") (auto simp: effect_of_def m_contains_def introduces_def Let_def result_simps split: if_splits)

lemma author_of_signer:
  assumes "author_of H P m e r = Inr author" "\<not> is_create (en_event e)"
  shows "is_recover (en_event e) \<and> author = r \<and> en_signer e = device_id H r \<or>
    \<not> is_recover (en_event e) \<and> m_contains m (en_signer e) \<and> fmlookup (devices m) (en_signer e) \<noteq> None
      \<and> author = dv_key (the (fmlookup (devices m) (en_signer e)))"
  using assms
  by (cases "en_event e") (auto simp: author_of_def is_create_def is_recover_def m_contains_def result_simps split: if_splits)

lemma introduced_by:
  assumes "replay_from H P r i p m gs = Inr m'" "\<not> m_contains m d" "m_contains m' d" "0 < i" "i + length gs \<le> MAX_ENTRIES"
  shows "\<exists>j<length gs. introduces H P (gs ! j) d \<and> (is_recover (en_event (gs ! j)) \<or> en_signer (gs ! j) \<noteq> d)"
  using assms
proof (induction gs arbitrary: i p m)
  case (Cons g gs)
  from Cons.prems(1) obtain m1 where m1: "apply_entry H P m g r p = Inr m1" "en_sequence g = of_nat i"
      "replay_from H P r (Suc i) (en_link g) m1 gs = Inr m'"
    by (auto simp: Let_def result_simps split: if_splits)
  from m1(1) obtain author where a: "author_of H P m g r = Inr author" "effect_of H P m g = Inr m1" by (rule apply_entryE)
  have "i < 2 ^ 64" using Cons.prems(5) by (simp add: MAX_ENTRIES_def)
  then have "\<not> is_create (en_event g)"
    using a(1) m1(2) of_nat_u64_inj [of i 0] Cons.prems(4)
    by (auto simp: author_of_def is_create_def split: Event.splits if_splits)
  note au = author_of_signer [OF a(1) this]
  show ?case
  proof (cases "m_contains m1 d")
    case True
    from effect_of_introduces [OF a(2) Cons.prems(2) this] au Cons.prems(2) show ?thesis
      by (intro exI [of _ 0]) auto
  next
    case False
    from Cons.IH [OF m1(3) this Cons.prems(3)] Cons.prems(5) obtain j where
      "j < length gs" "introduces H P (gs ! j) d" "is_recover (en_event (gs ! j)) \<or> en_signer (gs ! j) \<noteq> d"
      by auto
    then show ?thesis by (intro exI [of _ "Suc j"]) simp
  qed
qed simp

section \<open>The history behind a head\<close>

definition entry_image :: "bytes \<Rightarrow> Entry \<Rightarrow> bytes" where
  "entry_image p e = link_image (entry_signed_bytes e p) (en_signature e)"

definition event_payload :: "Event \<Rightarrow> bytes" where
  "event_payload ev = (case ev of Create d _ \<Rightarrow> d | Enrol d _ \<Rightarrow> d | Recover d _ \<Rightarrow> d | Revoke d \<Rightarrow> d)"

definition entry_ok :: "Entry \<Rightarrow> bool" where
  "entry_ok e \<longleftrightarrow> length (en_signer e) = 32 \<and> length (en_signature e) = SIGNATURE_LENGTH
     \<and> length (event_payload (en_event e)) \<le> VERIFYING_KEY_LENGTH
     \<and> (case event_label (en_event e) of Some label \<Rightarrow> length label \<le> MAX_LABEL_BYTES | None \<Rightarrow> True)"

lemmas entry_limits = SIGNATURE_LENGTH_def VERIFYING_KEY_LENGTH_def sign_lengths MAX_LABEL_BYTES_def

lemma entry_ok_sizes:
  assumes "entry_ok e" "length p = 32"
  shows "length (entry_signed_bytes e p) < 2 ^ 64" "length (en_signature e) < 2 ^ 64"
  using assms
  by (cases "en_event e"; simp add: entry_ok_def entry_signed_bytes_def signed_bytes_def event_payload_def
      event_label_def entry_limits)+

lemma entry_signed_bytes_inj:
  assumes "entry_ok e" "entry_ok e'" "length p = 32" "length p' = 32" "entry_signed_bytes e p = entry_signed_bytes e' p'"
  shows "p = p' \<and> en_sequence e = en_sequence e' \<and> en_event e = en_event e' \<and> en_signer e = en_signer e'"
proof -
  let ?tl = "\<lambda>ev. case ev of Create d l \<Rightarrow> lp64 d @ lp64 l | Enrol d l \<Rightarrow> lp64 d @ lp64 l
    | Recover d l \<Rightarrow> lp64 d @ lp64 l | Revoke d \<Rightarrow> lp64 d"
  have eq: "p = p'" "en_sequence e = en_sequence e'" "event_tag (en_event e) = event_tag (en_event e')"
    "en_signer e = en_signer e'" "?tl (en_event e) = ?tl (en_event e')"
    using assms by (simp_all add: entry_signed_bytes_def signed_bytes_def entry_ok_def)
  have "en_event e = en_event e'"
    using eq(3,5) assms(1,2)
    by (cases "en_event e"; cases "en_event e'")
      (auto simp: event_tag_def entry_ok_def event_payload_def event_label_def entry_limits lp64_append_eq lp64_inj)
  with eq show ?thesis by blast
qed

interpretation il: hash_chain entry_ok entry_image en_link en_sequence
proof
  fix e e' :: Entry and p p' :: bytes
  assume ok: "entry_ok e" "entry_ok e'" "length p = 32" "length p' = 32"
    and eq: "entry_image p e = entry_image p' e'" "en_link e = en_link e'"
  have "lp64 (entry_signed_bytes e p) @ lp64 (en_signature e) = lp64 (entry_signed_bytes e' p') @ lp64 (en_signature e')"
    using eq(1) by (simp add: entry_image_def link_image_def)
  then have "entry_signed_bytes e p = entry_signed_bytes e' p'" "en_signature e = en_signature e'"
    using entry_ok_sizes [OF ok(1,3)] entry_ok_sizes [OF ok(2,4)] by (simp_all add: lp64_append_eq lp64_inj)
  with entry_signed_bytes_inj [OF ok] eq(2) show "p = p' \<and> e = e'" by simp
qed

lemma replay_from_linked:
  assumes "replay_from H P r i p m es = Inr m'" "\<forall>x. length (H x) = 32" "m_inv H P m" "i + length es \<le> MAX_ENTRIES"
    and "i = 0 \<longrightarrow> m = membership_default"
  shows "linked H entry_image en_link p es \<and> (\<forall>e\<in>set es. entry_ok e) \<and> (\<forall>j<length es. en_sequence (es ! j) = of_nat (i + j))"
  using assms
proof (induction es arbitrary: i p m)
  case (Cons e es)
  from Cons.prems(1) obtain m1 where m1: "apply_entry H P m e r p = Inr m1" "en_sequence e = of_nat i"
      "replay_from H P r (Suc i) (en_link e) m1 es = Inr m'"
    by (auto simp: Let_def result_simps split: if_splits)
  have inv1: "m_inv H P m1"
    using replay_from_inv [of H P r i p m "[e]" m1] m1(1,2) Cons.prems(3-5) by simp
  from m1(1) obtain author where a: "author_of H P m e r = Inr author" "effect_of H P m e = Inr m1"
      "en_link e = link_for H (entry_signed_bytes e p) (en_signature e)" "length (en_signature e) = SIGNATURE_LENGTH"
      "\<And>label. event_label (en_event e) = Some label \<Longrightarrow> length label \<le> MAX_LABEL_BYTES"
    by (rule apply_entryE) blast
  have hid: "length x = 32" if "device_id H k = x" for k x using that Cons.prems(2) unfolding device_id_def by blast
  have dev: "length d = 32" if "fmlookup (devices m) d = Some v" for d v
  proof -
    have "device_id H (dv_key v) = d" using that Cons.prems(3) unfolding m_inv_def by blast
    then show ?thesis by (rule hid)
  qed
  have "length (en_signer e) = 32"
    using a(1) dev
    by (cases "en_event e") (auto simp: author_of_def result_simps dest: hid split: if_splits)
  moreover have "length (event_payload (en_event e)) \<le> VERIFYING_KEY_LENGTH"
    using a(2) dev length_vi_to_bytes [of P]
    by (cases "en_event e") (auto simp: effect_of_def event_payload_def entry_limits result_simps split: if_splits)
  ultimately have "entry_ok e" using a(4,5) by (simp add: entry_ok_def split: option.splits)
  moreover have "linked H entry_image en_link (en_link e) es \<and> (\<forall>e\<in>set es. entry_ok e)
      \<and> (\<forall>j<length es. en_sequence (es ! j) = of_nat (Suc i + j))"
    using Cons.IH [OF m1(3) Cons.prems(2) inv1] Cons.prems(4) by simp
  ultimately show ?case
    using a(3) m1(2) by (auto simp: entry_image_def [of p e] link_for_def less_Suc_eq_0_disj)
qed simp

lemma replay_linked:
  assumes "replay H P es r = Inr m" "\<forall>x. length (H x) = 32"
  shows "linked H entry_image en_link (replicate 32 0) es" "\<forall>e\<in>set es. entry_ok e"
    "\<forall>j<length es. en_sequence (es ! j) = of_nat j" "length es < 2 ^ 64" "es \<noteq> []"
  using replay_from_linked [of H P r 0 "replicate 32 0" membership_default es m] assms
  by (auto simp: replay_iff MAX_ENTRIES_def)

section \<open>Reachable logs\<close>

lemma il_appendE:
  assumes "il_append H P author event log = Inr (n, log')" "replay H P (il_entries log) (il_recovery log) = Inr m"
  obtains e m' where "log' = log\<lparr>il_entries := il_entries log @ [e]\<rparr>" "en_event e = event" "n = len64 (il_entries log)"
    "en_sequence e = n" "en_signer e = device_id H (verifying_key P author)"
    "apply_entry H P m e (il_recovery log) (il_head log) = Inr m'" "length (il_entries log) < MAX_ENTRIES"
proof -
  define e where "e = (let signer = device_id H (verifying_key P author);
      message = signed_bytes (il_head log) (len64 (il_entries log)) event signer;
      signature = sign P author ENTRY_CONTEXT message
    in \<lparr>en_sequence = len64 (il_entries log), en_event = event, en_signer = signer,
        en_link = link_for H message signature, en_signature = signature\<rparr>)"
  have "il_membership H P log = m" using assms(2) by (simp add: il_membership_def)
  then have "il_append H P author event log =
     (if MAX_ENTRIES \<le> length (il_entries log) then Inl (TooManyEntries (length (il_entries log)))
      else bindR (case event_label event of Some label \<Rightarrow> check_label label | None \<Rightarrow> Inr ()) (\<lambda>_.
        bindR (apply_entry H P m e (il_recovery log) (il_head log)) (\<lambda>_.
          Inr (len64 (il_entries log), log\<lparr>il_entries := il_entries log @ [e]\<rparr>))))"
    by (simp only: il_append_def Let_def e_def il_head_def)
  with assms(1) obtain m' where "apply_entry H P m e (il_recovery log) (il_head log) = Inr m'"
      "log' = log\<lparr>il_entries := il_entries log @ [e]\<rparr>" "n = len64 (il_entries log)" "length (il_entries log) < MAX_ENTRIES"
    by (auto simp: result_simps not_le split: if_splits)
  moreover have "en_event e = event" "en_sequence e = len64 (il_entries log)"
    "en_signer e = device_id H (verifying_key P author)" by (simp_all add: e_def Let_def)
  ultimately show ?thesis using that by blast
qed

lemma il_append_replay:
  assumes "il_append H P author event log = Inr (n, log')" "replay H P (il_entries log) (il_recovery log) = Inr m"
  obtains e m' a where "log' = log\<lparr>il_entries := il_entries log @ [e]\<rparr>" "en_event e = event" "n = len64 (il_entries log)"
    "en_sequence e = n" "effect_of H P m e = Inr m'" "author_of H P m e (il_recovery log) = Inr a"
    "en_signer e = device_id H (verifying_key P author)"
    "replay H P (il_entries log') (il_recovery log') = Inr m'"
proof -
  from assms obtain e m' where e: "log' = log\<lparr>il_entries := il_entries log @ [e]\<rparr>" "en_event e = event" "n = len64 (il_entries log)"
    "en_sequence e = n" "en_signer e = device_id H (verifying_key P author)"
    "apply_entry H P m e (il_recovery log) (il_head log) = Inr m'" "length (il_entries log) < MAX_ENTRIES"
    by (rule il_appendE)
  from e(6) obtain a where "author_of H P m e (il_recovery log) = Inr a" "effect_of H P m e = Inr m'" by (rule apply_entryE)
  moreover have "il_entries log \<noteq> []" using assms(2) by (auto simp: replay_iff)
  then have "replay H P (il_entries log') (il_recovery log') = Inr m'"
    using e assms(2) by (auto simp: replay_append il_head_chain len64_def Let_def)
  ultimately show ?thesis using that e by auto
qed

lemma il_create_devices:
  assumes "sig_laws P" "il_create H P founder label recovery = Inr log"
  obtains m where "replay H P (il_entries log) (il_recovery log) = Inr m"
    "devices m = fmupd (device_id H (verifying_key P founder)) \<lparr>dv_id = device_id H (verifying_key P founder),
       dv_key = verifying_key P founder, dv_label = label, dv_enrolled_at = 0\<rparr> fmempty" "il_recovery log = recovery"
proof -
  let ?k = "verifying_key P founder"
  let ?ev = "Create (vi_to_bytes ?k) label"
  let ?m = "signed_bytes (replicate 32 0) 0 ?ev (device_id H ?k)"
  let ?sig = "sign P founder ENTRY_CONTEXT ?m"
  let ?e = "\<lparr>en_sequence = 0, en_event = ?ev, en_signer = device_id H ?k, en_link = link_for H ?m ?sig, en_signature = ?sig\<rparr>"
  let ?d = "\<lparr>dv_id = device_id H ?k, dv_key = ?k, dv_label = label, dv_enrolled_at = 0\<rparr>"
  let ?m1 = "membership_default\<lparr>devices := fmupd (device_id H ?k) ?d fmempty\<rparr>"
  have log: "log = \<lparr>il_entries = [?e], il_recovery = recovery\<rparr>" "length label \<le> MAX_LABEL_BYTES"
    using assms(2) by (auto simp: il_create_def check_label_def Let_def split: if_splits)
  have pk: "parse_key P (vi_to_bytes ?k) 0 = Inr ?k"
    using vi_wf_verifying_key [OF assms(1)] by (simp add: parse_key_Inr)
  have "apply_entry H P membership_default ?e recovery (replicate 32 0) = Inr ?m1"
  proof (rule apply_entryI)
    show "author_of H P membership_default ?e recovery = Inr ?k" using pk by (simp add: author_of_def)
    show "verify P ?k ENTRY_CONTEXT (entry_signed_bytes ?e (replicate 32 0)) (en_signature ?e) = Inr ()"
      using hs.check_make [OF assms(1)] by (simp add: entry_signed_bytes_def)
    show "effect_of H P membership_default ?e = Inr ?m1" using pk by (simp add: effect_of_def membership_default_def Let_def)
  qed (use log(2) length_sign [OF assms(1)] in \<open>simp_all add: entry_signed_bytes_def event_label_def\<close>)
  then have "replay H P (il_entries log) (il_recovery log) = Inr ?m1"
    by (simp add: log(1) replay_iff MAX_ENTRIES_def is_create_def)
  then show ?thesis by (rule that) (simp_all add: log(1))
qed

lemma il_create_replay:
  assumes "sig_laws P" "il_create H P founder label recovery = Inr log"
  obtains m where "replay H P (il_entries log) (il_recovery log) = Inr m"
    "fmdom (devices m) = {|device_id H (verifying_key P founder)|}" "il_recovery log = recovery"
  using il_create_devices [OF assms] that by (metis fmdom_empty fmdom_fmupd)

lemma il_create_key:
  assumes "sig_laws P" "il_create H P founder label recovery = Inr log"
    and "replay H P (il_entries log) (il_recovery log) = Inr m"
    and "fmlookup (devices m) (device_id H (verifying_key P founder)) = Some v"
  shows "dv_key v = verifying_key P founder"
proof -
  obtain m' where "replay H P (il_entries log) (il_recovery log) = Inr m'"
    "devices m' = fmupd (device_id H (verifying_key P founder)) \<lparr>dv_id = device_id H (verifying_key P founder),
       dv_key = verifying_key P founder, dv_label = label, dv_enrolled_at = 0\<rparr> fmempty"
    using assms(1,2) by (rule il_create_devices)
  with assms(3,4) show ?thesis by auto
qed

lemma id_step_append: "id_step H P log log' \<Longrightarrow> \<exists>author event n. il_append H P author event log = Inr (n, log')"
  by (erule id_step.cases) (unfold enrol_def revoke_def recover_def, blast+)

lemma id_step_replay:
  assumes "id_step H P log log'" "replay H P (il_entries log) (il_recovery log) = Inr m"
  shows "\<exists>m' e. replay H P (il_entries log') (il_recovery log') = Inr m' \<and> il_recovery log' = il_recovery log
    \<and> il_entries log' = il_entries log @ [e]"
proof -
  obtain author event n where "il_append H P author event log = Inr (n, log')" using id_step_append [OF assms(1)] by blast
  then show ?thesis using assms(2) by (rule il_append_replay) auto
qed

lemma id_reach_replay:
  "id_reach H P log log' \<Longrightarrow> replay H P (il_entries log) (il_recovery log) = Inr m \<Longrightarrow>
     \<exists>m' es. replay H P (il_entries log') (il_recovery log') = Inr m' \<and> il_recovery log' = il_recovery log
       \<and> il_entries log' = il_entries log @ es"
proof (induction arbitrary: m rule: id_reach.induct)
  case (id_reach_step log log' log'')
  then obtain m' es where "replay H P (il_entries log') (il_recovery log') = Inr m'" "il_recovery log' = il_recovery log"
    "il_entries log' = il_entries log @ es" by blast
  with id_step_replay [OF id_reach_step.hyps(2)] show ?case by fastforce
qed auto

section \<open>What the operations mean\<close>

text \<open>The abstract identity: a set of trusted devices, changed by a trusted device or by the holder of
  the recovery key.\<close>

datatype Action = AEnrol DeviceId | ARevoke DeviceId | ARecover DeviceId

inductive spec_step :: "DeviceId \<Rightarrow> DeviceId set \<Rightarrow> DeviceId \<Rightarrow> Action \<Rightarrow> DeviceId set \<Rightarrow> bool" for rid where
  spec_enrol: "actor \<in> T \<Longrightarrow> d \<notin> T \<Longrightarrow> spec_step rid T actor (AEnrol d) (insert d T)"
| spec_revoke: "actor \<in> T \<Longrightarrow> d \<in> T \<Longrightarrow> T \<noteq> {d} \<Longrightarrow> spec_step rid T actor (ARevoke d) (T - {d})"
| spec_recover: "spec_step rid T rid (ARecover d) {d}"

inductive_simps spec_step_simps:
  "spec_step rid T actor (AEnrol d) T'" "spec_step rid T actor (ARevoke d) T'" "spec_step rid T actor (ARecover d) T'"

definition trusted :: "sha \<Rightarrow> sig_api \<Rightarrow> IdentityLog \<Rightarrow> DeviceId set" where
  "trusted H P log = fset (fmdom (devices (il_membership H P log)))"

lemma effect_enrol:
  assumes "effect_of H P m e = Inr m'" "en_event e = Enrol (vi_to_bytes dev) label"
  shows "fmdom (devices m') = finsert (device_id H dev) (fmdom (devices m)) \<and> device_id H dev |\<notin>| fmdom (devices m)
    \<and> revoked m' = fmdrop (device_id H dev) (revoked m)"
  using assms by (auto simp: effect_of_def device_id_def result_simps Let_def fmlookup_dom_iff split: if_splits)

lemma effect_revoke:
  assumes "effect_of H P m e = Inr m'" "en_event e = Revoke d"
  shows "fmdom (devices m') = fmdom (devices m) |-| {|d|} \<and> d |\<in>| fmdom (devices m) \<and> fmdom (devices m) \<noteq> {|d|}
    \<and> revoked m' = fmupd d (en_sequence e) (revoked m)"
proof -
  have d: "fmlookup (devices m) d \<noteq> None" "fcard (fmdom (devices m)) \<noteq> 1"
    and m': "m' = m\<lparr>devices := fmdrop d (devices m), revoked := fmupd d (en_sequence e) (revoked m)\<rparr>"
    using assms by (simp_all add: effect_of_def m_len_def split: if_splits)
  from d(1) have "d |\<in>| fmdom (devices m)" by (auto intro: fmdomI)
  moreover have "fcard {|d|} = 1" by (simp add: fcard_finsert)
  with d(2) have "fmdom (devices m) \<noteq> {|d|}" by metis
  ultimately show ?thesis by (simp add: m')
qed

lemma effect_recover:
  assumes "effect_of H P m e = Inr m'" "en_event e = Recover (vi_to_bytes dev) label"
  shows "fmdom (devices m') = {|device_id H dev|} \<and>
    revoked m' = fmdrop (device_id H dev) (fmadd (revoked m) (fmmap (\<lambda>_. en_sequence e) (devices m)))"
  using assms by (auto simp: effect_of_def device_id_def result_simps Let_def split: if_splits)

lemma parse_key_to_bytes: "vi_wf P k \<Longrightarrow> parse_key P (vi_to_bytes k) n = Inr k"
  by (simp add: parse_key_Inr)

lemma effect_recover_key:
  assumes "effect_of H P m e = Inr m'" "en_event e = Recover (vi_to_bytes dev) label" "vi_wf P dev"
  shows "\<exists>v. fmlookup (devices m') (device_id H dev) = Some v \<and> dv_key v = dev"
  using assms by (auto simp: effect_of_def parse_key_to_bytes Let_def)

lemma il_append_trusted:
  assumes "il_append H P author event log = Inr (n, log')" "replay H P (il_entries log) (il_recovery log) = Inr m"
    and "\<not> is_create event"
  obtains e m' where "effect_of H P m e = Inr m'" "en_event e = event" "en_sequence e = n" "il_membership H P log' = m'"
    "il_recovery log' = il_recovery log"
    "is_recover event \<and> device_id H (verifying_key P author) = device_id H (il_recovery log)
     \<or> \<not> is_recover event \<and> device_id H (verifying_key P author) |\<in>| fmdom (devices m)"
proof -
  from assms(1,2) obtain e m' a where e: "log' = log\<lparr>il_entries := il_entries log @ [e]\<rparr>" "en_event e = event"
      "en_sequence e = n" "effect_of H P m e = Inr m'" "author_of H P m e (il_recovery log) = Inr a"
      "en_signer e = device_id H (verifying_key P author)" "replay H P (il_entries log') (il_recovery log') = Inr m'"
    by (rule il_append_replay)
  have "is_recover event \<and> en_signer e = device_id H (il_recovery log) \<or> \<not> is_recover event \<and> en_signer e |\<in>| fmdom (devices m)"
    using author_of_signer [OF e(5)] assms(3) e(2) by (auto simp: m_contains_iff)
  then show ?thesis using that [OF e(4,2,3)] e(1,6,7) by (simp add: il_membership_def)
qed

text \<open>Appending succeeds whenever the signer is the authorised one and the event is possible.\<close>

lemma il_append_succeeds:
  assumes "sig_laws P" "replay H P (il_entries log) (il_recovery log) = Inr m" "length (il_entries log) < MAX_ENTRIES"
    and "case event_label event of Some label \<Rightarrow> length label \<le> MAX_LABEL_BYTES | None \<Rightarrow> True"
    and "\<And>e. en_event e = event \<Longrightarrow> en_signer e = device_id H (verifying_key P author) \<Longrightarrow>
      author_of H P m e (il_recovery log) = Inr (verifying_key P author) \<and> (\<exists>m'. effect_of H P m e = Inr m')"
  shows "\<exists>n log'. il_append H P author event log = Inr (n, log')"
proof -
  let ?msg = "signed_bytes (il_head log) (len64 (il_entries log)) event (device_id H (verifying_key P author))"
  let ?sig = "sign P author ENTRY_CONTEXT ?msg"
  let ?e = "\<lparr>en_sequence = len64 (il_entries log), en_event = event, en_signer = device_id H (verifying_key P author),
    en_link = link_for H ?msg ?sig, en_signature = ?sig\<rparr>"
  obtain m' where m': "author_of H P m ?e (il_recovery log) = Inr (verifying_key P author)" "effect_of H P m ?e = Inr m'"
    using assms(5) [of ?e] by auto
  have "apply_entry H P m ?e (il_recovery log) (il_head log) = Inr m'"
  proof (rule apply_entryI [OF m'(1) _ m'(2)])
    show "verify P (verifying_key P author) ENTRY_CONTEXT (entry_signed_bytes ?e (il_head log)) (en_signature ?e) = Inr ()"
      using hs.check_make [OF assms(1)] by (simp add: entry_signed_bytes_def)
  qed (use assms(4) length_sign [OF assms(1)] in \<open>simp_all add: entry_signed_bytes_def\<close>)
  moreover have "il_membership H P log = m" using assms(2) by (simp add: il_membership_def)
  ultimately show ?thesis
    using assms(3,4) by (auto simp: il_append_def check_label_def Let_def il_head_def split: option.splits)
qed

text \<open>The recovery key always works: nothing in the log can take it away.\<close>

lemma recover_succeeds:
  assumes "sig_laws P" "replay H P (il_entries log) (il_recovery log) = Inr m" "il_recovery log = verifying_key P rk"
    and "length (il_entries log) < MAX_ENTRIES" "vi_wf P dev" "length label \<le> MAX_LABEL_BYTES"
  shows "\<exists>n log'. recover H P rk dev label log = Inr (n, log')"
  unfolding recover_def
  by (rule il_append_succeeds [OF assms(1,2,4)])
    (use assms(3,5,6) in \<open>auto simp: event_label_def author_of_def effect_of_def result_simps Let_def\<close>)

lemma enrol_succeeds:
  assumes "sig_laws P" "replay H P (il_entries log) (il_recovery log) = Inr m"
    and "fmlookup (devices m) (device_id H (verifying_key P author)) = Some v" "dv_key v = verifying_key P author"
    and "fmlookup (devices m) (device_id H dev) = None"
    and "length (il_entries log) < MAX_ENTRIES" "vi_wf P dev" "length label \<le> MAX_LABEL_BYTES"
  shows "\<exists>n log'. enrol H P author dev label log = Inr (n, log')"
  unfolding enrol_def
  by (rule il_append_succeeds [OF assms(1,2,6)])
    (use assms(3-5,7,8) in \<open>auto simp: event_label_def author_of_def effect_of_def result_simps Let_def\<close>)

section \<open>The wire format\<close>

definition entry_ty :: "Entry \<Rightarrow> bool" where
  "entry_ty e \<longleftrightarrow> length (en_signer e) = 32 \<and> length (en_link e) = 32 \<and> length (en_signature e) = SIGNATURE_LENGTH \<and>
     (case event_label (en_event e) of Some label \<Rightarrow> length label \<le> MAX_LABEL_BYTES | None \<Rightarrow> True) \<and>
     (case en_event e of Revoke d \<Rightarrow> length d = 32 | _ \<Rightarrow> True)"

text \<open>What the Rust types add: labels are UTF-8 and a vector is shorter than the address space.\<close>

definition entry_rust :: "Entry \<Rightarrow> bool" where
  "entry_rust e \<longleftrightarrow> length (event_payload (en_event e)) < 2 ^ 64 \<and>
     (case event_label (en_event e) of Some label \<Rightarrow> utf8_valid label | None \<Rightarrow> True)"

lemma decode_encode_entry:
  assumes "cbor_laws C" "entry_ty e" "entry_rust e" "f = None \<or> f = Some framing"
  shows "decode_entry C (f, encode_entry C framing e @ s) = Inr (e, Some framing, s)"
proof -
  have h: "framing_header framing = ENTRY_FIELDS \<longleftrightarrow> framing = Current"
    "framing_header framing = LEGACY_ENTRY_HEADER \<longleftrightarrow> framing = Legacy"
    by (cases framing; simp add: framing_header_def ENTRY_FIELDS_def LEGACY_ENTRY_HEADER_def)+
  have ne: "length (en_signature e) < 2 ^ 64" "length (en_signer e) < 2 ^ 64" "length (en_link e) < 2 ^ 64"
    using assms(2) by (simp_all add: entry_ty_def entry_limits)
  show ?thesis
    using assms h ne
    by (cases e; cases "en_event e"; cases framing)
      (auto simp: decode_entry_def encode_entry_def entry_ty_def entry_rust_def event_tag_def event_label_def
        event_payload_def cbor_read_back [OF assms(1)] entry_limits split: option.splits)
qed

lemma decode_encode_entries:
  assumes "cbor_laws C" "\<forall>e\<in>set es. entry_ty e \<and> entry_rust e" "f = None \<or> f = Some framing"
  shows "repeatR (length es) (decode_entry C) (f, concat (map (encode_entry C framing) es) @ s)
    = Inr (es, if es = [] then f else Some framing, s)"
  using assms(2,3)
proof (induction es arbitrary: f)
  case (Cons e es)
  then show ?case using decode_encode_entry [OF assms(1)] by simp
qed simp

lemma decode_encode_log:
  assumes "cbor_laws C" "\<forall>e\<in>set es. entry_ty e \<and> entry_rust e" "length es \<le> MAX_ENTRIES"
    and "encode_framed C es framing = Inr bs"
  shows "id_decode C bs = Inr es"
proof -
  have bs: "bs = enc_array C (len64 es) @ concat (map (encode_entry C framing) es)"
    using assms(4) by (simp add: encode_framed_def)
  have n: "unat (len64 es) = length es" using assms(3) by (simp add: unat_len64 MAX_ENTRIES_def)
  then have le: "\<not> of_nat MAX_ENTRIES < len64 es" using assms(3) by (simp add: word_less_nat_alt MAX_ENTRIES_def)
  have "repeatR (length es) (decode_entry C) (None, concat (map (encode_entry C framing) es))
      = Inr (es, if es = [] then None else Some framing, [])"
    using decode_encode_entries [OF assms(1,2), of None framing "[]"] by simp
  then show ?thesis
    using le n by (cases es) (simp_all add: id_decode_def bs cbor_read_back [OF assms(1)]
      cbor_read_back_end [OF assms(1)] encode_framed_def)
qed

lemma decode_entry_ty:
  assumes "cbor_laws C" "decode_entry C s = Inr (e, t)"
  shows "entry_ty e \<and> (case event_label (en_event e) of Some label \<Rightarrow> utf8_valid label | None \<Rightarrow> True)"
proof -
  obtain f b where s: "s = (f, b)" by (cases s)
  show ?thesis
    using assms(2) cbor_str_utf8 [OF assms(1)] unfolding s decode_entry_def Let_def split_conv
    by (elim result_steps) (auto simp: entry_ty_def event_label_def split: if_splits)
qed

lemma encode_decode_log:
  assumes "cbor_laws C" "id_decode C bs = Inr es"
  shows "(\<exists>framing. encode_framed C es framing = Inr bs) \<and> length es \<le> MAX_ENTRIES \<and>
    (\<forall>e\<in>set es. entry_ty e \<and> (case event_label (en_event e) of Some label \<Rightarrow> utf8_valid label | None \<Rightarrow> True))"
proof -
  obtain count :: u64 and s f t where c: "\<not> of_nat MAX_ENTRIES < count"
      "repeatR (unat count) (decode_entry C) (None, s) = Inr (es, f, t)"
      "encode_framed C es (case f of None \<Rightarrow> Current | Some f \<Rightarrow> f) = Inr bs"
    using assms(2) unfolding id_decode_def by (elim result_steps) auto
  have "length es \<le> MAX_ENTRIES"
    using c(1) repeatR_length [OF c(2)] by (simp add: word_less_nat_alt MAX_ENTRIES_def)
  moreover have "\<forall>e\<in>set es. entry_ty e \<and> (case event_label (en_event e) of Some label \<Rightarrow> utf8_valid label | None \<Rightarrow> True)"
    using c(2) by (rule all_repeatR) (rule decode_entry_ty [OF assms(1)])
  ultimately show ?thesis using c(3) by blast
qed

section \<open>A concrete log\<close>

definition demo_founder :: SigningIdentity where
  "demo_founder = si_from_seed ref_sig (replicate 32 1)"

lemma demo_log: "\<exists>log. il_create ref_hash ref_sig demo_founder (ascii ''pc'') (verifying_key ref_sig demo_founder) = Inr log
    \<and> length (il_entries log) = 1"
  by (simp add: il_create_def check_label_def MAX_LABEL_BYTES_def Let_def)

text \<open>A two-entry log: the founder's key is also the recovery key and replaces the device.\<close>

lemma demo_recovered:
  "\<exists>(log :: IdentityLog) e log' n m. il_create ref_hash ref_sig demo_founder (ascii ''pc'') (verifying_key ref_sig demo_founder) = Inr log \<and>
     recover ref_hash ref_sig demo_founder (verifying_key ref_sig demo_founder) (ascii ''x'') log = Inr (n, log') \<and>
     il_entries log \<noteq> [] \<and> il_entries log' = il_entries log @ [e] \<and> is_recover (en_event e) \<and>
     replay ref_hash ref_sig (il_entries log @ [e]) (verifying_key ref_sig demo_founder) = Inr m"
proof -
  obtain log where l: "il_create ref_hash ref_sig demo_founder (ascii ''pc'') (verifying_key ref_sig demo_founder) = Inr log"
      "length (il_entries log) = 1"
    using demo_log by blast
  obtain m where m: "replay ref_hash ref_sig (il_entries log) (il_recovery log) = Inr m"
      "il_recovery log = verifying_key ref_sig demo_founder"
    using il_create_replay [OF sig_laws_ref l(1)] by metis
  obtain n log' where r: "recover ref_hash ref_sig demo_founder (verifying_key ref_sig demo_founder) (ascii ''x'') log = Inr (n, log')"
    using recover_succeeds [OF sig_laws_ref m, of "verifying_key ref_sig demo_founder" "ascii ''x''"] l(2)
      vi_wf_verifying_key [OF sig_laws_ref] by (auto simp: MAX_ENTRIES_def MAX_LABEL_BYTES_def)
  then obtain e m' where "il_entries log' = il_entries log @ [e]" "is_recover (en_event e)"
      "replay ref_hash ref_sig (il_entries log') (il_recovery log') = Inr m'" "il_recovery log' = il_recovery log"
    unfolding recover_def using m(1) by (rule il_append_replay) (auto simp: is_recover_def)
  then show ?thesis using l r m(2) by fastforce
qed

text \<open>A three-entry log: a recovery key that was never a device makes itself one, then enrols the founder
  again.\<close>

definition demo_recovery :: SigningIdentity where
  "demo_recovery = si_from_seed ref_sig (replicate 32 2)"

lemma demo_ids_differ:
  "device_id ref_hash (verifying_key ref_sig demo_founder) \<noteq> device_id ref_hash (verifying_key ref_sig demo_recovery)"
proof
  assume "device_id ref_hash (verifying_key ref_sig demo_founder) = device_id ref_hash (verifying_key ref_sig demo_recovery)"
  then have "device_id ref_hash (verifying_key ref_sig demo_founder) ! 18 = device_id ref_hash (verifying_key ref_sig demo_recovery) ! 18"
    by simp
  then show False
    by (simp add: device_id_def ref_hash_def ascii_def nth_append demo_founder_def demo_recovery_def verifying_key_def
        vi_to_bytes_def ref_sig_def si_from_seed_def derive_def pad_def Let_def)
qed

lemma demo_back:
  "\<exists>log0 m0 e f m. il_create ref_hash ref_sig demo_founder [] (verifying_key ref_sig demo_recovery) = Inr log0 \<and>
     replay ref_hash ref_sig (il_entries log0) (verifying_key ref_sig demo_recovery) = Inr m0 \<and>
     \<not> m_contains m0 (device_id ref_hash (verifying_key ref_sig demo_recovery)) \<and>
     replay ref_hash ref_sig (il_entries log0 @ [e, f]) (verifying_key ref_sig demo_recovery) = Inr m \<and>
     en_signer f = device_id ref_hash (verifying_key ref_sig demo_recovery) \<and> \<not> is_recover (en_event f)"
proof -
  let ?A = "verifying_key ref_sig demo_founder" and ?R = "verifying_key ref_sig demo_recovery"
  obtain log0 where l: "il_create ref_hash ref_sig demo_founder [] ?R = Inr log0" "length (il_entries log0) = 1"
    by (simp add: il_create_def check_label_def Let_def)
  obtain m0 where m0: "replay ref_hash ref_sig (il_entries log0) (il_recovery log0) = Inr m0"
      "fmdom (devices m0) = {|device_id ref_hash ?A|}" "il_recovery log0 = ?R"
    using il_create_replay [OF sig_laws_ref l(1)] by blast
  note wf = vi_wf_verifying_key [OF sig_laws_ref]
  obtain n log1 where r: "recover ref_hash ref_sig demo_recovery ?R [] log0 = Inr (n, log1)"
    using recover_succeeds [OF sig_laws_ref m0(1,3) _ wf [of demo_recovery], of "[]"] l(2) by (auto simp: MAX_ENTRIES_def)
  then obtain e m1 where e: "log1 = log0\<lparr>il_entries := il_entries log0 @ [e]\<rparr>" "en_event e = Recover (vi_to_bytes ?R) []"
      "effect_of ref_hash ref_sig m0 e = Inr m1" "replay ref_hash ref_sig (il_entries log1) (il_recovery log1) = Inr m1"
    unfolding recover_def using m0(1) by (rule il_append_replay)
  have dom1: "fmdom (devices m1) = {|device_id ref_hash ?R|}" using effect_recover [OF e(3,2)] by blast
  obtain v where v: "fmlookup (devices m1) (device_id ref_hash ?R) = Some v" and "dv_key v = ?R"
    using effect_recover_key [OF e(3,2) wf] by blast
  moreover have "fmlookup (devices m1) (device_id ref_hash ?A) = None"
    using dom1 demo_ids_differ by (metis fmdom_notD fsingletonD)
  ultimately obtain n' log2 where "enrol ref_hash ref_sig demo_recovery ?A [] log1 = Inr (n', log2)"
    using enrol_succeeds [OF sig_laws_ref e(4) v _ _ _ wf [of demo_founder], of "[]"] e(1) l(2) by (auto simp: MAX_ENTRIES_def)
  then obtain f m2 where f: "log2 = log1\<lparr>il_entries := il_entries log1 @ [f]\<rparr>" "en_event f = Enrol (vi_to_bytes ?A) []"
      "en_signer f = device_id ref_hash ?R" "replay ref_hash ref_sig (il_entries log2) (il_recovery log2) = Inr m2"
    unfolding enrol_def using e(4) by (rule il_append_replay)
  have "\<not> m_contains m0 (device_id ref_hash ?R)" using m0(2) demo_ids_differ by (auto simp: m_contains_iff)
  moreover have "replay ref_hash ref_sig (il_entries log0 @ [e, f]) ?R = Inr m2" using f(1,4) e(1) m0(3) by simp
  moreover have "\<not> is_recover (en_event f)" by (simp add: f(2) is_recover_def)
  moreover have "replay ref_hash ref_sig (il_entries log0) ?R = Inr m0" using m0(1,3) by simp
  ultimately show ?thesis using l(1) f(3) by blast
qed

section \<open>Properties\<close>

text \<open>C17. A log that was created and then changed only through the operations of the library always
  verifies for a stranger who knows the recovery key; it is the old log with entries appended, keeps
  its name (the root link), and never trusts an empty set of devices.\<close>

theorem identity_log_verifies:
  assumes "sig_laws P" "il_create H P founder label recovery = Inr log0" "id_reach H P log0 log"
  shows "\<exists>m es. il_verify H P (il_entries log) recovery = Inr m \<and> \<not> m_is_empty m \<and>
    il_membership H P log = m \<and> il_entries log = il_entries log0 @ es \<and> il_root log = il_root log0"
proof -
  obtain m0 where m0: "replay H P (il_entries log0) (il_recovery log0) = Inr m0" "il_recovery log0 = recovery"
    using il_create_replay [OF assms(1,2)] by metis
  obtain m es where m: "replay H P (il_entries log) (il_recovery log) = Inr m" "il_recovery log = il_recovery log0"
      "il_entries log = il_entries log0 @ es"
    using id_reach_replay [OF assms(3) m0(1)] by blast
  have "il_entries log0 \<noteq> []" using m0(1) by (auto simp: replay_iff)
  then have "il_root log = il_root log0" using m(3) by (simp add: il_root_def)
  then show ?thesis using m m0(2) replay_inv [OF m(1)] by (auto simp: il_verify_def il_membership_def)
qed

theorem identity_log_verifies_witness:
  "\<exists>log m. il_create ref_hash ref_sig demo_founder (ascii ''pc'') (verifying_key ref_sig demo_founder) = Inr log \<and>
     il_verify ref_hash ref_sig (il_entries log) (verifying_key ref_sig demo_founder) = Inr m \<and> \<not> m_is_empty m"
proof -
  obtain log where l: "il_create ref_hash ref_sig demo_founder (ascii ''pc'') (verifying_key ref_sig demo_founder) = Inr log"
    using demo_log by blast
  from identity_log_verifies [OF sig_laws_ref l id_reach_refl] l show ?thesis by blast
qed

text \<open>C10. Authority is evaluated at the point of the log where an entry appears. In a verified log every
  entry after the first is signed by the key that the entries before it authorise: the key of a
  device they trust for an enrolment or a revocation, and only the recovery key for a recovery.\<close>

theorem authority_at_entry:
  assumes "il_verify H P (es @ e # fs) recovery = Inr m" "es \<noteq> []"
  shows "\<exists>m0 author. il_verify H P es recovery = Inr m0 \<and>
    verify P author ENTRY_CONTEXT (entry_signed_bytes e (il_head \<lparr>il_entries = es, il_recovery = recovery\<rparr>)) (en_signature e) = Inr () \<and>
    device_id H author = en_signer e \<and>
    (case en_event e of
       Create _ _ \<Rightarrow> False
     | Recover _ _ \<Rightarrow> author = recovery
     | _ \<Rightarrow> \<exists>v. fmlookup (devices m0) (en_signer e) = Some v \<and> author = dv_key v)"
proof -
  from assms obtain m0 m1 author where a: "replay H P es recovery = Inr m0" "m_inv H P m0" "\<not> is_create (en_event e)"
      "author_of H P m0 e recovery = Inr author"
      "verify P author ENTRY_CONTEXT (entry_signed_bytes e (link_head en_link (replicate 32 0) es)) (en_signature e) = Inr ()"
    unfolding il_verify_def by (rule entry_authority)
  note au = author_of_signer [OF a(4,3)]
  have "device_id H author = en_signer e" using au a(2) by (auto simp: m_inv_def)
  moreover have "case en_event e of Create _ _ \<Rightarrow> False | Recover _ _ \<Rightarrow> author = recovery
     | _ \<Rightarrow> \<exists>v. fmlookup (devices m0) (en_signer e) = Some v \<and> author = dv_key v"
    using au a(3) by (cases "en_event e") (auto simp: is_create_def is_recover_def)
  ultimately show ?thesis using a(1,5) by (auto simp: il_verify_def il_head_chain)
qed

theorem authority_at_entry_witness:
  "\<exists>es e m. es \<noteq> [] \<and> il_verify ref_hash ref_sig (es @ [e]) (verifying_key ref_sig demo_founder) = Inr m \<and>
     device_id ref_hash (verifying_key ref_sig demo_founder) = en_signer e"
proof -
  obtain log :: IdentityLog and e m where l: "il_entries log \<noteq> []" "is_recover (en_event e)"
      "il_verify ref_hash ref_sig (il_entries log @ e # []) (verifying_key ref_sig demo_founder) = Inr m"
    using demo_recovered unfolding il_verify_def by blast
  have "device_id ref_hash (verifying_key ref_sig demo_founder) = en_signer e"
    using authority_at_entry [OF l(3,1)] l(2) by (cases "en_event e") (auto simp: is_recover_def)
  with l(1,3) show ?thesis by blast
qed

text \<open>C26. A revoked device stays powerless. If a device is not trusted at some point of a verified log,
  then any later enrolment or revocation it signs comes after an entry that brought the device back,
  and that entry was signed by the recovery key or by another device.\<close>

theorem revoked_device_powerless:
  assumes "il_verify H P (es @ fs) recovery = Inr m" "il_verify H P es recovery = Inr m0" "\<not> m_contains m0 d"
    and "k < length fs" "en_signer (fs ! k) = d" "\<not> is_recover (en_event (fs ! k))"
  shows "\<exists>j<k. introduces H P (fs ! j) d \<and> (is_recover (en_event (fs ! j)) \<or> en_signer (fs ! j) \<noteq> d)"
proof -
  have es: "es \<noteq> []" using assms(2) by (auto simp: il_verify_def replay_iff)
  have fs: "fs = take k fs @ fs ! k # drop (Suc k) fs" using assms(4) by (simp add: id_take_nth_drop [symmetric])
  have "replay H P ((es @ take k fs) @ fs ! k # drop (Suc k) fs) recovery = Inr m"
    using assms(1) fs by (simp add: il_verify_def)
  then obtain mk mk' author where a: "replay H P (es @ take k fs) recovery = Inr mk" "\<not> is_create (en_event (fs ! k))"
      "author_of H P mk (fs ! k) recovery = Inr author"
    by (rule entry_authority) (use es in auto)
  have mk: "m_contains mk d" using author_of_signer [OF a(3,2)] assms(5,6) by blast
  have rp: "length es + length (take k fs) \<le> MAX_ENTRIES"
      "replay_from H P recovery (length es) (link_head en_link (replicate 32 0) es) m0 (take k fs) = Inr mk"
    using a(1) assms(2) es by (auto simp: replay_append il_verify_def)
  from introduced_by [OF rp(2) assms(3) mk _ rp(1)] es obtain j where "j < length (take k fs)"
      "introduces H P (take k fs ! j) d" "is_recover (en_event (take k fs ! j)) \<or> en_signer (take k fs ! j) \<noteq> d"
    by blast
  then show ?thesis by auto
qed

theorem revoked_device_powerless_witness:
  "\<exists>es e f m. il_verify ref_hash ref_sig (es @ [e, f]) (verifying_key ref_sig demo_recovery) = Inr m \<and>
     introduces ref_hash ref_sig e (device_id ref_hash (verifying_key ref_sig demo_recovery))"
proof -
  let ?R = "verifying_key ref_sig demo_recovery"
  obtain log0 :: IdentityLog and m0 e f m where d: "il_verify ref_hash ref_sig (il_entries log0) ?R = Inr m0"
      "\<not> m_contains m0 (device_id ref_hash ?R)"
      "il_verify ref_hash ref_sig (il_entries log0 @ [e, f]) ?R = Inr m"
      "en_signer f = device_id ref_hash ?R" "\<not> is_recover (en_event f)"
    using demo_back unfolding il_verify_def by blast
  have "introduces ref_hash ref_sig e (device_id ref_hash ?R)"
    using revoked_device_powerless [OF d(3,1,2), of 1] d(4,5) by simp
  with d(3) show ?thesis by blast
qed

text \<open>The user can always get back in. Whatever happened to a log, as long as it is not full, the
  holder of the recovery key can replace all its devices by one new device, and every device trusted
  before is recorded as revoked by that entry.\<close>

theorem recovery_always_possible:
  assumes "sig_laws P" "il_create H P founder label0 (verifying_key P rk) = Inr log0" "id_reach H P log0 log"
    and "length (il_entries log) < MAX_ENTRIES" "vi_wf P dev" "length label \<le> MAX_LABEL_BYTES"
  shows "\<exists>n log'. recover H P rk dev label log = Inr (n, log') \<and> trusted H P log' = {device_id H dev} \<and>
    (\<forall>d\<in>trusted H P log - {device_id H dev}. revoked_at (il_membership H P log') d = Some n)"
proof -
  obtain m0 where m0: "replay H P (il_entries log0) (il_recovery log0) = Inr m0" "il_recovery log0 = verifying_key P rk"
    using il_create_replay [OF assms(1,2)] by metis
  obtain m where m: "replay H P (il_entries log) (il_recovery log) = Inr m" "il_recovery log = verifying_key P rk"
    using id_reach_replay [OF assms(3) m0(1)] m0(2) by auto
  obtain n log' where r: "recover H P rk dev label log = Inr (n, log')"
    using recover_succeeds [OF assms(1) m assms(4-6)] by blast
  then obtain e m' where e: "effect_of H P m e = Inr m'" "en_event e = Recover (vi_to_bytes dev) label" "en_sequence e = n"
      "il_membership H P log' = m'"
    unfolding recover_def using m(1) by (rule il_append_trusted) (auto simp: is_create_def)
  have "trusted H P log = fset (fmdom (devices m))" using m(1) by (simp add: trusted_def il_membership_def)
  then show ?thesis
    using r effect_recover [OF e(1,2)] e(3,4) by (auto simp: trusted_def revoked_at_def fmlookup_dom_iff)
qed

theorem recovery_always_possible_witness:
  "\<exists>log n log'. il_create ref_hash ref_sig demo_founder (ascii ''pc'') (verifying_key ref_sig demo_founder) = Inr log \<and>
     recover ref_hash ref_sig demo_founder (verifying_key ref_sig demo_founder) (ascii ''x'') log = Inr (n, log') \<and>
     trusted ref_hash ref_sig log' = {device_id ref_hash (verifying_key ref_sig demo_founder)}"
proof -
  obtain log where l: "il_create ref_hash ref_sig demo_founder (ascii ''pc'') (verifying_key ref_sig demo_founder) = Inr log"
      "length (il_entries log) = 1"
    using demo_log by blast
  from recovery_always_possible [OF sig_laws_ref l(1) id_reach_refl _ vi_wf_verifying_key [OF sig_laws_ref, of demo_founder],
      of "ascii ''x''"] l
  show ?thesis by (auto simp: MAX_ENTRIES_def MAX_LABEL_BYTES_def)
qed

text \<open>C28. The log refines the abstract identity: an enrolment, revocation or recovery that the library
  accepts is a step of the abstract machine, made by a device that was trusted before it, or by the
  recovery key.\<close>

theorem identity_refines:
  assumes "sig_laws P" "il_create H P founder label0 recovery = Inr log0" "id_reach H P log0 log"
    and "enrol H P author dev label log = Inr (n, log') \<and> action = AEnrol (device_id H dev)
       \<or> revoke H P author d log = Inr (n, log') \<and> action = ARevoke d
       \<or> recover H P author dev label log = Inr (n, log') \<and> action = ARecover (device_id H dev)"
  shows "spec_step (device_id H recovery) (trusted H P log) (device_id H (verifying_key P author)) action (trusted H P log')"
proof -
  obtain m0 where m0: "replay H P (il_entries log0) (il_recovery log0) = Inr m0" "il_recovery log0 = recovery"
    using il_create_replay [OF assms(1,2)] by metis
  obtain m where m: "replay H P (il_entries log) (il_recovery log) = Inr m" "il_recovery log = recovery"
    using id_reach_replay [OF assms(3) m0(1)] m0(2) by auto
  have t: "trusted H P log = fset (fmdom (devices m))" using m(1) by (simp add: trusted_def il_membership_def)
  from assms(4) obtain event where ev: "il_append H P author event log = Inr (n, log')" and
    alt: "event = Enrol (vi_to_bytes dev) label \<and> action = AEnrol (device_id H dev) \<or> event = Revoke d \<and> action = ARevoke d
      \<or> event = Recover (vi_to_bytes dev) label \<and> action = ARecover (device_id H dev)"
    by (auto simp: enrol_def revoke_def recover_def)
  have "\<not> is_create event" using alt by (auto simp: is_create_def)
  from ev m(1) this obtain e m' where e: "effect_of H P m e = Inr m'" "en_event e = event" "il_membership H P log' = m'"
      "is_recover event \<and> device_id H (verifying_key P author) = device_id H (il_recovery log)
       \<or> \<not> is_recover event \<and> device_id H (verifying_key P author) |\<in>| fmdom (devices m)"
    by (rule il_append_trusted)
  have t': "trusted H P log' = fset (fmdom (devices m'))" using e(3) by (simp add: trusted_def)
  show ?thesis
    using alt
  proof (elim disjE conjE)
    assume a: "event = Enrol (vi_to_bytes dev) label" "action = AEnrol (device_id H dev)"
    with effect_enrol [OF e(1)] e(2,4) show ?thesis by (simp add: t t' is_recover_def spec_step_simps)
  next
    assume a: "event = Revoke d" "action = ARevoke d"
    with effect_revoke [OF e(1)] e(2,4) show ?thesis
      by (simp add: t t' is_recover_def spec_step_simps) (metis bot_fset.rep_eq finsert.rep_eq fset_inject)
  next
    assume a: "event = Recover (vi_to_bytes dev) label" "action = ARecover (device_id H dev)"
    with effect_recover [OF e(1)] e(2,4) m(2) show ?thesis by (simp add: t' is_recover_def spec_step_simps)
  qed
qed

theorem identity_refines_witness:
  "\<exists>log n log'. il_create ref_hash ref_sig demo_founder (ascii ''pc'') (verifying_key ref_sig demo_founder) = Inr log \<and>
     recover ref_hash ref_sig demo_founder (verifying_key ref_sig demo_founder) (ascii ''x'') log = Inr (n, log') \<and>
     spec_step (device_id ref_hash (verifying_key ref_sig demo_founder)) (trusted ref_hash ref_sig log)
       (device_id ref_hash (verifying_key ref_sig demo_founder)) (ARecover (device_id ref_hash (verifying_key ref_sig demo_founder)))
       (trusted ref_hash ref_sig log')"
proof -
  obtain log log' n where l: "il_create ref_hash ref_sig demo_founder (ascii ''pc'') (verifying_key ref_sig demo_founder) = Inr log"
      "recover ref_hash ref_sig demo_founder (verifying_key ref_sig demo_founder) (ascii ''x'') log = Inr (n, log')"
    using demo_recovered by blast
  from identity_refines [OF sig_laws_ref l(1) id_reach_refl, of demo_founder "verifying_key ref_sig demo_founder" "ascii ''x''" n log']
    l show ?thesis by blast
qed

text \<open>The head of an identity log names its whole history: two verified logs with the same head are
  the same list of entries, as long as the hash function has no collision among the strings that were
  hashed for them.\<close>

theorem identity_head_commits:
  assumes "\<forall>x. length (H x) = 32" "il_verify H P es r = Inr m" "il_verify H P es' r' = Inr m'"
    and "inj_on H (chain_images entry_image en_link (replicate 32 0) es \<union> chain_images entry_image en_link (replicate 32 0) es')"
    and "il_head \<lparr>il_entries = es, il_recovery = r\<rparr> = il_head \<lparr>il_entries = es', il_recovery = r'\<rparr>"
  shows "es = es'"
proof -
  note l = replay_linked [OF assms(2) [unfolded il_verify_def] assms(1)]
    and l' = replay_linked [OF assms(3) [unfolded il_verify_def] assms(1)]
  show ?thesis
    by (rule il.same_head [OF l(1) l'(1) assms(1) _ _ assms(4) l(5) l'(5) _ l(3) l'(3) l(4) l'(4)])
      (use assms(5) l(2) l'(2) in \<open>auto simp: il_head_chain\<close>)
qed

theorem identity_head_commits_witness:
  "\<exists>log. il_create ref_hash ref_sig demo_founder (ascii ''pc'') (verifying_key ref_sig demo_founder) = Inr log \<and>
     [hd (il_entries log)] = il_entries log"
proof -
  obtain log where l: "il_create ref_hash ref_sig demo_founder (ascii ''pc'') (verifying_key ref_sig demo_founder) = Inr log"
      "length (il_entries log) = 1"
    using demo_log by blast
  obtain e where e: "il_entries log = [e]" using l(2) by (cases "il_entries log") auto
  obtain m where m: "il_verify ref_hash ref_sig [e] (il_recovery log) = Inr m"
    using il_create_replay [OF sig_laws_ref l(1)] e by (metis il_verify_def)
  have "[hd (il_entries log)] = il_entries log"
    by (rule identity_head_commits [of ref_hash ref_sig _ "il_recovery log" m _ "il_recovery log" m]) (simp_all add: e m)
  then show ?thesis using l(1) by blast
qed

text \<open>One history, one encoding. Decoding accepts exactly what the encoder writes in the current or
  in the legacy framing, never a mixture, within the limits on the number of entries and the label
  lengths.\<close>

theorem identity_wire:
  assumes "cbor_laws C" "\<forall>e\<in>set es. entry_rust e"
  shows "id_decode C bs = Inr es \<longleftrightarrow>
    (\<exists>framing. encode_framed C es framing = Inr bs) \<and> length es \<le> MAX_ENTRIES \<and> (\<forall>e\<in>set es. entry_ty e)"
  using encode_decode_log [OF assms(1), of bs es] decode_encode_log [OF assms(1), of es] assms(2) by blast

theorem identity_wire_witness:
  "\<exists>bs. id_decode ref_cbor bs = Inr [\<lparr>en_sequence = 0, en_event = Revoke (replicate 32 1), en_signer = replicate 32 2,
     en_link = replicate 32 3, en_signature = replicate SIGNATURE_LENGTH 4\<rparr>]"
proof -
  let ?e = "\<lparr>en_sequence = 0, en_event = Revoke (replicate 32 1), en_signer = replicate 32 2,
     en_link = replicate 32 3, en_signature = replicate SIGNATURE_LENGTH 4\<rparr>"
  have "\<forall>e\<in>set [?e]. entry_rust e" by (simp add: entry_rust_def event_payload_def event_label_def)
  from identity_wire [OF cbor_laws_ref this] show ?thesis
    by (auto simp: encode_framed_def MAX_ENTRIES_def entry_ty_def event_label_def)
qed

end
