(* ===== verification/Hide_Epoch.thy ===== *)
theory Hide_Epoch
  imports Hide_Crypto Hide_Cbor
begin

text \<open>
  \<open>crates/hide-epoch/src/lib.rs\<close>: a recipient's sequence of independent epoch keys. The chain keeps
  the public record of every epoch, hash-linked, and the secrets that have not been erased. The
  state is \<open>EpochChain\<close>, its operations are \<open>advance\<close>, \<open>ec_erase\<close> and \<open>erase_before\<close>; \<open>epoch_step\<close> is
  one call of one of them, \<open>epoch_reach\<close> a whole run. A call of \<open>RecipientSecret::generate\<close> takes the
  bytes that \<open>getrandom\<close> filled in as an argument. \<open>usize\<close> has 64 bits.
\<close>

section \<open>Data\<close>

type_synonym EpochNumber = u64

definition MAX_CHAIN_ENTRIES :: nat where
  "MAX_CHAIN_ENTRIES = 1000000"

definition CHAIN_INFO :: bytes where
  "CHAIN_INFO = ascii ''HIDE/0.6 epoch chain''"

definition PUBLIC_KEY_LENGTH :: nat where
  "PUBLIC_KEY_LENGTH = 1216"

text \<open>\<open>Crypto\<close> carries the message of the \<open>CryptoError\<close>; the model keeps the error itself.\<close>

datatype EpochError =
    Erased EpochNumber
  | UnknownEpoch EpochNumber
  | EMalformed
  | ETooManyEntries nat
  | EBrokenLink EpochNumber EpochNumber
  | BrokenHash EpochNumber
  | WrongKeyLength EpochNumber nat nat
  | SecretMismatch EpochNumber
  | DuplicateSecret EpochNumber
  | ECrypto CryptoError

record EpochSecret =
  es_number :: EpochNumber
  es_secret :: "bytes option"

record EpochRecord =
  er_number :: EpochNumber
  er_public_key :: bytes
  er_link :: bytes

record EpochChain =
  ec_records :: "EpochRecord list"
  ec_secrets :: "EpochSecret list"

definition es_erase :: "EpochSecret \<Rightarrow> EpochSecret" where
  "es_erase held = held\<lparr>es_secret := None\<rparr>"

section \<open>Operations\<close>

text \<open>\<open>epoch_image\<close> is what the hasher of \<open>link_for\<close> is fed.\<close>

definition epoch_image :: "bytes \<Rightarrow> EpochNumber \<Rightarrow> bytes \<Rightarrow> bytes" where
  "epoch_image previous number pk =
     CHAIN_INFO @ previous @ be64 number @ be64 (len64 pk) @ pk"

definition epoch_link_for :: "crypto_api \<Rightarrow> bytes \<Rightarrow> EpochNumber \<Rightarrow> bytes \<Rightarrow> bytes" where
  "epoch_link_for A previous number pk = sha256 A (epoch_image previous number pk)"

definition ec_head :: "EpochChain \<Rightarrow> bytes" where
  "ec_head chain = (if ec_records chain = [] then replicate 32 0 else er_link (last (ec_records chain)))"

definition advance :: "crypto_api \<Rightarrow> bytes option \<Rightarrow> EpochChain \<Rightarrow> EpochError + EpochNumber \<times> EpochChain" where
  "advance A rng chain =
     (let number = len64 (ec_records chain) in
      if MAX_CHAIN_ENTRIES \<le> length (ec_records chain) then Inl (ETooManyEntries (length (ec_records chain)))
      else
        bindR (map_err ECrypto (random_array rng)) (\<lambda>secret.
        bindR (map_err ECrypto (public_key A secret)) (\<lambda>pk.
        let previous = (if ec_records chain = [] then replicate 32 0 else er_link (last (ec_records chain))) in
        Inr (number,
          chain\<lparr>ec_records := ec_records chain @ [\<lparr>er_number = number, er_public_key = pk,
                                 er_link = epoch_link_for A previous number pk\<rparr>],
                ec_secrets := ec_secrets chain @ [\<lparr>es_number = number, es_secret = Some secret\<rparr>]\<rparr>))))"

definition ec_new :: "crypto_api \<Rightarrow> bytes option \<Rightarrow> EpochError + EpochChain" where
  "ec_new A rng =
     (let chain = \<lparr>ec_records = [], ec_secrets = []\<rparr> in
      bindR (advance A rng chain) (\<lambda>(_, chain). Inr chain))"

definition ec_current :: "EpochChain \<Rightarrow> EpochNumber" where
  "ec_current chain = (if len64 (ec_records chain) = 0 then 0 else len64 (ec_records chain) - 1)"

definition ec_public_key :: "EpochChain \<Rightarrow> EpochNumber \<Rightarrow> EpochError + bytes" where
  "ec_public_key chain number =
     ok_or (map_option er_public_key (get_at (ec_records chain) (unat number))) (UnknownEpoch number)"

definition ec_secret :: "EpochChain \<Rightarrow> EpochNumber \<Rightarrow> EpochError + bytes" where
  "ec_secret chain number =
     bindR (ok_or (get_at (ec_secrets chain) (unat number)) (UnknownEpoch number)) (\<lambda>held.
       ok_or (es_secret held) (Erased number))"

definition ec_erase :: "EpochNumber \<Rightarrow> EpochChain \<Rightarrow> EpochError + EpochChain" where
  "ec_erase number chain =
     bindR (ok_or (get_at (ec_secrets chain) (unat number)) (UnknownEpoch number)) (\<lambda>held.
       Inr (chain\<lparr>ec_secrets := (ec_secrets chain)[unat number := es_erase held]\<rparr>))"

primrec erase_loop :: "EpochNumber \<Rightarrow> EpochSecret list \<Rightarrow> nat \<times> EpochSecret list" where
  "erase_loop keep_from [] = (0, [])"
| "erase_loop keep_from (held # rest) =
     (let (erased, rest) = erase_loop keep_from rest
      in if es_number held < keep_from \<and> es_secret held \<noteq> None
         then (erased + 1, es_erase held # rest)
         else (erased, held # rest))"

definition erase_before :: "EpochNumber \<Rightarrow> EpochChain \<Rightarrow> nat \<times> EpochChain" where
  "erase_before keep_from chain =
     (let (erased, secrets) = erase_loop keep_from (ec_secrets chain)
      in (erased, chain\<lparr>ec_secrets := secrets\<rparr>))"

definition is_readable :: "EpochChain \<Rightarrow> EpochNumber \<Rightarrow> bool" where
  "is_readable chain number =
     (case get_at (ec_secrets chain) (unat number) of None \<Rightarrow> False | Some held \<Rightarrow> es_secret held \<noteq> None)"

definition held_secrets :: "EpochChain \<Rightarrow> (EpochNumber \<times> bytes) list" where
  "held_secrets chain =
     List.map_filter (\<lambda>held. map_option (\<lambda>secret. (es_number held, secret)) (es_secret held)) (ec_secrets chain)"

primrec ec_verify_from :: "crypto_api \<Rightarrow> nat \<Rightarrow> bytes \<Rightarrow> EpochRecord list \<Rightarrow> EpochError + unit" where
  "ec_verify_from A index previous [] = Inr ()"
| "ec_verify_from A index previous (record # records) =
     (let expected = of_nat index in
      if er_number record \<noteq> expected then Inl (EBrokenLink expected (er_number record))
      else if length (er_public_key record) \<noteq> PUBLIC_KEY_LENGTH
        then Inl (WrongKeyLength (er_number record) PUBLIC_KEY_LENGTH (length (er_public_key record)))
      else if epoch_link_for A previous (er_number record) (er_public_key record) \<noteq> er_link record
        then Inl (BrokenHash (er_number record))
      else ec_verify_from A (index + 1) (er_link record) records)"

definition ec_verify :: "crypto_api \<Rightarrow> EpochRecord list \<Rightarrow> EpochError + unit" where
  "ec_verify A records =
     (if MAX_CHAIN_ENTRIES < length records then Inl (ETooManyEntries (length records))
      else ec_verify_from A 0 (replicate 32 0) records)"

primrec restore_loop ::
  "crypto_api \<Rightarrow> EpochRecord list \<Rightarrow> EpochSecret list \<Rightarrow> (EpochNumber \<times> bytes) list \<Rightarrow> EpochError + EpochSecret list" where
  "restore_loop A records held [] = Inr held"
| "restore_loop A records held (ns # rest) =
     (let (number, secret) = ns; index = unat number in
      if \<not> index < length records then Inl (UnknownEpoch number)
      else
        bindR (map_err ECrypto (public_key A secret)) (\<lambda>pk.
        if pk \<noteq> er_public_key (records ! index) then Inl (SecretMismatch number)
        else if es_secret (held ! index) \<noteq> None then Inl (DuplicateSecret number)
        else restore_loop A records (held[index := (held ! index)\<lparr>es_secret := Some secret\<rparr>]) rest))"

definition restore ::
  "crypto_api \<Rightarrow> EpochRecord list \<Rightarrow> (EpochNumber \<times> bytes) list \<Rightarrow> EpochError + EpochChain" where
  "restore A records secrets =
     bindR (ec_verify A records) (\<lambda>_.
     if records = [] then Inl EMalformed
     else
       let held = map (\<lambda>record. \<lparr>es_number = er_number record, es_secret = None\<rparr>) records in
       bindR (restore_loop A records held secrets) (\<lambda>held.
         Inr \<lparr>ec_records = records, ec_secrets = held\<rparr>))"

definition ec_drop :: "EpochChain \<Rightarrow> EpochChain" where
  "ec_drop chain = chain\<lparr>ec_secrets := map es_erase (ec_secrets chain)\<rparr>"

section \<open>The published history\<close>

definition encode_record :: "cbor_api \<Rightarrow> EpochRecord \<Rightarrow> bytes" where
  "encode_record C record =
     enc_array C 3 @ enc_u64 C (er_number record) @ enc_bytes C (er_public_key record) @ enc_bytes C (er_link record)"

definition encode_records :: "cbor_api \<Rightarrow> EpochRecord list \<Rightarrow> EpochError + bytes" where
  "encode_records C records = Inr (enc_array C (len64 records) @ concat (map (encode_record C) records))"

definition decode_record :: "cbor_api \<Rightarrow> bytes \<Rightarrow> EpochError + EpochRecord \<times> bytes" where
  "decode_record C s =
     bindR (ok_or (dec_array C s) EMalformed) (\<lambda>(fields, s).
     bindR (ok_or fields EMalformed) (\<lambda>fields.
     if fields \<noteq> 3 then Inl EMalformed
     else
     bindR (ok_or (dec_u64 C s) EMalformed) (\<lambda>(number, s).
     bindR (ok_or (dec_bytes C s) EMalformed) (\<lambda>(pk, s).
     bindR (ok_or (dec_bytes C s) EMalformed) (\<lambda>(link, s).
     if length link \<noteq> 32 then Inl EMalformed
     else Inr (\<lparr>er_number = number, er_public_key = pk, er_link = link\<rparr>, s))))))"

definition decode_records :: "cbor_api \<Rightarrow> bytes \<Rightarrow> EpochError + EpochRecord list" where
  "decode_records C bs =
     bindR (ok_or (dec_array C bs) EMalformed) (\<lambda>(count, s).
     bindR (ok_or count EMalformed) (\<lambda>count.
     if of_nat MAX_CHAIN_ENTRIES < count then Inl (ETooManyEntries (unat count))
     else
     bindR (repeatR (unat count) (decode_record C) s) (\<lambda>(records, s).
     if length bs - length s \<noteq> length bs then Inl EMalformed
     else
     bindR (encode_records C records) (\<lambda>encoded.
     if encoded \<noteq> bs then Inl EMalformed else Inr records))))"

definition recipient_for :: "crypto_api \<Rightarrow> EpochRecord list \<Rightarrow> EpochNumber \<Rightarrow> EpochError + bytes" where
  "recipient_for A records number =
     bindR (ok_or (get_at records (unat number)) (UnknownEpoch number)) (\<lambda>record.
       map_err ECrypto (public_from_bytes A (er_public_key record)))"

section \<open>Runs\<close>

inductive epoch_step :: "crypto_api \<Rightarrow> EpochChain \<Rightarrow> EpochChain \<Rightarrow> bool" for A where
  step_advance: "(\<And>bs. rng = Some bs \<Longrightarrow> length bs = 32) \<Longrightarrow> advance A rng c = Inr (n, c') \<Longrightarrow> epoch_step A c c'"
| step_erase: "ec_erase n c = Inr c' \<Longrightarrow> epoch_step A c c'"
| step_erase_before: "erase_before n c = (k, c') \<Longrightarrow> epoch_step A c c'"

inductive epoch_reach :: "crypto_api \<Rightarrow> EpochChain \<Rightarrow> EpochChain \<Rightarrow> bool" for A where
  reach_refl: "epoch_reach A c c"
| reach_step: "epoch_reach A c d \<Longrightarrow> epoch_step A d e \<Longrightarrow> epoch_reach A c e"

section \<open>What verification checks\<close>

definition record_image :: "bytes \<Rightarrow> EpochRecord \<Rightarrow> bytes" where
  "record_image p r = epoch_image p (er_number r) (er_public_key r)"

interpretation ec: hash_chain "\<lambda>r. length (er_public_key r) < 2 ^ 64" record_image er_link er_number
proof
  fix e e' :: EpochRecord and p p' :: bytes
  assume l: "length (er_public_key e) < 2 ^ 64" "length (er_public_key e') < 2 ^ 64" "length p = 32" "length p' = 32"
    and eq: "record_image p e = record_image p' e'" "er_link e = er_link e'"
  from eq(1) l(3,4) have "p = p'" "er_number e = er_number e'" "lp64 (er_public_key e) = lp64 (er_public_key e')"
    by (simp_all add: record_image_def epoch_image_def lp64_def)
  with l(1,2) eq(2) show "p = p' \<and> e = e'" by (simp add: lp64_inj)
qed

lemma ec_verify_from_iff:
  "ec_verify_from A i p rs = Inr () \<longleftrightarrow>
     (\<forall>j<length rs. er_number (rs ! j) = of_nat (i + j) \<and> length (er_public_key (rs ! j)) = PUBLIC_KEY_LENGTH) \<and>
     linked (sha256 A) record_image er_link p rs"
proof (induction rs arbitrary: i p)
  case (Cons r rs)
  show ?case
    by (auto simp: Cons.IH Let_def epoch_link_for_def record_image_def less_Suc_eq_0_disj nth_Cons' add.assoc)
qed simp

lemma ec_verify_iff:
  "ec_verify A rs = Inr () \<longleftrightarrow> length rs \<le> MAX_CHAIN_ENTRIES \<and>
     (\<forall>j<length rs. er_number (rs ! j) = of_nat j \<and> length (er_public_key (rs ! j)) = PUBLIC_KEY_LENGTH) \<and>
     linked (sha256 A) record_image er_link (replicate 32 0) rs"
  by (simp add: ec_verify_def ec_verify_from_iff)

lemma ec_head_chain: "ec_head c = link_head er_link (replicate 32 0) (ec_records c)"
  by (simp add: ec_head_def link_head_last)

lemma ec_verify_keys: "ec_verify A rs = Inr () \<Longrightarrow> \<forall>r\<in>set rs. length (er_public_key r) = PUBLIC_KEY_LENGTH"
  by (auto simp: ec_verify_iff in_set_conv_nth)

lemma epoch_same_head:
  assumes "crypto_laws A" "ec_verify A rs = Inr ()" "ec_verify A rs' = Inr ()" "rs \<noteq> []" "rs' \<noteq> []"
    and "inj_on (sha256 A) (chain_images record_image er_link (replicate 32 0) rs
           \<union> chain_images record_image er_link (replicate 32 0) rs')"
    and "link_head er_link (replicate 32 0) rs = link_head er_link (replicate 32 0) rs'"
  shows "rs = rs'"
proof (rule ec.same_head [OF _ _ _ _ _ assms(6,4,5,7)])
  show "\<forall>e\<in>set rs \<union> set rs'. length (er_public_key e) < 2 ^ 64"
    using ec_verify_keys [OF assms(2)] ec_verify_keys [OF assms(3)] by (auto simp: PUBLIC_KEY_LENGTH_def)
  show "\<forall>x. length (sha256 A x) = 32" by (simp add: crypto_lengths [OF assms(1)])
qed (use assms(2,3) in \<open>simp_all add: ec_verify_iff MAX_CHAIN_ENTRIES_def\<close>)

section \<open>The invariant of a chain\<close>

text \<open>The lengths that the X-Wing crate documents for its keys.\<close>

definition epoch_laws :: "crypto_api \<Rightarrow> bool" where
  "epoch_laws A \<longleftrightarrow> crypto_laws A \<and> (\<forall>sk. length sk = 32 \<longrightarrow> length (hpke_pk A sk) = PUBLIC_KEY_LENGTH)"

definition secrets_match :: "crypto_api \<Rightarrow> EpochRecord list \<Rightarrow> EpochSecret list \<Rightarrow> bool" where
  "secrets_match A rs ss \<longleftrightarrow> length ss = length rs \<and>
     (\<forall>i<length rs. es_number (ss ! i) = of_nat i \<and>
        (\<forall>s. es_secret (ss ! i) = Some s \<longrightarrow> public_key A s = Inr (er_public_key (rs ! i))))"

definition ec_inv :: "crypto_api \<Rightarrow> EpochChain \<Rightarrow> bool" where
  "ec_inv A c \<longleftrightarrow> ec_records c \<noteq> [] \<and> ec_verify A (ec_records c) = Inr () \<and> secrets_match A (ec_records c) (ec_secrets c)"

lemma erase_loop_nth:
  "length (snd (erase_loop k ss)) = length ss"
  "i < length ss \<Longrightarrow> snd (erase_loop k ss) ! i = (if es_number (ss ! i) < k then es_erase (ss ! i) else ss ! i)"
proof (induction ss arbitrary: i)
  case (Cons h ss)
  { case 1 then show ?case using Cons.IH(1) by (auto simp: split_beta Let_def) }
  { case 2 then show ?case using Cons.IH(2) by (cases i) (auto simp: split_beta Let_def es_erase_def) }
qed simp_all

lemma secrets_match_erase:
  assumes "secrets_match A rs ss"
    and "length ss' = length ss" "\<And>i. i < length ss \<Longrightarrow> ss' ! i = ss ! i \<or> ss' ! i = es_erase (ss ! i)"
  shows "secrets_match A rs ss'"
  unfolding secrets_match_def
proof (intro conjI allI impI)
  show "length ss' = length rs" using assms by (simp add: secrets_match_def)
  fix i assume i: "i < length rs"
  then have c: "ss' ! i = ss ! i \<or> ss' ! i = es_erase (ss ! i)" using assms(1,3) by (simp add: secrets_match_def)
  show "es_number (ss' ! i) = of_nat i" using c assms(1) i by (auto simp: secrets_match_def es_erase_def)
  fix s assume "es_secret (ss' ! i) = Some s"
  then show "public_key A s = Inr (er_public_key (rs ! i))"
    using c assms(1) i by (auto simp: secrets_match_def es_erase_def)
qed

lemma advanceE:
  assumes "advance A rng c = Inr (n, c')"
  obtains s where "rng = Some s" "n = len64 (ec_records c)" "length (ec_records c) < MAX_CHAIN_ENTRIES"
    "public_key A s = Inr (hpke_pk A s)"
    "ec_records c' = ec_records c @ [\<lparr>er_number = n, er_public_key = hpke_pk A s,
       er_link = epoch_link_for A (ec_head c) n (hpke_pk A s)\<rparr>]"
    "ec_secrets c' = ec_secrets c @ [\<lparr>es_number = n, es_secret = Some s\<rparr>]"
  using assms
  by (cases rng) (auto simp: advance_def random_array_def public_key_def ec_head_def Let_def result_simps split: if_splits)

lemma advance_verify:
  assumes "epoch_laws A" "ec_verify A (ec_records c) = Inr ()" "advance A (Some s) c = Inr (n, c')" "length s = 32"
  shows "ec_verify A (ec_records c') = Inr ()"
proof -
  from assms(3) obtain s' where a: "Some s = Some s'" "n = len64 (ec_records c)" "length (ec_records c) < MAX_CHAIN_ENTRIES"
    "ec_records c' = ec_records c @ [\<lparr>er_number = n, er_public_key = hpke_pk A s',
       er_link = epoch_link_for A (ec_head c) n (hpke_pk A s')\<rparr>]"
    by (rule advanceE)
  then show ?thesis
    using assms(1,2,4)
    by (auto simp: ec_verify_iff linked_append ec_head_chain epoch_link_for_def record_image_def epoch_laws_def
        len64_def nth_append less_Suc_eq)
qed

lemma epoch_step_inv:
  assumes "epoch_laws A" "ec_inv A c" "epoch_step A c c'"
  shows "ec_inv A c'"
  using assms(3)
proof (cases rule: epoch_step.cases)
  case (step_advance rng n)
  then obtain s where s: "rng = Some s" "n = len64 (ec_records c)" "public_key A s = Inr (hpke_pk A s)"
    "ec_records c' = ec_records c @ [\<lparr>er_number = n, er_public_key = hpke_pk A s,
       er_link = epoch_link_for A (ec_head c) n (hpke_pk A s)\<rparr>]"
    "ec_secrets c' = ec_secrets c @ [\<lparr>es_number = n, es_secret = Some s\<rparr>]"
    by (auto elim: advanceE)
  have "ec_verify A (ec_records c') = Inr ()"
    using advance_verify [OF assms(1), of c s n c'] step_advance s(1) assms(2) by (simp add: ec_inv_def)
  then show ?thesis
    using assms(2) s by (auto simp: ec_inv_def secrets_match_def nth_append less_Suc_eq len64_def)
next
  case (step_erase n)
  then have c': "ec_records c' = ec_records c"
    "ec_secrets c' = (ec_secrets c)[unat n := es_erase (ec_secrets c ! unat n)]"
    by (auto simp: ec_erase_def get_at_def split: if_splits)
  have w: "ec_secrets c' ! i = ec_secrets c ! i \<or> ec_secrets c' ! i = es_erase (ec_secrets c ! i)"
    if "i < length (ec_secrets c)" for i
    using that by (cases "unat n = i") (simp_all add: c')
  have "secrets_match A (ec_records c) (ec_secrets c)" using assms(2) by (simp add: ec_inv_def)
  from secrets_match_erase [OF this _ w] have "secrets_match A (ec_records c) (ec_secrets c')" by (simp add: c'(2))
  then show ?thesis using assms(2) by (simp add: c'(1) ec_inv_def)
next
  case (step_erase_before n k)
  then have "ec_records c' = ec_records c" "ec_secrets c' = snd (erase_loop n (ec_secrets c))"
    by (auto simp: erase_before_def split: prod.splits)
  then show ?thesis
    using assms(2) erase_loop_nth [where k = n and ss = "ec_secrets c"]
    by (auto simp: ec_inv_def intro!: secrets_match_erase [where ss = "ec_secrets c"])
qed

lemma ec_new_inv:
  assumes "epoch_laws A" "ec_new A (Some s) = Inr c" "length s = 32"
  shows "ec_inv A c"
proof -
  let ?e = "\<lparr>ec_records = [], ec_secrets = []\<rparr>"
  obtain n where a: "advance A (Some s) ?e = Inr (n, c)"
    using assms(2) by (auto simp: ec_new_def Let_def result_simps split: prod.splits)
  have "ec_verify A (ec_records c) = Inr ()"
    by (rule advance_verify [OF assms(1) _ a assms(3)]) (simp add: ec_verify_iff)
  moreover have "ec_records c \<noteq> [] \<and> secrets_match A (ec_records c) (ec_secrets c)"
    using a by (auto elim!: advanceE simp: secrets_match_def len64_def)
  ultimately show ?thesis by (simp add: ec_inv_def)
qed

lemma epoch_reach_inv: "epoch_reach A c c' \<Longrightarrow> epoch_laws A \<Longrightarrow> ec_inv A c \<Longrightarrow> ec_inv A c'"
  by (induction rule: epoch_reach.induct) (auto intro: epoch_step_inv)

section \<open>Erasure\<close>

text \<open>What one step does to the epochs that exist: their records stay, and an erased secret stays erased.\<close>

definition keeps :: "EpochChain \<Rightarrow> EpochChain \<Rightarrow> bool" where
  "keeps c c' \<longleftrightarrow> length (ec_secrets c) \<le> length (ec_secrets c') \<and>
     (\<exists>rs. ec_records c' = ec_records c @ rs) \<and>
     (\<forall>i<length (ec_secrets c). es_secret (ec_secrets c ! i) = None \<longrightarrow> es_secret (ec_secrets c' ! i) = None)"

lemma keeps_trans: "keeps a b \<Longrightarrow> keeps b c \<Longrightarrow> keeps a c"
  by (auto simp: keeps_def)

lemma epoch_step_keeps:
  assumes "epoch_step A c c'"
  shows "keeps c c'"
  using assms
proof (cases rule: epoch_step.cases)
  case (step_advance rng n)
  then show ?thesis by (auto elim!: advanceE simp: keeps_def nth_append)
next
  case (step_erase n)
  then show ?thesis
    by (auto simp: keeps_def ec_erase_def es_erase_def get_at_def nth_list_update result_simps split: if_splits)
next
  case (step_erase_before n k)
  then have "ec_records c' = ec_records c" "ec_secrets c' = snd (erase_loop n (ec_secrets c))"
    by (auto simp: erase_before_def split: prod.splits)
  then show ?thesis using erase_loop_nth [where k = n and ss = "ec_secrets c"] by (auto simp: keeps_def es_erase_def)
qed

lemma epoch_reach_keeps: "epoch_reach A c c' \<Longrightarrow> keeps c c'"
proof (induction rule: epoch_reach.induct)
  case (reach_refl c)
  show ?case by (simp add: keeps_def)
next
  case (reach_step c d e)
  then show ?case using keeps_trans epoch_step_keeps by blast
qed

lemma erased_secret:
  assumes "keeps c c'" "unat n < length (ec_secrets c)" "\<not> is_readable c n"
  shows "ec_secret c' n = Inl (Erased n)"
  using assms by (auto simp: keeps_def is_readable_def ec_secret_def get_at_def)

lemma get_at_append: "i < length xs \<Longrightarrow> get_at (xs @ ys) i = get_at xs i"
  by (simp add: get_at_def nth_append)

lemma ec_erase_erases: "ec_erase n c = Inr c' \<Longrightarrow> unat n < length (ec_secrets c') \<and> \<not> is_readable c' n"
  by (auto simp: ec_erase_def is_readable_def es_erase_def get_at_def split: if_splits)

lemma erase_before_erases:
  assumes "erase_before k c = (m, c')" "n < k" "unat n < length (ec_secrets c)" "es_number (ec_secrets c ! unat n) = n"
  shows "unat n < length (ec_secrets c') \<and> \<not> is_readable c' n"
proof -
  have "ec_secrets c' = snd (erase_loop k (ec_secrets c))" using assms(1) by (auto simp: erase_before_def split: prod.splits)
  then show ?thesis
    using assms(2-4) erase_loop_nth [where k = k and ss = "ec_secrets c"] by (simp add: is_readable_def get_at_def es_erase_def)
qed

section \<open>Restoring a chain\<close>

definition secret_entry :: "EpochSecret \<Rightarrow> (EpochNumber \<times> bytes) option" where
  "secret_entry held = map_option (\<lambda>secret. (es_number held, secret)) (es_secret held)"

lemma secret_entry_simps [simp]:
  "es_secret x = None \<Longrightarrow> secret_entry x = None"
  "es_secret x = Some y \<Longrightarrow> secret_entry x = Some (es_number x, y)"
  by (simp_all add: secret_entry_def)

lemma restore_loop_held:
  assumes "secrets_match A rs (xs @ ys)" "length rs < 2 ^ 64"
  shows "restore_loop A rs (xs @ map es_erase ys) (List.map_filter secret_entry ys) = Inr (xs @ ys)"
  using assms(1)
proof (induction ys arbitrary: xs)
  case Nil
  then show ?case by (simp add: List.map_filter_simps)
next
  case (Cons y ys)
  have ix: "length xs < length rs" using Cons.prems by (simp add: secrets_match_def)
  then have y: "es_number y = of_nat (length xs)"
    "\<And>s. es_secret y = Some s \<Longrightarrow> public_key A s = Inr (er_public_key (rs ! length xs))"
    using Cons.prems unfolding secrets_match_def by (metis nth_append_length)+
  have un: "unat (of_nat (length xs) :: u64) = length xs" using ix assms(2) by (simp add: unat_of_nat)
  have IH: "restore_loop A rs (xs @ y # map es_erase ys) (List.map_filter secret_entry ys) = Inr (xs @ y # ys)"
    using Cons.IH [of "xs @ [y]"] Cons.prems by simp
  show ?case
  proof (cases "es_secret y")
    case None
    then have "es_erase y = y" by (cases y) (simp add: es_erase_def)
    then show ?thesis using IH None by (simp add: List.map_filter_simps)
  next
    case (Some s)
    have "(es_erase y)\<lparr>es_secret := Some s\<rparr> = y" "es_secret (es_erase y) = None"
      using Some by (cases y; simp add: es_erase_def)+
    then show ?thesis
      using IH Some y un ix
      by (simp add: List.map_filter_simps Let_def nth_append list_update_append)
  qed
qed

lemma restore_inv:
  assumes "ec_inv A c"
  shows "restore A (ec_records c) (held_secrets c) = Inr c"
proof -
  have i: "ec_records c \<noteq> []" "ec_verify A (ec_records c) = Inr ()" "secrets_match A (ec_records c) (ec_secrets c)"
    using assms by (simp_all add: ec_inv_def)
  have n: "map (\<lambda>r. \<lparr>es_number = er_number r, es_secret = None\<rparr>) (ec_records c) = map es_erase (ec_secrets c)"
    using i(2,3) by (intro nth_equalityI) (auto simp: secrets_match_def ec_verify_iff es_erase_def)
  have "length (ec_records c) < 2 ^ 64" using i(2) by (simp add: ec_verify_iff MAX_CHAIN_ENTRIES_def)
  from restore_loop_held [of A "ec_records c" "[]" "ec_secrets c", OF _ this] i(3)
  have "restore_loop A (ec_records c) (map es_erase (ec_secrets c)) (held_secrets c) = Inr (ec_secrets c)"
    by (simp add: held_secrets_def secret_entry_def [abs_def])
  then show ?thesis using i(1,2) by (simp add: restore_def n)
qed

text \<open>Conversely a restored chain satisfies the invariant, and it holds only secrets it was given.\<close>

lemma restore_loop_sound:
  assumes "restore_loop A rs held ss = Inr held'" "secrets_match A rs held"
  shows "secrets_match A rs held' \<and>
    (\<forall>i<length rs. \<forall>s. es_secret (held' ! i) = Some s \<longrightarrow> es_secret (held ! i) = Some s \<or> (of_nat i, s) \<in> set ss)"
  using assms
proof (induction ss arbitrary: held)
  case (Cons e ss)
  obtain n s where e: "e = (n, s)" by (cases e)
  let ?i = "unat n" and ?held = "held[unat n := (held ! unat n)\<lparr>es_secret := Some s\<rparr>]"
  have r: "?i < length rs" "public_key A s = Inr (er_public_key (rs ! ?i))" "restore_loop A rs ?held ss = Inr held'"
    using Cons.prems(1) by (auto simp: e Let_def result_simps split: if_splits)
  have m: "secrets_match A rs ?held" using Cons.prems(2) r(1,2) by (auto simp: secrets_match_def nth_list_update)
  have "es_secret (held ! i) = Some t \<or> (of_nat i, t) \<in> set (e # ss)"
    if "i < length rs" "es_secret (?held ! i) = Some t" for i t
    using that r(1) Cons.prems(2) by (cases "?i = i") (auto simp: e secrets_match_def)
  then show ?case using Cons.IH [OF r(3) m] by fastforce
qed simp

lemma restore_sound:
  assumes "restore A rs ss = Inr c"
  shows "ec_inv A c \<and> ec_records c = rs \<and>
    (\<forall>i<length rs. \<forall>s. es_secret (ec_secrets c ! i) = Some s \<longrightarrow> (of_nat i, s) \<in> set ss)"
proof -
  let ?held = "map (\<lambda>r. \<lparr>es_number = er_number r, es_secret = None\<rparr>) rs"
  obtain held where r: "ec_verify A rs = Inr ()" "rs \<noteq> []" "restore_loop A rs ?held ss = Inr held"
    "c = \<lparr>ec_records = rs, ec_secrets = held\<rparr>"
    using assms by (auto simp: restore_def Let_def result_simps split: if_splits)
  have "secrets_match A rs ?held" using r(1) by (auto simp: secrets_match_def ec_verify_iff)
  from restore_loop_sound [OF r(3) this] r show ?thesis by (auto simp: ec_inv_def)
qed

lemma held_secrets_sorted:
  assumes "ec_inv A c"
  shows "sorted_wrt (<) (map fst (held_secrets c))"
proof -
  have n: "length (ec_secrets c) < 2 ^ 64" "\<forall>i<length (ec_secrets c). es_number (ec_secrets c ! i) = of_nat i"
    using assms by (auto simp: ec_inv_def secrets_match_def ec_verify_iff MAX_CHAIN_ENTRIES_def)
  have "sorted_wrt (<) (map es_number (ec_secrets c))"
    using n by (auto simp: sorted_wrt_iff_nth_less word_less_nat_alt unat_of_nat)
  then have "sorted_wrt (<) (map es_number (filter (\<lambda>h. es_secret h \<noteq> None) (ec_secrets c)))"
    by (simp add: sorted_wrt_map sorted_wrt_filter)
  moreover have "map fst (held_secrets c) = map es_number (filter (\<lambda>h. es_secret h \<noteq> None) (ec_secrets c))"
    unfolding held_secrets_def by (induction "ec_secrets c") (auto simp: List.map_filter_def)
  ultimately show ?thesis by simp
qed

lemma held_secrets_set:
  assumes "ec_inv A c"
  shows "(n, s) \<in> set (held_secrets c) \<longleftrightarrow> unat n < length (ec_records c) \<and> es_secret (ec_secrets c ! unat n) = Some s"
proof -
  have n: "length (ec_secrets c) = length (ec_records c)" "length (ec_secrets c) < 2 ^ 64"
      "\<forall>i<length (ec_secrets c). es_number (ec_secrets c ! i) = of_nat i"
    using assms by (auto simp: ec_inv_def secrets_match_def ec_verify_iff MAX_CHAIN_ENTRIES_def)
  have "(n, s) \<in> set (held_secrets c) \<longleftrightarrow>
      (\<exists>i<length (ec_secrets c). es_number (ec_secrets c ! i) = n \<and> es_secret (ec_secrets c ! i) = Some s)"
    by (auto simp: held_secrets_def List.map_filter_def in_set_conv_nth image_iff)
  also have "\<dots> \<longleftrightarrow> unat n < length (ec_secrets c) \<and> es_secret (ec_secrets c ! unat n) = Some s"
  proof -
    have "i < length (ec_secrets c) \<Longrightarrow> of_nat i = n \<longleftrightarrow> i = unat n" for i
      using n(2) by (auto simp: unat_of_nat)
    then show ?thesis using n(3) by fastforce
  qed
  finally show ?thesis by (simp add: n(1))
qed

section \<open>The published form\<close>

lemma decode_encode_record:
  assumes "cbor_laws C" "length (er_public_key r) < 2 ^ 64" "length (er_link r) = 32"
  shows "decode_record C (encode_record C r @ s) = Inr (r, s)"
  using assms by (cases r) (simp add: decode_record_def encode_record_def cbor_read_back [OF assms(1)])

lemma decode_encode_records:
  assumes "cbor_laws C" "\<forall>r\<in>set rs. length (er_public_key r) < 2 ^ 64 \<and> length (er_link r) = 32"
    and "length rs \<le> MAX_CHAIN_ENTRIES" "encode_records C rs = Inr bs"
  shows "decode_records C bs = Inr rs"
proof -
  have bs: "bs = enc_array C (len64 rs) @ concat (map (encode_record C) rs)" using assms(4) by (simp add: encode_records_def)
  have n: "unat (len64 rs) = length rs" using assms(3) by (simp add: unat_len64 MAX_CHAIN_ENTRIES_def)
  then have le: "\<not> of_nat MAX_CHAIN_ENTRIES < len64 rs"
    using assms(3) by (simp add: word_less_nat_alt MAX_CHAIN_ENTRIES_def)
  have "repeatR (length rs) (decode_record C) (concat (map (encode_record C) rs) @ []) = Inr (rs, [])"
    by (rule repeatR_concat) (use assms(1,2) decode_encode_record in blast)
  then show ?thesis
    using le n by (simp add: decode_records_def bs cbor_read_back [OF assms(1)] encode_records_def)
qed

lemma decode_record_link: "decode_record C s = Inr (r, t) \<Longrightarrow> length (er_link r) = 32"
  by (auto simp: decode_record_def result_simps split: prod.splits if_splits)

lemma encode_decode_records:
  assumes "decode_records C bs = Inr rs"
  shows "encode_records C rs = Inr bs \<and> length rs \<le> MAX_CHAIN_ENTRIES \<and> (\<forall>r\<in>set rs. length (er_link r) = 32)"
proof -
  obtain count :: u64 and s t where c: "\<not> of_nat MAX_CHAIN_ENTRIES < count" "repeatR (unat count) (decode_record C) s = Inr (rs, t)"
      "encode_records C rs = Inr bs"
    using assms unfolding decode_records_def by (elim result_steps) auto
  then have "length rs \<le> MAX_CHAIN_ENTRIES"
    using repeatR_length [OF c(2)] by (simp add: word_less_nat_alt MAX_CHAIN_ENTRIES_def)
  moreover have "\<forall>r\<in>set rs. length (er_link r) = 32" using c(2) by (rule all_repeatR) (rule decode_record_link)
  ultimately show ?thesis using c(3) by blast
qed

section \<open>A concrete chain\<close>

text \<open>The reference primitives with public keys of the real length.\<close>

definition ref_epoch :: crypto_api where
  "ref_epoch = ref_crypto\<lparr>hpke_pk := (\<lambda>sk. sk @ replicate 1184 0)\<rparr>"

lemma epoch_laws_ref: "epoch_laws ref_epoch"
  by (auto simp: epoch_laws_def crypto_laws_def ref_epoch_def ref_crypto_def PUBLIC_KEY_LENGTH_def)

lemma demo_chain: "\<exists>c. ec_new ref_epoch (Some (replicate 32 1)) = Inr c \<and> length (ec_records c) = 1 \<and> length (ec_secrets c) = 1"
  by (simp add: ec_new_def advance_def random_array_def public_key_def ref_epoch_def ref_crypto_def MAX_CHAIN_ENTRIES_def Let_def)

section \<open>Properties\<close>

text \<open>C36. Erasure cannot be undone. Once an epoch of a chain has been erased, by itself or by a
  retention sweep, then after any further sequence of operations its secret is still gone and none of
  the secrets the chain would hand to a store is for that epoch, while its public record stays what it was.\<close>

theorem erasure_irreversible:
  assumes "epoch_laws A" "ec_new A (Some s) = Inr c0" "length s = 32" "epoch_reach A c0 c"
    and "ec_erase n c = Inr c1 \<or> (\<exists>k m. n < k \<and> unat n < length (ec_records c) \<and> erase_before k c = (m, c1))"
    and "epoch_reach A c1 c'"
  shows "ec_secret c' n = Inl (Erased n) \<and> n \<notin> fst ` set (held_secrets c') \<and> ec_public_key c' n = ec_public_key c n"
proof -
  have step: "epoch_step A c c1" using assms(5) step_erase step_erase_before by blast
  have inv: "ec_inv A c" using epoch_reach_inv [OF assms(4,1) ec_new_inv [OF assms(1-3)]] .
  then have inv': "ec_inv A c'" using epoch_reach_inv [OF assms(6,1) epoch_step_inv [OF assms(1) _ step]] by blast
  have sm: "secrets_match A (ec_records c) (ec_secrets c)" "secrets_match A (ec_records c') (ec_secrets c')"
    using inv inv' by (simp_all add: ec_inv_def)
  have er: "unat n < length (ec_secrets c1) \<and> \<not> is_readable c1 n"
    using assms(5) ec_erase_erases erase_before_erases sm(1) by (auto simp: secrets_match_def)
  have gone: "ec_secret c' n = Inl (Erased n)" using erased_secret [OF epoch_reach_keeps [OF assms(6)]] er by blast
  have "n \<noteq> m" if "(m, x) \<in> set (held_secrets c')" for m x
  proof
    assume "n = m"
    with that obtain i where i: "i < length (ec_secrets c')" "es_secret (ec_secrets c' ! i) = Some x" "es_number (ec_secrets c' ! i) = n"
      by (auto simp: held_secrets_def List.map_filter_def in_set_conv_nth)
    moreover have "i < 2 ^ 64" "es_number (ec_secrets c' ! i) = of_nat i"
      using i(1) sm(2) inv' by (simp_all add: secrets_match_def ec_inv_def ec_verify_iff MAX_CHAIN_ENTRIES_def)
    ultimately have "unat n = i" by (auto simp: unat_of_nat)
    then show False using gone i(1,2) by (simp add: ec_secret_def get_at_def)
  qed
  moreover have "unat n < length (ec_records c)"
    using assms(5) sm(1) by (auto simp: ec_erase_def get_at_def secrets_match_def split: if_splits)
  then have "ec_public_key c' n = ec_public_key c n"
    using keeps_trans [OF epoch_step_keeps [OF step] epoch_reach_keeps [OF assms(6)]]
    by (auto simp: keeps_def ec_public_key_def get_at_append)
  ultimately show ?thesis using gone by (metis (no_types, lifting) imageE prod.collapse)
qed

theorem erasure_irreversible_witness:
  "\<exists>c0 c1. ec_new ref_epoch (Some (replicate 32 1)) = Inr c0 \<and> ec_erase 0 c0 = Inr c1 \<and>
     ec_secret c1 0 = Inl (Erased 0)"
proof -
  obtain c0 where c: "ec_new ref_epoch (Some (replicate 32 1)) = Inr c0" "length (ec_secrets c0) = 1"
    using demo_chain by blast
  then obtain c1 where c1: "ec_erase 0 c0 = Inr c1" by (simp add: ec_erase_def get_at_def)
  from erasure_irreversible [OF epoch_laws_ref c(1) _ reach_refl _ reach_refl, of 0 c1] c(1) c1 show ?thesis by auto
qed

text \<open>Every chain the operations can reach is a valid published history, and it survives a restart:
  restoring its records with the secrets it still holds gives the same chain back, erased epochs
  included.\<close>

theorem epoch_restore:
  assumes "epoch_laws A" "ec_new A (Some s) = Inr c0" "length s = 32" "epoch_reach A c0 c"
  shows "ec_verify A (ec_records c) = Inr () \<and> restore A (ec_records c) (held_secrets c) = Inr c"
proof -
  have "ec_inv A c" using epoch_reach_inv [OF assms(4,1) ec_new_inv [OF assms(1-3)]] .
  then show ?thesis using restore_inv by (simp add: ec_inv_def)
qed

theorem epoch_restore_witness:
  "\<exists>c. ec_new ref_epoch (Some (replicate 32 1)) = Inr c \<and> restore ref_epoch (ec_records c) (held_secrets c) = Inr c"
proof -
  obtain c where c: "ec_new ref_epoch (Some (replicate 32 1)) = Inr c" using demo_chain by blast
  from epoch_restore [OF epoch_laws_ref c _ reach_refl] c show ?thesis by auto
qed

text \<open>The head of an epoch chain commits to the whole history: two verified, non-empty histories
  with the same head are equal, as long as the hash function has no collision among the strings that
  were hashed for them.\<close>

theorem epoch_head_commits:
  assumes "crypto_laws A" "ec_verify A rs = Inr ()" "ec_verify A rs' = Inr ()" "rs \<noteq> []" "rs' \<noteq> []"
    and "inj_on (sha256 A) (chain_images record_image er_link (replicate 32 0) rs
           \<union> chain_images record_image er_link (replicate 32 0) rs')"
    and "ec_head \<lparr>ec_records = rs, ec_secrets = ss\<rparr> = ec_head \<lparr>ec_records = rs', ec_secrets = ss'\<rparr>"
  shows "rs = rs'"
  using epoch_same_head [OF assms(1-6)] assms(7) by (simp add: ec_head_chain)

theorem epoch_head_commits_witness:
  "\<exists>c. ec_new ref_epoch (Some (replicate 32 1)) = Inr c \<and> [hd (ec_records c)] = ec_records c"
proof -
  obtain c where c: "ec_new ref_epoch (Some (replicate 32 1)) = Inr c" "length (ec_records c) = 1" using demo_chain by blast
  obtain r0 where r0: "ec_records c = [r0]" using c(2) by (cases "ec_records c") auto
  have v: "ec_verify ref_epoch [r0] = Inr ()"
    using ec_new_inv [OF epoch_laws_ref c(1)] r0 by (simp add: ec_inv_def)
  have laws: "crypto_laws ref_epoch" using epoch_laws_ref by (simp add: epoch_laws_def)
  have "[hd (ec_records c)] = ec_records c"
    by (rule epoch_head_commits [OF laws, where ss = "[]" and ss' = "[]"]) (simp_all add: r0 v)
  then show ?thesis using c(1) by blast
qed

text \<open>One history, one encoding: decoding accepts exactly the encoder's output, within the limit on
  the number of entries.\<close>

theorem epoch_records_wire:
  assumes "cbor_laws C" "\<forall>r\<in>set rs. length (er_public_key r) < 2 ^ 64"
  shows "decode_records C bs = Inr rs \<longleftrightarrow>
    encode_records C rs = Inr bs \<and> length rs \<le> MAX_CHAIN_ENTRIES \<and> (\<forall>r\<in>set rs. length (er_link r) = 32)"
  using assms encode_decode_records [of C bs rs] decode_encode_records [OF assms(1), of rs bs] by blast

theorem epoch_records_wire_witness:
  "\<exists>bs. decode_records ref_cbor bs = Inr [\<lparr>er_number = 0, er_public_key = [1], er_link = replicate 32 0\<rparr>]"
proof -
  let ?r = "\<lparr>er_number = 0, er_public_key = [1], er_link = replicate 32 0\<rparr>"
  obtain bs where "encode_records ref_cbor [?r] = Inr bs" by (simp add: encode_records_def)
  moreover have "\<forall>r\<in>set [?r]. length (er_public_key r) < 2 ^ 64" by simp
  ultimately show ?thesis
    using epoch_records_wire [OF cbor_laws_ref, of "[?r]" bs] by (auto simp: MAX_CHAIN_ENTRIES_def)
qed

end
