(* ===== verification/Hide_Bindings.thy ===== *)
theory Hide_Bindings
  imports Hide_Identity Hide_Epoch
begin

text \<open>
  \<open>crates/hide-identity/src/bindings.rs\<close>: two signed statements that tie a recovery key and an epoch
  chain to an identity log. SHA-256 is \<open>sha256 A\<close>, for the log and for the chain alike.
\<close>

section \<open>Data\<close>

definition RECOVERY_BINDING_CONTEXT :: bytes where
  "RECOVERY_BINDING_CONTEXT = ascii ''HIDE/1.0 recovery binding''"

definition EPOCH_BINDING_CONTEXT :: bytes where
  "EPOCH_BINDING_CONTEXT = ascii ''HIDE/1.0 epoch binding''"

definition RECOVERY_BINDING_LENGTH :: nat where
  "RECOVERY_BINDING_LENGTH = 32 + VERIFYING_KEY_LENGTH + SIGNATURE_LENGTH"

definition EPOCH_BINDING_LENGTH :: nat where
  "EPOCH_BINDING_LENGTH = 32 * 3 + 8 + 32 + SIGNATURE_LENGTH"

record RecoveryBinding =
  rb_root :: bytes
  rb_recovery_key :: VerifyingIdentity
  rb_signature :: bytes

record EpochBinding =
  eb_identity_root :: bytes
  eb_identity_head :: bytes
  eb_chain_head :: bytes
  eb_epochs :: u64
  eb_signer :: DeviceId
  eb_signature :: bytes

section \<open>The recovery key\<close>

definition recovery_message :: "bytes \<Rightarrow> VerifyingIdentity \<Rightarrow> bytes" where
  "recovery_message root recovery = root @ vi_to_bytes recovery"

definition founder_key :: "sig_api \<Rightarrow> Entry list \<Rightarrow> IdentityError + VerifyingIdentity" where
  "founder_key P entries =
     (case map_option en_event (get_at entries 0) of
        Some (Create device _) \<Rightarrow> map_err (\<lambda>_. BadBinding) (vi_from_bytes P device)
      | Some _ \<Rightarrow> Inl (BadRoot ''another event'')
      | None \<Rightarrow> Inl IEmpty)"

definition rb_create :: "sig_api \<Rightarrow> IdentityLog \<Rightarrow> SigningIdentity \<Rightarrow> IdentityError + RecoveryBinding" where
  "rb_create P log founder =
     (let root = il_root log in
      bindR (founder_key P (il_entries log)) (\<lambda>expected.
      if \<not> vi_eq (verifying_key P founder) expected then Inl (Unauthorised 0)
      else
        let signature = sign P founder RECOVERY_BINDING_CONTEXT (recovery_message root (il_recovery log))
        in Inr \<lparr>rb_root = root, rb_recovery_key = il_recovery log, rb_signature = signature\<rparr>))"

definition rb_encode :: "RecoveryBinding \<Rightarrow> bytes" where
  "rb_encode b = rb_root b @ vi_to_bytes (rb_recovery_key b) @ rb_signature b"

definition rb_decode :: "sig_api \<Rightarrow> bytes \<Rightarrow> IdentityError + RecoveryBinding" where
  "rb_decode P bs =
     (if length bs \<noteq> RECOVERY_BINDING_LENGTH then Inl Malformed
      else
        let root = take 32 bs; rest = drop 32 bs;
            k = take VERIFYING_KEY_LENGTH rest; signature = drop VERIFYING_KEY_LENGTH rest
        in bindR (map_err (\<lambda>_. Malformed) (vi_from_bytes P k)) (\<lambda>k.
             Inr \<lparr>rb_root = root, rb_recovery_key = k, rb_signature = signature\<rparr>))"

definition rb_verify :: "sha \<Rightarrow> sig_api \<Rightarrow> RecoveryBinding \<Rightarrow> Entry list \<Rightarrow> IdentityError + IdentityLog" where
  "rb_verify H P b entries =
     bindR (founder_key P entries) (\<lambda>founder.
     if map_option en_link (get_at entries 0) \<noteq> Some (rb_root b) then Inl WrongIdentity
     else
       bindR (map_err (\<lambda>_. BadBinding)
                (verify P founder RECOVERY_BINDING_CONTEXT (recovery_message (rb_root b) (rb_recovery_key b)) (rb_signature b)))
         (\<lambda>_. from_entries H P entries (rb_recovery_key b)))"

definition rb_verify_pinned ::
  "sha \<Rightarrow> sig_api \<Rightarrow> RecoveryBinding \<Rightarrow> Entry list \<Rightarrow> bytes \<Rightarrow> IdentityError + IdentityLog" where
  "rb_verify_pinned H P b entries pinned_root =
     (if rb_root b \<noteq> pinned_root then Inl WrongIdentity else rb_verify H P b entries)"

section \<open>The epoch chain\<close>

definition records_head :: "EpochRecord list \<Rightarrow> bytes" where
  "records_head rs = (if rs = [] then replicate 32 0 else er_link (last rs))"

definition eb_message :: "EpochBinding \<Rightarrow> bytes" where
  "eb_message b =
     eb_identity_root b @ eb_identity_head b @ eb_chain_head b @ be64 (eb_epochs b) @ eb_signer b"

definition eb_create ::
  "crypto_api \<Rightarrow> sig_api \<Rightarrow> IdentityLog \<Rightarrow> SigningIdentity \<Rightarrow> EpochRecord list \<Rightarrow> IdentityError + EpochBinding" where
  "eb_create A P log device rs =
     (let signer = device_id (sha256 A) (verifying_key P device) in
      if \<not> m_contains (il_membership (sha256 A) P log) signer then Inl (Unauthorised (len64 (il_entries log)))
      else
        bindR (map_err (\<lambda>_. StaleBinding) (ec_verify A rs)) (\<lambda>_.
        if rs = [] then Inl StaleBinding
        else
          let binding = \<lparr>eb_identity_root = il_root log, eb_identity_head = il_head log, eb_chain_head = records_head rs,
                         eb_epochs = len64 rs, eb_signer = signer, eb_signature = []\<rparr>
          in Inr (binding\<lparr>eb_signature := sign P device EPOCH_BINDING_CONTEXT (eb_message binding)\<rparr>)))"

definition eb_encode :: "EpochBinding \<Rightarrow> bytes" where
  "eb_encode b = eb_message b @ eb_signature b"

definition eb_decode :: "bytes \<Rightarrow> IdentityError + EpochBinding" where
  "eb_decode bs =
     (if length bs \<noteq> EPOCH_BINDING_LENGTH then Inl Malformed
      else
        let field = (\<lambda>at. subslice at (at + 32) bs)
        in Inr \<lparr>eb_identity_root = field 0, eb_identity_head = field 32, eb_chain_head = field 64,
                eb_epochs = u64_from_be (subslice 96 104 bs), eb_signer = field 104,
                eb_signature = drop 136 bs\<rparr>)"

definition verify_by_member ::
  "sig_api \<Rightarrow> Membership \<Rightarrow> DeviceId \<Rightarrow> bytes \<Rightarrow> bytes \<Rightarrow> IdentityError + unit" where
  "verify_by_member P membership signer message signature =
     bindR (ok_or (m_get membership signer) (Unauthorised 0)) (\<lambda>device.
       map_err (\<lambda>_. BadBinding) (verify P (dv_key device) EPOCH_BINDING_CONTEXT message signature))"

definition eb_verify ::
  "crypto_api \<Rightarrow> sig_api \<Rightarrow> EpochBinding \<Rightarrow> IdentityLog \<Rightarrow> EpochRecord list \<Rightarrow> IdentityError + unit" where
  "eb_verify A P b log rs =
     (if il_root log \<noteq> eb_identity_root b then Inl WrongIdentity
      else if \<not> list_ex (\<lambda>e. en_link e = eb_identity_head b) (il_entries log) then Inl StaleBinding
      else
        bindR (map_err (\<lambda>_. StaleBinding) (ec_verify A rs)) (\<lambda>_.
        if rs = [] \<or> len64 rs \<noteq> eb_epochs b \<or> records_head rs \<noteq> eb_chain_head b then Inl StaleBinding
        else verify_by_member P (il_membership (sha256 A) P log) (eb_signer b) (eb_message b) (eb_signature b)))"

section \<open>Wire formats\<close>

text \<open>What the Rust types guarantee of a binding that \<open>create\<close> or \<open>decode\<close> returned.\<close>

definition rb_wf :: "sig_api \<Rightarrow> RecoveryBinding \<Rightarrow> bool" where
  "rb_wf P b \<longleftrightarrow> length (rb_root b) = 32 \<and> vi_wf P (rb_recovery_key b) \<and> length (rb_signature b) = SIGNATURE_LENGTH"

definition eb_wf :: "EpochBinding \<Rightarrow> bool" where
  "eb_wf b \<longleftrightarrow> length (eb_identity_root b) = 32 \<and> length (eb_identity_head b) = 32 \<and> length (eb_chain_head b) = 32
     \<and> length (eb_signer b) = 32 \<and> length (eb_signature b) = SIGNATURE_LENGTH"

lemma rb_decode_iff: "rb_decode P bs = Inr b \<longleftrightarrow> rb_wf P b \<and> bs = rb_encode b"
proof
  assume "rb_decode P bs = Inr b"
  then have l: "length bs = RECOVERY_BINDING_LENGTH"
    and b: "vi_wf P (rb_recovery_key b)" "take VERIFYING_KEY_LENGTH (drop 32 bs) = vi_to_bytes (rb_recovery_key b)"
      "rb_root b = take 32 bs" "rb_signature b = drop VERIFYING_KEY_LENGTH (drop 32 bs)"
    by (auto simp: rb_decode_def Let_def vi_from_bytes_iff result_simps split: if_splits)
  have "rb_encode b = take 32 bs @ take VERIFYING_KEY_LENGTH (drop 32 bs) @ drop VERIFYING_KEY_LENGTH (drop 32 bs)"
    by (simp only: rb_encode_def b)
  then have "rb_encode b = bs" by (simp only: append_take_drop_id)
  then show "rb_wf P b \<and> bs = rb_encode b" using l b by (simp add: rb_wf_def RECOVERY_BINDING_LENGTH_def)
next
  assume a: "rb_wf P b \<and> bs = rb_encode b"
  then have l: "length (vi_to_bytes (rb_recovery_key b)) = VERIFYING_KEY_LENGTH"
    by (auto simp: rb_wf_def intro: length_vi_to_bytes)
  show "rb_decode P bs = Inr b"
    using a l by (cases b) (simp add: rb_decode_def rb_encode_def rb_wf_def RECOVERY_BINDING_LENGTH_def Let_def
        vi_from_bytes_iff result_simps)
qed

interpretation rb: canonical_codec "\<lambda>_. True" rb_wf "\<lambda>_. rb_encode" rb_decode
  by unfold_locales (simp_all add: rb_decode_iff)

lemma eb_decode_iff: "eb_decode bs = Inr b \<longleftrightarrow> eb_wf b \<and> bs = eb_encode b"
proof
  assume d: "eb_decode bs = Inr b"
  then have l: "length bs = EPOCH_BINDING_LENGTH" by (auto simp: eb_decode_def split: if_splits)
  then have b: "b = \<lparr>eb_identity_root = subslice 0 32 bs, eb_identity_head = subslice 32 64 bs, eb_chain_head = subslice 64 96 bs,
      eb_epochs = u64_from_be (subslice 96 104 bs), eb_signer = subslice 104 136 bs, eb_signature = drop 136 bs\<rparr>"
    using d by (simp add: eb_decode_def Let_def)
  have l': "136 \<le> length bs" using l by (simp add: EPOCH_BINDING_LENGTH_def)
  then have "length (subslice 96 104 bs) = 8" by simp
  then have "eb_encode b = subslice 0 32 bs @ subslice 32 64 bs @ subslice 64 96 bs @ subslice 96 104 bs
      @ subslice 104 136 bs @ drop 136 bs"
    by (simp add: b eb_encode_def eb_message_def be64_u64_from_be del: subslice_0)
  also have "\<dots> = drop 0 bs" by (simp add: subslice_drop del: subslice_0 drop0)
  finally show "eb_wf b \<and> bs = eb_encode b" using l l' by (simp add: b eb_wf_def EPOCH_BINDING_LENGTH_def del: subslice_0)
next
  assume a: "eb_wf b \<and> bs = eb_encode b"
  then show "eb_decode bs = Inr b"
    by (cases b) (simp add: eb_decode_def eb_encode_def eb_message_def eb_wf_def EPOCH_BINDING_LENGTH_def subslice_def Let_def)
qed

interpretation eb: canonical_codec "\<lambda>_ :: unit. True" "\<lambda>_. eb_wf" "\<lambda>_. eb_encode" "\<lambda>_. eb_decode"
  by unfold_locales (simp_all add: eb_decode_iff)

section \<open>Lemmas\<close>

lemma founder_key_Inr [result_simps]:
  "founder_key P es = Inr k \<longleftrightarrow> (\<exists>e rest label. es = e # rest \<and> en_event e = Create (vi_to_bytes k) label \<and> vi_wf P k)"
  by (cases es) (auto simp: founder_key_def get_at_def vi_from_bytes_iff result_simps split: Event.splits)

lemma vi_eqD:
  assumes "vi_eq v w" "vi_wf P v" "vi_wf P w" shows "v = w"
proof -
  have "vi_from_bytes P (vi_to_bytes v) = Inr v" "vi_from_bytes P (vi_to_bytes w) = Inr w"
    using assms(2,3) by (simp_all add: vi_from_bytes_iff)
  with assms(1) have "(Inr v :: SignError + VerifyingIdentity) = Inr w" unfolding vi_eq_def by metis
  then show ?thesis by simp
qed

lemma rb_verify_pinnedE:
  assumes "rb_verify_pinned H P b es pin = Inr log"
  obtains founder e rest label m where "rb_root b = pin" "es = e # rest" "en_link e = pin"
    "en_event e = Create (vi_to_bytes founder) label" "vi_wf P founder"
    "verify P founder RECOVERY_BINDING_CONTEXT (recovery_message pin (rb_recovery_key b)) (rb_signature b) = Inr ()"
    "replay H P es (rb_recovery_key b) = Inr m" "log = \<lparr>il_entries = es, il_recovery = rb_recovery_key b\<rparr>"
  using assms
  by (auto simp: rb_verify_pinned_def rb_verify_def from_entries_def get_at_def result_simps split: if_splits)

lemma reach_replay:
  assumes "sig_laws P" "il_create H P founder label recovery = Inr log0" "id_reach H P log0 log"
  obtains m where "replay H P (il_entries log) (il_recovery log) = Inr m" "il_recovery log = recovery"
  using il_create_replay [OF assms(1,2)] id_reach_replay [OF assms(3)] by metis

text \<open>The image hashed for the first entry of a log.\<close>

definition root_image :: "Entry list \<Rightarrow> bytes" where
  "root_image es = entry_image (replicate 32 0) (hd es)"

lemma pinned_entry:
  assumes "replay H P es r = Inr m" "replay H P es' r' = Inr m'" "\<forall>x. length (H x) = 32"
    and "inj_on H {root_image es, root_image es'}" "en_link (hd es) = en_link (hd es')"
  shows "hd es = hd es'"
proof -
  note l = replay_linked [OF assms(1,3)] and l' = replay_linked [OF assms(2,3)]
  have "en_link (hd es) = H (root_image es)" "en_link (hd es') = H (root_image es')"
    using l(1,5) l'(1,5) by (cases es; cases es'; simp add: root_image_def)+
  then have "H (root_image es) = H (root_image es')" using assms(5) by metis
  then have "root_image es = root_image es'" by (rule inj_onD [OF assms(4)]) simp_all
  moreover have "entry_ok (hd es)" "entry_ok (hd es')" using l(2,5) l'(2,5) by simp_all
  ultimately show ?thesis using il.img_inj [of "hd es" "hd es'" "replicate 32 0" "replicate 32 0"] assms(5) by (simp add: root_image_def)
qed

lemma records_head_chain: "records_head rs = link_head er_link (replicate 32 0) rs"
  by (simp add: records_head_def link_head_last)

lemma eb_verifyE:
  assumes "eb_verify A P b log rs = Inr ()"
  obtains v where "il_root log = eb_identity_root b" "\<exists>e\<in>set (il_entries log). en_link e = eb_identity_head b"
    "ec_verify A rs = Inr ()" "rs \<noteq> []" "len64 rs = eb_epochs b" "records_head rs = eb_chain_head b"
    "fmlookup (devices (il_membership (sha256 A) P log)) (eb_signer b) = Some v"
    "verify P (dv_key v) EPOCH_BINDING_CONTEXT (eb_message b) (eb_signature b) = Inr ()"
  using assms
  by (auto simp: eb_verify_def verify_by_member_def m_get_def list_ex_iff result_simps split: if_splits)

lemma eb_message_unsigned: "eb_message (b\<lparr>eb_signature := s\<rparr>) = eb_message b"
  by (simp add: eb_message_def)

lemma eb_create_verify:
  assumes "sig_laws P" "replay (sha256 A) P (il_entries log) (il_recovery log) = Inr m"
    and "eb_create A P log device rs = Inr b"
    and "fmlookup (devices m) (device_id (sha256 A) (verifying_key P device)) = Some v" "dv_key v = verifying_key P device"
  shows "eb_verify A P b log rs = Inr ()"
proof -
  have mm: "il_membership (sha256 A) P log = m" using assms(2) by (simp add: il_membership_def)
  let ?b = "\<lparr>eb_identity_root = il_root log, eb_identity_head = il_head log, eb_chain_head = records_head rs,
    eb_epochs = len64 rs, eb_signer = device_id (sha256 A) (verifying_key P device), eb_signature = []\<rparr>"
  have c: "ec_verify A rs = Inr ()" "rs \<noteq> []"
    "b = ?b\<lparr>eb_signature := sign P device EPOCH_BINDING_CONTEXT (eb_message ?b)\<rparr>"
    using assms(3) by (auto simp: eb_create_def Let_def result_simps split: if_splits)
  have ne: "il_entries log \<noteq> []" using assms(2) by (auto simp: replay_iff)
  have f: "il_root log = eb_identity_root b" "eb_identity_head b = en_link (last (il_entries log))" "len64 rs = eb_epochs b"
    "records_head rs = eb_chain_head b" "eb_signer b = device_id (sha256 A) (verifying_key P device)"
    "eb_signature b = sign P device EPOCH_BINDING_CONTEXT (eb_message b)"
    using c(3) ne by (simp_all add: il_head_def eb_message_def)
  have "list_ex (\<lambda>e. en_link e = eb_identity_head b) (il_entries log)"
    unfolding f(2) list_ex_iff using ne last_in_set by blast
  then show ?thesis
    using c(1,2) f assms(4,5) hs.check_make [OF assms(1)] by (simp add: eb_verify_def verify_by_member_def m_get_def mm)
qed

section \<open>A concrete binding\<close>

lemma demo_binding:
  "\<exists>log b. il_create ref_hash ref_sig demo_founder [] (verifying_key ref_sig demo_recovery) = Inr log \<and>
     rb_create ref_sig log demo_founder = Inr b \<and>
     rb_verify_pinned ref_hash ref_sig b (il_entries log) (il_root log) = Inr log"
proof -
  let ?k = "verifying_key ref_sig demo_founder"
  obtain log where l: "il_create ref_hash ref_sig demo_founder [] (verifying_key ref_sig demo_recovery) = Inr log"
    by (simp add: il_create_def check_label_def Let_def)
  obtain m where m: "replay ref_hash ref_sig (il_entries log) (il_recovery log) = Inr m"
    using il_create_replay [OF sig_laws_ref l] by metis
  obtain e where e: "il_entries log = [e]" "en_event e = Create (vi_to_bytes ?k) []"
    using l by (auto simp: il_create_def check_label_def Let_def MAX_LABEL_BYTES_def)
  have f: "founder_key ref_sig (il_entries log) = Inr ?k"
    using vi_wf_verifying_key [OF sig_laws_ref] by (simp add: founder_key_Inr e)
  let ?b = "\<lparr>rb_root = il_root log, rb_recovery_key = il_recovery log,
    rb_signature = sign ref_sig demo_founder RECOVERY_BINDING_CONTEXT (recovery_message (il_root log) (il_recovery log))\<rparr>"
  have "rb_create ref_sig log demo_founder = Inr ?b" by (simp add: rb_create_def f vi_eq_def Let_def)
  moreover have "rb_verify_pinned ref_hash ref_sig ?b (il_entries log) (il_root log) = Inr log"
    using f m hs.check_make [OF sig_laws_ref]
    by (simp add: rb_verify_pinned_def rb_verify_def from_entries_def get_at_def e(1) il_root_def)
  ultimately show ?thesis using l by blast
qed

lemma demo_epoch_binding:
  "\<exists>log b rs. il_create ref_hash ref_sig demo_founder [] (verifying_key ref_sig demo_recovery) = Inr log \<and>
     length rs = 1 \<and> eb_create ref_epoch ref_sig log demo_founder rs = Inr b \<and> eb_verify ref_epoch ref_sig b log rs = Inr ()"
proof -
  let ?k = "verifying_key ref_sig demo_founder"
  have sh: "sha256 ref_epoch = ref_hash" by (simp add: ref_epoch_def ref_crypto_def)
  obtain log where l: "il_create ref_hash ref_sig demo_founder [] (verifying_key ref_sig demo_recovery) = Inr log"
    by (simp add: il_create_def check_label_def Let_def)
  obtain m where m: "replay ref_hash ref_sig (il_entries log) (il_recovery log) = Inr m"
      "fmdom (devices m) = {|device_id ref_hash ?k|}"
    using il_create_replay [OF sig_laws_ref l] by metis
  then obtain v where v: "fmlookup (devices m) (device_id ref_hash ?k) = Some v" by (metis finsertI1 fmdomE)
  obtain c where c: "ec_new ref_epoch (Some (replicate 32 1)) = Inr c" "length (ec_records c) = 1" using demo_chain by blast
  have rs: "ec_verify ref_epoch (ec_records c) = Inr ()" "ec_records c \<noteq> []"
    using ec_new_inv [OF epoch_laws_ref c(1)] by (simp_all add: ec_inv_def)
  have "il_membership ref_hash ref_sig log = m" using m(1) by (simp add: il_membership_def)
  then obtain b where b: "eb_create ref_epoch ref_sig log demo_founder (ec_records c) = Inr b"
    using v rs by (simp add: eb_create_def sh m_contains_def Let_def)
  have "dv_key v = ?k" using il_create_key [OF sig_laws_ref l m(1) v] .
  with eb_create_verify [of ref_sig ref_epoch log m demo_founder "ec_records c" b v] sig_laws_ref m(1) b v
  have "eb_verify ref_epoch ref_sig b log (ec_records c) = Inr ()" by (simp add: sh)
  with l c(2) b show ?thesis by blast
qed

section \<open>Properties\<close>

text \<open>The founder's statement about the recovery key is accepted with the log it was made for, however
  long the log has grown, and gives that log back; and it survives its wire format.\<close>

theorem recovery_binding_accepted:
  assumes "sig_laws P" "\<forall>x. length (H x) = 32" "il_create H P founder label recovery = Inr log0" "id_reach H P log0 log"
    and "rb_create P log founder = Inr b" "vi_wf P recovery"
  shows "rb_verify_pinned H P b (il_entries log) (il_root log0) = Inr log \<and> rb_decode P (rb_encode b) = Inr b"
proof -
  obtain m where m: "replay H P (il_entries log) (il_recovery log) = Inr m" "il_recovery log = recovery"
    using reach_replay [OF assms(1,3,4)] .
  obtain m0 where m0: "replay H P (il_entries log0) (il_recovery log0) = Inr m0"
    using il_create_replay [OF assms(1,3)] by metis
  then have ne0: "il_entries log0 \<noteq> []" by (auto simp: replay_iff)
  have root: "il_root log = il_root log0"
    using id_reach_replay [OF assms(4) m0] ne0 by (auto simp: il_root_def)
  from assms(5) obtain k where k: "founder_key P (il_entries log) = Inr k" "vi_eq (verifying_key P founder) k"
      "b = \<lparr>rb_root = il_root log, rb_recovery_key = recovery,
            rb_signature = sign P founder RECOVERY_BINDING_CONTEXT (recovery_message (il_root log) recovery)\<rparr>"
    by (auto simp: rb_create_def Let_def m(2) result_simps simp del: founder_key_Inr split: if_splits)
  from k(1) obtain e rest lb where e: "il_entries log = e # rest" "vi_wf P k" by (auto simp: founder_key_Inr)
  have kf: "k = verifying_key P founder" using vi_eqD [OF k(2) vi_wf_verifying_key [OF assms(1)] e(2)] by simp
  have link: "il_root log = en_link e" by (simp add: il_root_def e(1))
  have "length (en_link e) = 32"
    using replay_linked(1) [OF m(1) assms(2)] assms(2) by (simp add: e(1))
  then have "rb_wf P b" using assms(6) length_sign [OF assms(1)] by (simp add: rb_wf_def k(3) link)
  moreover have "rb_verify_pinned H P b (il_entries log) (il_root log) = Inr log"
    using k(1) hs.check_make [OF assms(1)] m
    by (simp add: rb_verify_pinned_def rb_verify_def k(3) kf e(1) get_at_def link from_entries_def)
  ultimately show ?thesis using root by (simp add: rb_decode_iff)
qed

theorem recovery_binding_accepted_witness:
  "\<exists>log b. il_create ref_hash ref_sig demo_founder [] (verifying_key ref_sig demo_recovery) = Inr log \<and>
     rb_create ref_sig log demo_founder = Inr b \<and> rb_decode ref_sig (rb_encode b) = Inr b"
proof -
  obtain log b where l: "il_create ref_hash ref_sig demo_founder [] (verifying_key ref_sig demo_recovery) = Inr log"
      "rb_create ref_sig log demo_founder = Inr b"
    using demo_binding by blast
  from recovery_binding_accepted [OF sig_laws_ref _ l(1) id_reach_refl l(2) vi_wf_verifying_key [OF sig_laws_ref]] l
  show ?thesis by auto
qed

text \<open>Whoever pins the 32-byte root of an identity learns one founder: any two logs accepted under the
  same pin have the same first entry, without a hash collision between the two, and each recovery key that
  is accepted is one that this founder signed for exactly this root.\<close>

theorem pinned_root_fixes_founder:
  assumes "\<forall>x. length (H x) = 32" "rb_verify_pinned H P b es pin = Inr log" "rb_verify_pinned H P b' es' pin = Inr log'"
    and "inj_on H {root_image es, root_image es'}"
  shows "hd es = hd es' \<and> il_entries log = es \<and> il_recovery log = rb_recovery_key b \<and>
    (\<exists>founder. founder_key P es = Inr founder \<and> founder_key P es' = Inr founder \<and>
       verify P founder RECOVERY_BINDING_CONTEXT (recovery_message pin (rb_recovery_key b)) (rb_signature b) = Inr () \<and>
       verify P founder RECOVERY_BINDING_CONTEXT (recovery_message pin (rb_recovery_key b')) (rb_signature b') = Inr ())"
proof -
  from assms(2) obtain f e rest l m where a: "es = e # rest" "en_link e = pin" "en_event e = Create (vi_to_bytes f) l" "vi_wf P f"
      "verify P f RECOVERY_BINDING_CONTEXT (recovery_message pin (rb_recovery_key b)) (rb_signature b) = Inr ()"
      "replay H P es (rb_recovery_key b) = Inr m" "log = \<lparr>il_entries = es, il_recovery = rb_recovery_key b\<rparr>"
    by (rule rb_verify_pinnedE)
  from assms(3) obtain f' e' rest' l' m' where a': "es' = e' # rest'" "en_link e' = pin" "en_event e' = Create (vi_to_bytes f') l'" "vi_wf P f'"
      "verify P f' RECOVERY_BINDING_CONTEXT (recovery_message pin (rb_recovery_key b')) (rb_signature b') = Inr ()"
      "replay H P es' (rb_recovery_key b') = Inr m'"
    by (rule rb_verify_pinnedE)
  have hd: "hd es = hd es'"
    by (rule pinned_entry [OF a(6) a'(6) assms(1,4)]) (simp add: a(1,2) a'(1,2))
  then have "vi_eq f f'" using a(1,3) a'(1,3) by (simp add: vi_eq_def)
  then have "f = f'" using vi_eqD a(4) a'(4) by blast
  moreover have "founder_key P es = Inr f" "founder_key P es' = Inr f'" using a(1,3,4) a'(1,3,4) by (simp_all add: founder_key_Inr)
  ultimately show ?thesis using hd a(5,7) a'(5) by auto
qed

theorem pinned_root_fixes_founder_witness:
  "\<exists>log b founder. rb_verify_pinned ref_hash ref_sig b (il_entries log) (il_root log) = Inr log \<and>
     founder_key ref_sig (il_entries log) = Inr founder"
proof -
  obtain log :: IdentityLog and b where l: "rb_verify_pinned ref_hash ref_sig b (il_entries log) (il_root log) = Inr log"
    using demo_binding by blast
  from pinned_root_fixes_founder [OF _ l l] l show ?thesis by auto
qed

text \<open>An epoch binding names one chain and stands only as long as its signer is trusted: when it is
  accepted, its signer is a device in the current membership of the log, and two chains accepted with
  the same binding are equal, without a hash collision in their histories.\<close>

theorem epoch_binding_sound:
  assumes "crypto_laws A" "eb_verify A P b log rs = Inr ()" "eb_verify A P b log' rs' = Inr ()"
    and "inj_on (sha256 A) (chain_images record_image er_link (replicate 32 0) rs
           \<union> chain_images record_image er_link (replicate 32 0) rs')"
  shows "rs = rs' \<and> il_root log = il_root log' \<and> m_contains (il_membership (sha256 A) P log) (eb_signer b) \<and>
    (\<exists>v. m_get (il_membership (sha256 A) P log) (eb_signer b) = Some v \<and>
       verify P (dv_key v) EPOCH_BINDING_CONTEXT (eb_message b) (eb_signature b) = Inr ())"
proof -
  from assms(2) obtain v where a: "il_root log = eb_identity_root b" "ec_verify A rs = Inr ()" "rs \<noteq> []"
      "records_head rs = eb_chain_head b" "fmlookup (devices (il_membership (sha256 A) P log)) (eb_signer b) = Some v"
      "verify P (dv_key v) EPOCH_BINDING_CONTEXT (eb_message b) (eb_signature b) = Inr ()"
    by (rule eb_verifyE)
  from assms(3) obtain v' where a': "il_root log' = eb_identity_root b" "ec_verify A rs' = Inr ()" "rs' \<noteq> []"
      "records_head rs' = eb_chain_head b"
    by (rule eb_verifyE)
  have "rs = rs'" by (rule epoch_same_head [OF assms(1) a(2) a'(2) a(3) a'(3) assms(4)])
    (use a(4) a'(4) in \<open>simp add: records_head_chain\<close>)
  then show ?thesis using a a'(1) by (auto simp: m_contains_def m_get_def)
qed

theorem epoch_binding_sound_witness:
  "\<exists>log b rs. length rs = 1 \<and> eb_verify ref_epoch ref_sig b log rs = Inr () \<and>
     m_contains (il_membership (sha256 ref_epoch) ref_sig log) (eb_signer b)"
proof -
  obtain log b rs where l: "length rs = 1" "eb_verify ref_epoch ref_sig b log rs = Inr ()" using demo_epoch_binding by blast
  obtain r where r: "rs = [r]" using l(1) by (cases rs) auto
  have "crypto_laws ref_epoch" using epoch_laws_ref by (simp add: epoch_laws_def)
  from epoch_binding_sound [OF this l(2) l(2)] have "m_contains (il_membership (sha256 ref_epoch) ref_sig log) (eb_signer b)"
    by (simp add: r)
  with l show ?thesis by blast
qed

end
