(* ===== verification/Hide_Checkpoint.thy ===== *)
theory Hide_Checkpoint
  imports Hide_Merkle Hide_Sign
begin

text \<open>
  \<open>crates/hide-transparency/src/checkpoint.rs\<close>: signed tree heads in the signed-note text form. A
  \<open>String\<close> is the list of its UTF-8 bytes. SHA-256 is \<open>H\<close>, the signature primitives are \<open>P\<close>, and the
  base64 engine (crate \<open>base64\<close>) is \<open>B\<close>: \<open>b64_laws\<close> states that decoding inverts encoding and that the
  encoder writes only characters of the standard alphabet.
\<close>

section \<open>Base64 and strings\<close>

record b64_api =
  b64_enc :: "bytes \<Rightarrow> str"
  b64_dec :: "str \<Rightarrow> bytes option"

definition b64_char :: "byte \<Rightarrow> bool" where
  "b64_char b \<longleftrightarrow> 0x41 \<le> b \<and> b \<le> 0x5A \<or> 0x61 \<le> b \<and> b \<le> 0x7A \<or> 0x30 \<le> b \<and> b \<le> 0x39 \<or> b = 0x2B \<or> b = 0x2F \<or> b = 0x3D"

definition b64_laws :: "b64_api \<Rightarrow> bool" where
  "b64_laws B \<longleftrightarrow> (\<forall>x. b64_dec B (b64_enc B x) = Some x \<and> list_all b64_char (b64_enc B x))"

definition NL :: byte where
  "NL = 0x0A"

text \<open>\<open>rfind("\n\n")\<close>, \<open>split_terminator('\n')\<close>, \<open>strip_prefix\<close> and \<open>split_once\<close>.\<close>

fun rfind_blank :: "str \<Rightarrow> nat option" where
  "rfind_blank (a # b # r) =
     (case rfind_blank (b # r) of
        Some i \<Rightarrow> Some (i + 1)
      | None \<Rightarrow> if a = NL \<and> b = NL then Some 0 else None)"
| "rfind_blank s = None"

primrec split_lines :: "str \<Rightarrow> str list" where
  "split_lines [] = [[]]"
| "split_lines (a # r) =
     (if a = NL then [] # split_lines r else (a # hd (split_lines r)) # tl (split_lines r))"

definition split_terminator :: "str \<Rightarrow> str list" where
  "split_terminator s = (let ps = split_lines s in if last ps = [] then butlast ps else ps)"

definition strip_prefix :: "str \<Rightarrow> str \<Rightarrow> str option" where
  "strip_prefix p s = (if take (length p) s = p then Some (drop (length p) s) else None)"

definition split_once :: "byte \<Rightarrow> str \<Rightarrow> (str \<times> str) option" where
  "split_once c s =
     (if c \<in> set s then Some (takeWhile (\<lambda>b. b \<noteq> c) s, tl (dropWhile (\<lambda>b. b \<noteq> c) s)) else None)"

text \<open>\<open>c.is_control() && c != '\n'\<close> for some character of a UTF-8 string.\<close>

fun note_control :: "str \<Rightarrow> bool" where
  "note_control [] = False"
| "note_control (a # r) =
     (a < 0x20 \<and> a \<noteq> NL \<or> a = 0x7F
      \<or> (a = 0xC2 \<and> (case r of [] \<Rightarrow> False | b # _ \<Rightarrow> 0x80 \<le> b \<and> b \<le> 0x9F))
      \<or> note_control r)"

text \<open>\<open>to_string\<close> and \<open>parse\<close> of a \<open>u64\<close>; \<open>parse\<close> allows a leading plus sign and leading zeros.\<close>

fun digits :: "nat \<Rightarrow> str" where
  "digits n = (if n < 10 then [0x30 + of_nat n] else digits (n div 10) @ [0x30 + of_nat (n mod 10)])"

declare digits.simps [simp del]

definition digits_value :: "str \<Rightarrow> nat" where
  "digits_value ds = foldl (\<lambda>v d. v * 10 + unat (d - 0x30)) 0 ds"

definition parse_u64 :: "str \<Rightarrow> u64 option" where
  "parse_u64 s =
     (let ds = (case s of [] \<Rightarrow> [] | c # r \<Rightarrow> if c = 0x2B then r else s)
      in if ds = [] \<or> \<not> list_all (\<lambda>d. 0x30 \<le> d \<and> d \<le> 0x39) ds then None
         else if digits_value ds < 2 ^ 64 then Some (of_nat (digits_value ds)) else None)"

section \<open>Definitions\<close>

definition CHECKPOINT_CONTEXT :: bytes where
  "CHECKPOINT_CONTEXT = ascii ''HIDE/1.0 checkpoint''"

definition SIGNATURE_TYPE :: bytes where
  "SIGNATURE_TYPE = 0xFF # ascii ''HIDE/1.0 hide-sign''"

definition MAX_ORIGIN_BYTES :: nat where
  "MAX_ORIGIN_BYTES = 256"

definition MAX_NOTE_SIGNATURES :: nat where
  "MAX_NOTE_SIGNATURES = 32"

definition MAX_NOTE_BYTES :: nat where
  "MAX_NOTE_BYTES = 196608"

definition DASH :: str where
  "DASH = [0xE2, 0x80, 0x94, 0x20]"

record NoteSignature =
  ns_name :: str
  ns_key_id :: bytes
  ns_signature :: bytes

record SignedNote =
  sn_text :: str
  sn_signatures :: "NoteSignature list"

definition key_id :: "(bytes \<Rightarrow> bytes) \<Rightarrow> str \<Rightarrow> VerifyingIdentity \<Rightarrow> bytes" where
  "key_id H name k = take 4 (H (name @ [0x0A] @ SIGNATURE_TYPE @ vi_to_bytes k))"

definition valid_name :: "str \<Rightarrow> bool" where
  "valid_name name \<longleftrightarrow> name \<noteq> [] \<and> length name \<le> MAX_ORIGIN_BYTES
     \<and> list_all (\<lambda>b. 0x21 \<le> b \<and> b \<le> 0x7E \<and> b \<noteq> 0x2B) name"

definition signature_line :: "b64_api \<Rightarrow> NoteSignature \<Rightarrow> str" where
  "signature_line B s = DASH @ ns_name s @ [0x20] @ b64_enc B (ns_key_id s @ ns_signature s)"

definition note_encode :: "b64_api \<Rightarrow> SignedNote \<Rightarrow> str" where
  "note_encode B n = sn_text n @ [NL] @ concat (map (\<lambda>s. signature_line B s @ [NL]) (sn_signatures n))"

definition parse_line :: "b64_api \<Rightarrow> str \<Rightarrow> log_error + NoteSignature" where
  "parse_line B line =
     bindR (ok_or (strip_prefix DASH line) LMalformed) (\<lambda>rest.
     bindR (ok_or (split_once 0x20 rest) LMalformed) (\<lambda>(name, encoded).
     if \<not> valid_name name then Inl LMalformed
     else
     bindR (ok_or (b64_dec B encoded) LMalformed) (\<lambda>raw.
     if length raw < 5 then Inl LMalformed
     else Inr \<lparr>ns_name = name, ns_key_id = take 4 raw, ns_signature = drop 4 raw\<rparr>)))"

primrec parse_lines :: "b64_api \<Rightarrow> nat \<Rightarrow> str list \<Rightarrow> log_error + NoteSignature list" where
  "parse_lines B n [] = Inr []"
| "parse_lines B n (line # lines) =
     (if n = MAX_NOTE_SIGNATURES then Inl LMalformed
      else
        bindR (parse_line B line) (\<lambda>s.
        bindR (parse_lines B (n + 1) lines) (\<lambda>ss. Inr (s # ss))))"

definition note_decode :: "b64_api \<Rightarrow> bytes \<Rightarrow> log_error + SignedNote" where
  "note_decode B bs =
     (if MAX_NOTE_BYTES < length bs then Inl LMalformed
      else if \<not> utf8_valid bs then Inl LMalformed
      else if note_control bs \<or> bs = [] \<or> last bs \<noteq> NL then Inl LMalformed
      else
        bindR (ok_or (rfind_blank bs) LMalformed) (\<lambda>split.
        let text = take (split + 1) bs; block = drop (split + 2) bs in
        bindR (parse_lines B 0 (split_terminator block)) (\<lambda>signatures.
        if signatures = [] then Inl LMalformed
        else
          let parsed = \<lparr>sn_text = text, sn_signatures = signatures\<rparr>
          in if note_encode B parsed \<noteq> bs then Inl LMalformed else Inr parsed)))"

primrec signed_by_loop ::
  "sig_api \<Rightarrow> str \<Rightarrow> VerifyingIdentity \<Rightarrow> bool \<Rightarrow> NoteSignature list \<Rightarrow> log_error + bool" where
  "signed_by_loop P text k found [] = Inr found"
| "signed_by_loop P text k found (line # lines) =
     (if length (ns_signature line) \<noteq> SIGNATURE_LENGTH
         \<or> \<not> is_ok (verify P k CHECKPOINT_CONTEXT text (ns_signature line))
      then Inl LBadSignature
      else signed_by_loop P text k True lines)"

definition signed_by ::
  "(bytes \<Rightarrow> bytes) \<Rightarrow> sig_api \<Rightarrow> SignedNote \<Rightarrow> str \<Rightarrow> VerifyingIdentity \<Rightarrow> log_error + bool" where
  "signed_by H P n name k =
     (let kid = key_id H name k
      in signed_by_loop P (sn_text n) k False
           (filter (\<lambda>s. ns_name s = name \<and> ns_key_id s = kid) (sn_signatures n)))"

record Checkpoint =
  ck_origin :: str
  ck_size :: u64
  ck_root :: bytes

definition ck_text :: "b64_api \<Rightarrow> Checkpoint \<Rightarrow> log_error + str" where
  "ck_text B c =
     (if \<not> valid_name (ck_origin c) then Inl LMalformed
      else Inr (ck_origin c @ [NL] @ digits (unat (ck_size c)) @ [NL] @ b64_enc B (ck_root c) @ [NL]))"

definition parse_text :: "b64_api \<Rightarrow> str \<Rightarrow> log_error + Checkpoint" where
  "parse_text B text =
     (case split_terminator text of
        [origin, sz, root] \<Rightarrow>
          if \<not> valid_name origin then Inl LMalformed
          else
            bindR (ok_or (parse_u64 sz) LMalformed) (\<lambda>sz.
            bindR (ok_or (b64_dec B root) LMalformed) (\<lambda>root.
            if length root \<noteq> 32 then Inl LMalformed
            else
              let checkpoint = \<lparr>ck_origin = origin, ck_size = sz, ck_root = root\<rparr> in
              bindR (ck_text B checkpoint) (\<lambda>t.
                if t \<noteq> text then Inl LMalformed else Inr checkpoint)))
      | _ \<Rightarrow> Inl LMalformed)"

definition ck_sign ::
  "(bytes \<Rightarrow> bytes) \<Rightarrow> sig_api \<Rightarrow> b64_api \<Rightarrow> Checkpoint \<Rightarrow> SigningIdentity \<Rightarrow> log_error + SignedNote" where
  "ck_sign H P B c log =
     bindR (ck_text B c) (\<lambda>text.
       Inr \<lparr>sn_text = text,
            sn_signatures = [\<lparr>ns_name = ck_origin c, ns_key_id = key_id H (ck_origin c) (verifying_key P log),
                              ns_signature = sign P log CHECKPOINT_CONTEXT text\<rparr>]\<rparr>)"

definition cosign ::
  "(bytes \<Rightarrow> bytes) \<Rightarrow> sig_api \<Rightarrow> SignedNote \<Rightarrow> str \<Rightarrow> SigningIdentity \<Rightarrow> log_error + SignedNote" where
  "cosign H P n name witness =
     (if \<not> valid_name name \<or> MAX_NOTE_SIGNATURES \<le> length (sn_signatures n) then Inl LMalformed
      else Inr (n\<lparr>sn_signatures := sn_signatures n
                    @ [\<lparr>ns_name = name, ns_key_id = key_id H name (verifying_key P witness),
                        ns_signature = sign P witness CHECKPOINT_CONTEXT (sn_text n)\<rparr>]\<rparr>))"

primrec witness_loop ::
  "(bytes \<Rightarrow> bytes) \<Rightarrow> sig_api \<Rightarrow> SignedNote \<Rightarrow> (str \<times> bytes) list \<Rightarrow> nat \<Rightarrow> (str \<times> VerifyingIdentity) list
     \<Rightarrow> log_error + nat" where
  "witness_loop H P n counted cosigned [] = Inr cosigned"
| "witness_loop H P n counted cosigned (w # ws) =
     (let (name, k) = w; kid = key_id H name k in
      if list_ex (\<lambda>(m, i). m = name \<or> i = kid) counted then witness_loop H P n counted cosigned ws
      else
        bindR (signed_by H P n name k) (\<lambda>found.
          if found then witness_loop H P n (counted @ [(name, kid)]) (cosigned + 1) ws
          else witness_loop H P n counted cosigned ws))"

definition verify_witnessed ::
  "(bytes \<Rightarrow> bytes) \<Rightarrow> sig_api \<Rightarrow> b64_api \<Rightarrow> bytes \<Rightarrow> str \<Rightarrow> VerifyingIdentity \<Rightarrow> (str \<times> VerifyingIdentity) list \<Rightarrow> nat
     \<Rightarrow> log_error + Checkpoint" where
  "verify_witnessed H P B note origin log witnesses threshold =
     bindR (note_decode B note) (\<lambda>parsed.
     bindR (parse_text B (sn_text parsed)) (\<lambda>checkpoint.
     if ck_origin checkpoint \<noteq> origin then Inl (WrongOrigin (ck_origin checkpoint))
     else
     bindR (signed_by H P parsed origin log) (\<lambda>found.
     if \<not> found then Inl Unsigned
     else
     bindR (witness_loop H P parsed [(origin, key_id H origin log)] 0 witnesses) (\<lambda>cosigned.
     if cosigned < threshold then Inl Unsigned else Inr checkpoint))))"

definition ck_verify ::
  "(bytes \<Rightarrow> bytes) \<Rightarrow> sig_api \<Rightarrow> b64_api \<Rightarrow> bytes \<Rightarrow> str \<Rightarrow> VerifyingIdentity \<Rightarrow> log_error + Checkpoint" where
  "ck_verify H P B note origin log = verify_witnessed H P B note origin log [] 0"

section \<open>Text lemmas\<close>

lemma split_lines_ne [simp]: "split_lines s \<noteq> []"
  by (cases s) auto

lemma split_lines_line: "NL \<notin> set b \<Longrightarrow> split_lines (b @ NL # r) = b # split_lines r"
  by (induction b) auto

lemma split_lines_lines:
  "\<forall>b\<in>set bs. NL \<notin> set b \<Longrightarrow> split_lines (concat (map (\<lambda>b. b @ [NL]) bs)) = bs @ [[]]"
  by (induction bs) (auto simp: split_lines_line)

lemma split_terminator_lines:
  "\<forall>b\<in>set bs. NL \<notin> set b \<Longrightarrow> split_terminator (concat (map (\<lambda>b. b @ [NL]) bs)) = bs"
  by (simp add: split_terminator_def split_lines_lines Let_def)

lemma rfind_blank_Cons: "rfind_blank s = Some i \<Longrightarrow> rfind_blank (a # s) = Some (Suc i)"
  by (cases s) auto

lemma rfind_blank_append: "rfind_blank s = Some i \<Longrightarrow> rfind_blank (t @ s) = Some (length t + i)"
  by (induction t) (auto intro: rfind_blank_Cons)

lemma rfind_blank_body:
  "b \<noteq> [] \<Longrightarrow> NL \<notin> set b \<Longrightarrow> rfind_blank (NL # r) = None \<Longrightarrow> rfind_blank (a # b @ NL # r) = None"
proof (induction b arbitrary: a)
  case (Cons x b)
  then show ?case by (cases b) auto
qed simp

lemma rfind_blank_lines:
  "\<forall>b\<in>set bs. b \<noteq> [] \<and> NL \<notin> set b \<Longrightarrow> rfind_blank (NL # concat (map (\<lambda>b. b @ [NL]) bs)) = None"
  by (induction bs) (simp_all add: rfind_blank_body)

lemma rfind_blank_note:
  assumes "\<forall>b\<in>set bs. b \<noteq> [] \<and> NL \<notin> set b"
  shows "rfind_blank (t @ NL # NL # concat (map (\<lambda>b. b @ [NL]) bs)) = Some (length t)"
proof -
  have "rfind_blank (NL # NL # concat (map (\<lambda>b. b @ [NL]) bs)) = Some 0"
    using rfind_blank_lines [OF assms] by simp
  from rfind_blank_append [OF this] show ?thesis by simp
qed

lemma rfind_blank_pos: "rfind_blank s = Some i \<Longrightarrow> Suc i < length s \<and> s ! i = NL"
  by (induction s arbitrary: i rule: rfind_blank.induct) (auto split: option.splits if_splits)

lemma b64_lawsD:
  assumes "b64_laws B"
  shows "b64_dec B (b64_enc B x) = Some x" "\<forall>b\<in>set (b64_enc B x). b64_char b"
  using assms by (simp_all add: b64_laws_def list_all_iff)

lemma b64_no_NL: "b64_laws B \<Longrightarrow> NL \<notin> set (b64_enc B x)"
  using b64_lawsD(2) by (fastforce simp: b64_char_def NL_def)

lemma b64_enc_inj: "b64_laws B \<Longrightarrow> b64_enc B x = b64_enc B y \<longleftrightarrow> x = y"
  by (metis b64_lawsD(1) option.inject)

lemma valid_nameD: "valid_name n \<Longrightarrow> n \<noteq> [] \<and> 0x20 \<notin> set n \<and> NL \<notin> set n"
  by (force simp: valid_name_def list_all_iff NL_def)

definition line_wf :: "NoteSignature \<Rightarrow> bool" where
  "line_wf s \<longleftrightarrow> valid_name (ns_name s) \<and> length (ns_key_id s) = 4 \<and> ns_signature s \<noteq> []"

lemma signature_line_clean: "b64_laws B \<Longrightarrow> line_wf s \<Longrightarrow> signature_line B s \<noteq> [] \<and> NL \<notin> set (signature_line B s)"
  using b64_no_NL valid_nameD by (auto simp: signature_line_def line_wf_def DASH_def NL_def)

lemma split_once_append:
  assumes "c \<notin> set a"
  shows "split_once c (a @ c # b) = Some (a, b)"
proof -
  have "takeWhile (\<lambda>x. x \<noteq> c) (a @ c # b) = a" "dropWhile (\<lambda>x. x \<noteq> c) (a @ c # b) = c # b"
    using assms by (induction a) auto
  then show ?thesis by (simp add: split_once_def)
qed

lemma parse_line_signature:
  assumes "b64_laws B" "line_wf s"
  shows "parse_line B (signature_line B s) = Inr s"
proof -
  have n: "valid_name (ns_name s)" "length (ns_key_id s) = 4" "ns_signature s \<noteq> []" using assms(2) by (simp_all add: line_wf_def)
  have "strip_prefix DASH (signature_line B s) = Some (ns_name s @ 0x20 # b64_enc B (ns_key_id s @ ns_signature s))"
    by (simp add: strip_prefix_def signature_line_def)
  moreover have "split_once 0x20 (ns_name s @ 0x20 # b64_enc B (ns_key_id s @ ns_signature s))
      = Some (ns_name s, b64_enc B (ns_key_id s @ ns_signature s))"
    using valid_nameD [OF n(1)] by (simp add: split_once_append)
  moreover have "\<not> length (ns_key_id s @ ns_signature s) < 5" using n(2,3) by (cases "ns_signature s") auto
  ultimately show ?thesis using n b64_lawsD(1) [OF assms(1)] by (simp add: parse_line_def)
qed

lemma parse_line_wf: "parse_line B l = Inr s \<Longrightarrow> line_wf s"
  by (auto simp: parse_line_def line_wf_def result_simps split: if_splits prod.splits)

lemma parse_lines_signature:
  assumes "b64_laws B" "\<forall>s\<in>set ss. line_wf s" "n + length ss \<le> MAX_NOTE_SIGNATURES"
  shows "parse_lines B n (map (signature_line B) ss) = Inr ss"
  using assms(2,3) by (induction ss arbitrary: n) (simp_all add: parse_line_signature [OF assms(1)])

lemma parse_lines_wf:
  "parse_lines B n ls = Inr ss \<Longrightarrow> n \<le> MAX_NOTE_SIGNATURES \<Longrightarrow> (\<forall>s\<in>set ss. line_wf s) \<and> n + length ss \<le> MAX_NOTE_SIGNATURES"
proof (induction ls arbitrary: n ss)
  case (Cons l ls)
  then obtain s ss' where s: "n \<noteq> MAX_NOTE_SIGNATURES" "parse_line B l = Inr s" "parse_lines B (n + 1) ls = Inr ss'" "ss = s # ss'"
    by (auto simp: result_simps split: if_splits)
  then show ?case using Cons.IH [OF s(3)] Cons.prems(2) parse_line_wf [OF s(2)] by simp
qed simp

text \<open>A note that a writer may publish: text that ends a line, one to 32 well-formed lines, and the whole
  within the size limit, UTF-8 and free of control characters.\<close>

definition note_wf :: "b64_api \<Rightarrow> SignedNote \<Rightarrow> bool" where
  "note_wf B n \<longleftrightarrow> sn_text n \<noteq> [] \<and> last (sn_text n) = NL \<and> sn_signatures n \<noteq> []
     \<and> length (sn_signatures n) \<le> MAX_NOTE_SIGNATURES \<and> (\<forall>s\<in>set (sn_signatures n). line_wf s)
     \<and> length (note_encode B n) \<le> MAX_NOTE_BYTES \<and> utf8_valid (note_encode B n) \<and> \<not> note_control (note_encode B n)"

lemma note_decode_encode:
  assumes "b64_laws B" "note_wf B n"
  shows "note_decode B (note_encode B n) = Inr n"
proof -
  obtain t where t: "sn_text n = t @ [NL]" using assms(2) by (metis append_butlast_last_id note_wf_def)
  let ?ls = "map (signature_line B) (sn_signatures n)"
  have e: "note_encode B n = t @ NL # NL # concat (map (\<lambda>b. b @ [NL]) ?ls)" by (simp add: note_encode_def t comp_def)
  have clean: "\<forall>b\<in>set ?ls. b \<noteq> [] \<and> NL \<notin> set b"
    using signature_line_clean [OF assms(1)] assms(2) by (auto simp: note_wf_def)
  have last: "last (note_encode B n) = NL"
    using assms(2) by (cases "sn_signatures n" rule: rev_cases) (auto simp: e note_wf_def)
  have "rfind_blank (note_encode B n) = Some (length t)" unfolding e by (rule rfind_blank_note [OF clean])
  moreover have "take (length t + 1) (note_encode B n) = sn_text n"
    "drop (length t + 2) (note_encode B n) = concat (map (\<lambda>b. b @ [NL]) ?ls)"
    by (simp_all add: e t)
  moreover have "split_terminator (concat (map (\<lambda>b. b @ [NL]) ?ls)) = ?ls"
    by (rule split_terminator_lines) (use clean in blast)
  moreover have "parse_lines B 0 ?ls = Inr (sn_signatures n)"
    using parse_lines_signature [OF assms(1)] assms(2) by (simp add: note_wf_def)
  ultimately show ?thesis
    using assms(2) last e by (cases n) (simp add: note_decode_def note_wf_def Let_def)
qed

lemma note_encode_decode:
  assumes "note_decode B bs = Inr n"
  shows "note_wf B n \<and> note_encode B n = bs"
proof -
  obtain i ss where d: "length bs \<le> MAX_NOTE_BYTES" "utf8_valid bs" "\<not> note_control bs" "rfind_blank bs = Some i"
      "parse_lines B 0 (split_terminator (drop (i + 2) bs)) = Inr ss" "ss \<noteq> []"
      "n = \<lparr>sn_text = take (i + 1) bs, sn_signatures = ss\<rparr>" "note_encode B n = bs"
    using assms by (auto simp: note_decode_def Let_def result_simps split: if_splits)
  have "Suc i < length bs" "bs ! i = NL" using rfind_blank_pos [OF d(4)] by auto
  then have "take (i + 1) bs \<noteq> []" "last (take (i + 1) bs) = NL" by (auto simp: take_Suc_conv_app_nth)
  with d parse_lines_wf [OF d(5)] show ?thesis by (simp add: note_wf_def)
qed

interpretation sn: canonical_codec b64_laws note_wf note_encode note_decode
  by unfold_locales (use note_decode_encode note_encode_decode in blast)+

section \<open>Numbers\<close>

lemma digits_ne: "digits n \<noteq> []"
  by (subst digits.simps) simp

lemma digit_byte: "m < 10 \<Longrightarrow> unat ((0x30 + of_nat m :: byte) - 0x30) = m \<and> 0x30 \<le> (0x30 + of_nat m :: byte) \<and> (0x30 + of_nat m :: byte) \<le> 0x39"
  by (simp add: word_le_nat_alt unat_word_ariths unat_of_nat)

lemma digits_all: "\<forall>d\<in>set (digits n). 0x30 \<le> d \<and> d \<le> 0x39"
proof (induction n rule: digits.induct)
  case (1 n)
  show ?case
  proof (cases "n < 10")
    case True
    then show ?thesis using digit_byte [OF True] by (subst digits.simps) simp
  next
    case False
    then show ?thesis using 1 [OF False] digit_byte [of "n mod 10"] by (subst digits.simps) simp
  qed
qed

lemma digits_value_digits: "digits_value (digits n) = n"
proof (induction n rule: digits.induct)
  case (1 n)
  show ?case
  proof (cases "n < 10")
    case True
    then show ?thesis using digit_byte [OF True] by (subst digits.simps) (simp add: digits_value_def)
  next
    case False
    then have "digits_value (digits n) = digits_value (digits (n div 10)) * 10 + n mod 10"
      using digit_byte [of "n mod 10"] by (subst digits.simps) (simp add: digits_value_def)
    then show ?thesis using 1 [OF False] by simp
  qed
qed

lemma parse_u64_digits: "parse_u64 (digits (unat (w :: u64))) = Some w"
proof -
  obtain c r where c: "digits (unat w) = c # r" using digits_ne by (metis list.exhaust)
  have "c \<noteq> 0x2B" using digits_all [of "unat w"] by (auto simp: c)
  moreover have "unat w < 2 ^ 64" using unsigned_less [of w, where ?'a = nat] by simp
  ultimately show ?thesis
    using digits_all [of "unat w"] digits_value_digits [of "unat w"]
    by (simp add: parse_u64_def c list_all_iff)
qed

lemma digits_no_NL: "NL \<notin> set (digits n)"
  using digits_all [of n] by (fastforce simp: NL_def)

section \<open>Checkpoints\<close>

definition ck_ty :: "Checkpoint \<Rightarrow> bool" where
  "ck_ty c \<longleftrightarrow> length (ck_root c) = 32"

lemma ck_text_lines:
  assumes "b64_laws B" "ck_text B c = Inr t"
  shows "split_terminator t = [ck_origin c, digits (unat (ck_size c)), b64_enc B (ck_root c)] \<and> valid_name (ck_origin c)"
proof -
  have v: "valid_name (ck_origin c)" and t: "t = concat (map (\<lambda>b. b @ [NL]) [ck_origin c, digits (unat (ck_size c)), b64_enc B (ck_root c)])"
    using assms(2) by (auto simp: ck_text_def split: if_splits)
  have "split_terminator t = [ck_origin c, digits (unat (ck_size c)), b64_enc B (ck_root c)]"
    unfolding t by (rule split_terminator_lines)
      (use valid_nameD [OF v] digits_no_NL b64_no_NL [OF assms(1)] in simp)
  with v show ?thesis by blast
qed

interpretation ck: checked_codec b64_laws ck_ty ck_text parse_text
proof
  fix B c t assume a: "b64_laws B" "ck_ty c" "ck_text B c = Inr t"
  then show "parse_text B t = Inr c"
    using ck_text_lines [OF a(1,3)] b64_lawsD(1) [OF a(1)]
    by (cases c) (simp add: parse_text_def parse_u64_digits ck_ty_def Let_def)
next
  fix B c t assume "b64_laws B" "parse_text B t = Inr c"
  then show "ck_ty c \<and> ck_text B c = Inr t"
    by (auto simp: parse_text_def ck_ty_def Let_def result_simps split: list.splits if_splits)
qed

section \<open>Signatures and witnesses\<close>

definition signed_line :: "(bytes \<Rightarrow> bytes) \<Rightarrow> sig_api \<Rightarrow> SignedNote \<Rightarrow> str \<Rightarrow> VerifyingIdentity \<Rightarrow> bool" where
  "signed_line H P n name k \<longleftrightarrow> (\<exists>l\<in>set (sn_signatures n). ns_name l = name \<and> ns_key_id l = key_id H name k
     \<and> verify P k CHECKPOINT_CONTEXT (sn_text n) (ns_signature l) = Inr ())"

lemma signed_by_loop_Inr:
  "signed_by_loop P t k f ls = Inr b \<Longrightarrow>
     (b \<longleftrightarrow> f \<or> ls \<noteq> []) \<and> (\<forall>l\<in>set ls. verify P k CHECKPOINT_CONTEXT t (ns_signature l) = Inr ())"
  by (induction ls arbitrary: f) (auto simp: is_ok_iff split: if_splits)

lemma signed_by_loop_ok:
  "\<forall>l\<in>set ls. length (ns_signature l) = SIGNATURE_LENGTH \<and> verify P k CHECKPOINT_CONTEXT t (ns_signature l) = Inr () \<Longrightarrow>
     signed_by_loop P t k f ls = Inr (f \<or> ls \<noteq> [])"
  by (induction ls arbitrary: f) auto

lemma signed_by_True: "signed_by H P n name k = Inr True \<Longrightarrow> signed_line H P n name k"
  unfolding signed_by_def Let_def
  by (drule signed_by_loop_Inr) (auto simp: signed_line_def filter_empty_conv)

lemma witness_loop_counts:
  assumes "witness_loop H P n counted c ws = Inr m"
  shows "\<exists>us. m = c + length us \<and> set us \<subseteq> set ws \<and> distinct (map fst us) \<and> distinct (map (\<lambda>(nm, k). key_id H nm k) us) \<and>
    (\<forall>(nm, k)\<in>set us. signed_line H P n nm k \<and> nm \<notin> fst ` set counted \<and> key_id H nm k \<notin> snd ` set counted)"
  using assms
proof (induction ws arbitrary: counted c)
  case Nil
  then show ?case by (intro exI [of _ "[]"]) simp
next
  case (Cons w ws)
  obtain nm k where w: "w = (nm, k)" by (cases w)
  have cnt: "list_ex (\<lambda>(m, i). m = nm \<or> i = key_id H nm k) counted \<longleftrightarrow> nm \<in> fst ` set counted \<or> key_id H nm k \<in> snd ` set counted"
    by (force simp: list_ex_iff)
  consider (skip) "witness_loop H P n counted c ws = Inr m"
    | (count) "witness_loop H P n (counted @ [(nm, key_id H nm k)]) (c + 1) ws = Inr m" "signed_by H P n nm k = Inr True"
        "nm \<notin> fst ` set counted" "key_id H nm k \<notin> snd ` set counted"
    using Cons.prems by (auto simp: w Let_def cnt result_simps split: if_splits)
  then show ?case
  proof cases
    case skip
    then obtain us where "m = c + length us \<and> set us \<subseteq> set ws \<and> distinct (map fst us) \<and> distinct (map (\<lambda>(nm, k). key_id H nm k) us) \<and>
        (\<forall>(nm, k)\<in>set us. signed_line H P n nm k \<and> nm \<notin> fst ` set counted \<and> key_id H nm k \<notin> snd ` set counted)"
      using Cons.IH by blast
    then show ?thesis by (intro exI [of _ us]) auto
  next
    case count
    then obtain us where us: "m = c + 1 + length us" "set us \<subseteq> set ws" "distinct (map fst us)" "distinct (map (\<lambda>(nm, k). key_id H nm k) us)"
        "\<forall>(x, y)\<in>set us. signed_line H P n x y \<and> x \<notin> fst ` set (counted @ [(nm, key_id H nm k)])
          \<and> key_id H x y \<notin> snd ` set (counted @ [(nm, key_id H nm k)])"
      using Cons.IH [OF count(1)] by blast
    have "nm \<notin> fst ` set us" "key_id H nm k \<notin> (\<lambda>(x, y). key_id H x y) ` set us" using us(5) by auto
    then show ?thesis
      using us count(3,4) signed_by_True [OF count(2)] by (intro exI [of _ "(nm, k) # us"]) (auto simp: w)
  qed
qed

lemma verify_witnessedE:
  assumes "verify_witnessed H P B note origin log W t = Inr c"
  obtains n us where "note_decode B note = Inr n" "parse_text B (sn_text n) = Inr c" "ck_origin c = origin"
    "signed_line H P n origin log" "t \<le> length us" "set us \<subseteq> set W" "distinct (map fst us)"
    "distinct (map (\<lambda>(nm, k). key_id H nm k) us)"
    "\<forall>(nm, k)\<in>set us. signed_line H P n nm k \<and> nm \<noteq> origin \<and> key_id H nm k \<noteq> key_id H origin log"
proof -
  obtain n m where n: "note_decode B note = Inr n" "parse_text B (sn_text n) = Inr c" "ck_origin c = origin"
      "signed_by H P n origin log = Inr True" "witness_loop H P n [(origin, key_id H origin log)] 0 W = Inr m" "t \<le> m"
    using assms unfolding verify_witnessed_def by (elim result_steps) auto
  from witness_loop_counts [OF n(5)] obtain us where "m = length us" "set us \<subseteq> set W" "distinct (map fst us)"
      "distinct (map (\<lambda>(nm, k). key_id H nm k) us)"
      "\<forall>(nm, k)\<in>set us. signed_line H P n nm k \<and> nm \<noteq> origin \<and> key_id H nm k \<noteq> key_id H origin log"
    by auto
  with n signed_by_True [OF n(4)] that show ?thesis by blast
qed

lemma signed_by_single:
  assumes "sig_laws P" "\<forall>l\<in>set ls. ns_name l = nm \<and> ns_key_id l = key_id H nm (verifying_key P w) \<longrightarrow>
      ns_signature l = sign P w CHECKPOINT_CONTEXT t"
    and "\<exists>l\<in>set ls. ns_name l = nm \<and> ns_key_id l = key_id H nm (verifying_key P w)"
  shows "signed_by H P \<lparr>sn_text = t, sn_signatures = ls\<rparr> nm (verifying_key P w) = Inr True"
proof -
  let ?ls = "filter (\<lambda>s. ns_name s = nm \<and> ns_key_id s = key_id H nm (verifying_key P w)) ls"
  have "signed_by_loop P t (verifying_key P w) False ?ls = Inr (False \<or> ?ls \<noteq> [])"
    by (rule signed_by_loop_ok) (use assms(2) hs.check_make [OF assms(1)] length_sign [OF assms(1)] in auto)
  moreover have "?ls \<noteq> []" using assms(3) by (auto simp: filter_empty_conv)
  ultimately show ?thesis by (simp add: signed_by_def)
qed

section \<open>Publishing a checkpoint\<close>

definition plain :: "str \<Rightarrow> bool" where
  "plain s \<longleftrightarrow> (\<forall>b\<in>set s. b = NL \<or> 0x20 \<le> b \<and> b \<le> 0x7E)"

lemma plain_NL [simp]: "plain [NL]"
  by (simp add: plain_def)

lemma plain_Nil [simp]: "plain []"
  by (simp add: plain_def)

lemma plain_Cons [simp]: "plain (NL # s) = plain s"
  by (simp add: plain_def)

lemma plain_append [simp]: "plain (a @ b) \<longleftrightarrow> plain a \<and> plain b"
  by (auto simp: plain_def)

lemma plain_byte: "b = NL \<or> 0x20 \<le> b \<and> b \<le> 0x7E \<Longrightarrow> b < 0x80 \<and> \<not> (b < 0x20 \<and> b \<noteq> NL \<or> b = 0x7F) \<and> b \<noteq> 0xC2"
  by (auto simp: word_le_nat_alt word_less_nat_alt NL_def dest: arg_cong [where f = unat])

lemma plain_clean: "plain s \<Longrightarrow> utf8_valid (s @ r) = utf8_valid r \<and> note_control (s @ r) = note_control r"
proof (induction s)
  case (Cons b s)
  then have "b < 0x80 \<and> \<not> (b < 0x20 \<and> b \<noteq> NL \<or> b = 0x7F) \<and> b \<noteq> 0xC2" using plain_byte by (simp add: plain_def)
  with Cons show ?case by (auto simp: plain_def)
qed simp

lemma dash_clean: "utf8_valid (DASH @ r) = utf8_valid r \<and> note_control (DASH @ r) = note_control r"
  by (simp add: DASH_def utf8_two_def utf8_three_def utf8_cont_def NL_def)

lemma plain_b64: "b64_laws B \<Longrightarrow> plain (b64_enc B x)"
  using b64_lawsD(2) [of B x] by (fastforce simp: plain_def b64_char_def word_le_nat_alt dest: arg_cong [where f = unat])

lemma plain_name: "valid_name n \<Longrightarrow> plain n"
  by (fastforce simp: plain_def valid_name_def list_all_iff word_le_nat_alt)

lemma plain_digits: "plain (digits n)"
  using digits_all [of n] by (fastforce simp: plain_def word_le_nat_alt)

lemma plain_ck_text: "b64_laws B \<Longrightarrow> ck_text B c = Inr t \<Longrightarrow> plain t \<and> t \<noteq> [] \<and> last t = NL"
  using plain_name plain_digits plain_b64 by (auto simp: ck_text_def split: if_splits)

lemma lines_clean:
  assumes "b64_laws B" "\<forall>s\<in>set ss. line_wf s"
  shows "utf8_valid (concat (map (\<lambda>s. signature_line B s @ [NL]) ss)) \<and> \<not> note_control (concat (map (\<lambda>s. signature_line B s @ [NL]) ss))"
  using assms(2)
proof (induction ss)
  case (Cons s ss)
  let ?p = "ns_name s @ [0x20] @ b64_enc B (ns_key_id s @ ns_signature s) @ [NL]"
  have "plain ?p" using plain_name plain_b64 [OF assms(1)] Cons.prems by (simp add: line_wf_def) (simp add: plain_def)
  then show ?case using Cons plain_clean [of ?p] dash_clean by (simp add: signature_line_def)
qed simp

lemma note_wfI:
  assumes "b64_laws B" "plain t" "t \<noteq> []" "last t = NL" "ss \<noteq> []" "length ss \<le> MAX_NOTE_SIGNATURES" "\<forall>s\<in>set ss. line_wf s"
    and "length (note_encode B \<lparr>sn_text = t, sn_signatures = ss\<rparr>) \<le> MAX_NOTE_BYTES"
  shows "note_wf B \<lparr>sn_text = t, sn_signatures = ss\<rparr>"
proof -
  have "plain (t @ [NL])" using assms(2) by (simp add: plain_def)
  from plain_clean [OF this] lines_clean [OF assms(1,7)] assms show ?thesis by (simp add: note_wf_def note_encode_def)
qed

lemma published_accepted:
  assumes "sig_laws P" "b64_laws B" "\<forall>x. length (H x) = 32" "length (ck_root c) = 32"
    and "ck_sign H P B c log = Inr n" "cosign H P n name w = Inr n'"
    and "name \<noteq> ck_origin c" "key_id H name (verifying_key P w) \<noteq> key_id H (ck_origin c) (verifying_key P log)"
    and "length (note_encode B n') \<le> MAX_NOTE_BYTES"
  shows "verify_witnessed H P B (note_encode B n') (ck_origin c) (verifying_key P log) [(name, verifying_key P w)] 1 = Inr c"
proof -
  obtain t where t: "ck_text B c = Inr t" using assms(5) by (auto simp: ck_sign_def result_simps)
  let ?l = "\<lparr>ns_name = ck_origin c, ns_key_id = key_id H (ck_origin c) (verifying_key P log),
    ns_signature = sign P log CHECKPOINT_CONTEXT t\<rparr>"
  let ?w = "\<lparr>ns_name = name, ns_key_id = key_id H name (verifying_key P w), ns_signature = sign P w CHECKPOINT_CONTEXT t\<rparr>"
  have n': "n' = \<lparr>sn_text = t, sn_signatures = [?l, ?w]\<rparr>" and v: "valid_name name" "valid_name (ck_origin c)"
    using assms(5,6) t by (auto simp: ck_sign_def cosign_def ck_text_def split: if_splits)
  have ne: "sign P s c m \<noteq> []" for s c m using length_sign [OF assms(1), of s c m] by (auto simp: SIGNATURE_LENGTH_def sign_lengths)
  have "note_wf B n'"
    unfolding n' by (rule note_wfI [OF assms(2)])
      (use plain_ck_text [OF assms(2) t] v ne assms(3,9) in \<open>auto simp: n' line_wf_def key_id_def MAX_NOTE_SIGNATURES_def\<close>)
  then have "note_decode B (note_encode B n') = Inr n'" by (rule note_decode_encode [OF assms(2)])
  moreover have "parse_text B (sn_text n') = Inr c"
    using ck.dec_enc [OF assms(2) _ t] assms(4) by (simp add: n' ck_ty_def)
  moreover have "signed_by H P n' (ck_origin c) (verifying_key P log) = Inr True"
    unfolding n' by (rule signed_by_single [OF assms(1)]) (use assms(7) in auto)
  moreover have "signed_by H P n' name (verifying_key P w) = Inr True"
    unfolding n' by (rule signed_by_single [OF assms(1)]) (use assms(7) in auto)
  ultimately show ?thesis using assms(7,8) by (auto simp: verify_witnessed_def Let_def)
qed

section \<open>A concrete instance\<close>

fun ref_b64_dec :: "str \<Rightarrow> bytes option" where
  "ref_b64_dec [] = Some []"
| "ref_b64_dec (a # b # r) = map_option ((#) ((a - 0x41) * 16 + (b - 0x41))) (ref_b64_dec r)"
| "ref_b64_dec _ = None"

definition ref_b64 :: b64_api where
  "ref_b64 = \<lparr>b64_enc = (\<lambda>bs. concat (map (\<lambda>b. [0x41 + b div 16, 0x41 + b mod 16]) bs)), b64_dec = ref_b64_dec\<rparr>"

lemma nibble: "b64_char (0x41 + b div 16) \<and> b64_char (0x41 + b mod 16)" for b :: byte
proof -
  have "unat (b div 16) < 16" "unat (b mod 16) < 16" using unat_byte_less [of b] by (simp_all add: unat_div unat_mod)
  then have "unat (0x41 + b div 16) = 65 + unat (b div 16)" "unat (0x41 + b mod 16) = 65 + unat (b mod 16)"
    by (simp_all add: unat_word_ariths)
  with \<open>unat (b div 16) < 16\<close> \<open>unat (b mod 16) < 16\<close> show ?thesis
    by (simp add: b64_char_def word_le_nat_alt)
qed

lemma b64_laws_ref: "b64_laws ref_b64"
proof -
  have "ref_b64_dec (concat (map (\<lambda>b. [0x41 + b div 16, 0x41 + b mod 16]) bs)) = Some bs" for bs
    by (induction bs) (simp_all add: div_mult_mod_eq)
  then show ?thesis using nibble by (auto simp: b64_laws_def ref_b64_def list_all_iff)
qed

lemma length_ref_b64 [simp]: "length (b64_enc ref_b64 x) = 2 * length x"
  by (induction x) (simp_all add: ref_b64_def)

definition demo_log_key :: SigningIdentity where
  "demo_log_key = si_from_seed ref_sig (replicate 32 3)"

lemma demo_checkpoint:
  assumes "length r = 32"
  shows "\<exists>n n'. ck_sign ref_hash ref_sig ref_b64 \<lparr>ck_origin = ascii ''log'', ck_size = 5, ck_root = r\<rparr> demo_log_key = Inr n \<and>
    cosign ref_hash ref_sig n (ascii ''wit'') demo_log_key = Inr n' \<and>
    length (note_encode ref_b64 n') \<le> MAX_NOTE_BYTES \<and>
    verify_witnessed ref_hash ref_sig ref_b64 (note_encode ref_b64 n') (ascii ''log'') (verifying_key ref_sig demo_log_key)
      [(ascii ''wit'', verifying_key ref_sig demo_log_key)] 1 = Inr \<lparr>ck_origin = ascii ''log'', ck_size = 5, ck_root = r\<rparr>"
proof -
  let ?c = "\<lparr>ck_origin = ascii ''log'', ck_size = 5, ck_root = r\<rparr>"
  have v: "valid_name (ascii ''log'')" "valid_name (ascii ''wit'')" by (simp_all add: valid_name_def ascii_def MAX_ORIGIN_BYTES_def)
  obtain n where n: "ck_sign ref_hash ref_sig ref_b64 ?c demo_log_key = Inr n" using v by (simp add: ck_sign_def ck_text_def)
  then have n1: "length (sn_signatures n) = 1" by (auto simp: ck_sign_def result_simps)
  obtain n' where n': "cosign ref_hash ref_sig n (ascii ''wit'') demo_log_key = Inr n'"
    using v n1 by (simp add: cosign_def MAX_NOTE_SIGNATURES_def)
  have k: "length (key_id ref_hash x y) = 4" for x y by (simp add: key_id_def)
  have d: "length (digits 5) = 1" by (simp add: digits.simps)
  have "length (note_encode ref_b64 n') \<le> MAX_NOTE_BYTES"
    using n n' v length_sign [OF sig_laws_ref] assms
    by (auto simp: ck_sign_def cosign_def ck_text_def note_encode_def signature_line_def DASH_def k d MAX_NOTE_BYTES_def
        SIGNATURE_LENGTH_def sign_lengths split: if_splits)
  moreover have "key_id ref_hash (ascii ''wit'') x \<noteq> key_id ref_hash (ascii ''log'') y" for x y
    by (simp add: key_id_def ref_hash_def ascii_def take_Cons')
  ultimately show ?thesis
    using published_accepted [OF sig_laws_ref b64_laws_ref _ _ n n'] n n' assms by (auto simp: ascii_def)
qed

section \<open>Properties\<close>

text \<open>One note, one encoding: a signed note is accepted exactly when it is the encoding of a
  well-formed note, so nothing in a signed note can be rewritten without changing the parsed value.\<close>

theorem checkpoint_note_wire:
  assumes "b64_laws B"
  shows "note_decode B bs = Inr n \<longleftrightarrow> note_wf B n \<and> bs = note_encode B n"
  by (rule sn.dec_iff [OF assms])

theorem checkpoint_note_wire_witness:
  "\<exists>n bs. note_decode ref_b64 bs = Inr n \<and> bs = note_encode ref_b64 n"
proof -
  have "length (replicate 32 0 :: bytes) = 32" by simp
  from demo_checkpoint [OF this] obtain bs c where "verify_witnessed ref_hash ref_sig ref_b64 bs (ascii ''log'')
      (verifying_key ref_sig demo_log_key) [(ascii ''wit'', verifying_key ref_sig demo_log_key)] 1 = Inr c" by blast
  then obtain n where "note_decode ref_b64 bs = Inr n" by (rule verify_witnessedE)
  with checkpoint_note_wire [OF b64_laws_ref, of bs n] show ?thesis by blast
qed



text \<open>A split view cannot stay hidden behind a majority of witnesses. If two accepted checkpoints of the
  same log and size have different roots, and the threshold is more than half of the witness list, then
  some listed witness signed both texts: two different roots for one size, which an honest witness
  never does.\<close>

theorem split_view_needs_double_signature:
  assumes "b64_laws B" "verify_witnessed H P B note origin log W t = Inr c" "verify_witnessed H P B note' origin log W t = Inr c'"
    and "length W < 2 * t" "ck_size c = ck_size c'" "ck_root c \<noteq> ck_root c'"
  shows "\<exists>nm k text text' s s'. (nm, k) \<in> set W \<and> ck_text B c = Inr text \<and> ck_text B c' = Inr text' \<and> text \<noteq> text' \<and>
    verify P k CHECKPOINT_CONTEXT text s = Inr () \<and> verify P k CHECKPOINT_CONTEXT text' s' = Inr ()"
proof -
  from assms(2) obtain n us where n: "parse_text B (sn_text n) = Inr c" "t \<le> length us" "set us \<subseteq> set W" "distinct (map fst us)"
    "\<forall>(nm, k)\<in>set us. signed_line H P n nm k \<and> nm \<noteq> origin \<and> key_id H nm k \<noteq> key_id H origin log"
    by (rule verify_witnessedE)
  from assms(3) obtain n' us' where n': "parse_text B (sn_text n') = Inr c'" "t \<le> length us'" "set us' \<subseteq> set W" "distinct (map fst us')"
    "\<forall>(nm, k)\<in>set us'. signed_line H P n' nm k \<and> nm \<noteq> origin \<and> key_id H nm k \<noteq> key_id H origin log"
    by (rule verify_witnessedE)
  have tx: "ck_text B c = Inr (sn_text n)" "ck_text B c' = Inr (sn_text n')"
    using ck.enc_dec [OF assms(1) n(1)] ck.enc_dec [OF assms(1) n'(1)] by auto
  have "sn_text n \<noteq> sn_text n'" using n(1) n'(1) assms(6) by auto
  have "set us \<inter> set us' \<noteq> {}"
  proof
    assume "set us \<inter> set us' = {}"
    then have "card (set us \<union> set us') = length us + length us'"
      using n(4) n'(4) by (simp add: card_Un_disjoint distinct_card distinct_map)
    moreover have "card (set us \<union> set us') \<le> length W"
      using card_mono [of "set W" "set us \<union> set us'"] n(3) n'(3) card_length [of W] by auto
    ultimately show False using n(2) n'(2) assms(4) by simp
  qed
  then obtain nm k where w: "(nm, k) \<in> set us" "(nm, k) \<in> set us'" by auto
  then have "signed_line H P n nm k" "signed_line H P n' nm k" using n(5) n'(5) by auto
  then obtain s s' where "verify P k CHECKPOINT_CONTEXT (sn_text n) s = Inr ()" "verify P k CHECKPOINT_CONTEXT (sn_text n') s' = Inr ()"
    by (auto simp: signed_line_def)
  with tx \<open>sn_text n \<noteq> sn_text n'\<close> w(1) n(3) show ?thesis by blast
qed

theorem split_view_needs_double_signature_witness:
  "\<exists>text text' s s'. text \<noteq> text' \<and> verify ref_sig (verifying_key ref_sig demo_log_key) CHECKPOINT_CONTEXT text s = Inr () \<and>
     verify ref_sig (verifying_key ref_sig demo_log_key) CHECKPOINT_CONTEXT text' s' = Inr ()"
proof -
  let ?W = "[(ascii ''wit'', verifying_key ref_sig demo_log_key)]"
  have l: "length (replicate 32 0 :: bytes) = 32" "length (replicate 32 1 :: bytes) = 32" by simp_all
  obtain bs where v: "verify_witnessed ref_hash ref_sig ref_b64 bs (ascii ''log'') (verifying_key ref_sig demo_log_key) ?W 1
      = Inr \<lparr>ck_origin = ascii ''log'', ck_size = 5, ck_root = replicate 32 0\<rparr>" using demo_checkpoint [OF l(1)] by blast
  obtain bs' where v': "verify_witnessed ref_hash ref_sig ref_b64 bs' (ascii ''log'') (verifying_key ref_sig demo_log_key) ?W 1
      = Inr \<lparr>ck_origin = ascii ''log'', ck_size = 5, ck_root = replicate 32 1\<rparr>" using demo_checkpoint [OF l(2)] by blast
  from split_view_needs_double_signature [OF b64_laws_ref v v'] show ?thesis by auto
qed

text \<open>What a log signs and a witness cosigns is accepted, and read back as the same checkpoint.\<close>

theorem checkpoint_accepted:
  assumes "sig_laws P" "b64_laws B" "\<forall>x. length (H x) = 32" "length (ck_root c) = 32"
    and "ck_sign H P B c log = Inr n" "cosign H P n name w = Inr n'"
    and "name \<noteq> ck_origin c" "key_id H name (verifying_key P w) \<noteq> key_id H (ck_origin c) (verifying_key P log)"
    and "length (note_encode B n') \<le> MAX_NOTE_BYTES"
  shows "verify_witnessed H P B (note_encode B n') (ck_origin c) (verifying_key P log) [(name, verifying_key P w)] 1 = Inr c"
  by (rule published_accepted [OF assms])

theorem checkpoint_accepted_witness:
  "\<exists>n n'. ck_sign ref_hash ref_sig ref_b64 \<lparr>ck_origin = ascii ''log'', ck_size = 5, ck_root = replicate 32 0\<rparr> demo_log_key = Inr n \<and>
     cosign ref_hash ref_sig n (ascii ''wit'') demo_log_key = Inr n' \<and>
     is_ok (verify_witnessed ref_hash ref_sig ref_b64 (note_encode ref_b64 n') (ascii ''log'') (verifying_key ref_sig demo_log_key)
      [(ascii ''wit'', verifying_key ref_sig demo_log_key)] 1)"
proof -
  let ?c = "\<lparr>ck_origin = ascii ''log'', ck_size = 5, ck_root = replicate 32 0\<rparr>"
  have "length (replicate 32 0 :: bytes) = 32" by simp
  from demo_checkpoint [OF this] obtain n n' where n: "ck_sign ref_hash ref_sig ref_b64 ?c demo_log_key = Inr n"
      "cosign ref_hash ref_sig n (ascii ''wit'') demo_log_key = Inr n'" "length (note_encode ref_b64 n') \<le> MAX_NOTE_BYTES"
    by blast
  have "key_id ref_hash (ascii ''wit'') x \<noteq> key_id ref_hash (ascii ''log'') y" for x y
    by (simp add: key_id_def ref_hash_def ascii_def take_Cons')
  with checkpoint_accepted [OF sig_laws_ref b64_laws_ref _ _ n(1,2) _ _ n(3)] n(1,2) show ?thesis by (auto simp: ascii_def)
qed

end
