(* ===== verification/Hide_Keyring.thy ===== *)
theory Hide_Keyring
  imports Hide_Crypto Hide_Checkpoint
begin

text \<open>
  \<open>crates/hide-keyring/src/lib.rs\<close>: secret keys at rest. A key file is a header with the Argon2
  parameters, a salt, a nonce and a purpose byte, followed by the 32-byte seed sealed with
  ChaCha20-Poly1305 under the stretched passphrase and bound to the header. Argon2id, HKDF-Expand and
  Unicode normalisation are third-party code: the fields of \<open>keyring_api\<close>, with what they document in
  \<open>keyring_laws\<close>. The AEAD is the one of \<open>crypto_api\<close>. A passphrase is the list of its UTF-8 bytes.
  Each call of \<open>getrandom\<close> is an argument: the bytes it filled in, or \<open>None\<close> for a failure.
\<close>

section \<open>The primitives\<close>

record keyring_api =
  argon_params_ok :: "u32 \<Rightarrow> u32 \<Rightarrow> u32 \<Rightarrow> bool"
  argon_hash :: "u32 \<Rightarrow> u32 \<Rightarrow> u32 \<Rightarrow> bytes \<Rightarrow> bytes \<Rightarrow> bytes option"
  hkdf_from_prk :: "bytes \<Rightarrow> bytes \<Rightarrow> bytes"
  nfc :: "str \<Rightarrow> str"
  nfd :: "str \<Rightarrow> str"

text \<open>Argon2 accepts every parameter set with at least one lane, one pass and eight blocks per lane,
  and then hashes any passphrase below 4 GiB with a salt of at least eight bytes to 32 bytes.\<close>

definition keyring_laws :: "keyring_api \<Rightarrow> bool" where
  "keyring_laws K \<longleftrightarrow>
     (\<forall>m t p. 1 \<le> p \<and> p \<le> 255 \<and> p \<le> m div 8 \<and> 1 \<le> t \<longrightarrow> argon_params_ok K m t p) \<and>
     (\<forall>m t p pw salt. argon_params_ok K m t p \<and> length pw < 2 ^ 32 \<and> 8 \<le> length salt \<and> length salt < 2 ^ 32 \<longrightarrow>
        argon_hash K m t p pw salt \<noteq> None) \<and>
     (\<forall>m t p pw salt k. argon_hash K m t p pw salt = Some k \<longrightarrow> length k = 32) \<and>
     (\<forall>prk info. length (hkdf_from_prk K prk info) = 32)"

section \<open>Definitions\<close>

definition KEY_MAGIC :: bytes where
  "KEY_MAGIC = ascii ''HIDE-KEY''"

definition FORMAT_VERSION :: byte where
  "FORMAT_VERSION = 2"

definition LEGACY_VERSION :: byte where
  "LEGACY_VERSION = 1"

definition SALT_LEN :: nat where
  "SALT_LEN = 16"

definition KEY_NONCE_LEN :: nat where
  "KEY_NONCE_LEN = 12"

definition SEED_LEN :: nat where
  "SEED_LEN = 32"

definition KEY_TAG_LEN :: nat where
  "KEY_TAG_LEN = 16"

definition LEGACY_HEADER_LEN :: nat where
  "LEGACY_HEADER_LEN = 8 + 1 + 1 + 4 + 4 + SALT_LEN + KEY_NONCE_LEN"

definition HEADER_LEN :: nat where
  "HEADER_LEN = LEGACY_HEADER_LEN + 1"

definition SEALED_LEN :: nat where
  "SEALED_LEN = HEADER_LEN + SEED_LEN + KEY_TAG_LEN"

definition LEGACY_SEALED_LEN :: nat where
  "LEGACY_SEALED_LEN = LEGACY_HEADER_LEN + SEED_LEN + KEY_TAG_LEN"

definition MEMORY_KIB :: u32 where
  "MEMORY_KIB = 19 * 1024"

definition ITERATIONS :: u32 where
  "ITERATIONS = 2"

definition PARALLELISM :: u32 where
  "PARALLELISM = 1"

definition MAX_MEMORY_KIB :: u32 where
  "MAX_MEMORY_KIB = 256 * 1024"

definition MAX_ITERATIONS :: u32 where
  "MAX_ITERATIONS = 64"

definition MAX_PARALLELISM :: u32 where
  "MAX_PARALLELISM = 4"

definition MIN_MEMORY_KIB :: u32 where
  "MIN_MEMORY_KIB = 8 * 1024"

definition MIN_ITERATIONS :: u32 where
  "MIN_ITERATIONS = 1"

definition MIN_PASSPHRASE_LEN :: nat where
  "MIN_PASSPHRASE_LEN = 8"

datatype KeyPurpose = Identity | Encryption

text \<open>\<open>Crypto(String)\<close> carries a message. What distinguishes the messages is the failure they print.\<close>

datatype CryptoCause = FromCrypto CryptoError | FromRandom | SealingFailed string

datatype KeyringError =
    NotAKeyFile
  | NotAnEpochStore
  | TooManyEntries nat
  | UnsupportedKeyVersion byte
  | KMalformed
  | UnreasonableParameters
  | WrongPassphrase
  | PassphraseTooShort nat
  | WrongPurpose KeyPurpose KeyPurpose
  | KCrypto CryptoCause

fun purpose_tag :: "KeyPurpose \<Rightarrow> byte" where
  "purpose_tag Identity = 1"
| "purpose_tag Encryption = 2"

definition from_tag :: "byte \<Rightarrow> KeyPurpose option" where
  "from_tag t = (if t = 1 then Some Identity else if t = 2 then Some Encryption else None)"

record Argon2Params =
  ap_parallelism :: byte
  ap_memory :: u32
  ap_iterations :: u32

definition PARAMS_LEN :: nat where
  "PARAMS_LEN = 9"

definition WRITER :: Argon2Params where
  "WRITER = \<lparr>ap_parallelism = ucast PARALLELISM, ap_memory = MEMORY_KIB, ap_iterations = ITERATIONS\<rparr>"

definition params_encode :: "Argon2Params \<Rightarrow> bytes" where
  "params_encode p = ap_parallelism p # be32 (ap_memory p) @ be32 (ap_iterations p)"

definition params_parse :: "bytes \<Rightarrow> KeyringError + Argon2Params" where
  "params_parse bs =
     (if length bs \<noteq> PARAMS_LEN then Inl KMalformed
      else
        let parallelism = bs ! 0;
            memory = u32_from_be (subslice 1 5 bs);
            iterations = u32_from_be (subslice 5 9 bs);
            lanes = ucast parallelism :: u32
        in if lanes = 0
              \<or> MAX_PARALLELISM < lanes
              \<or> \<not> (MIN_MEMORY_KIB \<le> memory \<and> memory \<le> MAX_MEMORY_KIB)
              \<or> \<not> (MIN_ITERATIONS \<le> iterations \<and> iterations \<le> MAX_ITERATIONS)
              \<or> memory div 8 < lanes
           then Inl UnreasonableParameters
           else Inr \<lparr>ap_parallelism = parallelism, ap_memory = memory, ap_iterations = iterations\<rparr>)"

text \<open>The free function \<open>derive\<close> (outside the fuzzing configuration) and the method that calls it.\<close>

definition argon_derive :: "keyring_api \<Rightarrow> str \<Rightarrow> bytes \<Rightarrow> u32 \<Rightarrow> u32 \<Rightarrow> u32 \<Rightarrow> KeyringError + bytes" where
  "argon_derive K passphrase salt memory iterations parallelism =
     (if \<not> argon_params_ok K memory iterations parallelism then Inl UnreasonableParameters
      else ok_or (argon_hash K memory iterations parallelism passphrase salt) UnreasonableParameters)"

definition params_derive :: "keyring_api \<Rightarrow> Argon2Params \<Rightarrow> str \<Rightarrow> bytes \<Rightarrow> KeyringError + bytes" where
  "params_derive K p passphrase salt =
     argon_derive K passphrase salt (ap_memory p) (ap_iterations p) (ucast (ap_parallelism p))"

text \<open>\<open>chars().count()\<close> of a string: the bytes that do not continue a character.\<close>

definition char_count :: "str \<Rightarrow> nat" where
  "char_count s = length (filter (\<lambda>b. \<not> utf8_cont b) s)"

definition normalize_passphrase :: "keyring_api \<Rightarrow> str \<Rightarrow> str" where
  "normalize_passphrase K passphrase = nfc K passphrase"

definition push_unseen :: "str list \<Rightarrow> str \<Rightarrow> str list" where
  "push_unseen out candidate = (if candidate \<in> set out then out else out @ [candidate])"

definition passphrase_candidates :: "keyring_api \<Rightarrow> str \<Rightarrow> str list" where
  "passphrase_candidates K passphrase =
     foldl push_unseen [] [normalize_passphrase K passphrase, passphrase, nfd K passphrase]"

datatype KeyFormat = Protected | Raw

definition inspect :: "bytes \<Rightarrow> KeyFormat" where
  "inspect bs = (if starts_with bs KEY_MAGIC then Protected else Raw)"

text \<open>\<open>Aead::encrypt\<close> and \<open>Aead::decrypt\<close>: the tag follows the ciphertext.\<close>

definition aead_encrypt :: "crypto_api \<Rightarrow> bytes \<Rightarrow> bytes \<Rightarrow> bytes \<Rightarrow> bytes \<Rightarrow> bytes option" where
  "aead_encrypt A k nonce aad msg = map_option (\<lambda>(c, t). c @ t) (aead_enc A k nonce aad msg)"

definition aead_decrypt :: "crypto_api \<Rightarrow> bytes \<Rightarrow> bytes \<Rightarrow> bytes \<Rightarrow> bytes \<Rightarrow> bytes option" where
  "aead_decrypt A k nonce aad msg =
     (if length msg < 16 then None
      else aead_dec A k nonce aad (take (length msg - 16) msg) (drop (length msg - 16) msg))"

definition key_header :: "byte \<Rightarrow> Argon2Params \<Rightarrow> bytes \<Rightarrow> bytes \<Rightarrow> bytes" where
  "key_header version params salt nonce = KEY_MAGIC @ [version] @ params_encode params @ salt @ nonce"

definition protect_seed ::
  "crypto_api \<Rightarrow> keyring_api \<Rightarrow> bytes option \<Rightarrow> bytes option \<Rightarrow> bytes \<Rightarrow> str \<Rightarrow> KeyPurpose \<Rightarrow> KeyringError + bytes" where
  "protect_seed A K rng_salt rng_nonce seed passphrase purpose =
     (let passphrase = normalize_passphrase K passphrase in
      if char_count passphrase < MIN_PASSPHRASE_LEN then Inl (PassphraseTooShort MIN_PASSPHRASE_LEN)
      else if length seed \<noteq> SEED_LEN then Inl KMalformed
      else
        bindR (ok_or rng_salt (KCrypto FromRandom)) (\<lambda>salt.
        bindR (ok_or rng_nonce (KCrypto FromRandom)) (\<lambda>nonce.
        let header = key_header FORMAT_VERSION WRITER salt nonce @ [purpose_tag purpose] in
        bindR (params_derive K WRITER passphrase salt) (\<lambda>wrapping.
        bindR (ok_or (aead_encrypt A wrapping nonce header seed) (KCrypto (FromCrypto Authentication))) (\<lambda>sealed.
          Inr (header @ sealed))))))"

text \<open>A \<open>RecipientSecret\<close> is its seed.\<close>

definition protect ::
  "crypto_api \<Rightarrow> keyring_api \<Rightarrow> bytes option \<Rightarrow> bytes option \<Rightarrow> bytes \<Rightarrow> str \<Rightarrow> KeyringError + bytes" where
  "protect A K rng_salt rng_nonce secret passphrase =
     protect_seed A K rng_salt rng_nonce secret passphrase Encryption"

definition protect_identity ::
  "crypto_api \<Rightarrow> keyring_api \<Rightarrow> bytes option \<Rightarrow> bytes option \<Rightarrow> bytes \<Rightarrow> str \<Rightarrow> KeyringError + bytes" where
  "protect_identity A K rng_salt rng_nonce seed passphrase =
     protect_seed A K rng_salt rng_nonce seed passphrase Identity"

definition ENCRYPTION_INFO :: bytes where
  "ENCRYPTION_INFO = ascii ''HIDE/0.5 identity encryption''"

definition SIGNING_INFO :: bytes where
  "SIGNING_INFO = ascii ''HIDE/0.5 identity signing''"

text \<open>An \<open>Identity\<close> is its master seed.\<close>

definition identity_generate :: "bytes option \<Rightarrow> KeyringError + bytes" where
  "identity_generate rng = ok_or rng (KCrypto FromRandom)"

definition identity_derive :: "keyring_api \<Rightarrow> bytes \<Rightarrow> bytes \<Rightarrow> bytes" where
  "identity_derive K seed info = hkdf_from_prk K seed info"

definition recipient_secret :: "keyring_api \<Rightarrow> bytes \<Rightarrow> KeyringError + bytes" where
  "recipient_secret K seed =
     map_err (KCrypto \<circ> FromCrypto) (secret_from_bytes (identity_derive K seed ENCRYPTION_INFO))"

definition signing_seed :: "keyring_api \<Rightarrow> bytes \<Rightarrow> bytes" where
  "signing_seed K seed = identity_derive K seed SIGNING_INFO"

primrec try_candidates ::
  "crypto_api \<Rightarrow> keyring_api \<Rightarrow> Argon2Params \<Rightarrow> bytes \<Rightarrow> bytes \<Rightarrow> bytes \<Rightarrow> bytes \<Rightarrow> str list \<Rightarrow> KeyringError + bytes" where
  "try_candidates A K params salt nonce header msg [] = Inl WrongPassphrase"
| "try_candidates A K params salt nonce header msg (candidate # rest) =
     bindR (params_derive K params candidate salt) (\<lambda>wrapping.
       case aead_decrypt A wrapping nonce header msg of
         Some seed \<Rightarrow> Inr seed
       | None \<Rightarrow> try_candidates A K params salt nonce header msg rest)"

definition unprotect_seed ::
  "crypto_api \<Rightarrow> keyring_api \<Rightarrow> bytes \<Rightarrow> str \<Rightarrow> KeyringError + bytes \<times> KeyPurpose" where
  "unprotect_seed A K bs passphrase =
     (if \<not> starts_with bs KEY_MAGIC then Inl NotAKeyFile
      else
        bindR (ok_or (get_at bs 8) KMalformed) (\<lambda>version.
        bindR (if version = FORMAT_VERSION then Inr (HEADER_LEN, SEALED_LEN)
               else if version = LEGACY_VERSION then Inr (LEGACY_HEADER_LEN, LEGACY_SEALED_LEN)
               else Inl (UnsupportedKeyVersion version)) (\<lambda>(header_len, expected_len).
        if length bs \<noteq> expected_len then Inl KMalformed
        else
          bindR (params_parse (subslice 9 (9 + PARAMS_LEN) bs)) (\<lambda>params.
          bindR (if version = LEGACY_VERSION then Inr Encryption
                 else ok_or (from_tag (bs ! LEGACY_HEADER_LEN)) KMalformed) (\<lambda>purpose.
          let salt = subslice 18 (18 + SALT_LEN) bs;
              nonce = subslice (18 + SALT_LEN) (18 + SALT_LEN + KEY_NONCE_LEN) bs;
              header = take header_len bs
          in bindR (try_candidates A K params salt nonce header (drop header_len bs)
                      (passphrase_candidates K passphrase)) (\<lambda>seed.
               Inr (seed, purpose)))))))"

definition unprotect :: "crypto_api \<Rightarrow> keyring_api \<Rightarrow> bytes \<Rightarrow> str \<Rightarrow> KeyringError + bytes" where
  "unprotect A K bs passphrase =
     bindR (unprotect_seed A K bs passphrase) (\<lambda>(seed, purpose).
       if purpose \<noteq> Encryption then Inl (WrongPurpose Encryption purpose)
       else map_err (KCrypto \<circ> FromCrypto) (secret_from_bytes seed))"

definition key_open :: "crypto_api \<Rightarrow> keyring_api \<Rightarrow> bytes \<Rightarrow> str option \<Rightarrow> KeyringError + bytes" where
  "key_open A K bs passphrase =
     (case inspect bs of
        Raw \<Rightarrow> if length bs \<noteq> SEED_LEN then Inl KMalformed else recipient_secret K bs
      | Protected \<Rightarrow>
          bindR (ok_or passphrase WrongPassphrase) (\<lambda>passphrase.
          bindR (unprotect_seed A K bs passphrase) (\<lambda>(seed, purpose).
            case purpose of
              Identity \<Rightarrow> recipient_secret K seed
            | Encryption \<Rightarrow> map_err (KCrypto \<circ> FromCrypto) (secret_from_bytes seed))))"

text \<open>Base64 text of a public key. \<open>chunks(64)\<close>, \<open>str::lines\<close> (a line ends at a newline, and a carriage
  return before it is dropped) and \<open>str::trim\<close> (white space as Unicode defines it, in UTF-8).\<close>

definition strip_cr :: "str \<Rightarrow> str" where
  "strip_cr l = (if l \<noteq> [] \<and> last l = 0x0D then butlast l else l)"

definition str_lines :: "str \<Rightarrow> str list" where
  "str_lines s =
     (let ps = split_lines s in map strip_cr (butlast ps) @ (if last ps = [] then [] else [last ps]))"

definition white1 :: "byte \<Rightarrow> bool" where
  "white1 a \<longleftrightarrow> 0x09 \<le> a \<and> a \<le> 0x0D \<or> a = 0x20"

definition white2 :: "byte \<Rightarrow> byte \<Rightarrow> bool" where
  "white2 a b \<longleftrightarrow> a = 0xC2 \<and> (b = 0x85 \<or> b = 0xA0)"

definition white3 :: "byte \<Rightarrow> byte \<Rightarrow> byte \<Rightarrow> bool" where
  "white3 a b c \<longleftrightarrow> a = 0xE1 \<and> b = 0x9A \<and> c = 0x80
     \<or> a = 0xE2 \<and> b = 0x80 \<and> (0x80 \<le> c \<and> c \<le> 0x8A \<or> c = 0xA8 \<or> c = 0xA9 \<or> c = 0xAF)
     \<or> a = 0xE2 \<and> b = 0x81 \<and> c = 0x9F
     \<or> a = 0xE3 \<and> b = 0x80 \<and> c = 0x80"

fun trim_start :: "str \<Rightarrow> str" where
  "trim_start [] = []"
| "trim_start (a # r) =
     (if white1 a then trim_start r
      else case r of [] \<Rightarrow> a # r | b # r1 \<Rightarrow>
        if white2 a b then trim_start r1
        else case r1 of [] \<Rightarrow> a # r | c # r2 \<Rightarrow>
          if white3 a b c then trim_start r2 else a # r)"

primrec trim_end :: "str \<Rightarrow> str" where
  "trim_end [] = []"
| "trim_end (a # r) = (if trim_start (a # r) = [] then [] else a # trim_end r)"

definition str_trim :: "str \<Rightarrow> str" where
  "str_trim s = trim_end (trim_start s)"

definition PUBLIC_LABEL :: str where
  "PUBLIC_LABEL = ascii ''hide-public-key:''"

definition encode_public :: "b64_api \<Rightarrow> bytes \<Rightarrow> str" where
  "encode_public B bs =
     (let body = b64_enc B bs
      in PUBLIC_LABEL
         @ concat (map (\<lambda>chunk. NL # (if utf8_valid chunk then chunk else [])) (chunks_of 64 body))
         @ [NL])"

definition decode_public :: "b64_api \<Rightarrow> str \<Rightarrow> KeyringError + bytes" where
  "decode_public B text =
     (let body = concat (filter (\<lambda>line. str_trim line \<noteq> [] \<and> \<not> starts_with line PUBLIC_LABEL) (str_lines text))
      in ok_or (b64_dec B (str_trim body)) KMalformed)"

section \<open>Lemmas\<close>

named_theorems key_layout \<open>the lengths of a key file\<close>

lemma key_lengths [key_layout]:
  "SALT_LEN = 16" "KEY_NONCE_LEN = 12" "SEED_LEN = 32" "KEY_TAG_LEN = 16" "LEGACY_HEADER_LEN = 46"
  "HEADER_LEN = 47" "SEALED_LEN = 95" "LEGACY_SEALED_LEN = 94" "PARAMS_LEN = 9" "length KEY_MAGIC = 8"
  by (simp_all add: SALT_LEN_def KEY_NONCE_LEN_def SEED_LEN_def KEY_TAG_LEN_def LEGACY_HEADER_LEN_def
      HEADER_LEN_def SEALED_LEN_def LEGACY_SEALED_LEN_def PARAMS_LEN_def KEY_MAGIC_def)

text \<open>What \<open>Argon2Params::parse\<close> guarantees of its result.\<close>

definition params_ok :: "Argon2Params \<Rightarrow> bool" where
  "params_ok p \<longleftrightarrow> 1 \<le> unat (ap_parallelism p) \<and> unat (ap_parallelism p) \<le> 4 \<and>
     8192 \<le> unat (ap_memory p) \<and> unat (ap_memory p) \<le> 262144 \<and>
     1 \<le> unat (ap_iterations p) \<and> unat (ap_iterations p) \<le> 64"

lemma unat_lanes [simp]: "unat (ucast (b :: byte) :: u32) = unat b"
  using unat_byte_less [of b] by (simp add: unsigned_ucast_eq take_bit_eq_mod)

lemma params_guard:
  "(ucast (l :: byte) :: u32) = 0 \<or> MAX_PARALLELISM < (ucast l :: u32)
     \<or> \<not> (MIN_MEMORY_KIB \<le> m \<and> m \<le> MAX_MEMORY_KIB) \<or> \<not> (MIN_ITERATIONS \<le> t \<and> t \<le> MAX_ITERATIONS)
     \<or> m div 8 < (ucast l :: u32)
   \<longleftrightarrow> \<not> params_ok \<lparr>ap_parallelism = l, ap_memory = m, ap_iterations = t\<rparr>"
proof -
  have "(ucast l :: u32) = 0 \<longleftrightarrow> unat l = 0"
    using unat_lanes [of l] by (simp only: word_unat_eq_iff unat_0)
  then show ?thesis
    by (auto simp: params_ok_def word_less_nat_alt word_le_nat_alt unat_div MAX_PARALLELISM_def
        MIN_MEMORY_KIB_def MAX_MEMORY_KIB_def MIN_ITERATIONS_def MAX_ITERATIONS_def)
qed

lemma length_params_encode [simp]: "length (params_encode p) = 9"
  by (simp add: params_encode_def)

interpretation ap: canonical_codec "\<lambda>_ :: unit. True" "\<lambda>_. params_ok" "\<lambda>_. params_encode" "\<lambda>_. params_parse"
proof (unfold_locales, goal_cases)
  case (1 _ p)
  have "params_encode p ! 0 = ap_parallelism p" "subslice 1 5 (params_encode p) = be32 (ap_memory p)"
      "subslice 5 9 (params_encode p) = be32 (ap_iterations p)"
    by (simp_all add: params_encode_def subslice_def)
  with 1 show ?case unfolding params_parse_def Let_def params_guard by (simp add: key_layout params_ok_def)
next
  case (2 _ bs p)
  then have l: "length bs = 9" and p: "params_ok p"
      "p = \<lparr>ap_parallelism = bs ! 0, ap_memory = u32_from_be (subslice 1 5 bs), ap_iterations = u32_from_be (subslice 5 9 bs)\<rparr>"
    unfolding params_parse_def Let_def params_guard by (auto simp: key_layout split: if_splits)
  have "params_encode p = bs ! 0 # subslice 1 5 bs @ subslice 5 9 bs"
    using l by (simp add: p(2) params_encode_def be32_u32_from_be)
  also have "subslice 5 9 bs = drop 5 bs" using l by (simp add: subslice_def)
  also have "subslice 1 5 bs @ drop 5 bs = drop 1 bs" by (rule subslice_drop) simp
  also have "bs ! 0 # drop 1 bs = bs" using l by (cases bs) simp_all
  finally show ?case using p(1) by simp
qed


lemma WRITER_ok: "params_ok WRITER"
  by (simp add: params_ok_def WRITER_def PARALLELISM_def MEMORY_KIB_def ITERATIONS_def)

text \<open>Parameters that passed the check never make Argon2 fail.\<close>

lemma params_derive_total:
  assumes "keyring_laws K" "params_ok p" "length pw < 2 ^ 32" "length salt = 16"
  shows "\<exists>k. params_derive K p pw salt = Inr k \<and> length k = 32"
proof -
  let ?l = "ucast (ap_parallelism p) :: u32"
  have "1 \<le> ?l \<and> ?l \<le> 255 \<and> ?l \<le> ap_memory p div 8 \<and> 1 \<le> ap_iterations p"
    using assms(2) by (auto simp: params_ok_def word_le_nat_alt unat_div)
  then have "argon_params_ok K (ap_memory p) (ap_iterations p) ?l" using assms(1) unfolding keyring_laws_def by blast
  moreover obtain k where k: "argon_hash K (ap_memory p) (ap_iterations p) ?l pw salt = Some k"
    using assms(1,3,4) calculation unfolding keyring_laws_def by fastforce
  moreover have "length k = 32" using assms(1) k unfolding keyring_laws_def by blast
  ultimately show ?thesis by (simp add: params_derive_def argon_derive_def)
qed

lemma candidates_set: "set (passphrase_candidates K p) = {nfc K p, p, nfd K p}"
  by (auto simp: passphrase_candidates_def push_unseen_def normalize_passphrase_def)

lemma candidates_distinct: "distinct (passphrase_candidates K p)"
  by (simp add: passphrase_candidates_def push_unseen_def)

lemma candidates_first: "\<exists>r. passphrase_candidates K p = nfc K p # r"
  by (simp add: passphrase_candidates_def push_unseen_def normalize_passphrase_def)

lemma from_tag_tag [simp]: "from_tag (purpose_tag p) = Some p"
  by (cases p) (simp_all add: from_tag_def)

lemma from_tag_Some: "from_tag t = Some p \<Longrightarrow> t = purpose_tag p"
  by (auto simp: from_tag_def split: if_splits)

lemma aead_encrypt_eq:
  assumes "crypto_laws A" "length p < 2 ^ 32"
  shows "aead_encrypt A k n a p = Some (sealed A k n a p)"
  using aead_total [OF assms, of k n a] by (auto simp: aead_encrypt_def sealed_def)

lemma aead_decrypt_iff:
  assumes "crypto_laws A" "length c < 2 ^ 32"
  shows "aead_decrypt A k n a c = Some p \<longleftrightarrow> 16 \<le> length c \<and> length p = length c - 16 \<and> c = sealed A k n a p"
  using dec_sealed_iff [OF assms(1) _ assms(2), of k n a p] by (auto simp: aead_decrypt_def)

subsection \<open>The layout of a key file\<close>

text \<open>The authenticated header of a file of either version.\<close>

definition file_header :: "byte \<Rightarrow> Argon2Params \<Rightarrow> bytes \<Rightarrow> bytes \<Rightarrow> KeyPurpose \<Rightarrow> bytes" where
  "file_header version params salt nonce purpose =
     key_header version params salt nonce @ (if version = FORMAT_VERSION then [purpose_tag purpose] else [])"

definition file_shape :: "byte \<Rightarrow> Argon2Params \<Rightarrow> bytes \<Rightarrow> bytes \<Rightarrow> KeyPurpose \<Rightarrow> bytes \<Rightarrow> bool" where
  "file_shape version params salt nonce purpose msg \<longleftrightarrow>
     (version = FORMAT_VERSION \<or> version = LEGACY_VERSION \<and> purpose = Encryption) \<and> params_ok params \<and>
     length salt = 16 \<and> length nonce = 12 \<and> length msg = 48"

lemma versions_differ [simp]: "FORMAT_VERSION \<noteq> LEGACY_VERSION" "LEGACY_VERSION \<noteq> FORMAT_VERSION"
  by (simp_all add: FORMAT_VERSION_def LEGACY_VERSION_def)

lemma length_key_header:
  "length salt = 16 \<Longrightarrow> length nonce = 12 \<Longrightarrow> length (key_header v ps salt nonce) = 46"
  by (simp add: key_header_def key_layout)

lemma key_slices:
  assumes "length salt = 16" "length nonce = 12"
  shows "subslice 9 18 (key_header v ps salt nonce @ r) = params_encode ps"
    "subslice 18 34 (key_header v ps salt nonce @ r) = salt"
    "subslice 34 46 (key_header v ps salt nonce @ r) = nonce"
    "get_at (key_header v ps salt nonce @ r) 8 = Some v"
    "starts_with (key_header v ps salt nonce @ r) KEY_MAGIC"
  using assms by (simp_all add: key_header_def subslice_def get_at_def nth_append key_layout starts_with_def)

lemma unprotect_parts:
  assumes "file_shape v ps salt nonce purpose msg"
  shows "unprotect_seed A K (file_header v ps salt nonce purpose @ msg) p =
    bindR (try_candidates A K ps salt nonce (file_header v ps salt nonce purpose) msg (passphrase_candidates K p))
      (\<lambda>seed. Inr (seed, purpose))"
proof -
  let ?r = "(if v = FORMAT_VERSION then [purpose_tag purpose] else []) @ msg"
  have l: "length salt = 16" "length nonce = 12" "length msg = 48" "params_ok ps"
    using assms by (simp_all add: file_shape_def)
  have p: "params_parse (params_encode ps) = Inr ps" using ap.dec_enc l(4) by simp
  have b: "file_header v ps salt nonce purpose @ msg = key_header v ps salt nonce @ ?r" by (simp add: file_header_def)
  show ?thesis
    using assms key_slices [OF l(1,2), of v ps ?r] l(3) length_key_header [OF l(1,2), of v ps]
    unfolding unprotect_seed_def b
    by (auto simp: file_shape_def file_header_def key_layout p Let_def nth_append)
qed


text \<open>Whatever gets past the structural checks has this layout.\<close>

lemma key_file_split:
  assumes "starts_with bs KEY_MAGIC" "get_at bs 8 = Some v" "46 \<le> length bs"
    "params_parse (subslice 9 18 bs) = Inr ps"
  shows "bs = key_header v ps (subslice 18 34 bs) (subslice 34 46 bs) @ drop 46 bs"
proof -
  have "params_encode ps = subslice 9 18 bs" using ap.enc_dec [OF _ assms(4)] by simp
  moreover have "take 8 bs = KEY_MAGIC" using assms(1) by (simp add: starts_with_def key_layout)
  moreover have "bs ! 8 = v" using assms(2) by (simp add: get_at_def split: if_splits)
  ultimately have "key_header v ps (subslice 18 34 bs) (subslice 34 46 bs) @ drop 46 bs
      = take 8 bs @ (bs ! 8 # subslice 9 18 bs @ subslice 18 34 bs @ subslice 34 46 bs @ drop 46 bs)"
    by (simp add: key_header_def)
  also have "\<dots> = take 8 bs @ (bs ! 8 # drop 9 bs)" by (simp add: subslice_drop)
  also have "\<dots> = bs" using assms(3) by (simp add: Cons_nth_drop_Suc [of 8 bs, simplified])
  finally show ?thesis by simp
qed

lemma unprotect_shape:
  assumes "unprotect_seed A K bs p = Inr (seed, purpose)"
  obtains v ps salt nonce msg where "file_shape v ps salt nonce purpose msg"
    "bs = file_header v ps salt nonce purpose @ msg"
proof -
  let ?salt = "subslice 18 34 bs" and ?nonce = "subslice 34 46 bs"
  from assms obtain v where v: "starts_with bs KEY_MAGIC" "get_at bs 8 = Some v"
    "v = FORMAT_VERSION \<and> length bs = 95 \<or> v = LEGACY_VERSION \<and> length bs = 94"
    by (auto simp: unprotect_seed_def key_layout result_simps split: if_splits)
  have ps: "\<exists>ps. params_parse (subslice 9 18 bs) = Inr ps \<and>
      (v = FORMAT_VERSION \<longrightarrow> from_tag (bs ! 46) = Some purpose) \<and> (v = LEGACY_VERSION \<longrightarrow> purpose = Encryption)"
    using assms v by (auto simp: unprotect_seed_def key_layout Let_def result_simps)
  then obtain ps where ps: "params_parse (subslice 9 18 bs) = Inr ps"
    and t: "v = FORMAT_VERSION \<Longrightarrow> bs ! 46 = purpose_tag purpose" "v = LEGACY_VERSION \<Longrightarrow> purpose = Encryption"
    using from_tag_Some by blast
  have b: "bs = key_header v ps ?salt ?nonce @ drop 46 bs" using key_file_split [OF v(1,2) _ ps] v(3) by auto
  have s: "params_ok ps" "length ?salt = 16" "length ?nonce = 12" using ap.enc_dec [OF _ ps] v(3) by auto
  show thesis
  proof (cases "v = FORMAT_VERSION")
    case True
    then have "drop 46 bs = purpose_tag purpose # drop 47 bs"
      using v(3) t(1) by (simp add: Cons_nth_drop_Suc [of 46 bs, simplified, symmetric])
    with b True have "bs = file_header v ps ?salt ?nonce purpose @ drop 47 bs" by (simp add: file_header_def)
    moreover have "file_shape v ps ?salt ?nonce purpose (drop 47 bs)" using s v(3) True by (auto simp: file_shape_def)
    ultimately show ?thesis by (rule that [rotated])
  next
    case False
    with v(3) have w: "v = LEGACY_VERSION" "length bs = 94" by auto
    with b False have "bs = file_header v ps ?salt ?nonce purpose @ drop 46 bs" by (simp add: file_header_def)
    moreover have "file_shape v ps ?salt ?nonce purpose (drop 46 bs)" using s w t(2) by (auto simp: file_shape_def)
    ultimately show ?thesis by (rule that [rotated])
  qed
qed

text \<open>The first spelling whose key opens the file decides.\<close>

lemma try_candidates_Inr:
  assumes "try_candidates A K ps salt nonce h msg cs = Inr seed"
  obtains c k where "c \<in> set cs" "params_derive K ps c salt = Inr k" "aead_decrypt A k nonce h msg = Some seed"
  using assms by (induction cs) (auto simp: result_simps split: option.splits)

lemma unprotect_genuine:
  assumes "crypto_laws A" "unprotect_seed A K bs p = Inr (seed, purpose)"
  obtains v ps salt nonce c k where
    "file_shape v ps salt nonce purpose (sealed A k nonce (file_header v ps salt nonce purpose) seed)"
    "c \<in> {nfc K p, p, nfd K p}" "params_derive K ps c salt = Inr k" "length seed = 32"
    "bs = file_header v ps salt nonce purpose @ sealed A k nonce (file_header v ps salt nonce purpose) seed"
proof -
  obtain v ps salt nonce msg where s: "file_shape v ps salt nonce purpose msg"
    "bs = file_header v ps salt nonce purpose @ msg" by (rule unprotect_shape [OF assms(2)])
  let ?h = "file_header v ps salt nonce purpose"
  have "try_candidates A K ps salt nonce ?h msg (passphrase_candidates K p) = Inr seed"
    using assms(2) unfolding s(2) unprotect_parts [OF s(1)] by (auto simp: result_simps)
  then obtain c k where c: "c \<in> set (passphrase_candidates K p)" "params_derive K ps c salt = Inr k"
    "aead_decrypt A k nonce ?h msg = Some seed" by (rule try_candidates_Inr)
  moreover have "length msg = 48" using s(1) by (simp add: file_shape_def)
  ultimately have "msg = sealed A k nonce ?h seed \<and> length seed = 32" using aead_decrypt_iff [OF assms(1), of msg] by simp
  with s c show thesis using that [of v ps salt nonce k c] by (auto simp: candidates_set)
qed

lemma unprotect_protected:
  assumes "crypto_laws A" "keyring_laws K" "nfc K p = nfc K q"
    and "protect_seed A K (Some salt) (Some nonce) seed p purpose = Inr bs" "length salt = 16" "length nonce = 12"
  shows "unprotect_seed A K bs q = Inr (seed, purpose) \<and> length bs = SEALED_LEN"
proof -
  let ?h = "file_header FORMAT_VERSION WRITER salt nonce purpose"
  obtain k where l: "length seed = 32" and k: "params_derive K WRITER (nfc K p) salt = Inr k"
    and bs: "bs = ?h @ sealed A k nonce ?h seed"
    using assms(4) by (auto simp: protect_seed_def normalize_passphrase_def key_layout Let_def file_header_def
        result_simps aead_encrypt_eq [OF assms(1)] split: if_splits)
  have m: "length (sealed A k nonce ?h seed) = 48" using length_sealed [OF assms(1)] l by simp
  then have s: "file_shape FORMAT_VERSION WRITER salt nonce purpose (sealed A k nonce ?h seed)"
    using assms(5,6) WRITER_ok by (simp add: file_shape_def)
  have "aead_decrypt A k nonce ?h (sealed A k nonce ?h seed) = Some seed"
    using aead_decrypt_iff [OF assms(1), of "sealed A k nonce ?h seed"] m l by simp
  moreover obtain r where "passphrase_candidates K q = nfc K p # r" using candidates_first [of K q] assms(3) by auto
  ultimately have "unprotect_seed A K bs q = Inr (seed, purpose)"
    unfolding bs unprotect_parts [OF s] by (simp add: k)
  moreover have "length bs = 95" using m assms(5,6) length_key_header by (simp add: bs file_header_def)
  ultimately show ?thesis by (simp add: key_layout)
qed


lemma protect_total:
  assumes "crypto_laws A" "keyring_laws K" "8 \<le> char_count (nfc K p)" "length (nfc K p) < 2 ^ 32"
    "length salt = 16" "length seed = 32"
  shows "\<exists>bs. protect_seed A K (Some salt) (Some nonce) seed p purpose = Inr bs"
  using params_derive_total [OF assms(2) WRITER_ok assms(4,5)] assms(3,6) aead_encrypt_eq [OF assms(1)]
  by (auto simp: protect_seed_def normalize_passphrase_def MIN_PASSPHRASE_LEN_def key_layout Let_def)

text \<open>Argon2 is only consulted with parameters that passed the check.\<close>

definition argon_agree :: "keyring_api \<Rightarrow> keyring_api \<Rightarrow> bool" where
  "argon_agree K K' \<longleftrightarrow> nfc K = nfc K' \<and> nfd K = nfd K' \<and>
     (\<forall>m t l pw salt.
        8192 \<le> unat m \<and> unat m \<le> 262144 \<and> 1 \<le> unat t \<and> unat t \<le> 64 \<and> 1 \<le> unat l \<and> unat l \<le> 4 \<longrightarrow>
        argon_params_ok K m t l = argon_params_ok K' m t l \<and>
        argon_hash K m t l pw salt = argon_hash K' m t l pw salt)"

lemma derive_agree: "argon_agree K K' \<Longrightarrow> params_ok ps \<Longrightarrow> params_derive K ps c salt = params_derive K' ps c salt"
  by (auto simp: params_derive_def argon_derive_def argon_agree_def params_ok_def)

lemma candidates_agree: "argon_agree K K' \<Longrightarrow> passphrase_candidates K p = passphrase_candidates K' p"
  by (simp add: passphrase_candidates_def normalize_passphrase_def argon_agree_def)

lemma try_agree:
  assumes "argon_agree K K'" "params_ok ps"
  shows "try_candidates A K ps salt nonce h msg cs = try_candidates A K' ps salt nonce h msg cs"
  by (induction cs) (simp_all add: derive_agree [OF assms] cong: option.case_cong)

lemma unprotect_agree:
  assumes "argon_agree K K'"
  shows "unprotect_seed A K bs p = unprotect_seed A K' bs p"
proof -
  have "try_candidates A K ps = try_candidates A K' ps" if "params_parse x = Inr ps" for x ps
    using try_agree [OF assms] ap.enc_dec [OF _ that] by (intro ext) simp
  note eq = this
  show ?thesis
    unfolding unprotect_seed_def candidates_agree [OF assms, of p] Let_def
    by (cases "params_parse (subslice 9 (9 + PARAMS_LEN) bs)") (simp_all add: eq cong: if_cong)
qed

lemma protect_agree:
  assumes "argon_agree K K'"
  shows "protect_seed A K r s seed p u = protect_seed A K' r s seed p u"
proof -
  have "params_derive K WRITER = params_derive K' WRITER" by (intro ext derive_agree assms WRITER_ok)
  moreover have "nfc K = nfc K'" using assms by (simp add: argon_agree_def)
  ultimately show ?thesis by (simp only: protect_seed_def normalize_passphrase_def)
qed

text \<open>What the two readers return for a file whose seed and purpose are known.\<close>

lemma unprotect_of_seed:
  assumes "unprotect_seed A K bs p = Inr (seed, purpose)" "length seed = 32"
  shows "unprotect A K bs p = (if purpose = Encryption then Inr seed else Inl (WrongPurpose Encryption Identity))"
  using assms by (cases purpose) (simp_all add: unprotect_def secret_from_bytes_def require_len_def KEY_LENGTH_def)

lemma recipient_secret_eq:
  "keyring_laws K \<Longrightarrow> recipient_secret K seed = Inr (hkdf_from_prk K seed ENCRYPTION_INFO)"
  by (simp add: recipient_secret_def identity_derive_def secret_from_bytes_def require_len_def KEY_LENGTH_def keyring_laws_def)

lemma key_open_of_seed:
  assumes "keyring_laws K" "unprotect_seed A K bs p = Inr (seed, purpose)" "length seed = 32"
  shows "key_open A K bs (Some p) = Inr (if purpose = Encryption then seed else hkdf_from_prk K seed ENCRYPTION_INFO)"
proof -
  have "starts_with bs KEY_MAGIC" using assms(2) by (auto simp: unprotect_seed_def split: if_splits)
  then show ?thesis using assms
    by (cases purpose) (simp_all add: key_open_def inspect_def recipient_secret_eq secret_from_bytes_def require_len_def KEY_LENGTH_def)
qed

subsection \<open>Public keys as text\<close>

lemma b64_char_plain: "b64_char b \<Longrightarrow> b < 0x80 \<and> \<not> white1 b \<and> b \<noteq> NL \<and> b \<noteq> 0x0D \<and> b \<noteq> 0xC2 \<and> b \<noteq> 0xE1 \<and> b \<noteq> 0xE2 \<and> b \<noteq> 0xE3 \<and> b \<noteq> 0x2D"
  by (auto simp: b64_char_def white1_def NL_def word_le_nat_alt word_less_nat_alt word_unat_eq_iff)

lemma trim_b64: "\<forall>b\<in>set s. b64_char b \<Longrightarrow> str_trim s = s"
proof -
  have start: "trim_start s = s" if "\<forall>b\<in>set s. b64_char b" for s
    using that b64_char_plain by (cases s) (auto simp: white2_def white3_def split: list.splits)
  have "trim_end s = s" if "\<forall>b\<in>set s. b64_char b" for s
    using that
  proof (induction s)
    case (Cons a r)
    then show ?case using start [of "a # r"] by (simp del: trim_start.simps)
  qed simp
  then show "\<forall>b\<in>set s. b64_char b \<Longrightarrow> str_trim s = s" using start by (simp add: str_trim_def)
qed

lemma lines_of_lines:
  assumes "\<forall>b\<in>set bs. NL \<notin> set b \<and> 0x0D \<notin> set b"
  shows "str_lines (concat (map (\<lambda>b. b @ [NL]) bs)) = bs"
proof -
  have "strip_cr b = b" if "b \<in> set bs" for b
    using assms that last_in_set unfolding strip_cr_def by metis
  then have "map strip_cr bs = bs" by (simp add: map_idI)
  moreover have "split_lines (concat (map (\<lambda>b. b @ [NL]) bs)) = bs @ [[]]"
    by (rule split_lines_lines) (use assms in blast)
  ultimately show ?thesis by (simp add: str_lines_def Let_def)
qed

lemma shift_newlines: "concat (map (\<lambda>c. NL # c) cs) @ [NL] = NL # concat (map (\<lambda>b. b @ [NL]) cs)"
  by (induction cs) auto

lemma decode_encode_public:
  assumes "b64_laws B"
  shows "decode_public B (encode_public B bs) = Inr bs"
proof -
  let ?cs = "chunks_of 64 (b64_enc B bs)"
  have cs: "\<forall>c\<in>set ?cs. c \<noteq> [] \<and> (\<forall>b\<in>set c. b64_char b)"
    using chunks_of_ne b64_lawsD(2) [OF assms] by blast
  have u: "\<forall>c\<in>set ?cs. utf8_valid c" using cs b64_char_plain by (auto intro!: utf8_valid_ascii)
  then have m: "map (\<lambda>chunk. NL # (if utf8_valid chunk then chunk else [])) ?cs = map (\<lambda>c. NL # c) ?cs" by simp
  have e: "encode_public B bs = concat (map (\<lambda>b. b @ [NL]) (PUBLIC_LABEL # ?cs))"
    unfolding encode_public_def Let_def m by (simp add: shift_newlines)
  have p: "NL \<notin> set PUBLIC_LABEL \<and> 0x0D \<notin> set PUBLIC_LABEL" "0x2D \<in> set PUBLIC_LABEL"
    by (simp_all add: PUBLIC_LABEL_def ascii_def NL_def)
  have l: "str_lines (encode_public B bs) = PUBLIC_LABEL # ?cs"
    unfolding e by (rule lines_of_lines) (use p cs b64_char_plain in auto)
  have "\<not> starts_with c PUBLIC_LABEL" if "c \<in> set ?cs" for c
  proof
    assume "starts_with c PUBLIC_LABEL"
    then have "0x2D \<in> set c" using p(2) by (metis in_set_takeD starts_with_def)
    then show False using cs that b64_char_plain by blast
  qed
  then have "filter (\<lambda>line. str_trim line \<noteq> [] \<and> \<not> starts_with line PUBLIC_LABEL) ?cs = ?cs"
    using cs by (intro filter_True ballI) (simp add: trim_b64)
  then have "decode_public B (encode_public B bs) = ok_or (b64_dec B (str_trim (concat ?cs))) KMalformed"
    unfolding decode_public_def l Let_def by (simp add: starts_with_def)
  also have "\<dots> = Inr bs" using b64_lawsD [OF assms, of bs] by (simp add: trim_b64)
  finally show ?thesis .
qed


section \<open>A concrete instance\<close>

definition ref_keyring :: keyring_api where
  "ref_keyring = \<lparr>argon_params_ok = (\<lambda>m t p. True), argon_hash = (\<lambda>m t p pw salt. Some (ref_hash (pw @ salt))),
     hkdf_from_prk = (\<lambda>prk info. ref_hash (info @ prk)), nfc = (\<lambda>s. s), nfd = (\<lambda>s. s)\<rparr>"

lemma keyring_laws_ref: "keyring_laws ref_keyring"
  by (simp add: keyring_laws_def ref_keyring_def)

lemma demo_passphrase: "char_count (nfc ref_keyring (ascii ''correct horse'')) = 13"
  "length (nfc ref_keyring (ascii ''correct horse'')) < 2 ^ 32"
  by (simp_all add: ref_keyring_def char_count_def ascii_def utf8_cont_def)

section \<open>Properties\<close>

text \<open>A seed sealed under an acceptable passphrase always gives a 95-byte key file, and every
  spelling of the passphrase with the same NFC form opens it again to the same seed and purpose. The
  encryption-only reader returns the seed of an encryption key and refuses an identity by name.\<close>

theorem key_file_round_trip:
  assumes "crypto_laws A" "keyring_laws K" "nfc K p = nfc K q"
    and "MIN_PASSPHRASE_LEN \<le> char_count (nfc K p)" "length (nfc K p) < 2 ^ 32"
    and "length seed = SEED_LEN" "length salt = SALT_LEN" "length nonce = KEY_NONCE_LEN"
  shows "\<exists>bs. protect_seed A K (Some salt) (Some nonce) seed p purpose = Inr bs \<and> length bs = SEALED_LEN \<and>
    unprotect_seed A K bs q = Inr (seed, purpose) \<and>
    unprotect A K bs q = (if purpose = Encryption then Inr seed else Inl (WrongPurpose Encryption Identity))"
proof -
  obtain bs where bs: "protect_seed A K (Some salt) (Some nonce) seed p purpose = Inr bs"
    using protect_total [OF assms(1,2) _ assms(5), of salt seed nonce purpose] assms(4,6,7)
    unfolding MIN_PASSPHRASE_LEN_def key_layout by blast
  then have u: "unprotect_seed A K bs q = Inr (seed, purpose) \<and> length bs = SEALED_LEN"
    using unprotect_protected [OF assms(1-3) bs] assms(7,8) by (simp add: key_layout)
  then show ?thesis using bs unprotect_of_seed [of A K bs q seed purpose] assms(6) by (auto simp: key_layout)
qed

theorem key_file_round_trip_witness:
  "\<exists>bs. protect_seed ref_crypto ref_keyring (Some (replicate 16 1)) (Some (replicate 12 2)) (replicate 32 3)
          (ascii ''correct horse'') Identity = Inr bs \<and>
        unprotect_seed ref_crypto ref_keyring bs (ascii ''correct horse'') = Inr (replicate 32 3, Identity)"
  using key_file_round_trip [OF crypto_laws_ref keyring_laws_ref refl, of "ascii ''correct horse''"
      "replicate 32 3" "replicate 16 1" "replicate 12 2" Identity] demo_passphrase
  by (auto simp: key_layout MIN_PASSPHRASE_LEN_def)

text \<open>C33. Nothing is returned from a key file that was not sealed into it: an opened file is exactly a
  header of version 1 or 2 with bounded Argon2 parameters, followed by the sealing of the returned seed
  under the key stretched from one of the three spellings of the passphrase, with that header, and so
  with the purpose byte, as associated data.\<close>

theorem key_file_genuine:
  assumes "crypto_laws A" "unprotect_seed A K bs p = Inr (seed, purpose)"
  shows "\<exists>version params salt nonce c k.
    (version = FORMAT_VERSION \<or> version = LEGACY_VERSION \<and> purpose = Encryption) \<and>
    params_ok params \<and> length salt = SALT_LEN \<and> length nonce = KEY_NONCE_LEN \<and> length seed = SEED_LEN \<and>
    c \<in> {nfc K p, p, nfd K p} \<and> params_derive K params c salt = Inr k \<and>
    bs = file_header version params salt nonce purpose
         @ sealed A k nonce (file_header version params salt nonce purpose) seed"
proof -
  from assms obtain v ps salt nonce c k where
    "file_shape v ps salt nonce purpose (sealed A k nonce (file_header v ps salt nonce purpose) seed)"
    "c \<in> {nfc K p, p, nfd K p}" "params_derive K ps c salt = Inr k" "length seed = 32"
    "bs = file_header v ps salt nonce purpose @ sealed A k nonce (file_header v ps salt nonce purpose) seed"
    by (rule unprotect_genuine)
  then show ?thesis unfolding file_shape_def key_layout by blast
qed

theorem key_file_genuine_witness:
  "\<exists>bs version params salt nonce k.
     unprotect_seed ref_crypto ref_keyring bs (ascii ''correct horse'') = Inr (replicate 32 3, Encryption) \<and>
     bs = file_header version params salt nonce Encryption
          @ sealed ref_crypto k nonce (file_header version params salt nonce Encryption) (replicate 32 3)"
proof -
  obtain bs where "protect_seed ref_crypto ref_keyring (Some (replicate 16 1)) (Some (replicate 12 2)) (replicate 32 3)
      (ascii ''correct horse'') Encryption = Inr bs"
    using protect_total [OF crypto_laws_ref keyring_laws_ref, of "ascii ''correct horse''" "replicate 16 1" "replicate 32 3"]
      demo_passphrase by auto
  then have u: "unprotect_seed ref_crypto ref_keyring bs (ascii ''correct horse'') = Inr (replicate 32 3, Encryption)"
    using unprotect_protected [OF crypto_laws_ref keyring_laws_ref refl] by simp
  from key_file_genuine [OF crypto_laws_ref u] u show ?thesis by blast
qed



text \<open>Every surface reads a key the same way: opening the sealed file of a master seed gives the
  encryption key that opening the raw seed gives, and for an encryption-only file \<open>open\<close> and
  \<open>unprotect\<close> agree.\<close>

theorem key_open_agrees:
  assumes "crypto_laws A" "keyring_laws K" "length salt = SALT_LEN" "length nonce = KEY_NONCE_LEN"
    and "\<not> starts_with seed KEY_MAGIC"
    and "protect_identity A K (Some salt) (Some nonce) seed p = Inr bs"
    and "protect A K (Some salt) (Some nonce) seed p = Inr bs'"
  shows "key_open A K bs (Some p) = key_open A K seed None \<and>
    key_open A K bs' (Some p) = unprotect A K bs' p \<and> unprotect A K bs' p = Inr seed"
proof -
  have l: "length seed = 32" using assms(6) by (auto simp: protect_identity_def protect_seed_def Let_def key_layout split: if_splits)
  have u: "unprotect_seed A K bs p = Inr (seed, Identity)" "unprotect_seed A K bs' p = Inr (seed, Encryption)"
    using unprotect_protected [OF assms(1,2) refl] assms(3,4,6,7) by (simp_all add: protect_identity_def protect_def key_layout)
  have "key_open A K seed None = Inr (hkdf_from_prk K seed ENCRYPTION_INFO)"
    using assms(2,5) l by (simp add: key_open_def inspect_def key_layout recipient_secret_eq)
  then show ?thesis using key_open_of_seed [OF assms(2) _ l] unprotect_of_seed [OF _ l] u by simp
qed

theorem key_open_agrees_witness:
  "\<exists>bs. protect_identity ref_crypto ref_keyring (Some (replicate 16 1)) (Some (replicate 12 2)) (replicate 32 3)
      (ascii ''correct horse'') = Inr bs \<and>
    key_open ref_crypto ref_keyring bs (Some (ascii ''correct horse'')) = key_open ref_crypto ref_keyring (replicate 32 3) None"
proof -
  have "\<exists>bs. protect_seed ref_crypto ref_keyring (Some (replicate 16 1)) (Some (replicate 12 2)) (replicate 32 3)
      (ascii ''correct horse'') u = Inr bs" for u
    using protect_total [OF crypto_laws_ref keyring_laws_ref, of "ascii ''correct horse''" "replicate 16 1" "replicate 32 3"]
      demo_passphrase by auto
  then obtain bs bs' where b: "protect_identity ref_crypto ref_keyring (Some (replicate 16 1)) (Some (replicate 12 2)) (replicate 32 3)
      (ascii ''correct horse'') = Inr bs"
    "protect ref_crypto ref_keyring (Some (replicate 16 1)) (Some (replicate 12 2)) (replicate 32 3)
      (ascii ''correct horse'') = Inr bs'"
    unfolding protect_identity_def protect_def by metis
  have "\<not> starts_with (replicate 32 3) KEY_MAGIC" by (simp add: starts_with_def KEY_MAGIC_def ascii_def)
  from key_open_agrees [OF crypto_laws_ref keyring_laws_ref _ _ this b] b show ?thesis by (simp add: key_layout)
qed

text \<open>A public key written as text is read back.\<close>

theorem public_text_round_trip:
  assumes "b64_laws B"
  shows "decode_public B (encode_public B bs) = Inr bs"
  by (rule decode_encode_public [OF assms])

end
