(* ===== verification/Hide_Epoch_Store.thy ===== *)
theory Hide_Epoch_Store
  imports Hide_Keyring Hide_Cbor
begin

text \<open>
  \<open>crates/hide-keyring/src/epoch_store.rs\<close>: one passphrase-sealed file with every live epoch secret.
  The \<open>BTreeMap\<close> of entries is the list of its key/value pairs in ascending order of the key. Argon2 and
  normalisation come from \<open>keyring_api\<close>, the AEAD from \<open>crypto_api\<close>, CBOR from \<open>cbor_api\<close>; writing CBOR
  into a vector cannot fail. The random nonces of one sealing are a function \<open>nonce\<close>: the result of the
  i-th call.
\<close>

section \<open>Ordered maps\<close>

type_synonym 'v btree = "(u64 \<times> 'v) list"

primrec bt_insert :: "u64 \<Rightarrow> 'v \<Rightarrow> 'v btree \<Rightarrow> 'v btree" where
  "bt_insert k v [] = [(k, v)]"
| "bt_insert k v (e # m) =
     (if k < fst e then (k, v) # e # m else if k = fst e then (k, v) # m else e # bt_insert k v m)"

definition bt_remove :: "u64 \<Rightarrow> 'v btree \<Rightarrow> 'v btree" where
  "bt_remove k m = filter (\<lambda>e. fst e \<noteq> k) m"

definition bt_ok :: "'v btree \<Rightarrow> bool" where
  "bt_ok m = sorted_wrt (<) (map fst m)"

text \<open>A strictly ascending list of pairs is determined by the lookups in it.\<close>

lemma assoc_rebuild: "distinct (map fst xs) \<Longrightarrow> map (\<lambda>k. (k, the (map_of xs k))) (map fst xs) = xs"
  unfolding map_map by (rule map_idI) auto

lemma sorted_assoc_eq:
  fixes xs ys :: "'v btree"
  assumes "sorted_wrt (<) (map fst xs)" "sorted_wrt (<) (map fst ys)" "map_of xs = map_of ys"
  shows "xs = ys"
proof -
  have "set (map fst xs) = set (map fst ys)" using assms(3) by (metis dom_map_of_conv_image_fst image_set)
  then have "map fst xs = map fst ys" using strict_sorted_equal [OF assms(1,2)] by simp
  moreover have "distinct (map fst xs)" "distinct (map fst ys)" using assms(1,2) strict_sorted_iff by blast+
  ultimately show ?thesis using assoc_rebuild [of xs] assoc_rebuild [of ys] assms(3) by simp
qed

text \<open>The contract of the map: lookups after updates, and a key order that makes the sequence of entries
  a function of the contents.\<close>

locale ordered_map =
  fixes ok :: "'m \<Rightarrow> bool"
    and look :: "'m \<Rightarrow> u64 \<Rightarrow> 'v option"
    and ins :: "u64 \<Rightarrow> 'v \<Rightarrow> 'm \<Rightarrow> 'm"
    and del :: "u64 \<Rightarrow> 'm \<Rightarrow> 'm"
    and items :: "'m \<Rightarrow> (u64 \<times> 'v) list"
  assumes ins_ok: "ok m \<Longrightarrow> ok (ins k v m)"
    and del_ok: "ok m \<Longrightarrow> ok (del k m)"
    and look_ins: "ok m \<Longrightarrow> look (ins k v m) = (look m)(k \<mapsto> v)"
    and look_del: "ok m \<Longrightarrow> look (del k m) = (look m)(k := None)"
    and items_sorted: "ok m \<Longrightarrow> sorted_wrt (<) (map fst (items m))"
    and items_look: "ok m \<Longrightarrow> map_of (items m) = look m"
begin

lemma items_distinct: "ok m \<Longrightarrow> distinct (map fst (items m))"
  using items_sorted strict_sorted_iff by blast

lemma keys_dom: "ok m \<Longrightarrow> fst ` set (items m) = dom (look m)"
  by (metis dom_map_of_conv_image_fst items_look)

text \<open>Two maps with the same contents list the same entries.\<close>

lemma items_eq: "ok m \<Longrightarrow> ok m' \<Longrightarrow> look m = look m' \<Longrightarrow> items m = items m'"
  using sorted_assoc_eq items_sorted items_look by metis

lemma del_ins: "ok m \<Longrightarrow> look (del k (ins k v m)) = (look m)(k := None)"
  by (simp add: look_del look_ins ins_ok)

text \<open>Inserting in ascending order appends.\<close>

lemma ins_items:
  assumes "ok m" "\<forall>e\<in>set (items m). fst e < k"
  shows "items (ins k v m) = items m @ [(k, v)]"
proof (rule sorted_assoc_eq)
  have "look m k = None"
    using assms by (metis imageE keys_dom domIff less_irrefl)
  then show "map_of (items (ins k v m)) = map_of (items m @ [(k, v)])"
    using assms by (auto simp: items_look ins_ok look_ins fun_eq_iff map_add_def split: option.splits)
  show "sorted_wrt (<) (map fst (items m @ [(k, v)]))"
    using items_sorted [OF assms(1)] assms(2) by (auto simp: sorted_wrt_append)
qed (simp add: items_sorted ins_ok assms)

lemma fold_ins_items:
  assumes "ok m" "items m = []" "sorted_wrt (<) (map fst es)"
  shows "ok (foldl (\<lambda>m e. ins (fst e) (snd e) m) m es) \<and> items (foldl (\<lambda>m e. ins (fst e) (snd e) m) m es) = es"
  using assms
proof (induction es rule: rev_induct)
  case (snoc e es)
  let ?m = "foldl (\<lambda>m e. ins (fst e) (snd e) m) m es"
  have m: "ok ?m" "items ?m = es" using snoc by (auto simp: sorted_wrt_append)
  moreover have "\<forall>x\<in>set (items ?m). fst x < fst e" using snoc.prems(3) m(2) by (auto simp: sorted_wrt_append)
  ultimately show ?case using ins_items [OF m(1)] ins_ok by simp
qed simp

end

lemma bt_insert_keys: "fst ` set (bt_insert k v m) = insert k (fst ` set m)"
  by (induction m) auto

lemma bt_insert_ok: "bt_ok m \<Longrightarrow> bt_ok (bt_insert k v m)"
proof (induction m)
  case (Cons e m)
  then show ?case using bt_insert_keys [of k v m] by (auto simp: bt_ok_def simp flip: image_set)
qed (simp add: bt_ok_def)

lemma bt_insert_look: "bt_ok m \<Longrightarrow> map_of (bt_insert k v m) = (map_of m)(k \<mapsto> v)"
proof (induction m)
  case (Cons e m)
  then show ?case by (cases e) (auto simp: bt_ok_def fun_eq_iff)
qed simp

lemma bt_remove_look: "map_of (bt_remove k m) = (map_of m)(k := None)"
  unfolding bt_remove_def by (induction m) (auto simp: fun_eq_iff)

interpretation bt: ordered_map bt_ok map_of bt_insert bt_remove "\<lambda>m. m"
proof (unfold_locales, goal_cases)
  case (2 m k)
  then show ?case unfolding bt_ok_def bt_remove_def by (simp add: sorted_wrt_map sorted_wrt_filter)
qed (simp_all add: bt_insert_ok bt_insert_look bt_remove_look, simp add: bt_ok_def)

lemma bt_insert_length: "length (bt_insert k v m) \<le> Suc (length m)"
  by (induction m) auto

lemma bt_replace_length: "bt_ok m \<Longrightarrow> k \<in> fst ` set m \<Longrightarrow> length (bt_insert k v m) = length m"
  by (induction m) (auto simp: bt_ok_def)

section \<open>The store\<close>

definition STORE_MAGIC :: bytes where
  "STORE_MAGIC = ascii ''HIDE-EPK''"

definition STORE_VERSION :: byte where
  "STORE_VERSION = 1"

definition HEAD_LEN :: nat where
  "HEAD_LEN = 32"

definition STORE_SEALED_LEN :: nat where
  "STORE_SEALED_LEN = SEED_LEN + KEY_TAG_LEN"

definition PARAMS_AT :: nat where
  "PARAMS_AT = length STORE_MAGIC + 1"

definition SALT_AT :: nat where
  "SALT_AT = PARAMS_AT + PARAMS_LEN"

definition HEAD_AT :: nat where
  "HEAD_AT = SALT_AT + SALT_LEN"

definition BODY_LEN_AT :: nat where
  "BODY_LEN_AT = HEAD_AT + HEAD_LEN"

definition STORE_HEADER_LEN :: nat where
  "STORE_HEADER_LEN = BODY_LEN_AT + 4"

definition TRAILER_LEN :: nat where
  "TRAILER_LEN = KEY_NONCE_LEN + KEY_TAG_LEN"

definition STORE_MAX_ENTRIES :: nat where
  "STORE_MAX_ENTRIES = 65536"

definition MAX_ENTRY_BYTES :: nat where
  "MAX_ENTRY_BYTES = 1 + 9 + (1 + KEY_NONCE_LEN) + (2 + STORE_SEALED_LEN)"

definition MAX_BODY_LEN :: nat where
  "MAX_BODY_LEN = 5 + STORE_MAX_ENTRIES * MAX_ENTRY_BYTES"

definition MAX_FILE_LEN :: nat where
  "MAX_FILE_LEN = STORE_HEADER_LEN + MAX_BODY_LEN + TRAILER_LEN"

record EpochStore =
  st_chain_head :: bytes
  st_entries :: "bytes btree"

definition store_new :: "bytes \<Rightarrow> EpochStore" where
  "store_new chain_head = \<lparr>st_chain_head = chain_head, st_entries = []\<rparr>"

definition store_insert :: "u64 \<Rightarrow> bytes \<Rightarrow> EpochStore \<Rightarrow> KeyringError + EpochStore" where
  "store_insert number secret st =
     (if number \<notin> fst ` set (st_entries st) \<and> STORE_MAX_ENTRIES \<le> length (st_entries st)
        then Inl (TooManyEntries STORE_MAX_ENTRIES)
      else
        bindR (map_err (KCrypto \<circ> FromCrypto) (secret_from_bytes secret)) (\<lambda>copy.
          Inr (st\<lparr>st_entries := bt_insert number copy (st_entries st)\<rparr>)))"

definition store_remove :: "u64 \<Rightarrow> EpochStore \<Rightarrow> bool \<times> EpochStore" where
  "store_remove number st =
     (map_of (st_entries st) number \<noteq> None, st\<lparr>st_entries := bt_remove number (st_entries st)\<rparr>)"

definition store_get :: "EpochStore \<Rightarrow> u64 \<Rightarrow> bytes option" where
  "store_get st number = map_of (st_entries st) number"

definition store_numbers :: "EpochStore \<Rightarrow> u64 list" where
  "store_numbers st = map fst (st_entries st)"

definition store_iter :: "EpochStore \<Rightarrow> (u64 \<times> bytes) list" where
  "store_iter st = st_entries st"

definition into_secrets :: "EpochStore \<Rightarrow> (u64 \<times> bytes) list" where
  "into_secrets st = st_entries st"

definition store_len :: "EpochStore \<Rightarrow> nat" where
  "store_len st = length (st_entries st)"

definition store_is_empty :: "EpochStore \<Rightarrow> bool" where
  "store_is_empty st \<longleftrightarrow> st_entries st = []"

definition set_chain_head :: "bytes \<Rightarrow> EpochStore \<Rightarrow> EpochStore" where
  "set_chain_head chain_head st = st\<lparr>st_chain_head := chain_head\<rparr>"

subsection \<open>Encoding\<close>

record RawEntry =
  re_number :: u64
  re_nonce :: bytes
  re_sealed :: bytes

definition encode_store_header :: "Argon2Params \<Rightarrow> bytes \<Rightarrow> bytes \<Rightarrow> bytes \<Rightarrow> bytes" where
  "encode_store_header params salt chain_head body_len =
     STORE_MAGIC @ [STORE_VERSION] @ params_encode params @ salt @ chain_head @ body_len"

definition encode_store_entry :: "cbor_api \<Rightarrow> RawEntry \<Rightarrow> bytes" where
  "encode_store_entry C e =
     enc_array C 3 @ enc_u64 C (re_number e) @ enc_bytes C (re_nonce e) @ enc_bytes C (re_sealed e)"

definition encode_body :: "cbor_api \<Rightarrow> RawEntry list \<Rightarrow> bytes" where
  "encode_body C entries = enc_array C (len64 entries) @ concat (map (encode_store_entry C) entries)"

definition entry_aad :: "bytes \<Rightarrow> u64 \<Rightarrow> bytes" where
  "entry_aad header number = header @ be64 number"

definition seal_seed :: "crypto_api \<Rightarrow> bytes \<Rightarrow> bytes \<Rightarrow> u64 \<Rightarrow> bytes \<Rightarrow> bytes \<Rightarrow> KeyringError + bytes" where
  "seal_seed A cipher header number nonce secret =
     (if length secret \<noteq> SEED_LEN then Inl KMalformed
      else
        bindR (ok_or (aead_enc A cipher nonce (entry_aad header number) secret)
                 (KCrypto (SealingFailed ''sealing an epoch secret failed''))) (\<lambda>(buffer, tag).
          Inr (buffer @ tag)))"

text \<open>\<open>u32::try_from\<close> of a length.\<close>

definition u32_try_from :: "nat \<Rightarrow> u32 option" where
  "u32_try_from n = (if n < 2 ^ 32 then Some (of_nat n) else None)"

text \<open>Numbers, nonces and sealed seeds zipped into entries.\<close>

definition zip_entries :: "u64 list \<Rightarrow> bytes list \<Rightarrow> bytes list \<Rightarrow> RawEntry list" where
  "zip_entries ns ivs ss =
     map (\<lambda>(n, iv, s). \<lparr>re_number = n, re_nonce = iv, re_sealed = s\<rparr>) (zip ns (zip ivs ss))"

definition seal_with ::
  "crypto_api \<Rightarrow> keyring_api \<Rightarrow> cbor_api \<Rightarrow> EpochStore \<Rightarrow> str \<Rightarrow> bytes \<Rightarrow> (nat \<Rightarrow> KeyringError + bytes) \<Rightarrow> KeyringError + bytes" where
  "seal_with A K C st passphrase salt nonce =
     (let passphrase = normalize_passphrase K passphrase in
      if char_count passphrase < MIN_PASSPHRASE_LEN then Inl (PassphraseTooShort MIN_PASSPHRASE_LEN)
      else if STORE_MAX_ENTRIES < length (st_entries st) then Inl (TooManyEntries STORE_MAX_ENTRIES)
      else
        let numbers = map fst (st_entries st) in
        bindR (mapR nonce [0..<length (st_entries st)]) (\<lambda>nonces.
        let placeholder = replicate STORE_SEALED_LEN 0;
            sized = encode_body C (zip_entries numbers nonces (map (\<lambda>_. placeholder) nonces))
        in bindR (ok_or (u32_try_from (length sized)) KMalformed) (\<lambda>body_len.
        let header = encode_store_header WRITER salt (st_chain_head st) (be32 body_len) in
        bindR (params_derive K WRITER passphrase salt) (\<lambda>cipher.
        bindR (mapR (\<lambda>((number, secret), iv). seal_seed A cipher header number iv secret)
                 (zip (st_entries st) nonces)) (\<lambda>sealed.
        let body = encode_body C (zip_entries numbers nonces sealed); out = header @ body in
        bindR (nonce (length (st_entries st))) (\<lambda>trailer_nonce.
        bindR (ok_or (aead_enc A cipher trailer_nonce out [])
                 (KCrypto (SealingFailed ''sealing the epoch store failed''))) (\<lambda>(_, tag).
          Inr (out @ trailer_nonce @ tag))))))))"

text \<open>\<open>random\<close>: one call of \<open>getrandom\<close>.\<close>

definition random_bytes :: "bytes option \<Rightarrow> KeyringError + bytes" where
  "random_bytes r = ok_or r (KCrypto FromRandom)"

definition store_seal ::
  "crypto_api \<Rightarrow> keyring_api \<Rightarrow> cbor_api \<Rightarrow> bytes option \<Rightarrow> (nat \<Rightarrow> bytes option) \<Rightarrow> EpochStore \<Rightarrow> str \<Rightarrow> KeyringError + bytes" where
  "store_seal A K C rng_salt rng_nonce st passphrase =
     bindR (random_bytes rng_salt) (\<lambda>salt. seal_with A K C st passphrase salt (\<lambda>i. random_bytes (rng_nonce i)))"

subsection \<open>Parsing\<close>

record Layout =
  lo_params :: Argon2Params
  lo_salt :: bytes
  lo_chain_head :: bytes
  lo_header :: bytes
  lo_body_len :: nat
  lo_entries :: "RawEntry list"
  lo_trailer_nonce :: bytes
  lo_trailer_tag :: bytes

text \<open>One turn of the loop in \<open>decode_body\<close>, and the loop.\<close>

definition decode_store_entry :: "cbor_api \<Rightarrow> u64 option \<Rightarrow> bytes \<Rightarrow> KeyringError + RawEntry \<times> bytes" where
  "decode_store_entry C previous s =
     bindR (ok_or (dec_array C s) KMalformed) (\<lambda>(a, s).
     if a \<noteq> Some 3 then Inl KMalformed
     else
       bindR (ok_or (dec_u64 C s) KMalformed) (\<lambda>(number, s).
       if (case previous of None \<Rightarrow> False | Some prior \<Rightarrow> number \<le> prior) then Inl KMalformed
       else
         bindR (ok_or (dec_bytes C s) KMalformed) (\<lambda>(nonce, s).
         if length nonce \<noteq> KEY_NONCE_LEN then Inl KMalformed
         else
           bindR (ok_or (dec_bytes C s) KMalformed) (\<lambda>(sealed, s).
           if length sealed \<noteq> STORE_SEALED_LEN then Inl KMalformed
           else Inr (\<lparr>re_number = number, re_nonce = nonce, re_sealed = sealed\<rparr>, s)))))"

primrec decode_entries ::
  "cbor_api \<Rightarrow> nat \<Rightarrow> u64 option \<Rightarrow> bytes \<Rightarrow> KeyringError + RawEntry list \<times> bytes" where
  "decode_entries C 0 previous s = Inr ([], s)"
| "decode_entries C (Suc n) previous s =
     bindR (decode_store_entry C previous s) (\<lambda>(e, s).
     bindR (decode_entries C n (Some (re_number e)) s) (\<lambda>(es, s). Inr (e # es, s)))"

definition decode_body :: "cbor_api \<Rightarrow> bytes \<Rightarrow> KeyringError + RawEntry list" where
  "decode_body C body =
     bindR (ok_or (dec_array C body) KMalformed) (\<lambda>(declared, s).
     bindR (ok_or declared KMalformed) (\<lambda>declared.
     let count = unat declared in
     if STORE_MAX_ENTRIES < count then Inl (TooManyEntries STORE_MAX_ENTRIES)
     else
       bindR (decode_entries C count None s) (\<lambda>(entries, s).
       if s \<noteq> [] then Inl KMalformed
       else if encode_body C entries \<noteq> body then Inl KMalformed
       else Inr entries)))"

definition store_parse :: "cbor_api \<Rightarrow> bytes \<Rightarrow> KeyringError + Layout" where
  "store_parse C bs =
     (if \<not> starts_with bs STORE_MAGIC then Inl NotAnEpochStore
      else if MAX_FILE_LEN < length bs then Inl KMalformed
      else
        bindR (ok_or (get_at bs (length STORE_MAGIC)) KMalformed) (\<lambda>version.
        if version \<noteq> STORE_VERSION then Inl (UnsupportedKeyVersion version)
        else if length bs < STORE_HEADER_LEN + TRAILER_LEN then Inl KMalformed
        else
          bindR (params_parse (subslice PARAMS_AT SALT_AT bs)) (\<lambda>params.
          let salt = subslice SALT_AT HEAD_AT bs;
              chain_head = subslice HEAD_AT BODY_LEN_AT bs;
              body_len = unat (u32_from_be (subslice BODY_LEN_AT STORE_HEADER_LEN bs))
          in if MAX_BODY_LEN < body_len then Inl KMalformed
             else if length bs \<noteq> STORE_HEADER_LEN + body_len + TRAILER_LEN then Inl KMalformed
             else
               let header = take STORE_HEADER_LEN bs;
                   rest = drop STORE_HEADER_LEN bs;
                   body = take body_len rest;
                   trailer = drop body_len rest
               in bindR (decode_body C body) (\<lambda>entries.
                    Inr \<lparr>lo_params = params, lo_salt = salt, lo_chain_head = chain_head, lo_header = header,
                      lo_body_len = body_len, lo_entries = entries,
                      lo_trailer_nonce = take KEY_NONCE_LEN trailer, lo_trailer_tag = drop KEY_NONCE_LEN trailer\<rparr>))))"

primrec choose_cipher ::
  "crypto_api \<Rightarrow> keyring_api \<Rightarrow> Layout \<Rightarrow> bytes \<Rightarrow> str list \<Rightarrow> KeyringError + bytes option" where
  "choose_cipher A K layout authenticated [] = Inr None"
| "choose_cipher A K layout authenticated (candidate # rest) =
     bindR (params_derive K (lo_params layout) candidate (lo_salt layout)) (\<lambda>cipher.
       if aead_dec A cipher (lo_trailer_nonce layout) authenticated [] (lo_trailer_tag layout) \<noteq> None
       then Inr (Some cipher)
       else choose_cipher A K layout authenticated rest)"

primrec open_entries ::
  "crypto_api \<Rightarrow> bytes \<Rightarrow> bytes \<Rightarrow> bytes btree \<Rightarrow> RawEntry list \<Rightarrow> KeyringError + bytes btree" where
  "open_entries A cipher header entries [] = Inr entries"
| "open_entries A cipher header entries (entry # rest) =
     bindR (ok_or (aead_dec A cipher (re_nonce entry) (entry_aad header (re_number entry))
                     (take SEED_LEN (re_sealed entry)) (drop SEED_LEN (re_sealed entry)))
              WrongPassphrase) (\<lambda>seed.
     bindR (map_err (KCrypto \<circ> FromCrypto) (secret_from_bytes seed)) (\<lambda>secret.
       open_entries A cipher header (bt_insert (re_number entry) secret entries) rest))"

definition store_open :: "crypto_api \<Rightarrow> keyring_api \<Rightarrow> cbor_api \<Rightarrow> bytes \<Rightarrow> str \<Rightarrow> KeyringError + EpochStore" where
  "store_open A K C bs passphrase =
     bindR (store_parse C bs) (\<lambda>layout.
     let authenticated = take (STORE_HEADER_LEN + lo_body_len layout) bs in
     if length (lo_trailer_tag layout) \<noteq> 16 then Inl KMalformed
     else
       bindR (choose_cipher A K layout authenticated (passphrase_candidates K passphrase)) (\<lambda>chosen.
       bindR (ok_or chosen WrongPassphrase) (\<lambda>cipher.
       bindR (open_entries A cipher (lo_header layout) [] (lo_entries layout)) (\<lambda>entries.
         Inr \<lparr>st_chain_head = lo_chain_head layout, st_entries = entries\<rparr>))))"

definition reencode_unauthenticated :: "cbor_api \<Rightarrow> bytes \<Rightarrow> KeyringError + bytes" where
  "reencode_unauthenticated C bs =
     bindR (store_parse C bs) (\<lambda>layout.
     let body = encode_body C (lo_entries layout) in
     bindR (ok_or (u32_try_from (length body)) KMalformed) (\<lambda>body_len.
       Inr (encode_store_header (lo_params layout) (lo_salt layout) (lo_chain_head layout) (be32 body_len)
            @ body @ lo_trailer_nonce layout @ lo_trailer_tag layout)))"

section \<open>Lemmas\<close>

lemma store_lengths [key_layout]:
  "length STORE_MAGIC = 8" "HEAD_LEN = 32" "STORE_SEALED_LEN = 48" "PARAMS_AT = 9" "SALT_AT = 18" "HEAD_AT = 34"
  "BODY_LEN_AT = 66" "STORE_HEADER_LEN = 70" "TRAILER_LEN = 28" "STORE_MAX_ENTRIES = 65536"
  "MAX_ENTRY_BYTES = 73" "MAX_BODY_LEN = 4784133" "MAX_FILE_LEN = 4784231"
proof -
  show m: "length STORE_MAGIC = 8" by (simp add: STORE_MAGIC_def)
qed (simp_all add: STORE_MAGIC_def HEAD_LEN_def STORE_SEALED_LEN_def PARAMS_AT_def SALT_AT_def HEAD_AT_def BODY_LEN_AT_def
    STORE_HEADER_LEN_def TRAILER_LEN_def STORE_MAX_ENTRIES_def MAX_ENTRY_BYTES_def MAX_BODY_LEN_def MAX_FILE_LEN_def
    SEED_LEN_def KEY_TAG_LEN_def PARAMS_LEN_def SALT_LEN_def KEY_NONCE_LEN_def)

subsection \<open>The body\<close>

definition raw_entry_ok :: "RawEntry \<Rightarrow> bool" where
  "raw_entry_ok e \<longleftrightarrow> length (re_nonce e) = 12 \<and> length (re_sealed e) = 48"

definition entries_ok :: "RawEntry list \<Rightarrow> bool" where
  "entries_ok es \<longleftrightarrow> sorted_wrt (<) (map re_number es) \<and> length es \<le> 65536 \<and> (\<forall>e\<in>set es. raw_entry_ok e)"

definition above :: "u64 option \<Rightarrow> u64 \<Rightarrow> bool" where
  "above previous n \<longleftrightarrow> (case previous of None \<Rightarrow> True | Some p \<Rightarrow> p < n)"

lemma not_above: "(case prev of None \<Rightarrow> False | Some prior \<Rightarrow> n \<le> prior) \<longleftrightarrow> \<not> above prev n"
  by (auto simp: above_def split: option.splits)

lemma decode_entry_enc:
  assumes "cbor_laws C" "raw_entry_ok e" "above prev (re_number e)"
  shows "decode_store_entry C prev (encode_store_entry C e @ r) = Inr (e, r)"
  using assms by (simp add: decode_store_entry_def encode_store_entry_def cbor_read_back [OF assms(1)] key_layout
      raw_entry_ok_def not_above)

lemma decode_entry_sound:
  assumes "decode_store_entry C prev s = Inr (e, t)"
  shows "raw_entry_ok e \<and> above prev (re_number e)"
  using assms unfolding decode_store_entry_def not_above by (elim result_steps) (auto simp: raw_entry_ok_def key_layout)

lemma above_trans: "above prev n \<Longrightarrow> above (Some n) m \<Longrightarrow> above prev m"
  by (auto simp: above_def split: option.splits)

lemma decode_entries_enc:
  assumes "cbor_laws C" "sorted_wrt (<) (map re_number es)" "\<forall>e\<in>set es. raw_entry_ok e \<and> above prev (re_number e)"
  shows "decode_entries C (length es) prev (concat (map (encode_store_entry C) es) @ r) = Inr (es, r)"
  using assms(2,3)
proof (induction es arbitrary: prev)
  case (Cons e es)
  have "decode_entries C (length es) (Some (re_number e)) (concat (map (encode_store_entry C) es) @ r) = Inr (es, r)"
    using Cons by (intro Cons.IH) (auto simp: above_def)
  then show ?case using decode_entry_enc [OF assms(1)] Cons.prems(2) by simp
qed simp

lemma decode_entries_sound:
  assumes "decode_entries C n prev s = Inr (es, t)"
  shows "length es = n \<and> sorted_wrt (<) (map re_number es) \<and> (\<forall>e\<in>set es. raw_entry_ok e \<and> above prev (re_number e))"
  using assms
proof (induction n arbitrary: prev s es)
  case (Suc n)
  from Suc.prems obtain e es' s' where e: "es = e # es'" "decode_store_entry C prev s = Inr (e, s')"
      "decode_entries C n (Some (re_number e)) s' = Inr (es', t)"
    unfolding decode_entries.simps by (elim result_steps) auto
  show ?case using Suc.IH [OF e(3)] decode_entry_sound [OF e(2)] above_trans by (auto simp: e(1)) (auto simp: above_def)
qed simp

interpretation sb: canonical_codec cbor_laws "\<lambda>_. entries_ok" encode_body decode_body
proof (unfold_locales, goal_cases)
  case (1 C es)
  have n: "unat (len64 es) = length es" using 1(2) by (intro unat_len64) (simp add: entries_ok_def)
  have "decode_entries C (length es) None (concat (map (encode_store_entry C) es) @ []) = Inr (es, [])"
    by (rule decode_entries_enc) (use 1 in \<open>simp_all add: entries_ok_def above_def\<close>)
  then show ?case using 1 n by (simp add: decode_body_def encode_body_def cbor_read_back [OF 1(1)] entries_ok_def key_layout)
next
  case (2 C bs es)
  obtain count :: u64 and s t where "unat count \<le> 65536" "decode_entries C (unat count) None s = Inr (es, t)"
    "encode_body C es = bs"
    using 2(2) unfolding decode_body_def Let_def key_layout by (elim result_steps) (auto simp: not_less)
  then show ?case using decode_entries_sound by (fastforce simp: entries_ok_def)
qed

subsection \<open>The file\<close>

definition store_encode :: "cbor_api \<Rightarrow> Layout \<Rightarrow> bytes" where
  "store_encode C l =
     encode_store_header (lo_params l) (lo_salt l) (lo_chain_head l) (be32 (of_nat (length (encode_body C (lo_entries l)))))
     @ encode_body C (lo_entries l) @ lo_trailer_nonce l @ lo_trailer_tag l"

definition layout_ok :: "cbor_api \<Rightarrow> Layout \<Rightarrow> bool" where
  "layout_ok C l \<longleftrightarrow>
     params_ok (lo_params l) \<and> length (lo_salt l) = 16 \<and> length (lo_chain_head l) = 32 \<and> entries_ok (lo_entries l) \<and>
     lo_body_len l = length (encode_body C (lo_entries l)) \<and> lo_body_len l \<le> MAX_BODY_LEN \<and>
     lo_header l = encode_store_header (lo_params l) (lo_salt l) (lo_chain_head l) (be32 (of_nat (lo_body_len l))) \<and>
     length (lo_trailer_nonce l) = 12 \<and> length (lo_trailer_tag l) = 16"

lemma length_store_header:
  "length salt = 16 \<Longrightarrow> length h = 32 \<Longrightarrow> length (encode_store_header ps salt h (be32 n)) = 70"
  by (simp add: encode_store_header_def key_layout)

lemma header_slices:
  assumes "length salt = 16" "length h = 32"
  shows "starts_with (encode_store_header ps salt h (be32 n) @ r) STORE_MAGIC"
    "get_at (encode_store_header ps salt h (be32 n) @ r) 8 = Some STORE_VERSION"
    "subslice 9 18 (encode_store_header ps salt h (be32 n) @ r) = params_encode ps"
    "subslice 18 34 (encode_store_header ps salt h (be32 n) @ r) = salt"
    "subslice 34 66 (encode_store_header ps salt h (be32 n) @ r) = h"
    "subslice 66 70 (encode_store_header ps salt h (be32 n) @ r) = be32 n"
  using assms by (simp_all add: encode_store_header_def starts_with_def get_at_def nth_append subslice_def key_layout)

lemma header_split:
  assumes "starts_with bs STORE_MAGIC" "get_at bs 8 = Some STORE_VERSION" "70 \<le> length bs"
    "params_parse (subslice 9 18 bs) = Inr ps"
  shows "encode_store_header ps (subslice 18 34 bs) (subslice 34 66 bs) (subslice 66 70 bs) = take 70 bs"
proof -
  have "params_encode ps = subslice 9 18 bs" using ap.enc_dec [OF _ assms(4)] by simp
  moreover have "take 8 bs = STORE_MAGIC" using assms(1) by (simp add: starts_with_def key_layout)
  moreover have "bs ! 8 = STORE_VERSION" using assms(2) by (simp add: get_at_def split: if_splits)
  ultimately have "encode_store_header ps (subslice 18 34 bs) (subslice 34 66 bs) (subslice 66 70 bs) @ drop 70 bs
      = take 8 bs @ (bs ! 8 # subslice 9 18 bs @ subslice 18 34 bs @ subslice 34 66 bs @ subslice 66 70 bs @ drop 70 bs)"
    by (simp add: encode_store_header_def)
  also have "\<dots> = take 8 bs @ (bs ! 8 # drop 9 bs)" by (simp add: subslice_drop)
  also have "\<dots> = take 70 bs @ drop 70 bs" using assms(3) by (simp add: Cons_nth_drop_Suc [of 8 bs, simplified])
  finally show ?thesis by (simp only: append_same_eq)
qed

lemma parse_encoded:
  assumes "cbor_laws C" "layout_ok C l"
  shows "store_parse C (store_encode C l) = Inr l"
proof -
  let ?body = "encode_body C (lo_entries l)" and ?n = "of_nat (length (encode_body C (lo_entries l))) :: u32"
  let ?h = "encode_store_header (lo_params l) (lo_salt l) (lo_chain_head l) (be32 ?n)"
  let ?r = "?body @ lo_trailer_nonce l @ lo_trailer_tag l"
  have l: "params_ok (lo_params l)" "length (lo_salt l) = 16" "length (lo_chain_head l) = 32" "entries_ok (lo_entries l)"
    "lo_body_len l = length ?body" "length ?body \<le> 4784133" "lo_header l = ?h"
    "length (lo_trailer_nonce l) = 12" "length (lo_trailer_tag l) = 16"
    using assms(2) by (auto simp: layout_ok_def key_layout)
  have n: "unat ?n = length ?body" using l(6) by (simp add: unat_of_nat)
  have p: "params_parse (params_encode (lo_params l)) = Inr (lo_params l)" using ap.dec_enc l(1) by simp
  have b: "decode_body C ?body = Inr (lo_entries l)" using sb.dec_enc [OF assms(1) l(4)] .
  have len: "length (?h @ ?r) = 70 + length ?body + 28" using length_store_header l by simp
  have e: "store_encode C l = ?h @ ?r" by (simp add: store_encode_def)
  have "store_parse C (?h @ ?r) = bindR (Inr (lo_entries l)) (\<lambda>entries.
      Inr \<lparr>lo_params = lo_params l, lo_salt = lo_salt l, lo_chain_head = lo_chain_head l, lo_header = ?h,
        lo_body_len = length ?body, lo_entries = entries, lo_trailer_nonce = lo_trailer_nonce l, lo_trailer_tag = lo_trailer_tag l\<rparr>)"
    unfolding store_parse_def key_layout header_slices [OF l(2,3)] p bindR_simps ok_or_simps Let_def u32_from_be_be32 n len
    using l(6,8,9) length_store_header [OF l(2,3)] b header_slices(1) [OF l(2,3)] by simp
  then show ?thesis using l by (simp add: e)
qed

lemma parse_sound:
  assumes "cbor_laws C" "store_parse C bs = Inr l"
  shows "layout_ok C l \<and> store_encode C l = bs"
proof -
  let ?n = "u32_from_be (subslice 66 70 bs)"
  let ?body = "take (unat ?n) (drop 70 bs)"
  obtain ps es where p: "starts_with bs STORE_MAGIC" "get_at bs 8 = Some STORE_VERSION" "length bs = 70 + unat ?n + 28"
      "params_parse (subslice 9 18 bs) = Inr ps" "unat ?n \<le> 4784133" "decode_body C ?body = Inr es"
    and l: "l = \<lparr>lo_params = ps, lo_salt = subslice 18 34 bs, lo_chain_head = subslice 34 66 bs, lo_header = take 70 bs,
        lo_body_len = unat ?n, lo_entries = es, lo_trailer_nonce = take 12 (drop (unat ?n) (drop 70 bs)),
        lo_trailer_tag = drop 12 (drop (unat ?n) (drop 70 bs))\<rparr>"
    using assms(2) unfolding store_parse_def key_layout Let_def by (elim result_steps) (simp add: not_less)
  have e: "entries_ok es" "encode_body C es = ?body" using sb.enc_dec [OF assms(1) p(6)] by simp_all
  have n: "be32 (of_nat (unat ?n)) = subslice 66 70 bs" using p(3) by (simp add: be32_u32_from_be)
  have h: "encode_store_header ps (subslice 18 34 bs) (subslice 34 66 bs) (subslice 66 70 bs) = take 70 bs"
    using header_split [OF p(1,2) _ p(4)] p(3) by simp
  have len: "length ?body = unat ?n" using p(3) by simp
  have "params_ok ps" using ap.enc_dec [OF _ p(4)] by simp
  then have "layout_ok C l" using e n h len p(3,5) by (simp add: l layout_ok_def key_layout)
  moreover have "store_encode C l = bs" unfolding store_encode_def l
    using e(2) n h len by (simp del: drop_drop add: append_assoc)
  ultimately show ?thesis by blast
qed

interpretation sf: canonical_codec cbor_laws layout_ok store_encode store_parse
  by unfold_locales (simp_all add: parse_encoded parse_sound)

lemma reencode_parsed:
  assumes "cbor_laws C" "store_parse C bs = Inr l"
  shows "reencode_unauthenticated C bs = Inr bs"
proof -
  have l: "layout_ok C l" "store_encode C l = bs" using sf.enc_dec [OF assms] by simp_all
  then have "u32_try_from (length (encode_body C (lo_entries l))) = Some (of_nat (length (encode_body C (lo_entries l))))"
    by (simp add: u32_try_from_def layout_ok_def key_layout)
  then show ?thesis using assms(2) l(2) by (simp add: reencode_unauthenticated_def store_encode_def)
qed

subsection \<open>Sizes\<close>

text \<open>The sizes of the CBOR forms: one byte up to 23, two up to 255, five below 2 to the 32, nine at most.\<close>

definition cbor_sizes :: "cbor_api \<Rightarrow> bool" where
  "cbor_sizes C \<longleftrightarrow>
     (\<forall>n. unat n < 24 \<longrightarrow> length (enc_array C n) \<le> 1) \<and>
     (\<forall>n. unat n < 2 ^ 32 \<longrightarrow> length (enc_array C n) \<le> 5) \<and>
     (\<forall>v. length (enc_u64 C v) \<le> 9) \<and>
     (\<forall>b. length b < 24 \<longrightarrow> length (enc_bytes C b) \<le> 1 + length b) \<and>
     (\<forall>b. length b < 256 \<longrightarrow> length (enc_bytes C b) \<le> 2 + length b)"

lemma cbor_sizes_ref: "cbor_sizes ref_cbor"
  by (auto simp: cbor_sizes_def ref_cbor_def cbor_head_def len64_def unat_of_nat)

lemma entry_bound:
  assumes "cbor_sizes C" "raw_entry_ok e"
  shows "length (encode_store_entry C e) \<le> 73"
proof -
  have "length (enc_array C 3) \<le> 1" "length (enc_u64 C (re_number e)) \<le> 9"
    using assms(1) by (simp_all add: cbor_sizes_def)
  moreover have "length b < 24 \<Longrightarrow> length (enc_bytes C b) \<le> 1 + length b"
      "length b < 256 \<Longrightarrow> length (enc_bytes C b) \<le> 2 + length b" for b
    using assms(1) by (simp_all add: cbor_sizes_def)
  from this(1) [of "re_nonce e"] this(2) [of "re_sealed e"]
  have "length (enc_bytes C (re_nonce e)) \<le> 13" "length (enc_bytes C (re_sealed e)) \<le> 50"
    using assms(2) by (simp_all add: raw_entry_ok_def)
  ultimately show ?thesis by (simp add: encode_store_entry_def)
qed

lemma body_bound:
  assumes "cbor_sizes C" "entries_ok es"
  shows "length (encode_body C es) \<le> MAX_BODY_LEN"
proof -
  have "length (concat (map (encode_store_entry C) es)) \<le> 73 * length es" if "\<forall>e\<in>set es. raw_entry_ok e" for es
    using that entry_bound [OF assms(1)] by (induction es) fastforce+
  then have "length (concat (map (encode_store_entry C) es)) \<le> 73 * length es" using assms(2) by (simp add: entries_ok_def)
  moreover have "unat (len64 es) < 2 ^ 32" using assms(2) by (simp add: entries_ok_def unat_len64)
  then have "length (enc_array C (len64 es)) \<le> 5" using assms(1) by (simp add: cbor_sizes_def)
  ultimately show ?thesis using assms(2) unfolding entries_ok_def encode_body_def key_layout by simp
qed

text \<open>Only the numbers vary in size, so a body with placeholders has the length of the real one.\<close>

lemma body_length_same:
  assumes "cbor_laws C" "length ss = length ss'" "\<forall>s\<in>set ss \<union> set ss'. length s = 48"
  shows "length (encode_body C (zip_entries ns ivs ss)) = length (encode_body C (zip_entries ns ivs ss'))"
proof -
  have "length (concat (map (encode_store_entry C) (zip_entries ns ivs ss)))
      = length (concat (map (encode_store_entry C) (zip_entries ns ivs ss')))"
    using assms(2,3)
  proof (induction ss ss' arbitrary: ns ivs rule: list_induct2)
    case (Cons s ss s' ss')
    show ?case
    proof (cases ns; cases ivs)
      fix n ns' iv ivs' assume n: "ns = n # ns'" "ivs = iv # ivs'"
      have "length (enc_bytes C s) = length (enc_bytes C s')" using cbor_bytes_length [OF assms(1)] Cons.prems by simp
      then show ?case using Cons.IH [of ns' ivs'] Cons.prems by (simp add: n zip_entries_def encode_store_entry_def)
    qed (simp_all add: zip_entries_def)
  qed simp
  moreover have "length (zip_entries ns ivs ss) = length (zip_entries ns ivs ss')" by (simp add: zip_entries_def assms(2))
  ultimately show ?thesis by (simp add: encode_body_def len64_def)
qed

subsection \<open>Sealing and opening\<close>

definition store_ok :: "EpochStore \<Rightarrow> bool" where
  "store_ok st \<longleftrightarrow> bt_ok (st_entries st) \<and> length (st_entries st) \<le> 65536 \<and>
     (\<forall>e\<in>set (st_entries st). length (snd e) = 32) \<and> length (st_chain_head st) = 32"

text \<open>The file that holds a store under given parameters, salt, key and nonces.\<close>

definition seal_entries :: "crypto_api \<Rightarrow> bytes \<Rightarrow> bytes \<Rightarrow> bytes btree \<Rightarrow> bytes list \<Rightarrow> RawEntry list" where
  "seal_entries A k header es ivs =
     map (\<lambda>((n, s), iv). \<lparr>re_number = n, re_nonce = iv, re_sealed = sealed A k iv (entry_aad header n) s\<rparr>) (zip es ivs)"

definition body_size :: "cbor_api \<Rightarrow> EpochStore \<Rightarrow> bytes list \<Rightarrow> nat" where
  "body_size C st ivs =
     length (encode_body C (zip_entries (map fst (st_entries st)) ivs (map (\<lambda>_. replicate STORE_SEALED_LEN 0) ivs)))"

definition store_file ::
  "crypto_api \<Rightarrow> cbor_api \<Rightarrow> Argon2Params \<Rightarrow> bytes \<Rightarrow> bytes \<Rightarrow> bytes list \<Rightarrow> bytes \<Rightarrow> EpochStore \<Rightarrow> Layout" where
  "store_file A C ps salt k ivs tn st =
     (let n = body_size C st ivs;
          header = encode_store_header ps salt (st_chain_head st) (be32 (of_nat n));
          es = seal_entries A k header (st_entries st) ivs
      in \<lparr>lo_params = ps, lo_salt = salt, lo_chain_head = st_chain_head st, lo_header = header, lo_body_len = n,
          lo_entries = es, lo_trailer_nonce = tn, lo_trailer_tag = sealed A k tn (header @ encode_body C es) []\<rparr>)"

lemma seal_entries_zip:
  assumes "length ivs = length es"
  shows "seal_entries A k h es ivs =
    zip_entries (map fst es) ivs (map (\<lambda>((n, s), iv). sealed A k iv (entry_aad h n) s) (zip es ivs))"
  using assms by (induction ivs es rule: list_induct2) (auto simp: seal_entries_def zip_entries_def)

lemma seal_entries_numbers: "length ivs = length es \<Longrightarrow> map re_number (seal_entries A k h es ivs) = map fst es"
  by (induction ivs es rule: list_induct2) (auto simp: seal_entries_def)

lemma sealed_seed_length: "crypto_laws A \<Longrightarrow> length s = 32 \<Longrightarrow> length (sealed A k n a s) = 48"
  using length_sealed [of A s k n a] by simp

lemma seal_entries_ok:
  assumes "crypto_laws A" "store_ok st" "length ivs = length (st_entries st)" "\<forall>iv\<in>set ivs. length iv = 12"
  shows "entries_ok (seal_entries A k h (st_entries st) ivs)"
proof -
  have "raw_entry_ok e" if e: "e \<in> set (seal_entries A k h (st_entries st) ivs)" for e
  proof -
    obtain n s iv where z: "((n, s), iv) \<in> set (zip (st_entries st) ivs)"
      "e = \<lparr>re_number = n, re_nonce = iv, re_sealed = sealed A k iv (entry_aad h n) s\<rparr>"
      using e by (auto simp: seal_entries_def)
    have "length s = 32" using set_zip_leftD [OF z(1)] assms(2) by (fastforce simp: store_ok_def)
    moreover have "length iv = 12" using set_zip_rightD [OF z(1)] assms(4) by blast
    ultimately show ?thesis by (simp add: z(2) raw_entry_ok_def sealed_seed_length [OF assms(1)])
  qed
  moreover have "length (seal_entries A k h (st_entries st) ivs) = length (st_entries st)"
    using assms(3) by (simp add: seal_entries_def)
  ultimately show ?thesis
    using seal_entries_numbers [OF assms(3), of A k h] assms(2) by (simp add: entries_ok_def store_ok_def bt_ok_def)
qed

lemma seal_entries_size:
  assumes "crypto_laws A" "cbor_laws C" "store_ok st" "length ivs = length (st_entries st)"
  shows "length (encode_body C (seal_entries A k h (st_entries st) ivs)) = body_size C st ivs"
  unfolding seal_entries_zip [OF assms(4)] body_size_def
proof (rule body_length_same [OF assms(2)])
  show "\<forall>s\<in>set (map (\<lambda>((n, s), iv). sealed A k iv (entry_aad h n) s) (zip (st_entries st) ivs))
      \<union> set (map (\<lambda>_. replicate STORE_SEALED_LEN 0) ivs). length s = 48"
    using assms(3) sealed_seed_length [OF assms(1)]
    by (auto simp: store_ok_def key_layout dest!: set_zip_leftD)
qed (simp add: assms(4))

lemma store_file_ok:
  assumes "crypto_laws A" "cbor_laws C" "cbor_sizes C" "store_ok st" "params_ok ps" "length salt = 16"
    and "length ivs = length (st_entries st)" "\<forall>iv\<in>set ivs. length iv = 12" "length tn = 12"
  shows "layout_ok C (store_file A C ps salt k ivs tn st)"
proof -
  let ?h = "encode_store_header ps salt (st_chain_head st) (be32 (of_nat (body_size C st ivs)))"
  have e: "entries_ok (seal_entries A k ?h (st_entries st) ivs)" by (rule seal_entries_ok [OF assms(1,4,7,8)])
  have n: "length (encode_body C (seal_entries A k ?h (st_entries st) ivs)) = body_size C st ivs"
    by (rule seal_entries_size [OF assms(1,2,4,7)])
  show ?thesis
    using assms(4-6,9) e n body_bound [OF assms(3) e] length_sealed [OF assms(1), of "[]"]
    by (simp add: layout_ok_def store_file_def Let_def store_ok_def)
qed

lemma mapR_seal:
  assumes "crypto_laws A" "\<forall>e\<in>set es. length (snd e) = 32" "length ivs = length es"
  shows "mapR (\<lambda>((number, secret), iv). seal_seed A k h number iv secret) (zip es ivs)
    = Inr (map (\<lambda>((n, s), iv). sealed A k iv (entry_aad h n) s) (zip es ivs))"
proof (rule mapR_id)
  fix x assume x: "x \<in> set (zip es ivs)"
  obtain n s iv where s: "x = ((n, s), iv)" by (metis surj_pair)
  then have "length s = 32" using x assms(2) by (fastforce dest: set_zip_leftD)
  then show "(case x of (a, b) \<Rightarrow> (case a of (number, secret) \<Rightarrow> \<lambda>iv. seal_seed A k h number iv secret) b)
      = Inr (case x of (a, b) \<Rightarrow> (case a of (n, s) \<Rightarrow> \<lambda>iv. sealed A k iv (entry_aad h n) s) b)"
    using aead_total [OF assms(1), of s k iv "entry_aad h n"] by (auto simp: s seal_seed_def sealed_def key_layout)
qed

lemma seal_with_eq:
  assumes "crypto_laws A" "keyring_laws K" "cbor_laws C" "cbor_sizes C" "store_ok st"
    and "8 \<le> char_count (nfc K p)" "params_derive K WRITER (nfc K p) salt = Inr k" "length salt = 16"
    and "\<forall>i\<le>length (st_entries st). nonce i = Inr (iv i) \<and> length (iv i) = 12"
  shows "seal_with A K C st p salt nonce = Inr (store_encode C
    (store_file A C WRITER salt k (map iv [0..<length (st_entries st)]) (iv (length (st_entries st))) st))"
proof -
  let ?es = "st_entries st" and ?ivs = "map iv [0..<length (st_entries st)]"
  let ?n = "body_size C st ?ivs"
  let ?h = "encode_store_header WRITER salt (st_chain_head st) (be32 (of_nat ?n))"
  let ?ss = "map (\<lambda>((n, s), iv). sealed A k iv (entry_aad ?h n) s) (zip ?es ?ivs)"
  have e: "length ?es \<le> 65536" "\<forall>e\<in>set ?es. length (snd e) = 32" using assms(5) by (simp_all add: store_ok_def)
  have nn: "mapR nonce [0..<length ?es] = Inr ?ivs" using assms(9) by (intro mapR_id) simp
  have "layout_ok C (store_file A C WRITER salt k ?ivs (iv (length ?es)) st)"
    using assms by (intro store_file_ok WRITER_ok) auto
  then have n: "u32_try_from ?n = Some (of_nat ?n)"
    by (simp add: layout_ok_def store_file_def Let_def u32_try_from_def key_layout)
  have z: "zip_entries (map fst ?es) ?ivs ?ss = seal_entries A k ?h ?es ?ivs" by (rule seal_entries_zip [symmetric]) simp
  have len: "length (encode_body C (seal_entries A k ?h ?es ?ivs)) = ?n" by (rule seal_entries_size [OF assms(1,3,5)]) simp
  obtain t where t: "aead_enc A k (iv (length ?es)) (?h @ encode_body C (seal_entries A k ?h ?es ?ivs)) [] = Some ([], t)"
    using aead_total [OF assms(1), of "[]"] aead_len [OF assms(1), of _ _ _ "[]"] by fastforce
  have "seal_with A K C st p salt nonce
      = Inr ((?h @ encode_body C (seal_entries A k ?h ?es ?ivs)) @ iv (length ?es) @ t)"
    unfolding seal_with_def Let_def normalize_passphrase_def nn body_size_def [symmetric] bindR_simps n ok_or_simps assms(7)
      mapR_seal [OF assms(1) e(2), of ?ivs, simplified] z
    using assms(6,9) e t by (simp add: MIN_PASSPHRASE_LEN_def key_layout)
  then show ?thesis using t by (simp add: store_encode_def store_file_def Let_def len sealed_def)
qed

text \<open>The loop that opens the entries, as a map over them followed by insertions.\<close>

definition opens :: "crypto_api \<Rightarrow> bytes \<Rightarrow> bytes \<Rightarrow> RawEntry \<Rightarrow> bytes \<Rightarrow> bool" where
  "opens A k h e s \<longleftrightarrow> length s = 32 \<and> re_sealed e = sealed A k (re_nonce e) (entry_aad h (re_number e)) s"

lemma open_entry_iff:
  assumes "crypto_laws A" "raw_entry_ok e"
  shows "aead_dec A k (re_nonce e) (entry_aad h (re_number e)) (take 32 (re_sealed e)) (drop 32 (re_sealed e)) = Some s
    \<longleftrightarrow> opens A k h e s"
proof -
  have l: "length (re_sealed e) = 48" using assms(2) by (simp add: raw_entry_ok_def)
  show ?thesis using dec_sealed_iff [OF assms(1), of "re_sealed e" k "re_nonce e" "entry_aad h (re_number e)" s]
    by (simp add: l opens_def)
qed

lemma open_entries_iff:
  assumes "crypto_laws A" "\<forall>e\<in>set es. raw_entry_ok e"
  shows "open_entries A k h m es = Inr m' \<longleftrightarrow>
    (\<exists>ss. list_all2 (opens A k h) es ss \<and> m' = foldl (\<lambda>m e. bt_insert (fst e) (snd e) m) m (zip (map re_number es) ss))"
  using assms(2)
proof (induction es arbitrary: m)
  case (Cons e es)
  have "open_entries A k h m (e # es) = Inr m' \<longleftrightarrow>
      (\<exists>s. opens A k h e s \<and> open_entries A k h (bt_insert (re_number e) s m) es = Inr m')"
    using Cons.prems by (auto simp: result_simps key_layout open_entry_iff [OF assms(1)] secret_from_bytes_def
        KEY_LENGTH_def opens_def)
  then show ?case using Cons by (fastforce simp: list_all2_Cons1)
qed auto

lemma zip_rebuild: "length ss = length es \<Longrightarrow> list_all2 (opens A k h) es ss \<Longrightarrow>
  es = seal_entries A k h (zip (map re_number es) ss) (map re_nonce es)"
  by (induction ss es rule: list_induct2) (auto simp: seal_entries_def opens_def)

lemma opens_sealed:
  assumes "length ivs = length es" "\<forall>e\<in>set es. length (snd e) = 32"
  shows "list_all2 (opens A k h) (seal_entries A k h es ivs) (map snd es)"
  using assms by (induction ivs es rule: list_induct2) (auto simp: seal_entries_def opens_def)

lemma choose_cipher_Some:
  assumes "choose_cipher A K l auth cs = Inr (Some k)"
  obtains c where "c \<in> set cs" "params_derive K (lo_params l) c (lo_salt l) = Inr k"
    "aead_dec A k (lo_trailer_nonce l) auth [] (lo_trailer_tag l) \<noteq> None"
  using assms by (induction cs) (auto simp: result_simps split: if_splits)

lemma trailer_iff:
  assumes "crypto_laws A" "length t = 16"
  shows "aead_dec A k n a [] t \<noteq> None \<longleftrightarrow> t = sealed A k n a []"
  using dec_sealed_iff [OF assms(1), of t k n a] assms(2) by auto

lemma authenticated_prefix:
  assumes "layout_ok C l"
  shows "take (STORE_HEADER_LEN + lo_body_len l) (store_encode C l) = lo_header l @ encode_body C (lo_entries l)"
  using assms by (simp add: layout_ok_def store_encode_def key_layout length_store_header)

lemma store_open_encoded:
  assumes "cbor_laws C" "layout_ok C l"
  shows "store_open A K C (store_encode C l) q =
    bindR (choose_cipher A K l (lo_header l @ encode_body C (lo_entries l)) (passphrase_candidates K q)) (\<lambda>chosen.
    bindR (ok_or chosen WrongPassphrase) (\<lambda>k.
    bindR (open_entries A k (lo_header l) [] (lo_entries l)) (\<lambda>es.
      Inr \<lparr>st_chain_head = lo_chain_head l, st_entries = es\<rparr>)))"
proof -
  have "length (lo_trailer_tag l) = 16" using assms(2) by (simp add: layout_ok_def)
  then show ?thesis
    unfolding store_open_def parse_encoded [OF assms] bindR_simps Let_def authenticated_prefix [OF assms(2)] by simp
qed

lemma open_store_file:
  assumes "crypto_laws A" "cbor_laws C" "cbor_sizes C" "store_ok st" "params_ok ps" "length salt = 16"
    and "length ivs = length (st_entries st)" "\<forall>iv\<in>set ivs. length iv = 12" "length tn = 12"
    and "params_derive K ps (nfc K q) salt = Inr k"
  shows "store_open A K C (store_encode C (store_file A C ps salt k ivs tn st)) q = Inr st"
proof -
  let ?l = "store_file A C ps salt k ivs tn st"
  have ok: "layout_ok C ?l" by (rule store_file_ok [OF assms(1-9)])
  have l: "lo_params ?l = ps" "lo_salt ?l = salt" "lo_trailer_nonce ?l = tn" "lo_chain_head ?l = st_chain_head st"
    "lo_trailer_tag ?l = sealed A k tn (lo_header ?l @ encode_body C (lo_entries ?l)) []"
    "lo_entries ?l = seal_entries A k (lo_header ?l) (st_entries st) ivs"
    by (simp_all add: store_file_def Let_def)
  have "length (lo_trailer_tag ?l) = 16" using ok by (simp add: layout_ok_def)
  then have t: "aead_dec A k tn (lo_header ?l @ encode_body C (lo_entries ?l)) [] (lo_trailer_tag ?l) \<noteq> None"
    using trailer_iff [OF assms(1)] l(5) by simp
  obtain r where r: "passphrase_candidates K q = nfc K q # r" using candidates_first by blast
  have z: "zip (map fst (st_entries st)) (map snd (st_entries st)) = st_entries st" by (rule zip_map_fst_snd)
  have "sorted_wrt (<) (map fst (st_entries st))" using assms(4) by (simp add: store_ok_def bt_ok_def)
  then have f: "foldl (\<lambda>m e. bt_insert (fst e) (snd e) m) [] (st_entries st) = st_entries st"
    using bt.fold_ins_items [of "[]" "st_entries st"] by (simp add: bt_ok_def)
  have s: "\<forall>e\<in>set (st_entries st). length (snd e) = 32" using assms(4) by (simp add: store_ok_def)
  have eok: "\<forall>e\<in>set (lo_entries ?l). raw_entry_ok e" using ok by (simp add: layout_ok_def entries_ok_def)
  have o: "list_all2 (opens A k (lo_header ?l)) (lo_entries ?l) (map snd (st_entries st))"
    unfolding l(6) by (rule opens_sealed [OF assms(7) s])
  have nums: "map re_number (lo_entries ?l) = map fst (st_entries st)"
    unfolding l(6) by (rule seal_entries_numbers [OF assms(7)])
  have "open_entries A k (lo_header ?l) [] (lo_entries ?l) = Inr (st_entries st)"
    unfolding open_entries_iff [OF assms(1) eok] nums
    by (rule exI [of _ "map snd (st_entries st)"]) (simp only: o z f simp_thms)
  then show ?thesis unfolding store_open_encoded [OF assms(2) ok] r using t by (simp add: l(1-4) assms(10))
qed

lemma open_genuine:
  assumes "crypto_laws A" "cbor_laws C" "store_open A K C bs p = Inr st"
  obtains ps salt c k ivs tn where "params_ok ps" "length salt = 16" "c \<in> {nfc K p, p, nfd K p}"
    "params_derive K ps c salt = Inr k" "length ivs = length (st_entries st)"
    "bs = store_encode C (store_file A C ps salt k ivs tn st)" "store_ok st"
proof -
  obtain l where l: "store_parse C bs = Inr l" using assms(3) by (auto simp: store_open_def result_simps)
  have ok: "layout_ok C l" and bs: "bs = store_encode C l" using sf.enc_dec [OF assms(2) l] by simp_all
  let ?h = "lo_header l" and ?es = "lo_entries l"
  obtain k where k: "choose_cipher A K l (?h @ encode_body C ?es) (passphrase_candidates K p) = Inr (Some k)"
    and o: "open_entries A k ?h [] ?es = Inr (st_entries st)" and hd: "st_chain_head st = lo_chain_head l"
    using assms(3) unfolding bs store_open_encoded [OF assms(2) ok] by (auto simp: result_simps)
  obtain c where c: "c \<in> set (passphrase_candidates K p)" "params_derive K (lo_params l) c (lo_salt l) = Inr k"
    "aead_dec A k (lo_trailer_nonce l) (?h @ encode_body C ?es) [] (lo_trailer_tag l) \<noteq> None"
    by (rule choose_cipher_Some [OF k])
  have eok: "entries_ok ?es" "\<forall>e\<in>set ?es. raw_entry_ok e" using ok by (simp_all add: layout_ok_def entries_ok_def)
  obtain ss where ss: "list_all2 (opens A k ?h) ?es ss"
    "st_entries st = foldl (\<lambda>m e. bt_insert (fst e) (snd e) m) [] (zip (map re_number ?es) ss)"
    using o open_entries_iff [OF assms(1) eok(2)] by blast
  have n: "length ss = length ?es" using ss(1) by (simp add: list_all2_lengthD)
  have "sorted_wrt (<) (map fst (zip (map re_number ?es) ss))" using eok(1) n by (simp add: entries_ok_def)
  then have st: "st_entries st = zip (map re_number ?es) ss" "bt_ok (st_entries st)"
    using bt.fold_ins_items [of "[]" "zip (map re_number ?es) ss"] ss(2) by (simp_all add: bt_ok_def)
  have es: "?es = seal_entries A k ?h (st_entries st) (map re_nonce ?es)" unfolding st(1) by (rule zip_rebuild [OF n ss(1)])
  have "\<forall>s\<in>set ss. length s = 32" using ss(1) by (auto simp: opens_def list_all2_conv_all_nth in_set_conv_nth)
  then have sok: "store_ok st"
    using st ok hd eok(1) n by (auto simp: store_ok_def layout_ok_def entries_ok_def dest: set_zip_rightD)
  have len: "length (map re_nonce ?es) = length (st_entries st)" using st(1) n by simp
  have size: "body_size C st (map re_nonce ?es) = lo_body_len l"
    using seal_entries_size [OF assms(1,2) sok len, of k ?h] ok unfolding es [symmetric] by (simp add: layout_ok_def)
  have tag: "lo_trailer_tag l = sealed A k (lo_trailer_nonce l) (?h @ encode_body C ?es) []"
    using c(3) trailer_iff [OF assms(1)] ok by (simp add: layout_ok_def)
  have h: "encode_store_header (lo_params l) (lo_salt l) (lo_chain_head l) (be32 (of_nat (lo_body_len l))) = ?h"
    using ok by (simp add: layout_ok_def)
  have "store_file A C (lo_params l) (lo_salt l) k (map re_nonce ?es) (lo_trailer_nonce l) st = l"
    unfolding store_file_def Let_def size h es [symmetric] tag [symmetric] hd by simp
  with c sok len ok show thesis
    using that [of "lo_params l" "lo_salt l" c k "map re_nonce ?es" "lo_trailer_nonce l"] bs
    by (simp add: layout_ok_def candidates_set)
qed

subsection \<open>The operations on a store\<close>

lemma store_new_ok: "length h = 32 \<Longrightarrow> store_ok (store_new h)"
  by (simp add: store_new_def store_ok_def bt_ok_def)

lemma store_insert_eq:
  assumes "store_ok st" "length s = 32" "n \<in> fst ` set (st_entries st) \<or> length (st_entries st) < 65536"
  shows "store_insert n s st = Inr (st\<lparr>st_entries := bt_insert n s (st_entries st)\<rparr>)"
  using assms by (auto simp: store_insert_def secret_from_bytes_def require_len_def KEY_LENGTH_def key_layout)

lemma store_insert_Inr:
  assumes "store_insert n s st = Inr st'"
  shows "st' = st\<lparr>st_entries := bt_insert n s (st_entries st)\<rparr> \<and> length s = 32 \<and>
    (n \<in> fst ` set (st_entries st) \<or> length (st_entries st) < 65536)"
  using assms by (auto simp: store_insert_def secret_from_bytes_def KEY_LENGTH_def key_layout result_simps split: if_splits)

lemma bt_insert_subset: "set (bt_insert k v m) \<subseteq> insert (k, v) (set m)"
  by (induction m) auto

lemma store_insert_ok:
  assumes "store_ok st" "store_insert n s st = Inr st'"
  shows "store_ok st'"
proof -
  have i: "st' = st\<lparr>st_entries := bt_insert n s (st_entries st)\<rparr>" "length s = 32"
    "n \<in> fst ` set (st_entries st) \<or> length (st_entries st) < 65536"
    using store_insert_Inr [OF assms(2)] by blast+
  have b: "bt_ok (st_entries st)" "length (st_entries st) \<le> 65536" using assms(1) by (simp_all add: store_ok_def)
  have "length (bt_insert n s (st_entries st)) \<le> 65536"
    using i(3)
  proof
    assume "n \<in> fst ` set (st_entries st)"
    then show ?thesis using bt_replace_length [OF b(1)] b(2) by simp
  next
    assume "length (st_entries st) < 65536"
    then show ?thesis using bt_insert_length [of n s "st_entries st"] by linarith
  qed
  moreover have "\<forall>e\<in>set (bt_insert n s (st_entries st)). length (snd e) = 32"
    using bt_insert_subset [of n s "st_entries st"] assms(1) i(2) by (auto simp: store_ok_def)
  ultimately show ?thesis using bt.ins_ok [OF b(1), of n s] assms(1) by (simp add: i(1) store_ok_def)
qed

lemma store_remove_ok:
  assumes "store_ok st"
  shows "store_ok (snd (store_remove n st))"
proof -
  have b: "bt_ok (st_entries st)" "length (st_entries st) \<le> 65536" using assms by (simp_all add: store_ok_def)
  have "length (bt_remove n (st_entries st)) \<le> 65536"
    unfolding bt_remove_def by (rule le_trans [OF length_filter_le b(2)])
  moreover have "set (bt_remove n (st_entries st)) \<subseteq> set (st_entries st)" by (auto simp: bt_remove_def)
  ultimately show ?thesis using assms bt.del_ok [OF b(1), of n] by (auto simp: store_remove_def store_ok_def)
qed

lemma store_remove_get: "store_ok st \<Longrightarrow> store_get (snd (store_remove n st)) = (store_get st)(n := None)"
  unfolding store_get_def [abs_def] store_remove_def store_ok_def using bt.look_del [of "st_entries st" n] by simp

lemma store_insert_get:
  assumes "store_ok st" "store_insert n s st = Inr st'"
  shows "store_get st' = (store_get st)(n \<mapsto> s)"
proof -
  have "st_entries st' = bt_insert n s (st_entries st)" using store_insert_Inr [OF assms(2)] by simp
  then show ?thesis
    unfolding store_get_def [abs_def] using assms(1) bt.look_ins [of "st_entries st" n s] by (simp add: store_ok_def)
qed

text \<open>What is left after removing an epoch does not depend on the secret that was removed.\<close>

lemma remove_forgets:
  assumes "store_ok st" "store_insert n s st = Inr st1" "store_insert n s' st = Inr st2"
  shows "snd (store_remove n st1) = snd (store_remove n st2)"
proof -
  have ok: "bt_ok (st_entries st)" using assms(1) by (simp add: store_ok_def)
  have "bt_remove n (bt_insert n s (st_entries st)) = bt_remove n (bt_insert n s' (st_entries st))"
    using ok bt.items_eq bt.del_ok bt.ins_ok bt.del_ins by metis
  then show ?thesis using store_insert_Inr [OF assms(2)] store_insert_Inr [OF assms(3)] by (simp add: store_remove_def)
qed

lemma seal_opens:
  assumes "crypto_laws A" "keyring_laws K" "cbor_laws C" "cbor_sizes C" "store_ok st" "nfc K p = nfc K q"
    and "8 \<le> char_count (nfc K p)" "length (nfc K p) < 2 ^ 32" "length salt = 16"
    and "\<forall>i\<le>length (st_entries st). length (iv i) = 12"
  shows "\<exists>bs. store_seal A K C (Some salt) (\<lambda>i. Some (iv i)) st p = Inr bs \<and> length bs \<le> MAX_FILE_LEN \<and>
    store_open A K C bs q = Inr st"
proof -
  obtain k where k: "params_derive K WRITER (nfc K p) salt = Inr k"
    using params_derive_total [OF assms(2) WRITER_ok assms(8,9)] by blast
  let ?ivs = "map iv [0..<length (st_entries st)]" and ?tn = "iv (length (st_entries st))"
  let ?l = "store_file A C WRITER salt k ?ivs ?tn st"
  have s: "store_seal A K C (Some salt) (\<lambda>i. Some (iv i)) st p = Inr (store_encode C ?l)"
    unfolding store_seal_def random_bytes_def ok_or_simps bindR_simps
    using assms(10) by (intro seal_with_eq [OF assms(1-5,7) k assms(9)]) simp
  have iv: "length ?ivs = length (st_entries st)" "\<forall>iv\<in>set ?ivs. length iv = 12" "length ?tn = 12"
    using assms(10) by auto
  have "layout_ok C ?l" by (rule store_file_ok [OF assms(1,3-5) WRITER_ok assms(9) iv])
  then have "length (store_encode C ?l) \<le> MAX_FILE_LEN"
    by (simp add: store_encode_def layout_ok_def length_store_header key_layout)
  moreover have "store_open A K C (store_encode C ?l) q = Inr st"
    using k assms(6) by (intro open_store_file [OF assms(1,3-5) WRITER_ok assms(9) iv]) simp
  ultimately show ?thesis using s by blast
qed

text \<open>Whatever a successful sealing wrote opens again, as long as the random source delivers the requested
  number of bytes.\<close>

lemma seal_success:
  assumes "store_seal A K C rs rn st p = Inr bs"
  shows "rs \<noteq> None \<and> (\<forall>i\<le>length (st_entries st). rn i \<noteq> None) \<and> 8 \<le> char_count (nfc K p)"
proof -
  let ?n = "\<lambda>i. random_bytes (rn i)"
  obtain salt where salt: "rs = Some salt" "seal_with A K C st p salt ?n = Inr bs"
    using assms by (auto simp: store_seal_def random_bytes_def result_simps)
  obtain ivs tn where "\<not> char_count (nfc K p) < MIN_PASSPHRASE_LEN" and
      iv: "mapR ?n [0..<length (st_entries st)] = Inr ivs" "?n (length (st_entries st)) = Inr tn"
    using salt(2) unfolding seal_with_def Let_def normalize_passphrase_def by (elim result_steps) blast
  moreover have "rn i \<noteq> None" if "i \<le> length (st_entries st)" for i
  proof (cases "i = length (st_entries st)")
    case False
    then have "i < length (st_entries st)" using that by simp
    then have "?n i = Inr (ivs ! i)" using iv(1) by (auto simp: mapR_Inr_iff list_all2_conv_all_nth)
    then show ?thesis by (auto simp: random_bytes_def result_simps)
  qed (use iv(2) in \<open>auto simp: random_bytes_def result_simps\<close>)
  ultimately show ?thesis using salt(1) by (simp add: MIN_PASSPHRASE_LEN_def)
qed

lemma seal_opens_again:
  assumes "crypto_laws A" "keyring_laws K" "cbor_laws C" "cbor_sizes C" "store_ok st"
    and "length (nfc K p) < 2 ^ 32" "\<forall>b. rs = Some b \<longrightarrow> length b = 16" "\<forall>i b. rn i = Some b \<longrightarrow> length b = 12"
    and "store_seal A K C rs rn st p = Inr bs"
  shows "store_open A K C bs p = Inr st \<and> length bs \<le> MAX_FILE_LEN"
proof -
  let ?iv = "\<lambda>i. if i \<le> length (st_entries st) then the (rn i) else replicate 12 0"
  obtain salt where salt: "rs = Some salt" "length salt = 16" using seal_success [OF assms(9)] assms(7) by auto
  have iv: "\<forall>i\<le>length (st_entries st). rn i = Some (?iv i) \<and> length (?iv i) = 12"
    using seal_success [OF assms(9)] assms(8) by auto
  obtain k where k: "params_derive K WRITER (nfc K p) salt = Inr k"
    using params_derive_total [OF assms(2) WRITER_ok assms(6) salt(2)] by blast
  have c: "8 \<le> char_count (nfc K p)" using seal_success [OF assms(9)] by simp
  have e1: "seal_with A K C st p salt (\<lambda>i. random_bytes (rn i)) = Inr bs"
    using assms(9) salt(1) by (simp add: store_seal_def random_bytes_def)
  have n1: "\<forall>i\<le>length (st_entries st). random_bytes (rn i) = Inr (?iv i) \<and> length (?iv i) = 12"
    using iv by (metis random_bytes_def ok_or_simps(2))
  have n2: "\<forall>i\<le>length (st_entries st). random_bytes (Some (?iv i)) = Inr (?iv i) \<and> length (?iv i) = 12"
    using iv by (metis random_bytes_def ok_or_simps(2))
  have "seal_with A K C st p salt (\<lambda>i. random_bytes (Some (?iv i))) = Inr bs"
    using e1 seal_with_eq [OF assms(1-5) c k salt(2) n1] seal_with_eq [OF assms(1-5) c k salt(2) n2] by simp
  then have "store_seal A K C (Some salt) (\<lambda>i. Some (?iv i)) st p = Inr bs"
    by (simp add: store_seal_def random_bytes_def)
  moreover have "\<forall>i\<le>length (st_entries st). length (?iv i) = 12" using iv by blast
  ultimately show ?thesis using seal_opens [OF assms(1-5) refl c assms(6) salt(2), of ?iv] by auto
qed

section \<open>Properties\<close>

definition demo_store :: EpochStore where
  "demo_store = \<lparr>st_chain_head = replicate 32 7, st_entries = [(0, replicate 32 1), (2, replicate 32 2)]\<rparr>"

lemma demo_store_ok: "store_ok demo_store"
  by (simp add: demo_store_def store_ok_def bt_ok_def)

text \<open>A sealed store comes back unchanged: sealing a store under an acceptable passphrase always
  succeeds, the file stays within the size limit a reader applies, and every spelling of the passphrase
  with the same NFC form opens it to the same chain head and the same secrets.\<close>

theorem epoch_store_round_trip:
  assumes "crypto_laws A" "keyring_laws K" "cbor_laws C" "cbor_sizes C" "store_ok st" "nfc K p = nfc K q"
    and "MIN_PASSPHRASE_LEN \<le> char_count (nfc K p)" "length (nfc K p) < 2 ^ 32" "length salt = SALT_LEN"
    and "\<forall>i. i \<le> store_len st \<longrightarrow> length (iv i) = KEY_NONCE_LEN"
  shows "\<exists>bs. store_seal A K C (Some salt) (\<lambda>i. Some (iv i)) st p = Inr bs \<and> length bs \<le> MAX_FILE_LEN \<and>
    store_open A K C bs q = Inr st"
  using seal_opens [OF assms(1-6)] assms(7-10) by (simp add: store_len_def MIN_PASSPHRASE_LEN_def key_layout)

theorem epoch_store_round_trip_witness:
  "\<exists>bs. store_seal ref_crypto ref_keyring ref_cbor (Some (replicate 16 1)) (\<lambda>i. Some (replicate 12 (of_nat i)))
      demo_store (ascii ''correct horse'') = Inr bs \<and>
    store_open ref_crypto ref_keyring ref_cbor bs (ascii ''correct horse'') = Inr demo_store"
  using epoch_store_round_trip [OF crypto_laws_ref keyring_laws_ref cbor_laws_ref cbor_sizes_ref demo_store_ok refl,
      of "ascii ''correct horse''" "replicate 16 1" "\<lambda>i. replicate 12 (of_nat i)"] demo_passphrase
  by (auto simp: key_layout MIN_PASSPHRASE_LEN_def)

text \<open>C32. A store is opened only from the exact file that sealing it produces: every byte of an accepted
  file is determined by bounded Argon2 parameters, a salt, nonces and the returned store, under the key
  of one of the spellings of the passphrase. No entry can be moved to another epoch or another file,
  and re-encoding what was parsed gives the file back.\<close>

theorem epoch_store_genuine:
  assumes "crypto_laws A" "cbor_laws C" "store_open A K C bs p = Inr st"
  shows "store_ok st \<and> reencode_unauthenticated C bs = Inr bs \<and>
    (\<exists>ps salt c k ivs tn. params_ok ps \<and> c \<in> {nfc K p, p, nfd K p} \<and> params_derive K ps c salt = Inr k \<and>
       length ivs = length (st_entries st) \<and> bs = store_encode C (store_file A C ps salt k ivs tn st))"
proof -
  have "\<exists>l. store_parse C bs = Inr l" using assms(3) by (auto simp: store_open_def result_simps)
  then have "reencode_unauthenticated C bs = Inr bs" using reencode_parsed [OF assms(2)] by blast
  moreover obtain ps salt c k ivs tn where "params_ok ps" "length salt = 16" "c \<in> {nfc K p, p, nfd K p}"
    "params_derive K ps c salt = Inr k" "length ivs = length (st_entries st)"
    "bs = store_encode C (store_file A C ps salt k ivs tn st)" "store_ok st"
    by (rule open_genuine [OF assms])
  ultimately show ?thesis by blast
qed

theorem epoch_store_genuine_witness:
  "\<exists>bs. store_open ref_crypto ref_keyring ref_cbor bs (ascii ''correct horse'') = Inr demo_store \<and>
     reencode_unauthenticated ref_cbor bs = Inr bs"
proof -
  obtain bs where "store_open ref_crypto ref_keyring ref_cbor bs (ascii ''correct horse'') = Inr demo_store"
    using seal_opens [OF crypto_laws_ref keyring_laws_ref cbor_laws_ref cbor_sizes_ref demo_store_ok refl,
        of "ascii ''correct horse''" "replicate 16 1" "\<lambda>i. replicate 12 (of_nat i)"] demo_passphrase by auto
  from epoch_store_genuine [OF crypto_laws_ref cbor_laws_ref this] this show ?thesis by blast
qed

text \<open>Erasing an epoch by resealing leaves no trace of it: the file written after a removal is the
  same whatever the removed secret was, and when it is opened the epoch is absent while every other
  epoch has the secret it had.\<close>

theorem removed_seed_leaves_file:
  assumes "crypto_laws A" "keyring_laws K" "cbor_laws C" "cbor_sizes C" "store_ok st" "nfc K p = nfc K q"
    and "MIN_PASSPHRASE_LEN \<le> char_count (nfc K p)" "length (nfc K p) < 2 ^ 32" "length salt = SALT_LEN"
    and "\<forall>i. length (iv i) = KEY_NONCE_LEN"
    and "store_insert n s st = Inr st1" "store_insert n s' st = Inr st2"
  shows "\<exists>bs r. store_seal A K C (Some salt) (\<lambda>i. Some (iv i)) (snd (store_remove n st1)) p = Inr bs \<and>
    store_seal A K C (Some salt) (\<lambda>i. Some (iv i)) (snd (store_remove n st2)) p = Inr bs \<and>
    store_open A K C bs q = Inr r \<and> store_get r = (store_get st)(n := None)"
proof -
  have ok: "store_ok st1" by (rule store_insert_ok [OF assms(5,11)])
  have "store_get (snd (store_remove n st1)) = (store_get st)(n := None)"
    using store_remove_get [OF ok] store_insert_get [OF assms(5,11)] by simp
  moreover have "\<exists>bs. store_seal A K C (Some salt) (\<lambda>i. Some (iv i)) (snd (store_remove n st1)) p = Inr bs \<and>
      store_open A K C bs q = Inr (snd (store_remove n st1))"
    using seal_opens [OF assms(1-4) store_remove_ok [OF ok] assms(6), of salt n iv] assms(7-10)
    by (auto simp: MIN_PASSPHRASE_LEN_def key_layout)
  ultimately show ?thesis using remove_forgets [OF assms(5,11,12)] by metis
qed

theorem removed_seed_leaves_file_witness:
  "\<exists>st1 bs r. store_insert 5 (replicate 32 9) demo_store = Inr st1 \<and>
     store_open ref_crypto ref_keyring ref_cbor bs (ascii ''correct horse'') = Inr r \<and>
     store_get r = (store_get demo_store)(5 := None)"
proof -
  obtain st1 where s: "store_insert 5 (replicate 32 9) demo_store = Inr st1"
    using store_insert_eq [OF demo_store_ok, of "replicate 32 9" 5] by (simp add: demo_store_def)
  from removed_seed_leaves_file [OF crypto_laws_ref keyring_laws_ref cbor_laws_ref cbor_sizes_ref demo_store_ok refl,
      of "ascii ''correct horse''" "replicate 16 1" "\<lambda>i. replicate 12 (of_nat i)", OF _ _ _ _ s s] demo_passphrase s
  show ?thesis by (auto simp: key_layout MIN_PASSPHRASE_LEN_def)
qed

end
