(* ===== verification/Hide_Cli.thy ===== *)
theory Hide_Cli
  imports Hide_Epoch_Store Hide_Epoch Hide_Object Hide_Identity
begin

text \<open>
  \<open>apps/hide-cli/src/main.rs\<close>: the key and epoch commands. The file system is a map from paths to
  contents. A command reads it and returns the list of the files it writes, in order; each is staged
  and renamed, so it happens completely or not at all, and a crash or a failing write leaves a prefix of
  the list performed. The outcome of a passphrase prompt is an argument, an error or what was typed;
  random bytes are arguments too. Messages on standard output and error are not modelled.
\<close>

section \<open>Files\<close>

type_synonym path = string
type_synonym fs = "path \<Rightarrow> bytes option"

datatype CliError =
    CliMessage string
  | CliIo
  | CliKeyring KeyringError
  | CliCrypto CryptoError
  | CliSign SignError
  | CliEpoch EpochError
  | CliObject ObjectError
  | CliIdentity IdentityError
  | HeadsDiffer bytes bytes

datatype file_write = Create path bytes | Replace path bytes

text \<open>\<open>persist_noclobber\<close> refuses an existing path, \<open>persist\<close> replaces it.\<close>

fun perform :: "fs \<Rightarrow> file_write \<Rightarrow> fs" where
  "perform fs (Create p b) = (if fs p \<noteq> None then fs else fs(p \<mapsto> b))"
| "perform fs (Replace p b) = fs(p \<mapsto> b)"

definition run_writes :: "fs \<Rightarrow> file_write list \<Rightarrow> fs" where
  "run_writes fs ws = foldl perform fs ws"

definition MAX_KEY_FILE :: nat where
  "MAX_KEY_FILE = 4096"

definition MAX_LOG_FILE :: nat where
  "MAX_LOG_FILE = 16 * 1024 * 1024"

definition TOO_LARGE :: string where
  "TOO_LARGE = ''larger than expected for a key file''"

definition read_bounded :: "fs \<Rightarrow> path \<Rightarrow> nat \<Rightarrow> CliError + bytes" where
  "read_bounded fs path limit =
     (case fs path of
        None \<Rightarrow> Inl CliIo
      | Some bs \<Rightarrow> if limit < length bs then Inl (CliMessage TOO_LARGE) else Inr bs)"

definition read_public_file :: "fs \<Rightarrow> path \<Rightarrow> CliError + bytes" where
  "read_public_file fs path = read_bounded fs path MAX_LOG_FILE"

text \<open>The check of \<open>new_output\<close>.\<close>

definition new_output :: "fs \<Rightarrow> path \<Rightarrow> CliError + unit" where
  "new_output fs path =
     (if fs path \<noteq> None then Inl (CliMessage ''output already exists; refusing to overwrite'') else Inr ())"

definition prompt_new_passphrase :: "CliError + str \<Rightarrow> CliError + str \<Rightarrow> CliError + str" where
  "prompt_new_passphrase first second =
     bindR first (\<lambda>first.
     if char_count first < MIN_PASSPHRASE_LEN then Inl (CliMessage ''passphrase too short'')
     else bindR second (\<lambda>second.
       if first \<noteq> second then Inl (CliMessage ''passphrases did not match'') else Inr first))"

section \<open>Keys\<close>

datatype LoadedKey = LoadedIdentity bytes | EncryptionOnly bytes

definition load_key :: "crypto_api \<Rightarrow> keyring_api \<Rightarrow> fs \<Rightarrow> path \<Rightarrow> CliError + str \<Rightarrow> CliError + LoadedKey" where
  "load_key A K fs path prompt =
     bindR (read_bounded fs path MAX_KEY_FILE) (\<lambda>bs.
       case inspect bs of
         Raw \<Rightarrow> if length bs \<noteq> 32 then Inl (CliMessage ''not a HIDE secret key'') else Inr (LoadedIdentity bs)
       | Protected \<Rightarrow>
           bindR prompt (\<lambda>passphrase.
           bindR (map_err CliKeyring (unprotect_seed A K bs passphrase)) (\<lambda>(seed, purpose).
             case purpose of
               Identity \<Rightarrow> Inr (LoadedIdentity seed)
             | Encryption \<Rightarrow>
                 bindR (map_err CliCrypto (secret_from_bytes seed)) (\<lambda>secret. Inr (EncryptionOnly secret)))))"

definition load_secret :: "crypto_api \<Rightarrow> keyring_api \<Rightarrow> fs \<Rightarrow> path \<Rightarrow> CliError + str \<Rightarrow> CliError + bytes" where
  "load_secret A K fs path prompt =
     bindR (load_key A K fs path prompt) (\<lambda>k.
       case k of
         LoadedIdentity seed \<Rightarrow> map_err CliKeyring (recipient_secret K seed)
       | EncryptionOnly secret \<Rightarrow> Inr secret)"

definition load_signing_identity ::
  "crypto_api \<Rightarrow> keyring_api \<Rightarrow> sig_api \<Rightarrow> fs \<Rightarrow> path \<Rightarrow> CliError + str \<Rightarrow> CliError + SigningIdentity" where
  "load_signing_identity A K P fs path prompt =
     bindR (load_key A K fs path prompt) (\<lambda>k.
       case k of
         LoadedIdentity seed \<Rightarrow> map_err CliSign (si_from_bytes P (signing_seed K seed))
       | EncryptionOnly _ \<Rightarrow> Inl (CliMessage ''predates signatures and holds no signing key''))"

definition append_extension :: "path \<Rightarrow> string \<Rightarrow> path" where
  "append_extension path suffix = path @ ''.'' @ suffix"

text \<open>\<open>keygen\<close> with its three output files; \<open>passphrase\<close> is the result of the prompt for a new one.\<close>

definition keygen ::
  "crypto_api \<Rightarrow> keyring_api \<Rightarrow> sig_api \<Rightarrow> fs \<Rightarrow> path \<Rightarrow> path \<Rightarrow> path option \<Rightarrow> bool \<Rightarrow> CliError + str \<Rightarrow>
   bytes option \<Rightarrow> bytes option \<Rightarrow> bytes option \<Rightarrow> CliError + file_write list" where
  "keygen A K P fs secret_path public_path signing_public_path plaintext passphrase rng rng_salt rng_nonce =
     (let signing_path = (case signing_public_path of Some path \<Rightarrow> path | None \<Rightarrow> append_extension public_path ''sign'')
      in if secret_path = public_path then Inl (CliMessage ''secret and public paths must differ'')
      else if signing_path = secret_path \<or> signing_path = public_path
        then Inl (CliMessage ''signing public key path must differ from the other two'')
      else
        bindR (new_output fs secret_path) (\<lambda>_.
        bindR (new_output fs public_path) (\<lambda>_.
        bindR (new_output fs signing_path) (\<lambda>_.
        bindR (map_err CliKeyring (identity_generate rng)) (\<lambda>identity.
        bindR (map_err CliKeyring (recipient_secret K identity)) (\<lambda>secret.
        bindR (map_err CliSign (si_from_bytes P (signing_seed K identity))) (\<lambda>signing.
        bindR (if plaintext then Inr identity
               else bindR passphrase (\<lambda>passphrase.
                 map_err CliKeyring (protect_identity A K rng_salt rng_nonce identity passphrase))) (\<lambda>secret_file.
        bindR (map_err CliCrypto (public_key A secret)) (\<lambda>pk.
          Inr [Create secret_path secret_file, Create signing_path (vi_to_bytes (verifying_key P signing)),
               Create public_path pk])))))))))"

text \<open>\<open>change_passphrase\<close> (\<open>hide passwd\<close>).\<close>

definition change_passphrase ::
  "crypto_api \<Rightarrow> keyring_api \<Rightarrow> fs \<Rightarrow> path \<Rightarrow> CliError + str \<Rightarrow> CliError + str \<Rightarrow> bytes option \<Rightarrow> bytes option \<Rightarrow>
   CliError + file_write list" where
  "change_passphrase A K fs secret_path current passphrase rng_salt rng_nonce =
     bindR (read_bounded fs secret_path MAX_KEY_FILE) (\<lambda>bs.
     bindR (case inspect bs of
              Raw \<Rightarrow> map_err CliCrypto (secret_from_bytes bs)
            | Protected \<Rightarrow> bindR current (\<lambda>current. map_err CliKeyring (unprotect A K bs current))) (\<lambda>secret.
     bindR passphrase (\<lambda>passphrase.
     bindR (map_err CliKeyring (protect A K rng_salt rng_nonce secret passphrase)) (\<lambda>sealed.
       Inr [Replace secret_path sealed]))))"

section \<open>Epoch histories and stores\<close>

record store_rng =
  r_salt :: "bytes option"
  r_nonce :: "nat \<Rightarrow> bytes option"

primrec insert_all :: "(EpochNumber \<times> bytes) list \<Rightarrow> EpochStore \<Rightarrow> KeyringError + EpochStore" where
  "insert_all [] st = Inr st"
| "insert_all (e # es) st = bindR (store_insert (fst e) (snd e) st) (\<lambda>st. insert_all es st)"

definition seal_chain ::
  "crypto_api \<Rightarrow> keyring_api \<Rightarrow> cbor_api \<Rightarrow> store_rng \<Rightarrow> EpochChain \<Rightarrow> str \<Rightarrow> CliError + bytes" where
  "seal_chain A K C r chain passphrase =
     bindR (map_err CliKeyring (insert_all (held_secrets chain) (store_new (ec_head chain)))) (\<lambda>st.
       map_err CliKeyring (store_seal A K C (r_salt r) (r_nonce r) st passphrase))"

definition read_epoch_store :: "fs \<Rightarrow> path \<Rightarrow> CliError + bytes" where
  "read_epoch_store fs path = read_bounded fs path MAX_FILE_LEN"

definition load_epochs ::
  "crypto_api \<Rightarrow> keyring_api \<Rightarrow> cbor_api \<Rightarrow> fs \<Rightarrow> path \<Rightarrow> path \<Rightarrow> str \<Rightarrow> CliError + EpochChain" where
  "load_epochs A K C fs chain_path store_path passphrase =
     bindR (read_public_file fs chain_path) (\<lambda>bs.
     bindR (map_err CliEpoch (decode_records C bs)) (\<lambda>records.
     bindR (map_err CliEpoch (ec_verify A records)) (\<lambda>_.
     bindR (read_epoch_store fs store_path) (\<lambda>sealed.
     bindR (map_err CliKeyring (store_open A K C sealed passphrase)) (\<lambda>st.
     let head = (if records = [] then replicate 32 0 else er_link (last records)) in
     if st_chain_head st \<noteq> head then Inl (HeadsDiffer (st_chain_head st) head)
     else map_err CliEpoch (restore A records (into_secrets st)))))))"

definition epoch_init_with ::
  "crypto_api \<Rightarrow> keyring_api \<Rightarrow> cbor_api \<Rightarrow> fs \<Rightarrow> path \<Rightarrow> path \<Rightarrow> str \<Rightarrow> bytes option \<Rightarrow> store_rng \<Rightarrow> CliError + file_write list" where
  "epoch_init_with A K C fs output store_path passphrase rng r =
     bindR (new_output fs output) (\<lambda>_.
     bindR (new_output fs store_path) (\<lambda>_.
     bindR (map_err CliEpoch (ec_new A rng)) (\<lambda>chain.
     bindR (seal_chain A K C r chain passphrase) (\<lambda>store_file.
     bindR (map_err CliEpoch (encode_records C (ec_records chain))) (\<lambda>history_file.
       Inr [Create store_path store_file, Create output history_file])))))"

definition epoch_init ::
  "crypto_api \<Rightarrow> keyring_api \<Rightarrow> cbor_api \<Rightarrow> fs \<Rightarrow> path \<Rightarrow> path \<Rightarrow> CliError + str \<Rightarrow> bytes option \<Rightarrow> store_rng \<Rightarrow> CliError + file_write list" where
  "epoch_init A K C fs output store_path prompt rng r =
     (if output = store_path then Inl (CliMessage ''the history and the store must be different files'')
      else
        bindR (new_output fs output) (\<lambda>_.
        bindR (new_output fs store_path) (\<lambda>_.
        bindR prompt (\<lambda>passphrase. epoch_init_with A K C fs output store_path passphrase rng r))))"

definition epoch_advance_with ::
  "crypto_api \<Rightarrow> keyring_api \<Rightarrow> cbor_api \<Rightarrow> fs \<Rightarrow> path \<Rightarrow> path \<Rightarrow> str \<Rightarrow> bytes option \<Rightarrow> store_rng \<Rightarrow> CliError + file_write list" where
  "epoch_advance_with A K C fs chain_path store_path passphrase rng r =
     bindR (load_epochs A K C fs chain_path store_path passphrase) (\<lambda>chain.
     bindR (map_err CliEpoch (advance A rng chain)) (\<lambda>(_, chain).
     bindR (seal_chain A K C r chain passphrase) (\<lambda>store_file.
     bindR (map_err CliEpoch (encode_records C (ec_records chain))) (\<lambda>history_file.
       Inr [Replace store_path store_file, Replace chain_path history_file]))))"

definition epoch_advance ::
  "crypto_api \<Rightarrow> keyring_api \<Rightarrow> cbor_api \<Rightarrow> fs \<Rightarrow> path \<Rightarrow> path \<Rightarrow> CliError + str \<Rightarrow> bytes option \<Rightarrow> store_rng \<Rightarrow> CliError + file_write list" where
  "epoch_advance A K C fs chain_path store_path prompt rng r =
     bindR prompt (\<lambda>passphrase. epoch_advance_with A K C fs chain_path store_path passphrase rng r)"

definition epoch_erase_with ::
  "crypto_api \<Rightarrow> keyring_api \<Rightarrow> cbor_api \<Rightarrow> fs \<Rightarrow> EpochNumber \<Rightarrow> path \<Rightarrow> path \<Rightarrow> str \<Rightarrow> store_rng \<Rightarrow> CliError + file_write list" where
  "epoch_erase_with A K C fs number chain_path store_path passphrase r =
     bindR (load_epochs A K C fs chain_path store_path passphrase) (\<lambda>chain.
     bindR (map_err CliEpoch (ec_public_key chain number)) (\<lambda>_.
     if number = ec_current chain then Inl (CliMessage ''epoch is current; run epoch-advance first'')
     else if \<not> is_readable chain number then Inl (CliMessage ''epoch was already erased'')
     else
       bindR (map_err CliEpoch (ec_erase number chain)) (\<lambda>chain.
       bindR (seal_chain A K C r chain passphrase) (\<lambda>store_file.
         Inr [Replace store_path store_file]))))"

definition epoch_erase ::
  "crypto_api \<Rightarrow> keyring_api \<Rightarrow> cbor_api \<Rightarrow> fs \<Rightarrow> EpochNumber \<Rightarrow> path \<Rightarrow> path \<Rightarrow> CliError + str \<Rightarrow> store_rng \<Rightarrow> CliError + file_write list" where
  "epoch_erase A K C fs number chain_path store_path prompt r =
     bindR prompt (\<lambda>passphrase. epoch_erase_with A K C fs number chain_path store_path passphrase r)"

definition epoch_public ::
  "crypto_api \<Rightarrow> cbor_api \<Rightarrow> fs \<Rightarrow> EpochNumber option \<Rightarrow> path \<Rightarrow> path \<Rightarrow> CliError + file_write list" where
  "epoch_public A C fs number chain_path output =
     bindR (read_public_file fs chain_path) (\<lambda>bs.
     bindR (map_err CliEpoch (decode_records C bs)) (\<lambda>records.
     bindR (map_err CliEpoch (ec_verify A records)) (\<lambda>_.
     let number = (case number of
                     Some n \<Rightarrow> n
                   | None \<Rightarrow> (if len64 records = 0 then 0 else len64 records - 1)) in
     bindR (map_err CliEpoch (recipient_for A records number)) (\<lambda>pk.
     bindR (new_output fs output) (\<lambda>_. Inr [Create output pk])))))"

section \<open>Lemmas\<close>

definition cli_laws :: "crypto_api \<Rightarrow> keyring_api \<Rightarrow> cbor_api \<Rightarrow> bool" where
  "cli_laws A K C \<longleftrightarrow> epoch_laws A \<and> keyring_laws K \<and> cbor_laws C \<and> cbor_sizes C"

text \<open>The random source delivers as many bytes as requested.\<close>

definition rng_ok :: "store_rng \<Rightarrow> bool" where
  "rng_ok r \<longleftrightarrow> (\<forall>b. r_salt r = Some b \<longrightarrow> length b = 16) \<and> (\<forall>i b. r_nonce r i = Some b \<longrightarrow> length b = 12)"

definition chain_ok :: "crypto_api \<Rightarrow> EpochChain \<Rightarrow> bool" where
  "chain_ok A c \<longleftrightarrow> ec_inv A c \<and> (\<forall>e\<in>set (held_secrets c). length (snd e) = 32)"

text \<open>The store of a chain.\<close>

definition store_of :: "EpochChain \<Rightarrow> EpochStore" where
  "store_of c = \<lparr>st_chain_head = ec_head c, st_entries = held_secrets c\<rparr>"

lemma insert_all_eq:
  assumes "insert_all es st = Inr st'" "store_ok st"
  shows "store_ok st' \<and> st' = st\<lparr>st_entries := foldl (\<lambda>m e. bt_insert (fst e) (snd e) m) (st_entries st) es\<rparr>"
  using assms
proof (induction es arbitrary: st)
  case (Cons e es)
  obtain st1 where s: "store_insert (fst e) (snd e) st = Inr st1" "insert_all es st1 = Inr st'"
    using Cons.prems(1) by (auto simp: result_simps)
  have ok: "store_ok st1" by (rule store_insert_ok [OF Cons.prems(2) s(1)])
  show ?case using Cons.IH [OF s(2) ok] store_insert_Inr [OF s(1)] by auto
qed simp

lemma epoch_links:
  assumes "crypto_laws A" "ec_verify A rs = Inr ()"
  shows "\<forall>r\<in>set rs. length (er_link r) = 32"
proof -
  have "linked (sha256 A) record_image er_link (replicate 32 0) rs" using assms(2) by (simp add: ec_verify_iff)
  from linked_links [OF this] show ?thesis using crypto_lengths(3) [OF assms(1)] by auto
qed

lemma ec_head_length: "crypto_laws A \<Longrightarrow> ec_inv A c \<Longrightarrow> length (ec_head c) = 32"
  using epoch_links [of A "ec_records c"] by (simp add: ec_inv_def ec_head_def)

lemma seal_chain_opens:
  assumes "cli_laws A K C" "chain_ok A c" "rng_ok r" "length (nfc K p) < 2 ^ 32" "seal_chain A K C r c p = Inr sb"
  shows "store_open A K C sb p = Inr (store_of c) \<and> length sb \<le> MAX_FILE_LEN"
proof -
  have l: "crypto_laws A" "keyring_laws K" "cbor_laws C" "cbor_sizes C" using assms(1) by (simp_all add: cli_laws_def epoch_laws_def)
  have i: "ec_inv A c" using assms(2) by (simp add: chain_ok_def)
  obtain st where st: "insert_all (held_secrets c) (store_new (ec_head c)) = Inr st"
    "store_seal A K C (r_salt r) (r_nonce r) st p = Inr sb"
    using assms(5) by (auto simp: seal_chain_def result_simps)
  have "store_ok (store_new (ec_head c))" by (rule store_new_ok [OF ec_head_length [OF l(1) i]])
  from insert_all_eq [OF st(1) this]
  have s: "store_ok st" "st = \<lparr>st_chain_head = ec_head c, st_entries = foldl (\<lambda>m e. bt_insert (fst e) (snd e) m) [] (held_secrets c)\<rparr>"
    by (auto simp: store_new_def)
  have "foldl (\<lambda>m e. bt_insert (fst e) (snd e) m) [] (held_secrets c) = held_secrets c"
    using bt.fold_ins_items [of "[]" "held_secrets c"] held_secrets_sorted [OF i] by (simp add: bt_ok_def)
  then have "st = store_of c" using s(2) by (simp add: store_of_def)
  with seal_opens_again [OF l s(1) assms(4) _ _ st(2)] assms(3) show ?thesis by (auto simp: rng_ok_def)
qed

lemma decode_history:
  assumes "crypto_laws A" "cbor_laws C" "ec_verify A rs = Inr ()" "encode_records C rs = Inr bs"
  shows "decode_records C bs = Inr rs"
  using decode_encode_records [OF assms(2) _ _ assms(4)] epoch_links [OF assms(1,3)] ec_verify_keys [OF assms(3)] assms(3)
  by (simp add: PUBLIC_KEY_LENGTH_def ec_verify_iff)

lemma load_saved:
  assumes "cli_laws A K C" "chain_ok A c"
    and "fs cp = Some hb" "encode_records C (ec_records c) = Inr hb" "length hb \<le> MAX_LOG_FILE"
    and "fs sp = Some sb" "store_open A K C sb p = Inr (store_of c)" "length sb \<le> MAX_FILE_LEN"
  shows "load_epochs A K C fs cp sp p = Inr c"
proof -
  have l: "crypto_laws A" "cbor_laws C" using assms(1) by (simp_all add: cli_laws_def epoch_laws_def)
  have i: "ec_inv A c" "ec_verify A (ec_records c) = Inr ()" using assms(2) by (simp_all add: chain_ok_def ec_inv_def)
  show ?thesis
    unfolding load_epochs_def
    using assms(3,5-8) decode_history [OF l i(2) assms(4)] i(2) restore_inv [OF i(1)]
    by (simp add: read_public_file_def read_epoch_store_def read_bounded_def Let_def store_of_def into_secrets_def ec_head_def)
qed

lemma load_epochsE:
  assumes "crypto_laws A" "cbor_laws C" "load_epochs A K C fs cp sp p = Inr c"
  obtains hb sb st where "fs cp = Some hb" "length hb \<le> MAX_LOG_FILE" "decode_records C hb = Inr (ec_records c)"
    "fs sp = Some sb" "store_open A K C sb p = Inr st" "st_chain_head st = ec_head c"
    "set (held_secrets c) \<subseteq> set (st_entries st)" "chain_ok A c"
proof -
  obtain hb rs sb st where r: "read_public_file fs cp = Inr hb" "decode_records C hb = Inr rs" "read_epoch_store fs sp = Inr sb"
    "store_open A K C sb p = Inr st" "st_chain_head st = (if rs = [] then replicate 32 0 else er_link (last rs))"
    "restore A rs (st_entries st) = Inr c"
    using assms(3) unfolding load_epochs_def Let_def into_secrets_def by (elim result_steps) (metis not_not)
  have c: "ec_inv A c" "ec_records c = rs"
      "\<forall>i<length rs. \<forall>s. es_secret (ec_secrets c ! i) = Some s \<longrightarrow> (of_nat i, s) \<in> set (st_entries st)"
    using restore_sound [OF r(6)] by auto
  have sub: "set (held_secrets c) \<subseteq> set (st_entries st)"
  proof
    fix e assume e: "e \<in> set (held_secrets c)"
    obtain n s where ns: "e = (n, s)" by (cases e)
    then have "unat n < length rs" "es_secret (ec_secrets c ! unat n) = Some s"
      using e held_secrets_set [OF c(1)] c(2) by auto
    then show "e \<in> set (st_entries st)" using c(3) ns by fastforce
  qed
  have "store_ok st" using open_genuine [OF assms(1,2) r(4)] by blast
  then have "chain_ok A c" using c(1) sub by (auto simp: chain_ok_def store_ok_def)
  moreover have "fs cp = Some hb" "length hb \<le> MAX_LOG_FILE" "fs sp = Some sb"
    using r(1,3) by (auto simp: read_public_file_def read_epoch_store_def read_bounded_def split: option.splits if_splits)
  ultimately show thesis using that r(2,4,5) c(2) sub by (simp add: ec_head_def)
qed

lemma advance_chain_ok:
  assumes "epoch_laws A" "chain_ok A c" "advance A rng c = Inr (n, c')" "\<forall>b. rng = Some b \<longrightarrow> length b = 32"
  shows "chain_ok A c' \<and> held_secrets c' = held_secrets c @ [(n, the rng)] \<and> length (ec_records c') = Suc (length (ec_records c))
    \<and> n = len64 (ec_records c)"
proof -
  have "epoch_step A c c'" by (rule step_advance [OF _ assms(3)]) (use assms(4) in auto)
  then have i: "ec_inv A c'" using epoch_step_inv assms(1,2) by (auto simp: chain_ok_def)
  from assms(3) obtain s where s: "rng = Some s" "n = len64 (ec_records c)"
    "length (ec_records c') = Suc (length (ec_records c))" "ec_secrets c' = ec_secrets c @ [\<lparr>es_number = n, es_secret = Some s\<rparr>]"
    by (auto elim!: advanceE)
  have "held_secrets c' = held_secrets c @ [(n, s)]" by (simp add: held_secrets_def s(4) List.map_filter_def)
  then show ?thesis using i s assms(2,4) by (auto simp: chain_ok_def)
qed

lemma erase_chain_ok:
  assumes "epoch_laws A" "chain_ok A c" "ec_erase n c = Inr c'"
  shows "chain_ok A c' \<and> ec_records c' = ec_records c \<and> set (held_secrets c') \<subseteq> set (held_secrets c) \<and>
    (\<forall>s. (n, s) \<notin> set (held_secrets c'))"
proof -
  have i: "ec_inv A c" "ec_inv A c'"
    using epoch_step_inv [OF assms(1) _ step_erase [OF assms(3)]] assms(2) by (simp_all add: chain_ok_def)
  have e: "ec_records c' = ec_records c" "ec_secrets c' = (ec_secrets c)[unat n := es_erase (ec_secrets c ! unat n)]"
    "unat n < length (ec_secrets c)"
    using assms(3) by (auto simp: ec_erase_def get_at_def split: if_splits)
  have "(m, s) \<in> set (held_secrets c') \<longleftrightarrow> (m, s) \<in> set (held_secrets c) \<and> m \<noteq> n" for m s
    using e held_secrets_set [OF i(1), of m s] held_secrets_set [OF i(2), of m s]
    by (cases "unat m = unat n") (auto simp: word_unat_eq_iff es_erase_def nth_list_update)
  then show ?thesis using i e(1) assms(2) by (auto simp: chain_ok_def)
qed

subsection \<open>Commands on the disk\<close>

lemma advance_withE:
  assumes "cli_laws A K C" "epoch_advance_with A K C fs cp sp p rng r = Inr ws"
    and "rng_ok r" "\<forall>b. rng = Some b \<longrightarrow> length b = 32" "length (nfc K p) < 2 ^ 32"
  obtains c n c' sb hb where "load_epochs A K C fs cp sp p = Inr c" "advance A rng c = Inr (n, c')" "chain_ok A c" "chain_ok A c'"
    "ws = [Replace sp sb, Replace cp hb]" "store_open A K C sb p = Inr (store_of c')" "length sb \<le> MAX_FILE_LEN"
    "encode_records C (ec_records c') = Inr hb"
proof -
  obtain c n c' sb hb where w: "load_epochs A K C fs cp sp p = Inr c" "advance A rng c = Inr (n, c')"
    "seal_chain A K C r c' p = Inr sb" "encode_records C (ec_records c') = Inr hb" "ws = [Replace sp sb, Replace cp hb]"
    using assms(2) unfolding epoch_advance_with_def by (elim result_steps) auto
  have l: "epoch_laws A" "crypto_laws A" "cbor_laws C" using assms(1) by (simp_all add: cli_laws_def epoch_laws_def)
  have c: "chain_ok A c" using load_epochsE [OF l(2,3) w(1)] by blast
  have c': "chain_ok A c'" using advance_chain_ok [OF l(1) c w(2) assms(4)] by blast
  show thesis using that [OF w(1,2) c c' w(5)] seal_chain_opens [OF assms(1) c' assms(3,5) w(3)] w(4) by blast
qed

lemma erase_withE:
  assumes "cli_laws A K C" "epoch_erase_with A K C fs n cp sp p r = Inr ws" "rng_ok r" "length (nfc K p) < 2 ^ 32"
  obtains c c' sb where "load_epochs A K C fs cp sp p = Inr c" "ec_erase n c = Inr c'" "chain_ok A c" "chain_ok A c'"
    "ws = [Replace sp sb]" "store_open A K C sb p = Inr (store_of c')" "length sb \<le> MAX_FILE_LEN" "n \<noteq> ec_current c"
proof -
  obtain c c' sb where w: "load_epochs A K C fs cp sp p = Inr c" "ec_erase n c = Inr c'"
    "seal_chain A K C r c' p = Inr sb" "ws = [Replace sp sb]" "n \<noteq> ec_current c"
    using assms(2) unfolding epoch_erase_with_def by (elim result_steps) auto
  have l: "epoch_laws A" "crypto_laws A" "cbor_laws C" using assms(1) by (simp_all add: cli_laws_def epoch_laws_def)
  have c: "chain_ok A c" using load_epochsE [OF l(2,3) w(1)] by blast
  have c': "chain_ok A c'" using erase_chain_ok [OF l(1) c w(2)] by blast
  show thesis using that [OF w(1,2) c c' w(4)] seal_chain_opens [OF assms(1) c' assms(3,4) w(3)] w(5) by blast
qed

text \<open>The states of the disk that the two commands, run to the end or cut short after any write, lead to.\<close>

inductive disk_step ::
  "crypto_api \<Rightarrow> keyring_api \<Rightarrow> cbor_api \<Rightarrow> path \<Rightarrow> path \<Rightarrow> str \<Rightarrow> fs \<Rightarrow> fs \<Rightarrow> bool" for A K C cp sp p where
  disk_advance: "epoch_advance_with A K C fs cp sp p rng r = Inr ws \<Longrightarrow> rng_ok r \<Longrightarrow>
     (\<forall>b. rng = Some b \<longrightarrow> length b = 32) \<Longrightarrow> disk_step A K C cp sp p fs (run_writes fs (take k ws))"
| disk_erase: "epoch_erase_with A K C fs n cp sp p r = Inr ws \<Longrightarrow> rng_ok r \<Longrightarrow>
     disk_step A K C cp sp p fs (run_writes fs (take k ws))"

inductive disk_reach ::
  "crypto_api \<Rightarrow> keyring_api \<Rightarrow> cbor_api \<Rightarrow> path \<Rightarrow> path \<Rightarrow> str \<Rightarrow> fs \<Rightarrow> fs \<Rightarrow> bool" for A K C cp sp p where
  disk_refl: "disk_reach A K C cp sp p fs fs"
| disk_more: "disk_reach A K C cp sp p fs fs' \<Longrightarrow> disk_step A K C cp sp p fs' fs'' \<Longrightarrow> disk_reach A K C cp sp p fs fs''"

text \<open>Epoch \<open>n\<close> is gone from the disk: it is part of the published history, and no store that the
  passphrase opens holds it.\<close>

definition gone :: "crypto_api \<Rightarrow> keyring_api \<Rightarrow> cbor_api \<Rightarrow> path \<Rightarrow> path \<Rightarrow> str \<Rightarrow> EpochNumber \<Rightarrow> fs \<Rightarrow> bool" where
  "gone A K C cp sp p n fs \<longleftrightarrow>
     (\<forall>hb rs. fs cp = Some hb \<longrightarrow> decode_records C hb = Inr rs \<longrightarrow> unat n < length rs) \<and>
     (\<forall>sb st. fs sp = Some sb \<longrightarrow> store_open A K C sb p = Inr st \<longrightarrow> n \<notin> fst ` set (st_entries st))"

lemma gone_not_held:
  assumes "crypto_laws A" "cbor_laws C" "gone A K C cp sp p n fs" "load_epochs A K C fs cp sp p = Inr c"
  shows "unat n < length (ec_records c) \<and> n \<notin> fst ` set (held_secrets c)"
proof -
  obtain hb sb st where "fs cp = Some hb" "decode_records C hb = Inr (ec_records c)"
    "fs sp = Some sb" "store_open A K C sb p = Inr st" "set (held_secrets c) \<subseteq> set (st_entries st)"
    by (rule load_epochsE [OF assms(1,2,4)])
  then show ?thesis using assms(3) unfolding gone_def by blast
qed

lemma not_held_unreadable:
  assumes "chain_ok A c" "unat n < length (ec_records c)" "n \<notin> fst ` set (held_secrets c)"
  shows "\<not> is_readable c n"
proof -
  have i: "ec_inv A c" using assms(1) by (simp add: chain_ok_def)
  have "\<forall>s. (n, s) \<notin> set (held_secrets c)" using assms(3) by force
  then have "es_secret (ec_secrets c ! unat n) = None" using held_secrets_set [OF i, of n] assms(2) by auto
  then show ?thesis by (simp add: is_readable_def get_at_def)
qed

lemma take_two: "take k [x, y] \<in> {[], [x], [x, y]}"
  by (cases k; cases "k - 1") auto

lemma take_one: "take k [x] \<in> {[], [x]}"
  by (cases k) auto

lemma gone_step:
  assumes "cli_laws A K C" "cp \<noteq> sp" "length (nfc K p) < 2 ^ 32"
    and "disk_step A K C cp sp p fs fs'" "gone A K C cp sp p n fs"
  shows "gone A K C cp sp p n fs'"
proof -
  have l: "epoch_laws A" "crypto_laws A" "cbor_laws C" using assms(1) by (simp_all add: cli_laws_def epoch_laws_def)
  show ?thesis
    using assms(4)
  proof (cases rule: disk_step.cases)
    case (disk_advance rng r ws k)
    obtain c m c' sb hb where w: "load_epochs A K C fs cp sp p = Inr c" "advance A rng c = Inr (m, c')" "chain_ok A c" "chain_ok A c'"
      "ws = [Replace sp sb, Replace cp hb]" "store_open A K C sb p = Inr (store_of c')"
      "encode_records C (ec_records c') = Inr hb"
      by (rule advance_withE [OF assms(1) disk_advance(2,3,4) assms(3)])
    have h: "unat n < length (ec_records c)" "n \<notin> fst ` set (held_secrets c)" using gone_not_held [OF l(2,3) assms(5) w(1)] by auto
    have a: "held_secrets c' = held_secrets c @ [(m, the rng)]" "length (ec_records c') = Suc (length (ec_records c))"
      "m = len64 (ec_records c)" using advance_chain_ok [OF l(1) w(3,2) disk_advance(4)] by auto
    have v: "ec_verify A (ec_records c) = Inr ()" "ec_verify A (ec_records c') = Inr ()"
      using w(3,4) by (simp_all add: chain_ok_def ec_inv_def)
    have "length (ec_records c) < 2 ^ 64" using v(1) by (simp add: ec_verify_iff MAX_CHAIN_ENTRIES_def)
    then have "n \<noteq> m" using h(1) a(3) unat_len64 by fastforce
    then have "n \<notin> fst ` set (st_entries (store_of c'))" using h(2) a(1) by (simp add: store_of_def)
    moreover have "decode_records C hb = Inr (ec_records c')" by (rule decode_history [OF l(2,3) v(2) w(7)])
    ultimately show ?thesis
      using take_two [of k "Replace sp sb" "Replace cp hb"] assms(2,5) w(6) h(1) a(2)
      unfolding disk_advance(1) w(5) by (auto simp: gone_def run_writes_def) force
  next
    case (disk_erase m r ws k)
    obtain c c' sb where w: "load_epochs A K C fs cp sp p = Inr c" "ec_erase m c = Inr c'" "chain_ok A c"
      "ws = [Replace sp sb]" "store_open A K C sb p = Inr (store_of c')"
      by (rule erase_withE [OF assms(1) disk_erase(2,3) assms(3)])
    have "set (held_secrets c') \<subseteq> set (held_secrets c)" using erase_chain_ok [OF l(1) w(3,2)] by blast
    then have "n \<notin> fst ` set (st_entries (store_of c'))"
      using gone_not_held [OF l(2,3) assms(5) w(1)] by (auto simp: store_of_def)
    then show ?thesis
      using take_one [of k "Replace sp sb"] assms(2,5) w(5)
      unfolding disk_erase(1) w(4) by (auto simp: gone_def run_writes_def) force
  qed
qed

lemma gone_reach:
  assumes "disk_reach A K C cp sp p fs fs'" "cli_laws A K C" "cp \<noteq> sp" "length (nfc K p) < 2 ^ 32" "gone A K C cp sp p n fs"
  shows "gone A K C cp sp p n fs'"
  using assms by (induction rule: disk_reach.induct) (auto intro: gone_step)

lemma insert_all_total:
  assumes "store_ok st" "length (st_entries st) + length es \<le> 65536" "\<forall>e\<in>set es. length (snd e) = 32"
  shows "\<exists>st'. insert_all es st = Inr st'"
  using assms
proof (induction es arbitrary: st)
  case (Cons e es)
  have "length (st_entries st) < 65536" using Cons.prems(2) by simp
  then have s: "store_insert (fst e) (snd e) st = Inr (st\<lparr>st_entries := bt_insert (fst e) (snd e) (st_entries st)\<rparr>)"
    using Cons.prems by (intro store_insert_eq) auto
  have "length (bt_insert (fst e) (snd e) (st_entries st)) + length es \<le> 65536"
    using bt_insert_length [of "fst e" "snd e" "st_entries st"] Cons.prems(2) by simp
  then show ?case using Cons.IH [OF store_insert_ok [OF Cons.prems(1) s]] Cons.prems(3) s by simp
qed simp

text \<open>A random source that never fails, and a passphrase that is accepted.\<close>

definition demo_rng :: store_rng where
  "demo_rng = \<lparr>r_salt = Some (replicate 16 1), r_nonce = (\<lambda>i. Some (replicate 12 (of_nat i)))\<rparr>"

definition demo_pass :: str where
  "demo_pass = ascii ''correct horse''"

lemma demo_rng_ok: "rng_ok demo_rng"
  by (simp add: rng_ok_def demo_rng_def)

lemma cli_laws_ref: "cli_laws ref_epoch ref_keyring ref_cbor"
  by (simp add: cli_laws_def epoch_laws_ref keyring_laws_ref cbor_laws_ref cbor_sizes_ref)

lemma demo_pass_short: "length (nfc ref_keyring demo_pass) < 2 ^ 32"
  using demo_passphrase(2) by (simp add: demo_pass_def)

lemma demo_seal:
  assumes "chain_ok ref_epoch c" "length (held_secrets c) \<le> 65536"
  shows "\<exists>sb. seal_chain ref_epoch ref_keyring ref_cbor demo_rng c demo_pass = Inr sb"
proof -
  have l: "crypto_laws ref_epoch" using epoch_laws_ref by (simp add: epoch_laws_def)
  have ok: "store_ok (store_new (ec_head c))"
    using assms(1) ec_head_length [OF l] by (intro store_new_ok) (simp add: chain_ok_def)
  have "\<exists>st. insert_all (held_secrets c) (store_new (ec_head c)) = Inr st"
    using assms by (intro insert_all_total [OF ok]) (simp_all add: store_new_def chain_ok_def)
  then obtain st where st: "insert_all (held_secrets c) (store_new (ec_head c)) = Inr st" by blast
  have "store_ok st" using insert_all_eq [OF st ok] by blast
  from seal_opens [OF l keyring_laws_ref cbor_laws_ref cbor_sizes_ref this refl, of demo_pass "replicate 16 1" "\<lambda>i. replicate 12 (of_nat i)"]
  obtain sb where "store_seal ref_epoch ref_keyring ref_cbor (r_salt demo_rng) (r_nonce demo_rng) st demo_pass = Inr sb"
    using demo_passphrase by (auto simp: demo_rng_def demo_pass_def)
  then show ?thesis using st by (simp add: seal_chain_def)
qed

lemma init_loads:
  assumes "cli_laws A K C" "epoch_init A K C fs cp sp (Inr p) (Some s) r = Inr ws" "length s = 32" "rng_ok r"
    "length (nfc K p) < 2 ^ 32"
  shows "fs cp = None \<and> fs sp = None \<and> cp \<noteq> sp \<and>
    (\<exists>c hb. ec_new A (Some s) = Inr c \<and> encode_records C (ec_records c) = Inr hb \<and>
       (length hb \<le> MAX_LOG_FILE \<longrightarrow> load_epochs A K C (run_writes fs ws) cp sp p = Inr c))"
proof -
  obtain c sb hb where n: "fs cp = None" "fs sp = None" "cp \<noteq> sp" "ec_new A (Some s) = Inr c" "seal_chain A K C r c p = Inr sb"
    "encode_records C (ec_records c) = Inr hb" "ws = [Create sp sb, Create cp hb]"
    using assms(2) unfolding epoch_init_def epoch_init_with_def
    by (elim result_steps) (auto simp: new_output_def split: if_splits)
  have l: "epoch_laws A" using assms(1) by (simp add: cli_laws_def)
  have i: "ec_inv A c" by (rule ec_new_inv [OF l n(4) assms(3)])
  obtain m where "advance A (Some s) \<lparr>ec_records = [], ec_secrets = []\<rparr> = Inr (m, c)"
    using n(4) by (auto simp: ec_new_def Let_def result_simps)
  then have "held_secrets c = [(m, s)]"
    by (auto elim!: advanceE simp: held_secrets_def List.map_filter_simps)
  then have c: "chain_ok A c" using i assms(3) by (simp add: chain_ok_def)
  have "run_writes fs ws cp = Some hb" "run_writes fs ws sp = Some sb" using n(1-3,7) by (simp_all add: run_writes_def)
  then show ?thesis
    using n(1-4,6) load_saved [OF assms(1) c _ n(6)] seal_chain_opens [OF assms(1) c assms(4,5) n(5)] by blast
qed

lemma small_history:
  assumes "ec_inv ref_epoch c" "length (ec_records c) \<le> 2" "encode_records ref_cbor (ec_records c) = Inr hb"
  shows "length hb \<le> MAX_LOG_FILE"
proof -
  have l: "crypto_laws ref_epoch" using epoch_laws_ref by (simp add: epoch_laws_def)
  have v: "ec_verify ref_epoch (ec_records c) = Inr ()" using assms(1) by (simp add: ec_inv_def)
  have r: "length (encode_record ref_cbor x) \<le> 2000" if "x \<in> set (ec_records c)" for x
  proof -
    have "length (er_public_key x) = 1216" "length (er_link x) = 32"
      using ec_verify_keys [OF v] epoch_links [OF l v] that by (auto simp: PUBLIC_KEY_LENGTH_def)
    moreover have "length (cbor_head 4 3) \<le> 9" "length (cbor_head 0 (er_number x)) \<le> 9"
      "length (cbor_head 2 (len64 (er_public_key x))) \<le> 9" "length (cbor_head 2 (len64 (er_link x))) \<le> 9"
      by (rule length_cbor_head)+
    ultimately show ?thesis by (simp add: encode_record_def ref_cbor_def)
  qed
  have s: "length (concat (map (encode_record ref_cbor) rs)) \<le> 2000 * length rs"
    if "set rs \<subseteq> set (ec_records c)" for rs
    using that r by (induction rs) fastforce+
  have "length hb \<le> 9 + length (concat (map (encode_record ref_cbor) (ec_records c)))"
    using assms(3) length_cbor_head [of 4 "len64 (ec_records c)"] by (auto simp: encode_records_def ref_cbor_def)
  also have "\<dots> \<le> 9 + 2000 * 2" using s [of "ec_records c"] assms(2) by simp
  finally show ?thesis by (simp add: MAX_LOG_FILE_def)
qed

text \<open>A disk with a history of one epoch.\<close>

lemma demo_disk:
  "\<exists>fs c. load_epochs ref_epoch ref_keyring ref_cbor fs ''h'' ''s'' demo_pass = Inr c \<and> length (ec_records c) = 1 \<and>
     length (held_secrets c) = 1 \<and> is_readable c 0"
proof -
  obtain c where c: "ec_new ref_epoch (Some (replicate 32 1)) = Inr c" "length (ec_records c) = 1" "length (ec_secrets c) = 1"
    using demo_chain by blast
  have i: "ec_inv ref_epoch c" by (rule ec_new_inv [OF epoch_laws_ref c(1)]) simp
  have sc: "ec_secrets c = [\<lparr>es_number = 0, es_secret = Some (replicate 32 1)\<rparr>]"
    using c(1) by (auto simp: ec_new_def Let_def result_simps len64_def elim!: advanceE)
  have h: "held_secrets c = [(0, replicate 32 1)]" by (simp add: held_secrets_def sc List.map_filter_simps)
  then have ok: "chain_ok ref_epoch c" using i by (simp add: chain_ok_def)
  obtain sb where sb: "seal_chain ref_epoch ref_keyring ref_cbor demo_rng c demo_pass = Inr sb"
    using demo_seal [OF ok] h by auto
  obtain hb where hb: "encode_records ref_cbor (ec_records c) = Inr hb" by (simp add: encode_records_def)
  have "epoch_init ref_epoch ref_keyring ref_cbor Map.empty ''h'' ''s'' (Inr demo_pass) (Some (replicate 32 1)) demo_rng
      = Inr [Create ''s'' sb, Create ''h'' hb]"
    using c(1) sb hb by (simp add: epoch_init_def epoch_init_with_def new_output_def)
  from init_loads [OF cli_laws_ref this _ demo_rng_ok demo_pass_short] c(1) hb small_history [OF i _ hb] c(2)
  have "load_epochs ref_epoch ref_keyring ref_cbor (run_writes Map.empty [Create ''s'' sb, Create ''h'' hb]) ''h'' ''s'' demo_pass = Inr c"
    by auto
  moreover have "is_readable c 0" by (simp add: is_readable_def sc get_at_def)
  ultimately show ?thesis using c(2) h by fastforce
qed

lemma advance_disk:
  assumes "cli_laws A K C" "cp \<noteq> sp" "length (nfc K p) < 2 ^ 32" "rng_ok r" "\<forall>b. rng = Some b \<longrightarrow> length b = 32"
    and "epoch_advance_with A K C fs cp sp p rng r = Inr ws"
  shows "\<exists>c n c' hb. load_epochs A K C fs cp sp p = Inr c \<and> advance A rng c = Inr (n, c') \<and>
    encode_records C (ec_records c') = Inr hb \<and>
    load_epochs A K C (run_writes fs ws) cp sp p = (if length hb \<le> MAX_LOG_FILE then Inr c' else Inl (CliMessage TOO_LARGE)) \<and>
    (ec_head c' \<noteq> ec_head c \<longrightarrow>
       load_epochs A K C (run_writes fs (take 1 ws)) cp sp p = Inl (HeadsDiffer (ec_head c') (ec_head c)))"
proof -
  obtain c n c' sb hb where w: "load_epochs A K C fs cp sp p = Inr c" "advance A rng c = Inr (n, c')" "chain_ok A c'"
    "ws = [Replace sp sb, Replace cp hb]" "store_open A K C sb p = Inr (store_of c')" "length sb \<le> MAX_FILE_LEN"
    "encode_records C (ec_records c') = Inr hb"
    by (rule advance_withE [OF assms(1,6,4,5,3)])
  have l: "crypto_laws A" "cbor_laws C" using assms(1) by (simp_all add: cli_laws_def epoch_laws_def)
  obtain hb0 where h: "fs cp = Some hb0" "length hb0 \<le> MAX_LOG_FILE" "decode_records C hb0 = Inr (ec_records c)" "chain_ok A c"
    by (rule load_epochsE [OF l w(1)])
  have fs': "run_writes fs ws cp = Some hb" "run_writes fs ws sp = Some sb" using assms(2) by (simp_all add: run_writes_def w(4))
  have "load_epochs A K C (run_writes fs ws) cp sp p = (if length hb \<le> MAX_LOG_FILE then Inr c' else Inl (CliMessage TOO_LARGE))"
    using load_saved [where fs = "run_writes fs ws", OF assms(1) w(3) fs'(1) w(7) _ fs'(2) w(5,6)] fs'(1)
    by (simp add: load_epochs_def read_public_file_def read_bounded_def)
  moreover have "load_epochs A K C (run_writes fs (take 1 ws)) cp sp p = Inl (HeadsDiffer (ec_head c') (ec_head c))"
    if "ec_head c' \<noteq> ec_head c"
  proof -
    have f: "run_writes fs (take 1 ws) cp = Some hb0" "run_writes fs (take 1 ws) sp = Some sb"
      using assms(2) h(1) by (simp_all add: run_writes_def w(4))
    have "ec_verify A (ec_records c) = Inr ()" using h(4) by (simp add: chain_ok_def ec_inv_def)
    then show ?thesis
      unfolding load_epochs_def using f h(2,3) w(5,6) that
      by (simp add: read_public_file_def read_epoch_store_def read_bounded_def Let_def store_of_def ec_head_def [of c])
  qed
  ultimately show ?thesis using w(1,2,7) by blast
qed

lemma erase_disk:
  assumes "cli_laws A K C" "cp \<noteq> sp" "length (nfc K p) < 2 ^ 32" "rng_ok r" "epoch_erase_with A K C fs n cp sp p r = Inr ws"
  shows "\<exists>c c'. load_epochs A K C fs cp sp p = Inr c \<and> ec_erase n c = Inr c' \<and> load_epochs A K C (run_writes fs ws) cp sp p = Inr c' \<and>
    gone A K C cp sp p n (run_writes fs ws) \<and> n \<noteq> ec_current c"
proof -
  obtain c c' sb where w: "load_epochs A K C fs cp sp p = Inr c" "ec_erase n c = Inr c'" "chain_ok A c" "chain_ok A c'"
    "ws = [Replace sp sb]" "store_open A K C sb p = Inr (store_of c')" "length sb \<le> MAX_FILE_LEN" "n \<noteq> ec_current c"
    by (rule erase_withE [OF assms(1,5,4,3)])
  have l: "epoch_laws A" "crypto_laws A" "cbor_laws C" using assms(1) by (simp_all add: cli_laws_def epoch_laws_def)
  obtain hb where h: "fs cp = Some hb" "length hb \<le> MAX_LOG_FILE" "decode_records C hb = Inr (ec_records c)"
    by (rule load_epochsE [OF l(2,3) w(1)])
  have e: "ec_records c' = ec_records c" "\<forall>s. (n, s) \<notin> set (held_secrets c')" using erase_chain_ok [OF l(1) w(3,2)] by auto
  have "unat n < length (ec_records c)"
    using w(2,3) by (auto simp: ec_erase_def get_at_def chain_ok_def ec_inv_def secrets_match_def split: if_splits)
  moreover have f: "run_writes fs ws cp = Some hb" "run_writes fs ws sp = Some sb"
    using assms(2) h(1) by (simp_all add: run_writes_def w(5))
  moreover have "n \<notin> fst ` set (st_entries (store_of c'))" using e(2) by (auto simp: store_of_def)
  ultimately have "gone A K C cp sp p n (run_writes fs ws)" using h(3) w(6) by (auto simp: gone_def)
  moreover have "encode_records C (ec_records c') = Inr hb" using encode_decode_records [OF h(3)] e(1) by simp
  ultimately show ?thesis
    using w(1,2,8) load_saved [OF assms(1) w(4) f(1) _ h(2) f(2) w(6,7)] by blast
qed

lemma demo_advanced:
  "\<exists>fs ws c. epoch_advance_with ref_epoch ref_keyring ref_cbor fs ''h'' ''s'' demo_pass (Some (replicate 32 2)) demo_rng = Inr ws \<and>
     load_epochs ref_epoch ref_keyring ref_cbor (run_writes fs ws) ''h'' ''s'' demo_pass = Inr c \<and>
     length (ec_records c) = 2 \<and> is_readable c 0"
proof -
  obtain fs c where c: "load_epochs ref_epoch ref_keyring ref_cbor fs ''h'' ''s'' demo_pass = Inr c"
    "length (ec_records c) = 1" "length (held_secrets c) = 1" "is_readable c 0"
    using demo_disk by blast
  have l: "crypto_laws ref_epoch" using epoch_laws_ref by (simp add: epoch_laws_def)
  have ok: "chain_ok ref_epoch c" using load_epochsE [OF l cbor_laws_ref c(1)] by blast
  obtain n c1 where a: "advance ref_epoch (Some (replicate 32 2)) c = Inr (n, c1)"
    using c(2) by (auto simp: advance_def random_array_def public_key_def ref_epoch_def ref_crypto_def MAX_CHAIN_ENTRIES_def Let_def)
  have o: "chain_ok ref_epoch c1" "length (held_secrets c1) = 2" "length (ec_records c1) = 2"
    using advance_chain_ok [OF epoch_laws_ref ok a] c(2,3) by auto
  obtain sb hb where s: "seal_chain ref_epoch ref_keyring ref_cbor demo_rng c1 demo_pass = Inr sb"
    "encode_records ref_cbor (ec_records c1) = Inr hb" using demo_seal [OF o(1)] o(2) by (auto simp: encode_records_def)
  have w: "epoch_advance_with ref_epoch ref_keyring ref_cbor fs ''h'' ''s'' demo_pass (Some (replicate 32 2)) demo_rng
      = Inr [Replace ''s'' sb, Replace ''h'' hb]"
    using c(1) a s by (simp add: epoch_advance_with_def)
  have "length hb \<le> MAX_LOG_FILE" using small_history [OF _ _ s(2)] o by (simp add: chain_ok_def)
  then have "load_epochs ref_epoch ref_keyring ref_cbor (run_writes fs [Replace ''s'' sb, Replace ''h'' hb]) ''h'' ''s'' demo_pass = Inr c1"
    using advance_disk [OF cli_laws_ref _ demo_pass_short demo_rng_ok _ w] c(1) a s(2) by auto
  moreover have "is_readable c1 0"
    using c(4) a by (auto simp: is_readable_def get_at_def nth_append split: if_splits elim!: advanceE)
  ultimately show ?thesis using w o(3) by blast
qed

subsection \<open>Key files\<close>

lemma load_key_of:
  assumes "crypto_laws A" "fs path = Some bs" "unprotect_seed A K bs q = Inr (seed, purpose)"
  shows "load_key A K fs path (Inr q) = Inr (case purpose of Identity \<Rightarrow> LoadedIdentity seed | Encryption \<Rightarrow> EncryptionOnly seed)"
proof -
  obtain v ps salt nonce c k where g:
    "file_shape v ps salt nonce purpose (sealed A k nonce (file_header v ps salt nonce purpose) seed)" "length seed = 32"
    "bs = file_header v ps salt nonce purpose @ sealed A k nonce (file_header v ps salt nonce purpose) seed"
    by (rule unprotect_genuine [OF assms(1,3)])
  then have n: "length bs \<le> MAX_KEY_FILE" "length seed = 32"
    using length_key_header [of salt nonce v ps] by (auto simp: file_header_def file_shape_def MAX_KEY_FILE_def)
  have "starts_with bs KEY_MAGIC" using assms(3) by (auto simp: unprotect_seed_def split: if_splits)
  then show ?thesis using assms(2,3) n
    by (cases purpose) (simp_all add: load_key_def read_bounded_def inspect_def secret_from_bytes_def require_len_def KEY_LENGTH_def)
qed

lemma load_key_raw:
  "fs path = Some seed \<Longrightarrow> length seed = 32 \<Longrightarrow> \<not> starts_with seed KEY_MAGIC \<Longrightarrow> load_key A K fs path q = Inr (LoadedIdentity seed)"
  by (simp add: load_key_def read_bounded_def inspect_def MAX_KEY_FILE_def)

lemma protected_size:
  assumes "crypto_laws A" "keyring_laws K" "length salt = 16" "length nonce = 12"
    "protect_seed A K (Some salt) (Some nonce) seed p u = Inr bs"
  shows "unprotect_seed A K bs p = Inr (seed, u)" "length bs \<le> MAX_KEY_FILE" "inspect bs = Protected"
proof -
  show u: "unprotect_seed A K bs p = Inr (seed, u)" and "length bs \<le> MAX_KEY_FILE"
    using unprotect_protected [OF assms(1,2) refl assms(5,3,4)] by (simp_all add: key_layout MAX_KEY_FILE_def)
  have "starts_with bs KEY_MAGIC" using u by (auto simp: unprotect_seed_def split: if_splits)
  then show "inspect bs = Protected" by (simp add: inspect_def)
qed

lemma protect_seed_length: "protect_seed A K rs rn seed p u = Inr bs \<Longrightarrow> length seed = 32"
  by (auto simp: protect_seed_def Let_def key_layout split: if_splits)

section \<open>Properties\<close>

text \<open>C4. Erasure on disk is final. After \<open>epoch-erase\<close> of an epoch that is not the current one, the store
  on disk opens to the same history without that secret; and in every later state of the disk, whatever
  \<open>epoch-advance\<close> and \<open>epoch-erase\<close> commands ran since and wherever each of them was cut short, a chain
  that loads does not contain it.\<close>

theorem erased_epoch_stays_gone:
  assumes "cli_laws A K C" "cp \<noteq> sp" "length (nfc K p) < 2 ^ 32" "rng_ok r"
    and "epoch_erase_with A K C fs n cp sp p r = Inr ws"
    and "disk_reach A K C cp sp p (run_writes fs ws) fs'"
  shows "(\<exists>c c'. load_epochs A K C fs cp sp p = Inr c \<and> n \<noteq> ec_current c \<and> ec_erase n c = Inr c' \<and>
            load_epochs A K C (run_writes fs ws) cp sp p = Inr c') \<and>
    (\<forall>c. load_epochs A K C fs' cp sp p = Inr c \<longrightarrow> \<not> is_readable c n \<and> n \<notin> fst ` set (held_secrets c))"
proof -
  have l: "crypto_laws A" "cbor_laws C" using assms(1) by (simp_all add: cli_laws_def epoch_laws_def)
  obtain c c' where e: "load_epochs A K C fs cp sp p = Inr c" "ec_erase n c = Inr c'" "n \<noteq> ec_current c"
    "load_epochs A K C (run_writes fs ws) cp sp p = Inr c'" "gone A K C cp sp p n (run_writes fs ws)"
    using erase_disk [OF assms(1-5)] by blast
  have g: "gone A K C cp sp p n fs'" by (rule gone_reach [OF assms(6,1-3) e(5)])
  have "\<not> is_readable d n \<and> n \<notin> fst ` set (held_secrets d)" if "load_epochs A K C fs' cp sp p = Inr d" for d
    using gone_not_held [OF l g that] not_held_unreadable load_epochsE [OF l that] by metis
  then show ?thesis using e by blast
qed

theorem erased_epoch_stays_gone_witness:
  "\<exists>fs ws c. epoch_erase_with ref_epoch ref_keyring ref_cbor fs 0 ''h'' ''s'' demo_pass demo_rng = Inr ws \<and>
     load_epochs ref_epoch ref_keyring ref_cbor (run_writes fs ws) ''h'' ''s'' demo_pass = Inr c \<and> \<not> is_readable c 0"
proof -
  let ?load = "\<lambda>fs. load_epochs ref_epoch ref_keyring ref_cbor fs ''h'' ''s'' demo_pass"
  obtain fs c where c: "?load fs = Inr c" "length (ec_records c) = 2" "is_readable c 0" using demo_advanced by blast
  have l: "crypto_laws ref_epoch" using epoch_laws_ref by (simp add: epoch_laws_def)
  have ok: "chain_ok ref_epoch c" using load_epochsE [OF l cbor_laws_ref c(1)] by blast
  have n: "length (ec_secrets c) = 2" using ok c(2) by (simp add: chain_ok_def ec_inv_def secrets_match_def)
  then obtain c2 where e: "ec_erase 0 c = Inr c2" by (simp add: ec_erase_def get_at_def)
  have "length (held_secrets c2) \<le> 65536"
    using e n by (auto simp: ec_erase_def get_at_def held_secrets_def List.map_filter_def intro: order_trans [OF length_filter_le])
  then obtain sb where s: "seal_chain ref_epoch ref_keyring ref_cbor demo_rng c2 demo_pass = Inr sb"
    using demo_seal erase_chain_ok [OF epoch_laws_ref ok e] by blast
  have "ec_current c = 1" "ec_records c \<noteq> []" using c(2) by (auto simp: ec_current_def len64_def)
  then have w: "epoch_erase_with ref_epoch ref_keyring ref_cbor fs 0 ''h'' ''s'' demo_pass demo_rng = Inr [Replace ''s'' sb]"
    using c e s by (simp add: epoch_erase_with_def ec_public_key_def get_at_def)
  have "''h'' \<noteq> ''s''" by simp
  from erased_epoch_stays_gone [OF cli_laws_ref this demo_pass_short demo_rng_ok w disk_refl] w
  show ?thesis by blast
qed

text \<open>C30. \<open>epoch-advance\<close> and what a crash leaves. When both files are written, the next command loads exactly
  the advanced chain, unless the new history exceeds the 16 MiB that the reader accepts: then nothing
  loads any more, although the chain may grow to a million epochs. When only the store was written, the
  heads disagree and loading is refused, so the store is never used with the wrong history.\<close>

theorem epoch_advance_crash:
  assumes "cli_laws A K C" "cp \<noteq> sp" "length (nfc K p) < 2 ^ 32" "rng_ok r" "\<forall>b. rng = Some b \<longrightarrow> length b = 32"
    and "epoch_advance_with A K C fs cp sp p rng r = Inr ws"
  shows "\<exists>c n c' hb. load_epochs A K C fs cp sp p = Inr c \<and> advance A rng c = Inr (n, c') \<and>
    encode_records C (ec_records c') = Inr hb \<and>
    load_epochs A K C (run_writes fs ws) cp sp p = (if length hb \<le> MAX_LOG_FILE then Inr c' else Inl (CliMessage TOO_LARGE)) \<and>
    (ec_head c' \<noteq> ec_head c \<longrightarrow>
       load_epochs A K C (run_writes fs (take 1 ws)) cp sp p = Inl (HeadsDiffer (ec_head c') (ec_head c)))"
  by (rule advance_disk [OF assms])

theorem epoch_advance_crash_witness:
  "\<exists>fs ws c n c'. epoch_advance_with ref_epoch ref_keyring ref_cbor fs ''h'' ''s'' demo_pass (Some (replicate 32 2)) demo_rng = Inr ws \<and>
     load_epochs ref_epoch ref_keyring ref_cbor fs ''h'' ''s'' demo_pass = Inr c \<and>
     advance ref_epoch (Some (replicate 32 2)) c = Inr (n, c') \<and>
     load_epochs ref_epoch ref_keyring ref_cbor (run_writes fs ws) ''h'' ''s'' demo_pass = Inr c'"
proof -
  obtain fs ws d where w:
    "epoch_advance_with ref_epoch ref_keyring ref_cbor fs ''h'' ''s'' demo_pass (Some (replicate 32 2)) demo_rng = Inr ws"
    "load_epochs ref_epoch ref_keyring ref_cbor (run_writes fs ws) ''h'' ''s'' demo_pass = Inr d"
    using demo_advanced by blast
  have r: "''h'' \<noteq> ''s''" "\<forall>b. Some (replicate 32 2) = Some b \<longrightarrow> length b = 32" by auto
  from epoch_advance_crash [OF cli_laws_ref r(1) demo_pass_short demo_rng_ok r(2) w(1)]
  obtain c n c' and hb :: bytes where c: "load_epochs ref_epoch ref_keyring ref_cbor fs ''h'' ''s'' demo_pass = Inr c"
    "advance ref_epoch (Some (replicate 32 2)) c = Inr (n, c')"
    "load_epochs ref_epoch ref_keyring ref_cbor (run_writes fs ws) ''h'' ''s'' demo_pass
       = (if length hb \<le> MAX_LOG_FILE then Inr c' else Inl (CliMessage TOO_LARGE))" by blast
  from c(3) w(2) have "load_epochs ref_epoch ref_keyring ref_cbor (run_writes fs ws) ''h'' ''s'' demo_pass = Inr c'"
    by (auto split: if_splits)
  with w(1) c(1,2) show ?thesis by blast
qed

text \<open>\<open>keygen\<close> writes three files that belong together: the secret file, sealed or not, loads to the
  encryption key whose public half is in the public file, and to the signing key whose public half is
  in the signing file; no existing file is touched.\<close>

theorem keygen_consistent:
  assumes "crypto_laws A" "keyring_laws K" "length seed = 32" "length salt = 16" "length nonce = 12"
    and "plaintext \<longrightarrow> \<not> starts_with seed KEY_MAGIC"
    and "keygen A K P fs sp pp g plaintext (Inr p) (Some seed) (Some salt) (Some nonce) = Inr ws"
    and "gp = (case g of Some path \<Rightarrow> path | None \<Rightarrow> append_extension pp ''sign'')"
  shows "\<exists>secret signing. load_secret A K (run_writes fs ws) sp (Inr p) = Inr secret \<and>
    load_signing_identity A K P (run_writes fs ws) sp (Inr p) = Inr signing \<and>
    run_writes fs ws pp = Some (hpke_pk A secret) \<and> run_writes fs ws gp = Some (vi_to_bytes (verifying_key P signing)) \<and>
    (\<forall>x. fs x \<noteq> None \<longrightarrow> run_writes fs ws x = fs x)"
proof -
  obtain kf signing where n: "fs sp = None" "fs pp = None" "fs gp = None" "sp \<noteq> pp" "gp \<noteq> sp" "gp \<noteq> pp"
    and s: "si_from_bytes P (signing_seed K seed) = Inr signing"
    and f: "if plaintext then kf = seed else protect_seed A K (Some salt) (Some nonce) seed p Identity = Inr kf"
    and w: "ws = [Create sp kf, Create gp (vi_to_bytes (verifying_key P signing)),
              Create pp (hpke_pk A (hkdf_from_prk K seed ENCRYPTION_INFO))]"
    using assms(7) unfolding keygen_def Let_def assms(8) [symmetric] recipient_secret_eq [OF assms(2)]
    by (auto simp: result_simps new_output_def identity_generate_def protect_identity_def public_key_def split: if_splits)
  have fs': "run_writes fs ws sp = Some kf" using n by (simp add: run_writes_def w)
  have "load_key A K (run_writes fs ws) sp (Inr p) = Inr (LoadedIdentity seed)"
  proof (cases plaintext)
    case True
    then show ?thesis using f assms(3,6) fs' by (simp add: load_key_raw)
  next
    case False
    then have "protect_seed A K (Some salt) (Some nonce) seed p Identity = Inr kf" using f by simp
    from protected_size(1) [OF assms(1,2,4,5) this] show ?thesis using load_key_of [where fs = "run_writes fs ws", OF assms(1) fs'] by simp
  qed
  then have "load_secret A K (run_writes fs ws) sp (Inr p) = Inr (hkdf_from_prk K seed ENCRYPTION_INFO)"
    "load_signing_identity A K P (run_writes fs ws) sp (Inr p) = Inr signing"
    by (simp_all add: load_secret_def load_signing_identity_def recipient_secret_eq [OF assms(2)] s)
  moreover have "\<forall>x. fs x \<noteq> None \<longrightarrow> run_writes fs ws x = fs x" using n by (auto simp: run_writes_def w)
  ultimately show ?thesis using n by (simp add: run_writes_def w)
qed

theorem keygen_consistent_witness:
  "\<exists>ws secret. keygen ref_crypto ref_keyring ref_sig Map.empty ''k'' ''p'' None True (Inr []) (Some (replicate 32 3))
       (Some (replicate 16 1)) (Some (replicate 12 2)) = Inr ws \<and>
     load_secret ref_crypto ref_keyring (run_writes Map.empty ws) ''k'' (Inr []) = Inr secret"
proof -
  have "length (signing_seed ref_keyring (replicate 32 3)) = 32"
    using keyring_laws_ref by (simp add: signing_seed_def identity_derive_def keyring_laws_def)
  then have k: "\<exists>ws. keygen ref_crypto ref_keyring ref_sig Map.empty ''k'' ''p'' None True (Inr []) (Some (replicate 32 3))
       (Some (replicate 16 1)) (Some (replicate 12 2)) = Inr ws"
    by (simp add: keygen_def append_extension_def new_output_def identity_generate_def recipient_secret_eq [OF keyring_laws_ref] si_from_bytes_def
        require_length_def SEED_LENGTH_def public_key_def ref_crypto_def)
  then obtain ws where ws: "keygen ref_crypto ref_keyring ref_sig Map.empty ''k'' ''p'' None True (Inr []) (Some (replicate 32 3))
       (Some (replicate 16 1)) (Some (replicate 12 2)) = Inr ws" by blast
  have "\<not> starts_with (replicate 32 3) KEY_MAGIC" by (simp add: starts_with_def KEY_MAGIC_def ascii_def)
  then show ?thesis using keygen_consistent [OF crypto_laws_ref keyring_laws_ref _ _ _ _ ws refl] ws by auto
qed



end
