(* ===== verification/Hide_Cli_Files.thy ===== *)
theory Hide_Cli_Files
  imports Hide_Cli
begin

text \<open>
  \<open>apps/hide-cli/src/main.rs\<close>: the commands on files and messages (\<open>encrypt\<close>, \<open>open\<close>, \<open>open --epochs\<close>,
  \<open>sign\<close>, \<open>verify\<close>, \<open>seal\<close>, \<open>unseal\<close>, \<open>share\<close>, \<open>describe\<close>). As in \<open>Hide_Cli\<close> a command returns the files
  it writes, together with what it prints on standard output and reports of the signer. An open file
  is read through \<open>fr\<close>: \<open>fr bs\<close> is the sequence of the read calls on a file with content \<open>bs\<close>
  (\<open>file_reader\<close> states that they deliver it). Standard input is the argument \<open>stdin\<close>.
\<close>

section \<open>Recipients and signers\<close>

definition IO_BUFFER :: nat where
  "IO_BUFFER = 2 ^ 20"

definition PUBLIC_KEY_LEN :: nat where
  "PUBLIC_KEY_LEN = 1216"

definition SIGNING_PUBLIC_LEN :: nat where
  "SIGNING_PUBLIC_LEN = VERIFYING_KEY_LENGTH"

definition MAX_SIGNING_KEY_FILE :: nat where
  "MAX_SIGNING_KEY_FILE = 8192"

definition DETACHED_CONTEXT :: bytes where
  "DETACHED_CONTEXT = ascii ''HIDE/0.5 detached''"

definition load_verifying_identity :: "sig_api \<Rightarrow> fs \<Rightarrow> path \<Rightarrow> CliError + VerifyingIdentity" where
  "load_verifying_identity P fs path =
     bindR (read_bounded fs path MAX_SIGNING_KEY_FILE) (\<lambda>bs.
       if length bs \<noteq> SIGNING_PUBLIC_LEN then Inl (CliMessage ''not a HIDE signing public key'')
       else map_err CliSign (vi_from_bytes P bs))"

text \<open>The closure of \<open>load_recipients\<close>: one recipient file, raw or pasteable.\<close>

definition load_recipient :: "crypto_api \<Rightarrow> b64_api \<Rightarrow> fs \<Rightarrow> path \<Rightarrow> CliError + bytes" where
  "load_recipient A B fs path =
     bindR (read_bounded fs path MAX_KEY_FILE) (\<lambda>bs.
     bindR (if starts_with bs PUBLIC_LABEL
            then if \<not> utf8_valid bs then Inl (CliMessage ''armored public key is not valid UTF-8'')
                 else map_err CliKeyring (decode_public B bs)
            else Inr bs) (\<lambda>raw.
     if length raw \<noteq> PUBLIC_KEY_LEN then Inl (CliMessage ''not a HIDE public key'')
     else map_err CliCrypto (public_from_bytes A raw)))"

definition load_recipients :: "crypto_api \<Rightarrow> b64_api \<Rightarrow> fs \<Rightarrow> path list \<Rightarrow> CliError + bytes list" where
  "load_recipients A B fs paths =
     (if paths = [] \<or> 64 < length paths then Inl (CliMessage ''recipient count must be between 1 and 64'')
      else mapR (load_recipient A B fs) paths)"

definition share :: "crypto_api \<Rightarrow> b64_api \<Rightarrow> fs \<Rightarrow> path \<Rightarrow> CliError + str" where
  "share A B fs public_path =
     bindR (read_bounded fs public_path MAX_KEY_FILE) (\<lambda>bs.
       if length bs \<noteq> PUBLIC_KEY_LEN then Inl (CliMessage ''not a HIDE public key'')
       else bindR (map_err CliCrypto (public_from_bytes A bs)) (\<lambda>_. Inr (encode_public B bs)))"

section \<open>Files\<close>

type_synonym file_reader = "bytes \<Rightarrow> reader"

definition open_input :: "file_reader \<Rightarrow> fs \<Rightarrow> path \<Rightarrow> CliError + reader" where
  "open_input fr fs path = (case fs path of None \<Rightarrow> Inl CliIo | Some bs \<Rightarrow> Inr (fr bs))"

text \<open>\<open>Path::file_name\<close>: the last component, unless it is \<open>..\<close> or there is none.\<close>

primrec path_split :: "path \<Rightarrow> string list" where
  "path_split [] = [[]]"
| "path_split (c # p) =
     (if c = CHR ''/'' then [] # path_split p else (c # hd (path_split p)) # tl (path_split p))"

definition file_name :: "path \<Rightarrow> string option" where
  "file_name path =
     (let cs = filter (\<lambda>c. c \<noteq> [] \<and> c \<noteq> ''.'') (path_split path)
      in if cs = [] \<or> last cs = ''..'' then None else Some (last cs))"

definition encrypt_file ::
  "crypto_api \<Rightarrow> keyring_api \<Rightarrow> cbor_api \<Rightarrow> sig_api \<Rightarrow> b64_api \<Rightarrow> rng \<Rightarrow> file_reader \<Rightarrow> fs \<Rightarrow> path \<Rightarrow> path list \<Rightarrow> path \<Rightarrow>
   path option \<Rightarrow> CliError + str \<Rightarrow> bool \<Rightarrow> CliError + file_write list" where
  "encrypt_file A K C P B draw fr fs input recipients output sign_with passphrase public_signature =
     (if public_signature \<and> sign_with = None then Inl (CliMessage ''--public-signature needs --sign'')
      else
        bindR (load_recipients A B fs recipients) (\<lambda>recipients.
        bindR (open_input fr fs input) (\<lambda>source.
        bindR (new_output fs output) (\<lambda>_.
        bindR (case file_name input of
                 None \<Rightarrow> Inl (CliMessage ''input filename must be valid UTF-8'')
               | Some name \<Rightarrow> if utf8_valid (ascii name) then Inr (ascii name)
                              else Inl (CliMessage ''input filename must be valid UTF-8'')) (\<lambda>filename.
        let metadata = \<lparr>md_filename = Some filename, md_media_type = None, md_signature = None, md_extensions = []\<rparr> in
        bindR (case sign_with of
                 None \<Rightarrow> map_err CliObject (encrypt A C P draw source recipients metadata)
               | Some path \<Rightarrow>
                   bindR (load_signing_identity A K P fs path passphrase) (\<lambda>identity.
                     map_err CliObject (encrypt_signed A C P draw source recipients metadata identity
                       (if public_signature then Public else Confidential)))) (\<lambda>(_, container).
          Inr [Create output container]))))))"

definition open_file ::
  "crypto_api \<Rightarrow> keyring_api \<Rightarrow> cbor_api \<Rightarrow> sig_api \<Rightarrow> file_reader \<Rightarrow> fs \<Rightarrow> path \<Rightarrow> path \<Rightarrow> CliError + str \<Rightarrow> path \<Rightarrow>
   CliError + file_write list \<times> VerifyingIdentity option" where
  "open_file A K C P fr fs input secret_path passphrase output =
     bindR (load_secret A K fs secret_path passphrase) (\<lambda>secret.
     bindR (open_input fr fs input) (\<lambda>source.
     bindR (new_output fs output) (\<lambda>_.
     bindR (map_err CliObject (decrypt_to_staging A C P source secret)) (\<lambda>(verified, plaintext).
       Inr ([Create output plaintext], vo_signer verified)))))"

text \<open>\<open>open_with_store\<close>: the held epochs, newest first; the input is rewound before each attempt.\<close>

fun try_epochs ::
  "crypto_api \<Rightarrow> cbor_api \<Rightarrow> sig_api \<Rightarrow> reader \<Rightarrow> (EpochNumber \<times> bytes) list \<Rightarrow>
   CliError + EpochNumber \<times> VerifiedObject \<times> bytes" where
  "try_epochs A C P source [] = Inl (CliMessage ''no epoch held can open this file'')"
| "try_epochs A C P source ((number, secret) # held) =
     (case decrypt_to_staging A C P source secret of
        Inr (verified, plaintext) \<Rightarrow> Inr (number, verified, plaintext)
      | Inl e \<Rightarrow> if e = NoMatchingRecipient then try_epochs A C P source held else Inl (CliObject e))"

definition open_with_store ::
  "crypto_api \<Rightarrow> cbor_api \<Rightarrow> sig_api \<Rightarrow> file_reader \<Rightarrow> fs \<Rightarrow> path \<Rightarrow> EpochStore \<Rightarrow> path \<Rightarrow>
   CliError + EpochNumber \<times> file_write list \<times> VerifyingIdentity option" where
  "open_with_store A C P fr fs input st output =
     bindR (open_input fr fs input) (\<lambda>source.
     bindR (new_output fs output) (\<lambda>_.
     bindR (try_epochs A C P source (rev (store_iter st))) (\<lambda>(number, verified, plaintext).
       Inr (number, [Create output plaintext], vo_signer verified))))"

definition open_with_epoch_store ::
  "crypto_api \<Rightarrow> keyring_api \<Rightarrow> cbor_api \<Rightarrow> sig_api \<Rightarrow> file_reader \<Rightarrow> fs \<Rightarrow> path \<Rightarrow> path \<Rightarrow> CliError + str \<Rightarrow> path \<Rightarrow>
   CliError + EpochNumber \<times> file_write list \<times> VerifyingIdentity option" where
  "open_with_epoch_store A K C P fr fs input store_path prompt output =
     bindR (read_epoch_store fs store_path) (\<lambda>sealed.
     bindR prompt (\<lambda>passphrase.
     bindR (map_err CliKeyring (store_open A K C sealed passphrase)) (\<lambda>st.
       open_with_store A C P fr fs input st output)))"

section \<open>Detached signatures\<close>

definition hex_digit :: "nat \<Rightarrow> char" where
  "hex_digit n = char_of (if n < 10 then 48 + n else 87 + n)"

definition hex :: "bytes \<Rightarrow> string" where
  "hex bs = concat (map (\<lambda>b. [hex_digit (unat b div 16), hex_digit (unat b mod 16)]) bs)"

definition cli_fingerprint :: "crypto_api \<Rightarrow> VerifyingIdentity \<Rightarrow> string" where
  "cli_fingerprint A identity = hex (take 8 (hash A [vi_to_bytes identity]))"

definition short_hex :: "bytes \<Rightarrow> string" where
  "short_hex bs = hex (take 8 bs)"

definition detached_message :: "bytes \<Rightarrow> u64 \<Rightarrow> bytes" where
  "detached_message digest len = ascii ''HIDE/0.5 detached-file'' @ digest @ be64 len"

text \<open>The loop of \<open>hash_file\<close>. It calls \<open>read\<close> itself, so an interruption is an error here.\<close>

function hash_loop :: "reader \<Rightarrow> bytes \<Rightarrow> u64 \<Rightarrow> CliError + bytes \<times> u64" where
  "hash_loop source hasher len =
     (case reader_read source IO_BUFFER of
        (ROk d, source') \<Rightarrow>
          if d = [] then Inr (hasher, len)
          else hash_loop source' (hasher_update hasher d) (len + len64 d)
      | _ \<Rightarrow> Inl CliIo)"
  by pat_completeness auto
termination
proof (relation "measure (\<lambda>(r, _, _). length (content r) + length r)")
  fix source source' :: reader and hasher d q and len :: u64
  assume "(q, source') = reader_read source IO_BUFFER" "q = ROk d" "d \<noteq> []"
  then show "((source', hasher_update hasher d, len + len64 d), source, hasher, len)
      \<in> measure (\<lambda>(r, _, _). length (content r) + length r)"
    by (cases "(source, IO_BUFFER)" rule: reader_read.cases) (auto simp: IO_BUFFER_def split: if_splits)
qed simp

declare hash_loop.simps [simp del]

definition hash_file :: "crypto_api \<Rightarrow> file_reader \<Rightarrow> fs \<Rightarrow> path \<Rightarrow> CliError + bytes \<times> u64" where
  "hash_file A fr fs path =
     bindR (open_input fr fs path) (\<lambda>source.
     bindR (hash_loop source hasher_new 0) (\<lambda>(hasher, len). Inr (hasher_finish A hasher, len)))"

definition signature_path :: "path \<Rightarrow> path option \<Rightarrow> path" where
  "signature_path input explicit =
     (case explicit of Some path \<Rightarrow> path | None \<Rightarrow> append_extension input ''hide-sig'')"

definition sign_file ::
  "crypto_api \<Rightarrow> keyring_api \<Rightarrow> sig_api \<Rightarrow> file_reader \<Rightarrow> fs \<Rightarrow> path \<Rightarrow> path \<Rightarrow> CliError + str \<Rightarrow> path option \<Rightarrow>
   CliError + file_write list" where
  "sign_file A K P fr fs input secret_path passphrase output =
     (let output = signature_path input output in
      bindR (load_signing_identity A K P fs secret_path passphrase) (\<lambda>identity.
      bindR (new_output fs output) (\<lambda>_.
      bindR (hash_file A fr fs input) (\<lambda>(digest, len).
        Inr [Create output (vi_to_bytes (verifying_key P identity)
                            @ sign P identity DETACHED_CONTEXT (detached_message digest len))]))))"

definition verify_file ::
  "crypto_api \<Rightarrow> sig_api \<Rightarrow> file_reader \<Rightarrow> fs \<Rightarrow> path \<Rightarrow> path \<Rightarrow> path option \<Rightarrow> CliError + unit" where
  "verify_file A P fr fs input signer_path signature =
     (let signature_file = signature_path input signature in
      bindR (load_verifying_identity P fs signer_path) (\<lambda>expected.
      bindR (read_bounded fs signature_file MAX_SIGNING_KEY_FILE) (\<lambda>bs.
      if length bs \<noteq> SIGNING_PUBLIC_LEN + SIGNATURE_LENGTH then Inl (CliMessage ''not a HIDE signature'')
      else
        let embedded = take SIGNING_PUBLIC_LEN bs; signature = drop SIGNING_PUBLIC_LEN bs in
        if embedded \<noteq> vi_to_bytes expected
        then bindR (map_err CliSign (vi_from_bytes P embedded)) (\<lambda>found.
               Inl (CliMessage (''signature is by key '' @ cli_fingerprint A found @ '', not ''
                                @ cli_fingerprint A expected)))
        else
          bindR (hash_file A fr fs input) (\<lambda>(digest, len).
            map_err CliSign (verify P expected DETACHED_CONTEXT (detached_message digest len) signature)))))"

section \<open>Armored messages\<close>

definition MAX_ARMORED_MESSAGE :: nat where
  "MAX_ARMORED_MESSAGE = 1024 * 1024"

definition MESSAGE_HEADER :: str where
  "MESSAGE_HEADER = ascii ''----- BEGIN HIDE MESSAGE -----''"

definition MESSAGE_FOOTER :: str where
  "MESSAGE_FOOTER = ascii ''----- END HIDE MESSAGE -----''"

definition read_armored_message :: "fs \<Rightarrow> bytes \<Rightarrow> path option \<Rightarrow> CliError + str" where
  "read_armored_message fs stdin input =
     bindR (case input of Some path \<Rightarrow> ok_or (fs path) CliIo | None \<Rightarrow> Inr stdin) (\<lambda>bs.
       if MAX_ARMORED_MESSAGE < length bs then Inl (CliMessage ''that armored message is larger than 1 MiB'')
       else if \<not> utf8_valid bs then Inl (CliMessage ''an armored message must be valid UTF-8'')
       else Inr bs)"

definition armor_message :: "b64_api \<Rightarrow> bytes \<Rightarrow> str" where
  "armor_message B container =
     MESSAGE_HEADER @ [NL]
     @ concat (map (\<lambda>chunk. (if utf8_valid chunk then chunk else []) @ [NL]) (chunks_of 76 (b64_enc B container)))
     @ MESSAGE_FOOTER @ [NL]"

text \<open>\<open>str::contains\<close> with a string pattern.\<close>

primrec str_contains :: "str \<Rightarrow> str \<Rightarrow> bool" where
  "str_contains p [] = (p = [])"
| "str_contains p (a # s) = (starts_with (a # s) p \<or> str_contains p s)"

definition dearmor_message :: "b64_api \<Rightarrow> str \<Rightarrow> CliError + bytes" where
  "dearmor_message B text =
     (let body = concat (map str_trim
                   (takeWhile (\<lambda>line. \<not> str_contains MESSAGE_FOOTER line)
                     (drop 1 (dropWhile (\<lambda>line. \<not> str_contains MESSAGE_HEADER line) (str_lines text)))))
      in if body = [] then Inl (CliMessage ''no HIDE message found in the input'')
         else ok_or (b64_dec B body) (CliMessage ''message body is not valid base64''))"

text \<open>\<open>seal_message\<close> returns the files it writes and what it prints.\<close>

definition seal_message ::
  "crypto_api \<Rightarrow> cbor_api \<Rightarrow> sig_api \<Rightarrow> b64_api \<Rightarrow> rng \<Rightarrow> fs \<Rightarrow> bytes \<Rightarrow> str option \<Rightarrow> path list \<Rightarrow> path option \<Rightarrow>
   CliError + file_write list \<times> str" where
  "seal_message A C P B draw fs stdin message recipients output =
     bindR (load_recipients A B fs recipients) (\<lambda>recipients.
     bindR (case message of
              Some text \<Rightarrow> Inr text
            | None \<Rightarrow> if utf8_valid stdin then Inr stdin else Inl CliIo) (\<lambda>plaintext.
     if plaintext = [] then Inl (CliMessage ''refusing to seal an empty message'')
     else
       let metadata = \<lparr>md_filename = None, md_media_type = Some (ascii ''text/plain''), md_signature = None,
                       md_extensions = []\<rparr> in
       bindR (map_err CliObject (encrypt A C P draw (slice_reader plaintext) recipients metadata)) (\<lambda>(_, container).
       let armored = armor_message B container in
       case output of
         Some path \<Rightarrow> bindR (new_output fs path) (\<lambda>_. Inr ([Create path armored], []))
       | None \<Rightarrow> Inr ([], armored))))"

definition unseal_message ::
  "crypto_api \<Rightarrow> keyring_api \<Rightarrow> cbor_api \<Rightarrow> sig_api \<Rightarrow> b64_api \<Rightarrow> fs \<Rightarrow> bytes \<Rightarrow> path option \<Rightarrow> path \<Rightarrow> CliError + str \<Rightarrow>
   CliError + str \<times> VerifyingIdentity option" where
  "unseal_message A K C P B fs stdin input secret_path passphrase =
     bindR (read_armored_message fs stdin input) (\<lambda>text.
     bindR (dearmor_message B text) (\<lambda>container.
     bindR (load_secret A K fs secret_path passphrase) (\<lambda>secret.
     bindR (map_err CliObject (decrypt_to_staging A C P (slice_reader container) secret)) (\<lambda>(verified, plaintext).
     if \<not> utf8_valid plaintext then Inl (CliMessage ''message decrypted but is not valid UTF-8'')
     else Inr (plaintext @ (if plaintext \<noteq> [] \<and> last plaintext = NL then [] else [NL]), vo_signer verified)))))"

section \<open>What a file is\<close>

datatype Description =
    ProtectedKey
  | PlaintextKey
  | PublicKeyFile
  | SigningKeyFile "string option"
  | DetachedSignature "string option"
  | Container byte byte byte nat "FormatError + bool"

text \<open>\<open>describe\<close>. The first read may fail (a container is larger than a key file): it is then skipped.\<close>

definition describe_key :: "crypto_api \<Rightarrow> sig_api \<Rightarrow> bytes \<Rightarrow> Description option" where
  "describe_key A P bs =
     (let key_of = (\<lambda>b. case vi_from_bytes P b of Inr identity \<Rightarrow> Some (cli_fingerprint A identity) | Inl _ \<Rightarrow> None)
      in case inspect bs of
           Protected \<Rightarrow> Some ProtectedKey
         | Raw \<Rightarrow>
             if length bs = 32 then Some PlaintextKey
             else if length bs = PUBLIC_KEY_LEN then Some PublicKeyFile
             else if length bs = SIGNING_PUBLIC_LEN then Some (SigningKeyFile (key_of bs))
             else if length bs = SIGNING_PUBLIC_LEN + SIGNATURE_LENGTH
               then Some (DetachedSignature (key_of (take SIGNING_PUBLIC_LEN bs)))
             else None)"

definition describe_container :: "file_reader \<Rightarrow> fs \<Rightarrow> path \<Rightarrow> CliError + Description" where
  "describe_container fr fs path =
     bindR (open_input fr fs path) (\<lambda>source.
     bindR (map_err (\<lambda>_. CliMessage ''file is too short to be a HIDE container'') (read_exact source 16)) (\<lambda>(preamble, _).
     if take 8 preamble \<noteq> MAGIC then Inl (CliMessage ''not a HIDE container or key file'')
     else
       bindR (ok_or (map_option length (fs path)) CliIo) (\<lambda>size.
         Inr (Container (preamble ! 8) (preamble ! 9) (preamble ! 11) size
                (bindR (pre_decode preamble) (\<lambda>p. Inr (pre_is_signed p)))))))"

definition describe :: "crypto_api \<Rightarrow> sig_api \<Rightarrow> file_reader \<Rightarrow> fs \<Rightarrow> path \<Rightarrow> CliError + Description" where
  "describe A P fr fs path =
     (case read_bounded fs path MAX_SIGNING_KEY_FILE of
        Inr bs \<Rightarrow> (case describe_key A P bs of
                     Some d \<Rightarrow> Inr d
                   | None \<Rightarrow> describe_container fr fs path)
      | Inl _ \<Rightarrow> describe_container fr fs path)"

section \<open>Lemmas\<close>

text \<open>The read calls on a file deliver its content, in whatever pieces.\<close>

definition delivers :: "file_reader \<Rightarrow> bool" where
  "delivers fr \<longleftrightarrow> (\<forall>bs. reader_ok (fr bs) \<and> content (fr bs) = bs)"

definition uninterrupted :: "file_reader \<Rightarrow> bool" where
  "uninterrupted fr \<longleftrightarrow> (\<forall>bs. Interrupted \<notin> set (fr bs))"

lemma slice_delivers: "delivers slice_reader" "uninterrupted slice_reader"
proof -
  show "delivers slice_reader" by (simp add: delivers_def slice_reader_ok)
  show "uninterrupted slice_reader" by (simp add: uninterrupted_def slice_reader_def)
qed

lemma open_input_Inr: "delivers fr \<Longrightarrow> fs path = Some bs \<Longrightarrow> open_input fr fs path = Inr (fr bs) \<and> reader_ok (fr bs) \<and> content (fr bs) = bs"
  by (simp add: open_input_def delivers_def)

lemma new_output_Inr [result_simps]: "new_output fs path = Inr u \<longleftrightarrow> fs path = None"
  by (simp add: new_output_def)

lemma len64_append: "len64 (xs @ ys) = len64 xs + len64 ys"
  by (simp add: len64_def)

lemma hash_loop_content:
  assumes "reader_ok r" "Interrupted \<notin> set r"
  shows "hash_loop r h n = Inr (h @ content r, n + len64 (content r))"
  using assms
proof (induction r h n rule: hash_loop.induct)
  case (1 r h n)
  show ?case
  proof (cases "(r, IO_BUFFER)" rule: reader_read.cases)
    case (1 m)
    then show ?thesis by (simp add: hash_loop.simps len64_def)
  next
    case (2 c r0 m)
    let ?r = "if length c \<le> IO_BUFFER then r0 else Chunk (drop IO_BUFFER c) # r0" and ?d = "take IO_BUFFER c"
    have c: "r = Chunk c # r0" "c \<noteq> []" using "1.prems" 2 by (auto simp: reader_ok_def)
    then have d: "?d \<noteq> []" "reader_read r IO_BUFFER = (ROk ?d, ?r)" by (simp_all add: IO_BUFFER_def)
    have ok: "reader_ok ?r" "Interrupted \<notin> set ?r" using "1.prems" c by (auto simp: reader_ok_def)
    have "content r = ?d @ content ?r" using c by simp
    then show ?thesis
      using "1.IH" [OF d(2) [symmetric] refl d(1) ok] d by (simp add: hash_loop.simps [of r] hasher_update_def len64_append)
  qed (use "1.prems" in \<open>auto simp: reader_ok_def\<close>)
qed

lemma hash_file_Inr:
  assumes "delivers fr" "uninterrupted fr" "fs path = Some bs"
  shows "hash_file A fr fs path = Inr (sha256 A bs, len64 bs)"
proof -
  have "hash_loop (fr bs) hasher_new 0 = Inr (bs, len64 bs)"
    using hash_loop_content [of "fr bs" hasher_new 0] assms(1,2) by (simp add: delivers_def uninterrupted_def hasher_new_def)
  then show ?thesis using assms(3) by (simp add: hash_file_def open_input_def hasher_finish_def)
qed

text \<open>Armor. A line of base64 contains no hyphen, so it is neither the header nor the footer.\<close>

lemma str_contains_self: "p \<noteq> [] \<Longrightarrow> str_contains p p"
  by (cases p) (simp_all add: starts_with_def)

lemma not_contains: "x \<in> set p \<Longrightarrow> x \<notin> set s \<Longrightarrow> \<not> str_contains p s"
proof (induction s)
  case (Cons a s)
  have "\<not> starts_with (a # s) p"
    using Cons.prems set_take_subset [of "length p" "a # s"] by (auto simp: starts_with_def)
  then show ?case using Cons by simp
qed auto

lemma message_lines:
  "0x2D \<in> set MESSAGE_HEADER" "0x2D \<in> set MESSAGE_FOOTER" "\<forall>b\<in>set MESSAGE_HEADER \<union> set MESSAGE_FOOTER. b < 0x80 \<and> b \<noteq> NL \<and> b \<noteq> 0x0D"
  by (simp_all add: MESSAGE_HEADER_def MESSAGE_FOOTER_def ascii_def NL_def)

lemma armor_lines:
  assumes "b64_laws B"
  shows "armor_message B c = concat (map (\<lambda>l. l @ [NL]) (MESSAGE_HEADER # chunks_of 76 (b64_enc B c) @ [MESSAGE_FOOTER]))"
    "\<forall>l\<in>set (chunks_of 76 (b64_enc B c)). l \<noteq> [] \<and> (\<forall>b\<in>set l. b64_char b)"
proof -
  show cs: "\<forall>l\<in>set (chunks_of 76 (b64_enc B c)). l \<noteq> [] \<and> (\<forall>b\<in>set l. b64_char b)"
    using chunks_of_ne b64_lawsD(2) [OF assms] by blast
  then have "\<forall>l\<in>set (chunks_of 76 (b64_enc B c)). utf8_valid l" using b64_char_plain by (auto intro!: utf8_valid_ascii)
  then have m: "map (\<lambda>l. (if utf8_valid l then l else []) @ [NL]) (chunks_of 76 (b64_enc B c)) = map (\<lambda>l. l @ [NL]) (chunks_of 76 (b64_enc B c))"
    by (intro map_cong) simp_all
  show "armor_message B c = concat (map (\<lambda>l. l @ [NL]) (MESSAGE_HEADER # chunks_of 76 (b64_enc B c) @ [MESSAGE_FOOTER]))"
    unfolding armor_message_def m by simp
qed

lemma armor_utf8:
  assumes "b64_laws B"
  shows "utf8_valid (armor_message B c)"
proof (rule utf8_valid_ascii, rule ballI)
  fix b assume "b \<in> set (armor_message B c)"
  then show "b < 0x80"
    using armor_lines [OF assms, of c] message_lines(3) b64_char_plain by (auto simp: NL_def split: if_splits)
qed

lemma dearmor_armor:
  assumes "b64_laws B" "b64_enc B c \<noteq> []"
  shows "dearmor_message B (armor_message B c) = Inr c"
proof -
  let ?cs = "chunks_of 76 (b64_enc B c)"
  note cs = armor_lines(2) [OF assms(1), of c]
  have "str_lines (armor_message B c) = MESSAGE_HEADER # ?cs @ [MESSAGE_FOOTER]"
    unfolding armor_lines(1) [OF assms(1)]
    by (rule lines_of_lines) (use cs message_lines(3) b64_char_plain in fastforce)
  moreover have "str_contains MESSAGE_HEADER MESSAGE_HEADER" "str_contains MESSAGE_FOOTER MESSAGE_FOOTER"
    using message_lines(1,2) by (auto intro!: str_contains_self)
  moreover have "takeWhile (\<lambda>l. \<not> str_contains MESSAGE_FOOTER l) (?cs @ [MESSAGE_FOOTER]) = ?cs"
  proof -
    have "\<forall>l\<in>set ?cs. \<not> str_contains MESSAGE_FOOTER l" using cs b64_char_plain not_contains [OF message_lines(2)] by blast
    then show ?thesis using calculation(3) by (simp add: takeWhile_append)
  qed
  moreover have "map str_trim ?cs = ?cs" using cs trim_b64 by (simp add: map_idI)
  ultimately show ?thesis using assms(2) b64_lawsD(1) [OF assms(1)] by (simp add: dearmor_message_def)
qed

lemma encrypt_nonempty:
  assumes "crypto_laws A" "reader_ok input" "encrypt A C P draw input recipients metadata = Inr (n, out)"
  shows "out \<noteq> []"
proof -
  obtain mat sts where e: "encrypt_inner A C P input metadata mat sts None shape_default = Inr (n, out)"
    using assms(3) by (auto simp: encrypt_def encrypt_with_material_def result_simps)
  have "\<not> is_legacy_placement None" by (simp add: is_legacy_placement_def)
  from encrypt_innerE [OF assms(1,2) this e] obtain pre rest where "out = pre_encode pre @ rest" by blast
  then show ?thesis by (simp add: pre_encode_def MAGIC_def)
qed

text \<open>The loop over the held epochs finds the first that does not report a missing stanza.\<close>

lemma try_epochs_append:
  assumes "\<forall>e\<in>set es. decrypt_to_staging A C P source (snd e) = Inl NoMatchingRecipient"
  shows "try_epochs A C P source (es @ fs) = try_epochs A C P source fs"
  using assms by (induction es) auto

lemma try_epochs_Inr:
  "try_epochs A C P source es = Inr (n, vo, pt) \<longleftrightarrow>
     (\<exists>xs s ys. es = xs @ (n, s) # ys \<and> decrypt_to_staging A C P source s = Inr (vo, pt) \<and>
       (\<forall>e\<in>set xs. decrypt_to_staging A C P source (snd e) = Inl NoMatchingRecipient))" (is "_ \<longleftrightarrow> ?R es")
proof
  show "try_epochs A C P source es = Inr (n, vo, pt) \<Longrightarrow> ?R es"
  proof (induction es)
    case (Cons e es)
    obtain m s where e: "e = (m, s)" by (cases e)
    show ?case
    proof (cases "decrypt_to_staging A C P source s")
      case (Inl err)
      then have "err = NoMatchingRecipient" "try_epochs A C P source es = Inr (n, vo, pt)"
        using Cons.prems e by (auto split: if_splits)
      then obtain xs t ys where "es = xs @ (n, t) # ys" "decrypt_to_staging A C P source t = Inr (vo, pt)"
          "\<forall>x\<in>set (e # xs). decrypt_to_staging A C P source (snd x) = Inl NoMatchingRecipient"
        using Cons.IH Inl e by auto
      then show ?thesis by (intro exI [of _ "e # xs"]) auto
    next
      case (Inr r)
      then show ?thesis using Cons.prems e by (intro exI [of _ "[]"] exI [of _ s] exI [of _ es]) auto
    qed
  qed simp
qed (auto simp: try_epochs_append)

section \<open>A concrete key\<close>

text \<open>The reference primitives with public keys of the real length.\<close>

definition ref_full :: crypto_api where
  "ref_full = ref_crypto\<lparr>hpke_pk := (\<lambda>sk. replicate 1184 0 @ sk),
     hpke_sender := (\<lambda>pk i s. Some (replicate 1120 0, drop 1184 pk))\<rparr>"

lemma crypto_laws_full: "crypto_laws ref_full"
  by (auto simp: crypto_laws_def ref_full_def ref_crypto_def)

definition demo_keyring :: keyring_api where
  "demo_keyring = ref_keyring\<lparr>hkdf_from_prk := (\<lambda>_ _. demo_secret)\<rparr>"

definition demo_public :: bytes where
  "demo_public = replicate 1184 0 @ demo_secret"

definition demo_fs :: fs where
  "demo_fs = [''k'' \<mapsto> replicate 32 3, ''p'' \<mapsto> demo_public, ''m'' \<mapsto> [1, 2, 3]]"

lemma demo_file_key:
  "load_secret A demo_keyring demo_fs ''k'' pw = Inr demo_secret" "public_key ref_full demo_secret = Inr demo_public"
proof -
  have "\<not> starts_with (replicate 32 3) KEY_MAGIC" by (simp add: starts_with_def KEY_MAGIC_def ascii_def)
  then have "load_key A demo_keyring demo_fs ''k'' pw = Inr (LoadedIdentity (replicate 32 3))"
    by (intro load_key_raw) (simp_all add: demo_fs_def)
  then show "load_secret A demo_keyring demo_fs ''k'' pw = Inr demo_secret"
    by (simp add: load_secret_def recipient_secret_def identity_derive_def demo_keyring_def secret_from_bytes_def
        require_len_def KEY_LENGTH_def demo_secret_def)
  show "public_key ref_full demo_secret = Inr demo_public"
    by (simp add: public_key_def demo_public_def ref_full_def ref_crypto_def)
qed

lemma demo_public_ok: "public_from_bytes ref_full demo_public = Inr demo_public" "length demo_public = 1216"
proof -
  have "demo_secret \<notin> set SMALL_ORDER_POINTS"
  proof
    assume "demo_secret \<in> set SMALL_ORDER_POINTS"
    then have "hd demo_secret \<in> hd ` set SMALL_ORDER_POINTS" by simp
    then show False by (simp add: demo_secret_def SMALL_ORDER_POINTS_def)
  qed
  then show "public_from_bytes ref_full demo_public = Inr demo_public"
    by (simp add: public_from_bytes_def demo_public_def demo_setup(2) ref_full_def ref_crypto_def X25519_OFFSET_def
        is_canonical_x25519_def) (simp add: demo_secret_def)
  show "length demo_public = 1216" by (simp add: demo_public_def demo_secret_def)
qed

lemma demo_recipient: "load_recipients ref_full ref_b64 demo_fs [''p''] = Inr [demo_public]"
proof -
  have "\<not> starts_with demo_public PUBLIC_LABEL"
    by (simp add: starts_with_def PUBLIC_LABEL_def demo_public_def ascii_def)
  then show ?thesis
    using demo_public_ok
    by (simp add: load_recipients_def load_recipient_def read_bounded_def MAX_KEY_FILE_def PUBLIC_KEY_LEN_def demo_fs_def)
qed

lemma demo_file_md:
  "md_signing_base ref_cbor \<lparr>md_filename = Some (ascii ''m''), md_media_type = None, md_signature = None, md_extensions = []\<rparr>
     = Inr [161, 1, 97, 109]"
  "md_signing_base ref_cbor \<lparr>md_filename = None, md_media_type = Some (ascii ''text/plain''), md_signature = None, md_extensions = []\<rparr>
     = Inr ([161, 2, 106] @ ascii ''text/plain'')"
  by (simp_all add: md_signing_base_def md_encode_with_signature_def encode_filename_def validate_filename_def
      encode_media_type_def encode_md_signature_def check_extensions_def encode_extensions_def count_opt_def to_ascii_uppercase_def
      FORBIDDEN_def ref_cbor_def cbor_head_def len64_def format_limits ascii_def Let_def)

lemma usable_full: "length sk = 32 \<Longrightarrow> usable_key ref_full (replicate 1184 0 @ sk)"
  by (auto simp: usable_key_def ref_full_def ref_crypto_def wrap_with_rng_def object_context_def Let_def)

lemma demo_container:
  assumes "md_signature md = None" "md_signing_base ref_cbor md = Inr base" "length base \<le> 100"
  shows "\<exists>c. encrypt ref_full ref_cbor ref_sig demo_draw (slice_reader [1, 2, 3]) [demo_public] md = Inr (3, c)"
proof -
  have u: "\<forall>r\<in>set [demo_public]. usable_key ref_full r" using usable_full [OF demo_setup(2)] by (simp add: demo_public_def)
  have "\<exists>c. encrypt ref_full ref_cbor ref_sig demo_draw (slice_reader [1, 2, 3]) [demo_public] md
      = Inr (length (content (slice_reader [1, 2, 3])), c)"
    by (rule encrypt_total(1) [OF crypto_laws_full sig_laws_ref cbor_small_ref demo_setup(1) _ slice_reader_ok(1) u _ _ assms(1,2)])
       (use assms(3) in \<open>simp_all add: demo_draw_def payload_fits_def slice_reader_ok format_limits MAX_CHUNKS_def CHUNK_LEN_def\<close>)
  moreover have "length (content (slice_reader [1, 2, 3])) = 3" by (simp add: slice_reader_ok)
  ultimately show ?thesis by simp
qed

lemma armor_length:
  assumes "b64_laws B"
  shows "length (armor_message B c) \<le> length (b64_enc B c) + length (b64_enc B c) div 76 + 62"
proof -
  let ?cs = "chunks_of 76 (b64_enc B c)"
  have "length (concat (map (\<lambda>l. l @ [NL]) ls)) = length (concat ls) + length ls" for ls :: "str list"
    by (induction ls) simp_all
  then have "length (armor_message B c) = length (b64_enc B c) + length ?cs + 60"
    by (simp add: armor_lines(1) [OF assms] MESSAGE_HEADER_def MESSAGE_FOOTER_def del: length_concat)
  moreover have "76 * length ?cs \<le> length (b64_enc B c) + 75" using length_chunks_of [of 76 "b64_enc B c"] by simp
  ultimately show ?thesis by linarith
qed

lemma demo_container_small:
  assumes "encrypt ref_full ref_cbor ref_sig demo_draw (slice_reader [1, 2, 3]) [demo_public] md = Inr (n, c)"
  shows "length c \<le> 500300"
proof -
  have u: "\<forall>r\<in>set [demo_public]. usable_key ref_full r" using usable_full [OF demo_setup(2)] by (simp add: demo_public_def)
  obtain h k oid hh where "c = h @ records ref_full k oid hh 0 [1, 2, 3]" "length h \<le> 500200"
    using container_overhead [OF crypto_laws_full cbor_small_ref demo_setup(1) slice_reader_ok(1) u assms] by (auto simp: slice_reader_ok)
  then show ?thesis
    using length_sealed [OF crypto_laws_full, of "[1, 2, 3]"] by (simp add: records.simps CHUNK_LEN_def record_bytes_def)
qed

lemma demo_armor_small:
  assumes "encrypt ref_full ref_cbor ref_sig demo_draw (slice_reader [1, 2, 3]) [demo_public] md = Inr (n, c)"
  shows "length (armor_message ref_b64 c) \<le> MAX_ARMORED_MESSAGE"
  using demo_container_small [OF assms] armor_length [OF b64_laws_ref, of c] by (simp add: MAX_ARMORED_MESSAGE_def)

lemma demo_fs_simps [simp]:
  "demo_fs ''k'' = Some (replicate 32 3)" "demo_fs ''p'' = Some demo_public" "demo_fs ''m'' = Some [1, 2, 3]"
  "demo_fs ''c'' = None" "demo_fs ''o'' = None" "demo_fs ''g'' = None" "demo_fs ''s'' = None"
  by (simp_all add: demo_fs_def)

text \<open>The container that \<open>encrypt\<close> writes decrypts for every recipient, in whatever pieces it is read back.\<close>

lemma encrypted_file_decrypts:
  assumes "crypto_laws A" "cbor_laws C" "sig_laws P" "fills draw" "delivers fr" "delivers fr'"
    and "encrypt_file A K C P B draw fr fs input paths container sign_with pw public_signature = Inr ws"
    and "load_recipients A B fs paths = Inr recipients" "length secret = 32"
    and "public_key A secret = Inr r0" "r0 \<in> set recipients" "\<forall>r\<in>set recipients. r \<noteq> r0 \<longrightarrow> closed_to A secret r"
  shows "\<exists>bs c signer md n. fs input = Some bs \<and> fs container = None \<and> ws = [Create container c] \<and>
    decrypt_to_staging A C P (fr' c) secret = Inr (\<lparr>vo_metadata = md, vo_plaintext_len = n, vo_signer = signer\<rparr>, bs) \<and>
    (case sign_with of None \<Rightarrow> signer = None
     | Some sp \<Rightarrow> \<exists>identity. load_signing_identity A K P fs sp pw = Inr identity \<and> signer = Some (verifying_key P identity))"
proof -
  obtain src filename n c where e: "open_input fr fs input = Inr src" "new_output fs container = Inr ()"
      "(case file_name input of
          None \<Rightarrow> Inl (CliMessage ''input filename must be valid UTF-8'')
        | Some name \<Rightarrow> if utf8_valid (ascii name) then Inr (ascii name)
                       else Inl (CliMessage ''input filename must be valid UTF-8'')) = Inr filename"
      "(case sign_with of
          None \<Rightarrow> map_err CliObject (encrypt A C P draw src recipients
            \<lparr>md_filename = Some filename, md_media_type = None, md_signature = None, md_extensions = []\<rparr>)
        | Some path \<Rightarrow> bindR (load_signing_identity A K P fs path pw) (\<lambda>identity.
            map_err CliObject (encrypt_signed A C P draw src recipients
              \<lparr>md_filename = Some filename, md_media_type = None, md_signature = None, md_extensions = []\<rparr> identity
              (if public_signature then Public else Confidential)))) = Inr (n, c)"
      "ws = [Create container c]"
    using assms(7) unfolding encrypt_file_def Let_def assms(8) by (elim result_steps) auto
  obtain bs where bs: "fs input = Some bs" "src = fr bs" "reader_ok src" "content src = bs"
    using e(1) assms(5) by (auto simp: open_input_def delivers_def split: option.splits)
  let ?md = "\<lparr>md_filename = Some filename, md_media_type = None, md_signature = None, md_extensions = []\<rparr>"
  have ty: "md_ty ?md" using e(3) by (auto simp: md_ty_def split: option.splits if_splits)
  have free: "fs container = None" using e(2) by (simp add: new_output_def split: if_splits)
  have rd: "reader_ok (fr' c)" "content (fr' c) = c" using assms(6) by (simp_all add: delivers_def)
  show ?thesis
  proof (cases sign_with)
    case None
    then have "encrypt A C P draw src recipients ?md = Inr (n, c)" using e(4) by (simp add: result_simps)
    from encrypt_then_decrypt [OF assms(1-4) bs(3) rd(1) ty _ assms(9-12) this rd(2)]
    show ?thesis using None bs(1,4) free e(5) by auto
  next
    case (Some sp)
    let ?p = "if public_signature then Public else Confidential"
    obtain identity where i: "load_signing_identity A K P fs sp pw = Inr identity"
      and enc: "encrypt_signed A C P draw src recipients ?md identity ?p = Inr (n, c)"
      using e(4) Some by (auto simp: result_simps)
    have "?p = Public \<or> ?p = Confidential" by simp
    from encrypt_signed_then_decrypt [OF assms(1-4) bs(3) rd(1) ty _ assms(9-12) this enc rd(2)]
    show ?thesis using Some bs(1,4) free e(5) i by auto
  qed
qed

lemma load_secret_same_file: "fs' p = fs p \<Longrightarrow> load_secret A K fs' p pw = load_secret A K fs p pw"
  by (simp add: load_secret_def load_key_def read_bounded_def)

lemma load_secret_exists: "load_secret A K fs p pw = Inr secret \<Longrightarrow> fs p \<noteq> None"
  by (auto simp: load_secret_def load_key_def read_bounded_def split: option.splits)

section \<open>Properties\<close>

text \<open>What one user encrypts to a file, another opens. The file that \<open>encrypt\<close> writes, signed or not, opens
  with the secret key of any recipient, and \<open>open\<close> then writes exactly the content of the original file and
  reports the signer exactly when there was one. No file that existed is touched by either command.\<close>

theorem file_round_trip:
  assumes "crypto_laws A" "cbor_laws C" "sig_laws P" "fills draw" "delivers fr"
    and "encrypt_file A K C P B draw fr fs input paths container sign_with pw public_signature = Inr ws"
    and "load_recipients A B fs paths = Inr recipients"
    and "load_secret A K fs secret_path pw' = Inr secret" "length secret = 32"
    and "public_key A secret = Inr r0" "r0 \<in> set recipients" "\<forall>r\<in>set recipients. r \<noteq> r0 \<longrightarrow> closed_to A secret r"
    and "fs output = None" "output \<noteq> container"
  shows "\<exists>bs c signer. fs input = Some bs \<and> run_writes fs ws = fs(container \<mapsto> c) \<and> fs container = None \<and>
    open_file A K C P fr (run_writes fs ws) container secret_path pw' output = Inr ([Create output bs], signer) \<and>
    (case sign_with of None \<Rightarrow> signer = None
     | Some sp \<Rightarrow> \<exists>identity. load_signing_identity A K P fs sp pw = Inr identity \<and> signer = Some (verifying_key P identity))"
proof -
  obtain bs c signer md n where e: "fs input = Some bs" "fs container = None" "ws = [Create container c]"
    "decrypt_to_staging A C P (fr c) secret = Inr (\<lparr>vo_metadata = md, vo_plaintext_len = n, vo_signer = signer\<rparr>, bs)"
    "case sign_with of None \<Rightarrow> signer = None
     | Some sp \<Rightarrow> \<exists>identity. load_signing_identity A K P fs sp pw = Inr identity \<and> signer = Some (verifying_key P identity)"
    using encrypted_file_decrypts [OF assms(1-5,5,6,7,9-12)] by blast
  have fs': "run_writes fs ws = fs(container \<mapsto> c)" using e(2,3) by (simp add: run_writes_def)
  have "secret_path \<noteq> container" using load_secret_exists [OF assms(8)] e(2) by auto
  then have "load_secret A K (fs(container \<mapsto> c)) secret_path pw' = Inr secret"
    using assms(8) load_secret_same_file [of "fs(container \<mapsto> c)" secret_path fs] by simp
  then show ?thesis
    using e assms(13,14) fs' by (intro exI [of _ bs] exI [of _ c] exI [of _ signer]) (simp add: open_file_def open_input_def new_output_def)
qed

theorem file_round_trip_witness:
  "\<exists>ws. encrypt_file ref_full demo_keyring ref_cbor ref_sig ref_b64 demo_draw slice_reader demo_fs ''m'' [''p''] ''c'' None (Inr []) False = Inr ws \<and>
     open_file ref_full demo_keyring ref_cbor ref_sig slice_reader (run_writes demo_fs ws) ''c'' ''k'' (Inr []) ''o'' = Inr ([Create ''o'' [1, 2, 3]], None)"
proof -
  let ?md = "\<lparr>md_filename = Some (ascii ''m''), md_media_type = None, md_signature = None, md_extensions = []\<rparr>"
  have "file_name ''m'' = Some ''m''" by (simp add: file_name_def)
  moreover have "utf8_valid (ascii ''m'')" by (simp add: ascii_def)
  moreover obtain c where "encrypt ref_full ref_cbor ref_sig demo_draw (slice_reader [1, 2, 3]) [demo_public] ?md = Inr (3, c)"
    using demo_container [OF _ demo_file_md(1)] by auto
  ultimately obtain ws where ws: "encrypt_file ref_full demo_keyring ref_cbor ref_sig ref_b64 demo_draw slice_reader demo_fs ''m'' [''p''] ''c'' None (Inr []) False = Inr ws"
    by (simp add: encrypt_file_def demo_recipient open_input_def new_output_def)
  from file_round_trip [OF crypto_laws_full cbor_laws_ref sig_laws_ref demo_setup(1) slice_delivers(1) ws demo_recipient demo_file_key(1) demo_setup(2)
      demo_file_key(2), of "''o''"]
  show ?thesis using ws by auto
qed

text \<open>A sealed message reads back. The text that \<open>seal\<close> prints, saved to a file of at most 1 MiB, is unsealed by
  any recipient to exactly the message, with a newline added only when it did not end in one, and is
  reported as unsigned.\<close>

theorem sealed_message_round_trip:
  assumes "crypto_laws A" "cbor_laws C" "sig_laws P" "b64_laws B" "b64_enc B [] = []" "fills draw"
    and "seal_message A C P B draw fs stdin (Some text) paths None = Inr (ws, armored)" "utf8_valid text"
    and "load_recipients A B fs paths = Inr recipients"
    and "fs' path = Some armored" "length armored \<le> MAX_ARMORED_MESSAGE"
    and "load_secret A K fs' secret_path pw = Inr secret" "length secret = 32"
    and "public_key A secret = Inr r0" "r0 \<in> set recipients" "\<forall>r\<in>set recipients. r \<noteq> r0 \<longrightarrow> closed_to A secret r"
  shows "ws = [] \<and> unseal_message A K C P B fs' stdin' (Some path) secret_path pw
    = Inr (if last text = NL then text else text @ [NL], None)"
proof -
  let ?md = "\<lparr>md_filename = None, md_media_type = Some (ascii ''text/plain''), md_signature = None, md_extensions = []\<rparr>"
  obtain n c where e: "text \<noteq> []" "encrypt A C P draw (slice_reader text) recipients ?md = Inr (n, c)"
      "ws = []" "armored = armor_message B c"
    using assms(7) unfolding seal_message_def assms(9) Let_def by (auto simp: result_simps split: if_splits)
  have "c \<noteq> []" by (rule encrypt_nonempty [OF assms(1) slice_reader_ok(1) e(2)])
  then have "b64_enc B c \<noteq> []" using b64_lawsD(1) [OF assms(4)] assms(5) by (metis option.inject)
  then have d: "dearmor_message B armored = Inr c" using dearmor_armor [OF assms(4)] e(4) by simp
  have ty: "md_ty ?md" by (auto simp: md_ty_def ascii_def intro!: utf8_valid_ascii)
  obtain md where "decrypt_to_staging A C P (slice_reader c) secret
      = Inr (\<lparr>vo_metadata = md, vo_plaintext_len = length text, vo_signer = None\<rparr>, text)"
    using encrypt_then_decrypt [OF assms(1-3,6) slice_reader_ok(1) slice_reader_ok(1) ty _ assms(13-16) e(2) slice_reader_ok(2)]
    by (auto simp: slice_reader_ok)
  then show ?thesis
    using assms(8,10-12) e(1,3,4) d armor_utf8 [OF assms(4)]
    by (simp add: unseal_message_def read_armored_message_def)
qed

theorem sealed_message_round_trip_witness:
  "\<exists>armored. seal_message ref_full ref_cbor ref_sig ref_b64 demo_draw demo_fs [] (Some [1, 2, 3]) [''p''] None = Inr ([], armored) \<and>
     unseal_message ref_full demo_keyring ref_cbor ref_sig ref_b64 (demo_fs(''o'' \<mapsto> armored)) [] (Some ''o'') ''k'' (Inr []) = Inr ([1, 2, 3, NL], None)"
proof -
  obtain c where c: "encrypt ref_full ref_cbor ref_sig demo_draw (slice_reader [1, 2, 3]) [demo_public]
      \<lparr>md_filename = None, md_media_type = Some (ascii ''text/plain''), md_signature = None, md_extensions = []\<rparr> = Inr (3, c)"
    using demo_container [OF _ demo_file_md(2)] by auto
  let ?a = "armor_message ref_b64 c"
  have a: "seal_message ref_full ref_cbor ref_sig ref_b64 demo_draw demo_fs [] (Some [1, 2, 3]) [''p''] None = Inr ([], ?a)"
    using c by (simp add: seal_message_def demo_recipient Let_def)
  have k: "load_secret ref_full demo_keyring (demo_fs(''o'' \<mapsto> ?a)) ''k'' (Inr []) = Inr demo_secret"
    using demo_file_key(1) [of ref_full "Inr []"] by (simp add: load_secret_def load_key_def read_bounded_def)
  have "length ?a \<le> MAX_ARMORED_MESSAGE" by (rule demo_armor_small [OF c])
  then show ?thesis
    using sealed_message_round_trip [OF crypto_laws_full cbor_laws_ref sig_laws_ref b64_laws_ref _ demo_setup(1) a _ demo_recipient,
        of "demo_fs(''o'' \<mapsto> ?a)" "''o''" demo_keyring "''k''" "Inr []" demo_secret demo_public "[]"] a k demo_setup(2) demo_file_key(2)
    by (auto simp: ref_b64_def NL_def)
qed

text \<open>C31. What a detached signature proves. \<open>verify\<close> succeeds exactly when the signature file is the expected key
  followed by a signature of that key over the hash and the length of the file as it is now; and the
  signature that \<open>sign\<close> wrote for the same content verifies under the signer's public key.\<close>

theorem detached_signature:
  assumes "sig_laws P" "delivers fr" "uninterrupted fr"
    and "fs input = Some bs" "fs signer = Some (vi_to_bytes k)" "vi_wf P k" "fs (signature_path input out) = Some sb"
  shows "(verify_file A P fr fs input signer out = Inr () \<longleftrightarrow>
      length sb = SIGNING_PUBLIC_LEN + SIGNATURE_LENGTH \<and>
      (\<exists>sg. sb = vi_to_bytes k @ sg \<and>
        verify P k DETACHED_CONTEXT (ascii ''HIDE/0.5 detached-file'' @ sha256 A bs @ be64 (len64 bs)) sg = Inr ())) \<and>
    (\<forall>fs0 sp pw identity. sign_file A K P fr fs0 input sp pw out = Inr [Create (signature_path input out) sb] \<longrightarrow>
      fs0 input = Some bs \<longrightarrow> load_signing_identity A K P fs0 sp pw = Inr identity \<longrightarrow> k = verifying_key P identity \<longrightarrow>
      verify_file A P fr fs input signer out = Inr ())"
proof -
  have vl: "length (vi_to_bytes k) = 1984" using length_vi_to_bytes [OF assms(6)] by (simp add: VERIFYING_KEY_LENGTH_def sign_lengths)
  have lk: "load_verifying_identity P fs signer = Inr k"
    using assms(5,6) vl vi_from_bytes_iff [of P "vi_to_bytes k" k]
    by (simp add: load_verifying_identity_def read_bounded_def MAX_SIGNING_KEY_FILE_def SIGNING_PUBLIC_LEN_def VERIFYING_KEY_LENGTH_def sign_lengths)
  note h = hash_file_Inr [OF assms(2,3)]
  have main: "verify_file A P fr fs input signer out = Inr () \<longleftrightarrow>
      length sb = SIGNING_PUBLIC_LEN + SIGNATURE_LENGTH \<and>
      (\<exists>sg. sb = vi_to_bytes k @ sg \<and>
        verify P k DETACHED_CONTEXT (ascii ''HIDE/0.5 detached-file'' @ sha256 A bs @ be64 (len64 bs)) sg = Inr ())"
    (is "_ \<longleftrightarrow> ?R")
  proof
    assume "verify_file A P fr fs input signer out = Inr ()"
    then show ?R
      using lk assms(7) h [of fs input bs, OF assms(4)] vl
      unfolding verify_file_def
      by (auto simp: read_bounded_def detached_message_def Let_def result_simps split: if_splits intro!: exI [of _ "drop SIGNING_PUBLIC_LEN sb"])
         (metis append_take_drop_id)
  next
    assume R: ?R
    then show "verify_file A P fr fs input signer out = Inr ()"
      using lk assms(7) h [of fs input bs, OF assms(4)] vl
      by (auto simp: verify_file_def read_bounded_def detached_message_def Let_def MAX_SIGNING_KEY_FILE_def SIGNING_PUBLIC_LEN_def
          VERIFYING_KEY_LENGTH_def SIGNATURE_LENGTH_def sign_lengths)
  qed
  show ?thesis
  proof (intro conjI allI impI)
    fix fs0 sp pw identity
    assume a: "sign_file A K P fr fs0 input sp pw out = Inr [Create (signature_path input out) sb]" "fs0 input = Some bs"
      "load_signing_identity A K P fs0 sp pw = Inr identity" "k = verifying_key P identity"
    have "sb = vi_to_bytes k @ sign P identity DETACHED_CONTEXT (ascii ''HIDE/0.5 detached-file'' @ sha256 A bs @ be64 (len64 bs))"
      using a(1,3,4) h [of fs0 input bs, OF a(2)] by (auto simp: sign_file_def detached_message_def Let_def result_simps)
    then show "verify_file A P fr fs input signer out = Inr ()"
      unfolding main using a(4) vl length_sign [OF assms(1)] verify_sign [OF assms(1)]
      by (auto simp: SIGNING_PUBLIC_LEN_def VERIFYING_KEY_LENGTH_def SIGNATURE_LENGTH_def sign_lengths)
  qed (rule main)
qed

theorem detached_signature_witness:
  "\<exists>sb. verify_file ref_full ref_sig slice_reader
     (demo_fs(''s'' \<mapsto> vi_to_bytes (verifying_key ref_sig demo_identity), ''m.hide-sig'' \<mapsto> sb)) ''m'' ''s'' None = Inr ()"
proof -
  let ?k = "verifying_key ref_sig demo_identity" and ?m = "ascii ''HIDE/0.5 detached-file'' @ sha256 ref_full [1, 2, 3] @ be64 (len64 [1, 2, 3 :: byte])"
  define sb where "sb = vi_to_bytes ?k @ sign ref_sig demo_identity DETACHED_CONTEXT ?m"
  let ?fs = "demo_fs(''s'' \<mapsto> vi_to_bytes ?k, ''m.hide-sig'' \<mapsto> sb)"
  have "length sb = SIGNING_PUBLIC_LEN + SIGNATURE_LENGTH"
    using length_sign [OF sig_laws_ref] length_vi_to_bytes [OF vi_wf_verifying_key [OF sig_laws_ref]]
    by (simp add: sb_def SIGNING_PUBLIC_LEN_def)
  moreover have "verify ref_sig ?k DETACHED_CONTEXT ?m (sign ref_sig demo_identity DETACHED_CONTEXT ?m) = Inr ()"
    by (rule verify_sign [OF sig_laws_ref])
  moreover have "?fs ''m'' = Some [1, 2, 3]" "?fs ''s'' = Some (vi_to_bytes ?k)" "?fs (signature_path ''m'' None) = Some sb"
    by (simp_all add: signature_path_def append_extension_def)
  ultimately show ?thesis
    using detached_signature [OF sig_laws_ref slice_delivers, of ?fs "''m''" "[1, 2, 3]" "''s''" ?k None sb ref_full ref_keyring]
      vi_wf_verifying_key [OF sig_laws_ref] sb_def by blast
qed

text \<open>A container addressed to one epoch opens for as long as that epoch's secret is in the store, whichever
  other epochs are held, and stops opening once the secret is removed: every epoch that is left reports
  that no stanza is for it, and nothing is written.\<close>

theorem epoch_container_lifecycle:
  assumes "crypto_laws A" "cbor_laws C" "sig_laws P" "fills draw" "delivers fr" "reader_ok input"
    and "md_ty metadata" "md_signature metadata = None" "store_ok st"
    and "(number, secret) \<in> set (store_iter st)" "public_key A secret = Inr pk"
    and "\<forall>(n, s)\<in>set (store_iter st). n \<noteq> number \<longrightarrow> closed_to A s pk"
    and "encrypt A C P draw input [pk] metadata = Inr (len, container)"
    and "fs path = Some container" "fs output = None"
  shows "open_with_store A C P fr fs path st output = Inr (number, [Create output (content input)], None) \<and>
    open_with_store A C P fr fs path (snd (store_remove number st)) output = Inl (CliMessage ''no epoch held can open this file'')"
proof -
  note rd = open_input_Inr [where fs = fs and path = path, OF assms(5,14)]
  have no: "decrypt_to_staging A C P (fr container) s = Inl NoMatchingRecipient" if "closed_to A s pk" for s
    using encrypt_then_stranger [OF assms(1-4,6) _ assms(7,8) _ assms(13)] that rd by simp
  have l32: "length secret = 32" using assms(9,10) by (auto simp: store_ok_def store_iter_def)
  obtain md where yes: "decrypt_to_staging A C P (fr container) secret
      = Inr (\<lparr>vo_metadata = md, vo_plaintext_len = length (content input), vo_signer = None\<rparr>, content input)"
    using encrypt_then_decrypt [OF assms(1-4,6) _ assms(7,8) l32 assms(11) _ _ assms(13)] rd by auto
  have dist: "distinct (map fst (st_entries st))"
    using assms(9) strict_sorted_iff [of "map fst (st_entries st)"] by (simp add: store_ok_def bt_ok_def)
  obtain xs ys where sp: "st_entries st = xs @ (number, secret) # ys"
    using assms(10) split_list by (fastforce simp: store_iter_def)
  have others: "n \<noteq> number" if "(n, s) \<in> set (xs @ ys)" for n s
    using dist sp that by (force simp: image_iff)
  have none: "\<forall>e\<in>set (xs @ ys). decrypt_to_staging A C P (fr container) (snd e) = Inl NoMatchingRecipient"
  proof
    fix e assume e: "e \<in> set (xs @ ys)"
    obtain n s where ns: "e = (n, s)" by (cases e)
    have "n \<noteq> number" using others e ns by blast
    moreover have "(n, s) \<in> set (store_iter st)" using e ns sp by (auto simp: store_iter_def)
    ultimately have "closed_to A s pk" using assms(12) by blast
    then show "decrypt_to_staging A C P (fr container) (snd e) = Inl NoMatchingRecipient" using no ns by simp
  qed
  have "try_epochs A C P (fr container) (rev (st_entries st))
      = Inr (number, \<lparr>vo_metadata = md, vo_plaintext_len = length (content input), vo_signer = None\<rparr>, content input)"
    using try_epochs_append [of "rev ys" A C P "fr container" "(number, secret) # rev xs"] none yes sp by simp
  moreover have "bt_remove number (st_entries st) = xs @ ys"
  proof -
    have "filter (\<lambda>e. fst e \<noteq> number) xs = xs" "filter (\<lambda>e. fst e \<noteq> number) ys = ys"
      using others by (fastforce simp: filter_id_conv)+
    then show ?thesis using sp by (simp add: bt_remove_def)
  qed
  then have "try_epochs A C P (fr container) (rev (bt_remove number (st_entries st))) = Inl (CliMessage ''no epoch held can open this file'')"
    using try_epochs_append [of "rev (xs @ ys)" A C P "fr container" "[]"] none by (simp add: Un_commute)
  ultimately show ?thesis using rd assms(15) by (simp add: open_with_store_def store_iter_def store_remove_def new_output_def)
qed

theorem epoch_container_lifecycle_witness:
  "\<exists>c. open_with_store ref_full ref_cbor ref_sig slice_reader [''f'' \<mapsto> c] ''f''
       \<lparr>st_chain_head = replicate 32 0, st_entries = [(0, demo_secret), (1, replicate 32 9)]\<rparr> ''o'' = Inr (0, [Create ''o'' [1, 2, 3]], None)"
proof -
  let ?md = "\<lparr>md_filename = Some (ascii ''m''), md_media_type = None, md_signature = None, md_extensions = []\<rparr>"
  let ?st = "\<lparr>st_chain_head = replicate 32 0, st_entries = [(0, demo_secret), (1, replicate 32 9)]\<rparr>"
  obtain c where c: "encrypt ref_full ref_cbor ref_sig demo_draw (slice_reader [1, 2, 3]) [demo_public] ?md = Inr (3, c)"
    using demo_container [OF _ demo_file_md(1)] by auto
  have "closed_to ref_full (replicate 32 9) demo_public"
    by (auto simp: closed_to_def wrap_with_rng_def object_context_def unwrap_cek_def ref_full_def ref_crypto_def demo_public_def
        demo_secret_def require_len_def KEY_LENGTH_def WRAPPED_KEY_LENGTH_def Let_def split: if_splits)
  moreover have "md_ty ?md" by (auto simp: md_ty_def ascii_def)
  moreover have "store_ok ?st" using demo_setup(2) by (simp add: store_ok_def bt_ok_def)
  ultimately show ?thesis
    using epoch_container_lifecycle [OF crypto_laws_full cbor_laws_ref sig_laws_ref demo_setup(1) slice_delivers(1) slice_reader_ok(1) _ _ _ _
        demo_file_key(2) _ c, of ?st 0 "[''f'' \<mapsto> c]" "''f''" "''o''"]
    by (auto simp: store_iter_def slice_reader_ok)
qed

end
