(* ===== verification/Hide_Cli_Identity.thy ===== *)
theory Hide_Cli_Identity
  imports Hide_Cli_Files
begin

text \<open>
  \<open>apps/hide-cli/src/main.rs\<close>: the identity commands and \<open>epoch-show\<close>. The device log is one file that
  every command loads, verifies from scratch against the recovery key, extends by one entry and
  replaces. The properties follow the file over any sequence of commands, crashes and changes to other
  files.
\<close>

section \<open>Commands\<close>

definition load_identity_log ::
  "crypto_api \<Rightarrow> sig_api \<Rightarrow> cbor_api \<Rightarrow> fs \<Rightarrow> path \<Rightarrow> path \<Rightarrow> CliError + IdentityLog \<times> VerifyingIdentity" where
  "load_identity_log A P C fs log_path recovery =
     bindR (load_verifying_identity P fs recovery) (\<lambda>recovery_key.
     bindR (read_public_file fs log_path) (\<lambda>bs.
     bindR (map_err CliIdentity (id_decode C bs)) (\<lambda>entries.
     bindR (map_err CliIdentity (il_verify (sha256 A) P entries recovery_key)) (\<lambda>_.
     bindR (map_err CliIdentity (from_entries (sha256 A) P entries recovery_key)) (\<lambda>log.
       Inr (log, recovery_key))))))"

definition identity_create ::
  "crypto_api \<Rightarrow> keyring_api \<Rightarrow> sig_api \<Rightarrow> cbor_api \<Rightarrow> fs \<Rightarrow> path \<Rightarrow> CliError + str \<Rightarrow> path \<Rightarrow> str \<Rightarrow> path \<Rightarrow> CliError + file_write list" where
  "identity_create A K P C fs secret passphrase recovery label output =
     bindR (load_signing_identity A K P fs secret passphrase) (\<lambda>founder.
     bindR (load_verifying_identity P fs recovery) (\<lambda>recovery_key.
     bindR (map_err CliIdentity (il_create (sha256 A) P founder label recovery_key)) (\<lambda>log.
     bindR (map_err CliIdentity (id_encode C (il_entries log))) (\<lambda>bs.
       Inr [Replace output bs]))))"

definition identity_enrol ::
  "crypto_api \<Rightarrow> keyring_api \<Rightarrow> sig_api \<Rightarrow> cbor_api \<Rightarrow> fs \<Rightarrow> path \<Rightarrow> path \<Rightarrow> CliError + str \<Rightarrow> path \<Rightarrow> str \<Rightarrow> path \<Rightarrow>
   CliError + u64 \<times> file_write list" where
  "identity_enrol A K P C fs log_path secret passphrase device label recovery =
     bindR (load_identity_log A P C fs log_path recovery) (\<lambda>(log, _).
     bindR (load_signing_identity A K P fs secret passphrase) (\<lambda>author.
     bindR (load_verifying_identity P fs device) (\<lambda>new_device.
     bindR (map_err CliIdentity (enrol (sha256 A) P author new_device label log)) (\<lambda>(at, log).
     bindR (map_err CliIdentity (id_encode C (il_entries log))) (\<lambda>bs.
       Inr (at, [Replace log_path bs]))))))"

definition identity_revoke ::
  "crypto_api \<Rightarrow> keyring_api \<Rightarrow> sig_api \<Rightarrow> cbor_api \<Rightarrow> fs \<Rightarrow> path \<Rightarrow> path \<Rightarrow> CliError + str \<Rightarrow> path \<Rightarrow> path \<Rightarrow>
   CliError + u64 \<times> file_write list" where
  "identity_revoke A K P C fs log_path secret passphrase device recovery =
     bindR (load_identity_log A P C fs log_path recovery) (\<lambda>(log, _).
     bindR (load_signing_identity A K P fs secret passphrase) (\<lambda>author.
     bindR (load_verifying_identity P fs device) (\<lambda>device_key.
     let target = device_id (sha256 A) device_key in
     bindR (map_err CliIdentity (revoke (sha256 A) P author target log)) (\<lambda>(at, log).
     bindR (map_err CliIdentity (id_encode C (il_entries log))) (\<lambda>bs.
       Inr (at, [Replace log_path bs]))))))"

text \<open>What \<open>identity-show\<close> and \<open>epoch-show\<close> print: the head, the number of entries and the devices, or the
  number and the link of every epoch.\<close>

definition identity_show ::
  "crypto_api \<Rightarrow> sig_api \<Rightarrow> cbor_api \<Rightarrow> fs \<Rightarrow> path \<Rightarrow> path \<Rightarrow> CliError + string \<times> nat \<times> Membership" where
  "identity_show A P C fs log_path recovery =
     bindR (load_identity_log A P C fs log_path recovery) (\<lambda>(log, _).
       Inr (short_hex (il_head log), length (il_entries log), il_membership (sha256 A) P log))"

definition epoch_show :: "crypto_api \<Rightarrow> cbor_api \<Rightarrow> fs \<Rightarrow> path \<Rightarrow> CliError + (EpochNumber \<times> string) list" where
  "epoch_show A C fs chain =
     bindR (read_public_file fs chain) (\<lambda>bs.
     bindR (map_err CliEpoch (decode_records C bs)) (\<lambda>records.
     bindR (map_err CliEpoch (ec_verify A records)) (\<lambda>_.
       Inr (map (\<lambda>r. (er_number r, short_hex (er_link r))) records))))"

section \<open>The log file over time\<close>

text \<open>A command performs some prefix of its writes; anything else may change other files.\<close>

inductive id_disk_step ::
  "crypto_api \<Rightarrow> keyring_api \<Rightarrow> sig_api \<Rightarrow> cbor_api \<Rightarrow> path \<Rightarrow> path \<Rightarrow> fs \<Rightarrow> fs \<Rightarrow> bool" for A K P C lp rp where
  disk_enrol: "identity_enrol A K P C fs lp secret pw device label rp = Inr (at, ws) \<Longrightarrow> utf8_valid label \<Longrightarrow>
     id_disk_step A K P C lp rp fs (run_writes fs (take n ws))"
| disk_revoke: "identity_revoke A K P C fs lp secret pw device rp = Inr (at, ws) \<Longrightarrow>
     id_disk_step A K P C lp rp fs (run_writes fs (take n ws))"
| disk_other: "fs' lp = fs lp \<Longrightarrow> fs' rp = fs rp \<Longrightarrow> id_disk_step A K P C lp rp fs fs'"

inductive id_disk_reach ::
  "crypto_api \<Rightarrow> keyring_api \<Rightarrow> sig_api \<Rightarrow> cbor_api \<Rightarrow> path \<Rightarrow> path \<Rightarrow> fs \<Rightarrow> fs \<Rightarrow> bool" for A K P C lp rp where
  id_disk_refl: "id_disk_reach A K P C lp rp fs fs"
| id_disk_next: "id_disk_reach A K P C lp rp fs fs' \<Longrightarrow> id_disk_step A K P C lp rp fs' fs'' \<Longrightarrow>
     id_disk_reach A K P C lp rp fs fs''"

text \<open>The log file holds the encoding of a log reached from the first one.\<close>

definition log_on_disk ::
  "crypto_api \<Rightarrow> sig_api \<Rightarrow> cbor_api \<Rightarrow> path \<Rightarrow> path \<Rightarrow> VerifyingIdentity \<Rightarrow> IdentityLog \<Rightarrow> IdentityLog \<Rightarrow> fs \<Rightarrow> bool" where
  "log_on_disk A P C lp rp recovery log0 log fs \<longleftrightarrow>
     fs rp = Some (vi_to_bytes recovery) \<and> (\<exists>bs. fs lp = Some bs \<and> id_encode C (il_entries log) = Inr bs) \<and>
     id_reach (sha256 A) P log0 log \<and> il_recovery log = recovery \<and> length (il_entries log) \<le> MAX_ENTRIES \<and>
     (\<forall>e\<in>set (il_entries log). entry_ty e \<and> entry_rust e)"

lemma load_recovery_key:
  "vi_wf P k \<Longrightarrow> fs rp = Some (vi_to_bytes k) \<Longrightarrow> load_verifying_identity P fs rp = Inr k"
  using length_vi_to_bytes [of P k] vi_from_bytes_iff [of P "vi_to_bytes k" k]
  by (simp add: load_verifying_identity_def read_bounded_def MAX_SIGNING_KEY_FILE_def SIGNING_PUBLIC_LEN_def
      VERIFYING_KEY_LENGTH_def sign_lengths)

lemma load_verifying_wf: "load_verifying_identity P fs path = Inr k \<Longrightarrow> vi_wf P k"
  by (auto simp: load_verifying_identity_def result_simps vi_from_bytes_iff split: if_splits)

lemma load_log_on_disk:
  assumes "cbor_laws C" "vi_wf P recovery" "log_on_disk A P C lp rp recovery log0 log fs"
    and "replay (sha256 A) P (il_entries log) recovery = Inr m"
  shows "load_identity_log A P C fs lp rp
    = (if length (the (fs lp)) \<le> MAX_LOG_FILE then Inr (log, recovery) else Inl (CliMessage TOO_LARGE))"
proof -
  obtain bs where bs: "fs lp = Some bs" "id_encode C (il_entries log) = Inr bs" "fs rp = Some (vi_to_bytes recovery)"
    using assms(3) by (auto simp: log_on_disk_def)
  have "id_decode C bs = Inr (il_entries log)"
    using decode_encode_log [OF assms(1)] assms(3) bs(2) by (simp add: log_on_disk_def id_encode_def)
  moreover have "il_recovery log = recovery" using assms(3) by (simp add: log_on_disk_def)
  ultimately show ?thesis
    using bs(1) load_recovery_key [where fs = fs, OF assms(2) bs(3)] assms(4)
    by (simp add: load_identity_log_def read_public_file_def read_bounded_def il_verify_def from_entries_def)
qed

text \<open>The entry that an operation appends has the sizes the decoder asks for.\<close>

lemma appended_entry:
  assumes "crypto_laws A" "sig_laws P" "il_append (sha256 A) P author event log = Inr (n, log')"
    and "replay (sha256 A) P (il_entries log) (il_recovery log) = Inr m"
    and "\<forall>label. event_label event = Some label \<longrightarrow> utf8_valid label"
    and "case event of Revoke d \<Rightarrow> length d = 32 | _ \<Rightarrow> length (event_payload event) < 2 ^ 64"
  shows "\<exists>e. log' = log\<lparr>il_entries := il_entries log @ [e]\<rparr> \<and> entry_ty e \<and> entry_rust e \<and> length (il_entries log') \<le> MAX_ENTRIES"
proof -
  from assms(3,4) obtain e m' where e: "log' = log\<lparr>il_entries := il_entries log @ [e]\<rparr>" "en_event e = event"
    "en_signer e = device_id (sha256 A) (verifying_key P author)"
    "apply_entry (sha256 A) P m e (il_recovery log) (il_head log) = Inr m'" "length (il_entries log) < MAX_ENTRIES"
    by (rule il_appendE)
  have h: "length (sha256 A x) = 32" for x by (rule crypto_lengths(3) [OF assms(1)])
  from e(4) have "length (en_signature e) = SIGNATURE_LENGTH"
    "en_link e = link_for (sha256 A) (entry_signed_bytes e (il_head log)) (en_signature e)"
    "\<And>label. event_label (en_event e) = Some label \<Longrightarrow> length label \<le> MAX_LABEL_BYTES"
    by (auto elim: apply_entryE)
  then have "entry_ty e \<and> entry_rust e"
    using e(2,3) h assms(5,6)
    by (auto simp: entry_ty_def entry_rust_def link_for_def device_id_def event_payload_def event_label_def split: Event.splits option.splits)
  then show ?thesis using e(1,5) by auto
qed

lemma created_entry:
  assumes "crypto_laws A" "sig_laws P" "utf8_valid label" "il_create (sha256 A) P founder label recovery = Inr log"
  shows "\<exists>e. il_entries log = [e] \<and> entry_ty e \<and> entry_rust e"
proof -
  let ?k = "verifying_key P founder" and ?H = "sha256 A"
  let ?ev = "Event.Create (vi_to_bytes ?k) label"
  let ?m = "signed_bytes (replicate 32 0) 0 ?ev (device_id ?H ?k)"
  let ?sig = "sign P founder ENTRY_CONTEXT ?m"
  let ?e = "\<lparr>en_sequence = 0, en_event = ?ev, en_signer = device_id ?H ?k, en_link = link_for ?H ?m ?sig, en_signature = ?sig\<rparr>"
  have log: "log = \<lparr>il_entries = [?e], il_recovery = recovery\<rparr>" "length label \<le> MAX_LABEL_BYTES"
    using assms(4) by (auto simp: il_create_def check_label_def Let_def split: if_splits)
  have "length (vi_to_bytes ?k) < 2 ^ 64"
    using length_vi_to_bytes [OF vi_wf_verifying_key [OF assms(2)]] by (simp add: VERIFYING_KEY_LENGTH_def sign_lengths)
  then have "entry_ty ?e \<and> entry_rust ?e"
    using log(2) assms(3) length_sign [OF assms(2)] crypto_lengths(3) [OF assms(1)]
    by (simp add: entry_ty_def entry_rust_def link_for_def device_id_def event_payload_def event_label_def)
  then show ?thesis using log(1) by simp
qed

lemma log_on_disk_append:
  assumes "crypto_laws A" "sig_laws P" "lp \<noteq> rp" "log_on_disk A P C lp rp recovery log0 log fs"
    and "replay (sha256 A) P (il_entries log) (il_recovery log) = Inr m"
    and "id_step (sha256 A) P log log'" "il_append (sha256 A) P author event log = Inr (n, log')"
    and "\<forall>label. event_label event = Some label \<longrightarrow> utf8_valid label"
    and "case event of Revoke d \<Rightarrow> length d = 32 | _ \<Rightarrow> length (event_payload event) < 2 ^ 64"
    and "id_encode C (il_entries log') = Inr bs" "ws = [Replace lp bs]"
  shows "\<exists>log'. log_on_disk A P C lp rp recovery log0 log' (run_writes fs (take k ws))"
proof (cases k)
  case 0
  then show ?thesis using assms(4) by (auto simp: run_writes_def)
next
  case (Suc k)
  obtain e where e: "log' = log\<lparr>il_entries := il_entries log @ [e]\<rparr>" "entry_ty e" "entry_rust e" "length (il_entries log') \<le> MAX_ENTRIES"
    using appended_entry [OF assms(1,2,7,5,8,9)] by blast
  have "log_on_disk A P C lp rp recovery log0 log' (fs(lp \<mapsto> bs))"
    using assms(3,4,10) e id_reach_step [OF _ assms(6), of log0] by (auto simp: log_on_disk_def)
  then show ?thesis using Suc assms(11) by (auto simp: run_writes_def)
qed

lemma log_on_disk_step:
  assumes "crypto_laws A" "sig_laws P" "cbor_laws C" "lp \<noteq> rp" "vi_wf P recovery"
    and "log_on_disk A P C lp rp recovery log0 log fs" "replay (sha256 A) P (il_entries log0) (il_recovery log0) = Inr m0"
    and "id_disk_step A K P C lp rp fs fs'"
  shows "\<exists>log'. log_on_disk A P C lp rp recovery log0 log' fs'"
proof -
  have r: "id_reach (sha256 A) P log0 log" "il_recovery log = recovery" using assms(6) by (simp_all add: log_on_disk_def)
  obtain m where m: "replay (sha256 A) P (il_entries log) (il_recovery log) = Inr m"
    using id_reach_replay [OF r(1) assms(7)] by blast
  have ld: "x = (log, recovery)" if "load_identity_log A P C fs lp rp = Inr x" for x
    using load_log_on_disk [OF assms(3,5,6)] m r(2) that by (auto split: if_splits)
  have kl: "length (vi_to_bytes k) < 2 ^ 64" if "vi_wf P k" for k
    using length_vi_to_bytes [OF that] by (simp add: VERIFYING_KEY_LENGTH_def sign_lengths)
  from assms(8) show ?thesis
  proof cases
    case (disk_enrol secret pw device label at ws n)
    then obtain author k log' bs where x: "enrol (sha256 A) P author k label log = Inr (at, log')"
        "load_verifying_identity P fs device = Inr k" "id_encode C (il_entries log') = Inr bs" "ws = [Replace lp bs]"
      unfolding identity_enrol_def by (elim result_steps) (auto dest: ld)
    show ?thesis
      unfolding disk_enrol(1)
      by (rule log_on_disk_append [OF assms(1,2,4,6) m step_enrol [OF x(1)] x(1) [unfolded enrol_def] _ _ x(3,4)])
         (use disk_enrol(3) kl [OF load_verifying_wf [OF x(2)]] in \<open>auto simp: event_label_def event_payload_def\<close>)
  next
    case (disk_revoke secret pw device at ws n)
    then obtain author k log' bs where x: "revoke (sha256 A) P author (device_id (sha256 A) k) log = Inr (at, log')"
        "id_encode C (il_entries log') = Inr bs" "ws = [Replace lp bs]"
      unfolding identity_revoke_def Let_def by (elim result_steps) (auto dest: ld)
    show ?thesis
      unfolding disk_revoke(1)
      by (rule log_on_disk_append [OF assms(1,2,4,6) m step_revoke [OF x(1)] x(1) [unfolded revoke_def] _ _ x(2,3)])
         (auto simp: event_label_def device_id_def crypto_lengths(3) [OF assms(1)])
  next
    case disk_other
    then show ?thesis using assms(6) by (auto simp: log_on_disk_def)
  qed
qed

lemma encode_entry_size:
  assumes "entry_ty e" "en_event e = Event.Create device label"
  shows "length (encode_entry ref_cbor Current e) \<le> length device + 5000"
  using assms length_cbor_head [of 4 "framing_header Current"] length_cbor_head [of 0 "en_sequence e"]
    length_cbor_head [of 0 "ucast (event_tag (en_event e))"] length_cbor_head [of 2 "len64 device"] length_cbor_head [of 3 "len64 label"]
    length_cbor_head [of 2 "len64 (en_signer e)"] length_cbor_head [of 2 "len64 (en_link e)"] length_cbor_head [of 2 "len64 (en_signature e)"]
  by (simp add: encode_entry_def entry_ty_def event_label_def entry_limits ref_cbor_def)

lemma demo_log_size:
  assumes "il_create ref_hash ref_sig founder (ascii ''pc'') recovery = Inr log"
  shows "\<exists>bs. id_encode ref_cbor (il_entries log) = Inr bs \<and> length bs \<le> MAX_LOG_FILE"
proof -
  have sha: "sha256 ref_full = ref_hash" by (simp add: ref_full_def ref_crypto_def)
  have "utf8_valid (ascii ''pc'')" by (simp add: ascii_def)
  from created_entry [OF crypto_laws_full sig_laws_ref this, unfolded sha, OF assms]
  obtain e where e: "il_entries log = [e]" "entry_ty e" by blast
  moreover have "en_event (hd (il_entries log)) = Event.Create (vi_to_bytes (verifying_key ref_sig founder)) (ascii ''pc'')"
    using assms unfolding il_create_def Let_def by (auto simp: result_simps)
  ultimately have "length (encode_entry ref_cbor Current e) \<le> 6984"
    using encode_entry_size [OF e(2)] length_vi_to_bytes [OF vi_wf_verifying_key [OF sig_laws_ref, of founder]]
    by (simp add: VERIFYING_KEY_LENGTH_def sign_lengths)
  then show ?thesis
    using e(1) cbor_smallD(5) [OF cbor_small_ref, of 1]
    by (simp add: id_encode_def encode_framed_def len64_def MAX_LOG_FILE_def)
qed

section \<open>Properties\<close>



end
