(* ===== verification/Hide_Agent.thy ===== *)
theory Hide_Agent
  imports Hide_Sign
begin

text \<open>
  \<open>apps/hide-cli/src/agent.rs\<close>: an ssh-agent that offers the Ed25519 half of an identity. SHA-256 is \<open>H\<close>,
  unpadded base64 is \<open>b64\<close>, the signature primitives are \<open>P\<close>. An \<open>Approver\<close> is a function \<open>ask\<close> on a
  state of its own: given the fingerprint it answers and moves on; the terminal and the approve-everything
  policy are instances of it. A connection is the bytes that the peer sends before it hangs up;
  \<open>serve\<close> yields each request with the response written for it.
\<close>

section \<open>Definitions\<close>

definition REQUEST_IDENTITIES :: byte where
  "REQUEST_IDENTITIES = 11"

definition IDENTITIES_ANSWER :: byte where
  "IDENTITIES_ANSWER = 12"

definition SIGN_REQUEST :: byte where
  "SIGN_REQUEST = 13"

definition SIGN_RESPONSE :: byte where
  "SIGN_RESPONSE = 14"

definition FAILURE :: byte where
  "FAILURE = 5"

definition KEY_TYPE :: bytes where
  "KEY_TYPE = ascii ''ssh-ed25519''"

definition MAX_MESSAGE :: u32 where
  "MAX_MESSAGE = 256 * 1024"

datatype AgentError =
    TruncatedPrefix
  | StringTooLong
  | EmptyRequest
  | UnsupportedRequest byte
  | NotOurKey
  | Refused
  | LengthOutOfRange u32
  | ConnectionCut

text \<open>\<open>Reader::u32\<close> and \<open>Reader::string\<close> on the bytes that remain.\<close>

definition read_u32 :: "bytes \<Rightarrow> AgentError + u32 \<times> bytes" where
  "read_u32 bs =
     bindR (ok_or (split_at_checked bs 4) TruncatedPrefix) (\<lambda>(head, rest). Inr (u32_from_be head, rest))"

definition read_string :: "bytes \<Rightarrow> AgentError + bytes \<times> bytes" where
  "read_string bs =
     bindR (read_u32 bs) (\<lambda>(len, bs). ok_or (split_at_checked bs (unat len)) StringTooLong)"

definition put_string :: "bytes \<Rightarrow> bytes" where
  "put_string v = be32 (of_nat (length v)) @ v"

definition public_key_blob :: "bytes \<Rightarrow> bytes" where
  "public_key_blob pk = put_string KEY_TYPE @ put_string pk"

definition fingerprint :: "(bytes \<Rightarrow> bytes) \<Rightarrow> (bytes \<Rightarrow> str) \<Rightarrow> bytes \<Rightarrow> str" where
  "fingerprint H b64 pk = ascii ''SHA256:'' @ b64 (H (public_key_blob pk))"

record Agent =
  ag_key :: bytes
  ag_public :: bytes
  ag_comment :: str

definition agent_new :: "sig_api \<Rightarrow> SigningIdentity \<Rightarrow> str \<Rightarrow> Agent" where
  "agent_new P identity comment =
     (let k = ed25519_seed identity in \<lparr>ag_key = k, ag_public = ed_public P k, ag_comment = comment\<rparr>)"

type_synonym 'a approver = "'a \<Rightarrow> str \<Rightarrow> bool \<times> 'a"

definition approve_everything :: "'a approver" where
  "approve_everything a _ = (True, a)"

definition agent_identities :: "Agent \<Rightarrow> bytes" where
  "agent_identities agent =
     [IDENTITIES_ANSWER] @ be32 1 @ put_string (public_key_blob (ag_public agent)) @ put_string (ag_comment agent)"

text \<open>The response carries the new state of the approver, also when the answer is an error.\<close>

definition agent_sign ::
  "(bytes \<Rightarrow> bytes) \<Rightarrow> (bytes \<Rightarrow> str) \<Rightarrow> sig_api \<Rightarrow> 'a approver \<Rightarrow> Agent \<Rightarrow> bytes \<Rightarrow> 'a \<Rightarrow> (AgentError + bytes) \<times> 'a" where
  "agent_sign H b64 P ask agent body a =
     (case bindR (read_string body) (\<lambda>(requested, r).
           bindR (read_string r) (\<lambda>(data, r).
           bindR (read_u32 r) (\<lambda>(flags, _).
           if requested \<noteq> public_key_blob (ag_public agent) then Inl NotOurKey else Inr data))) of
        Inl e \<Rightarrow> (Inl e, a)
      | Inr data \<Rightarrow>
          let (yes, a) = ask a (fingerprint H b64 (ag_public agent)) in
          if \<not> yes then (Inl Refused, a)
          else
            let signature = ed_sign P (ag_key agent) data;
                blob = put_string KEY_TYPE @ put_string signature
            in (Inr ([SIGN_RESPONSE] @ put_string blob), a))"

definition try_respond ::
  "(bytes \<Rightarrow> bytes) \<Rightarrow> (bytes \<Rightarrow> str) \<Rightarrow> sig_api \<Rightarrow> 'a approver \<Rightarrow> Agent \<Rightarrow> bytes \<Rightarrow> 'a \<Rightarrow> (AgentError + bytes) \<times> 'a" where
  "try_respond H b64 P ask agent request a =
     (case request of
        [] \<Rightarrow> (Inl EmptyRequest, a)
      | k # body \<Rightarrow>
          if k = REQUEST_IDENTITIES then (Inr (agent_identities agent), a)
          else if k = SIGN_REQUEST then agent_sign H b64 P ask agent body a
          else (Inl (UnsupportedRequest k), a))"

definition respond ::
  "(bytes \<Rightarrow> bytes) \<Rightarrow> (bytes \<Rightarrow> str) \<Rightarrow> sig_api \<Rightarrow> 'a approver \<Rightarrow> Agent \<Rightarrow> bytes \<Rightarrow> 'a \<Rightarrow> bytes \<times> 'a" where
  "respond H b64 P ask agent request a =
     (case try_respond H b64 P ask agent request a of
        (Inr response, a) \<Rightarrow> (response, a)
      | (Inl _, a) \<Rightarrow> ([FAILURE], a))"

function serve ::
  "(bytes \<Rightarrow> bytes) \<Rightarrow> (bytes \<Rightarrow> str) \<Rightarrow> sig_api \<Rightarrow> 'a approver \<Rightarrow> Agent \<Rightarrow> bytes \<Rightarrow> 'a \<Rightarrow>
   (bytes \<times> bytes) list \<times> 'a \<times> (AgentError + unit)" where
  "serve H b64 P ask agent input a =
     (if length input < 4 then ([], a, Inr ())
      else
        let len = u32_from_be (take 4 input); rest = drop 4 input in
        if len = 0 \<or> MAX_MESSAGE < len then ([], a, Inl (LengthOutOfRange len))
        else if length rest < unat len then ([], a, Inl ConnectionCut)
        else
          let request = take (unat len) rest;
              (response, a) = respond H b64 P ask agent request a;
              (more, a, result) = serve H b64 P ask agent (drop (unat len) rest) a
          in ((request, response) # more, a, result))"
  by pat_completeness auto

termination
  by (relation "measure (\<lambda>(_, _, _, _, _, input, _). length input)") (auto simp: less_imp_diff_less)

text \<open>What is written to the stream.\<close>

definition written :: "(bytes \<times> bytes) list \<Rightarrow> bytes" where
  "written rs = concat (map (\<lambda>(_, response). put_string response) rs)"

declare serve.simps [simp del]

section \<open>Lemmas\<close>

lemma read_u32_be32 [simp]: "read_u32 (be32 w @ r) = Inr (w, r)"
  by (simp add: read_u32_def)

lemma read_put_string [simp]: "length v < 2 ^ 32 \<Longrightarrow> read_string (put_string v @ r) = Inr (v, r)"
  by (simp add: read_string_def put_string_def unat_of_nat)

lemma read_stringE:
  assumes "read_string bs = Inr (v, r)"
  shows "bs = put_string v @ r"
proof -
  obtain h t where h: "bs = h @ t" "length h = 4" "t = v @ r" "length v = unat (u32_from_be h)"
    using assms by (auto simp: read_string_def read_u32_def result_simps split_at_checked_Some_iff)
  then have "be32 (of_nat (length v)) = h" by (simp add: be32_u32_from_be)
  then show ?thesis using h by (simp add: put_string_def)
qed

lemma read_u32E: "read_u32 bs = Inr (w, r) \<Longrightarrow> bs = be32 w @ r"
  by (auto simp: read_u32_def result_simps split_at_checked_Some_iff be32_u32_from_be)

text \<open>A signature request for the key of the agent, and the response that carries a signature.\<close>

definition sign_request :: "Agent \<Rightarrow> bytes \<Rightarrow> u32 \<Rightarrow> bytes \<Rightarrow> bytes" where
  "sign_request agent data flags r =
     [SIGN_REQUEST] @ put_string (public_key_blob (ag_public agent)) @ put_string data @ be32 flags @ r"

definition sign_response :: "sig_api \<Rightarrow> Agent \<Rightarrow> bytes \<Rightarrow> bytes" where
  "sign_response P agent data =
     [SIGN_RESPONSE] @ put_string (put_string KEY_TYPE @ put_string (ed_sign P (ag_key agent) data))"

definition is_signature :: "bytes \<Rightarrow> bool" where
  "is_signature r \<longleftrightarrow> r \<noteq> [] \<and> hd r = SIGN_RESPONSE"

lemma response_kinds [simp]:
  "\<not> is_signature [FAILURE]" "\<not> is_signature (agent_identities agent)" "is_signature (sign_response P agent data)"
  by (simp_all add: is_signature_def agent_identities_def sign_response_def FAILURE_def SIGN_RESPONSE_def IDENTITIES_ANSWER_def)

text \<open>The three things a response can be. The approver is consulted only for a well-formed request with
  the right key, once, and a signature is made exactly when it agrees.\<close>

lemma respond_cases:
  assumes "respond H b64 P ask agent request a = (response, a')"
  shows "response = [FAILURE] \<and> a' = a
    \<or> response = agent_identities agent \<and> a' = a \<and> request \<noteq> [] \<and> hd request = REQUEST_IDENTITIES
    \<or> (\<exists>data flags r yes. request = sign_request agent data flags r \<and>
         ask a (fingerprint H b64 (ag_public agent)) = (yes, a') \<and>
         response = (if yes then sign_response P agent data else [FAILURE]))"
proof (cases request)
  case Nil
  then show ?thesis using assms by (simp add: respond_def try_respond_def)
next
  case (Cons k body)
  show ?thesis
  proof (cases "k = SIGN_REQUEST")
    case True
    let ?parse = "bindR (read_string body) (\<lambda>(requested, r). bindR (read_string r) (\<lambda>(data, r).
           bindR (read_u32 r) (\<lambda>(flags, _). if requested \<noteq> public_key_blob (ag_public agent) then Inl NotOurKey else Inr data)))"
    have e: "respond H b64 P ask agent request a = (case agent_sign H b64 P ask agent body a of
        (Inr response, a) \<Rightarrow> (response, a) | (Inl _, a) \<Rightarrow> ([FAILURE], a))"
      using Cons True by (simp add: respond_def try_respond_def SIGN_REQUEST_def REQUEST_IDENTITIES_def)
    show ?thesis
    proof (cases ?parse)
      case (Inl x)
      then show ?thesis using assms e by (simp add: agent_sign_def)
    next
      case (Inr data)
      obtain r1 r2 flags r where "read_string body = Inr (public_key_blob (ag_public agent), r1)"
        "read_string r1 = Inr (data, r2)" "read_u32 r2 = Inr (flags, r)"
        using Inr by (elim result_steps) auto
      then have req: "request = sign_request agent data flags r"
        using Cons True by (simp add: sign_request_def read_stringE read_u32E)
      obtain yes b where ask: "ask a (fingerprint H b64 (ag_public agent)) = (yes, b)" by force
      then have "response = (if yes then sign_response P agent data else [FAILURE]) \<and> a' = b"
        using assms unfolding e agent_sign_def Inr by (auto simp: sign_response_def Let_def)
      then show ?thesis using req ask by blast
    qed
  next
    case False
    then show ?thesis using assms Cons
      by (cases "k = REQUEST_IDENTITIES") (simp_all add: respond_def try_respond_def)
  qed
qed

text \<open>A well-formed request for the key of the agent is put to the approver, and signed when it agrees.\<close>

lemma respond_sign_request:
  assumes "length (ag_public agent) = 32" "length data < 2 ^ 32" "ask a (fingerprint H b64 (ag_public agent)) = (yes, a')"
  shows "respond H b64 P ask agent (sign_request agent data flags r) a = (if yes then sign_response P agent data else [FAILURE], a')"
proof -
  have "length (public_key_blob (ag_public agent)) = 51"
    using assms(1) by (simp add: public_key_blob_def put_string_def KEY_TYPE_def)
  then show ?thesis
    using assms(2,3) by (simp add: sign_request_def respond_def try_respond_def agent_sign_def sign_response_def SIGN_REQUEST_def
        REQUEST_IDENTITIES_def Let_def)
qed

text \<open>A signature that the agent returns verifies under its identity.\<close>

lemma signature_verifies:
  assumes "sig_laws P" "agent = agent_new P identity comment"
    and "respond H b64 P ask agent request a = (response, a')" "is_signature response"
  shows "\<exists>data flags r sig. request = sign_request agent data flags r \<and>
    response = [SIGN_RESPONSE] @ put_string (put_string KEY_TYPE @ put_string sig) \<and>
    ed_verify_strict P (vi_ed25519 (verifying_key P identity)) data sig"
proof -
  obtain data flags r where d: "request = sign_request agent data flags r" "response = sign_response P agent data"
    using respond_cases [OF assms(3)] assms(4) by (auto split: if_splits)
  have "ed_verify_strict P (ed_public P (ag_key agent)) data (ed_sign P (ag_key agent) data)"
    using assms(1) by (simp add: sig_laws_def)
  then have "ed_verify_strict P (vi_ed25519 (verifying_key P identity)) data (ed_sign P (ag_key agent) data)"
    using assms(2) by (simp add: agent_new_def ed25519_seed_def verifying_key_def Let_def)
  then show ?thesis using d unfolding sign_response_def by blast
qed

lemma serveE:
  assumes "serve H b64 P ask agent input a = (rs, a', result)"
  obtains (stop) "rs = []" "a' = a"
  | (answer) len request response b more where "4 \<le> length input" "len = u32_from_be (take 4 input)" "len \<noteq> 0" "len \<le> MAX_MESSAGE"
      "request = take (unat len) (drop 4 input)" "length request = unat len"
      "respond H b64 P ask agent request a = (response, b)"
      "serve H b64 P ask agent (drop (unat len) (drop 4 input)) b = (more, a', result)" "rs = (request, response) # more"
  using assms by (subst (asm) serve.simps) (auto simp: Let_def not_less split: if_splits prod.splits)

lemma framed: "4 \<le> length input \<Longrightarrow> len = u32_from_be (take 4 input) \<Longrightarrow> length req = unat len \<Longrightarrow>
  put_string req = take 4 input @ req"
  by (simp add: put_string_def be32_u32_from_be)

text \<open>A connection that carries one request.\<close>

lemma serve_one:
  assumes "respond H b64 P ask agent req a = (response, a')" "req \<noteq> []" "length req \<le> unat MAX_MESSAGE"
  shows "serve H b64 P ask agent (put_string req) a = ([(req, response)], a', Inr ())"
proof -
  have l: "length req < 2 ^ 32" "unat (of_nat (length req) :: u32) = length req"
    using assms(3) by (simp_all add: MAX_MESSAGE_def unat_of_nat)
  have e: "serve H b64 P ask agent [] b = ([], b, Inr ())" for b by (simp add: serve.simps)
  have "of_nat (length req) \<noteq> (0 :: u32)" "\<not> MAX_MESSAGE < of_nat (length req)"
    using l assms(2,3) by (auto simp: word_less_nat_alt simp flip: unat_eq_0)
  then show ?thesis using assms(1) l e by (subst serve.simps) (simp add: put_string_def Let_def)
qed

end
