(* ===== verification/Hide_Transport.thy ===== *)
theory Hide_Transport
  imports Hide_Agent Hide_Keyring
begin

unbundle bit_operations_syntax

text \<open>
  \<open>apps/hide-cli/src/transport.rs\<close>: where the agent listens, and \<open>agent.rs\<close>: the two approvers. The part of
  the file system that matters here is a tree of inodes with kind, owner and mode; a path is the list of
  its components, absolute, with no symbolic link among its proper prefixes. \<open>os\<close> is the process: its
  user, its umask, and the kernel's answers to whether it may create or remove an entry. A system call
  returns an error, and then changes nothing, or the new tree; \<open>listen_setup\<close> yields the tree after each
  call. The incoming connections are a list: each is the bytes of one peer, or a failed accept.
  Modes are written in hexadecimal: \<open>0x1C0\<close> is \<open>0o700\<close>, \<open>0x180\<close> is \<open>0o600\<close>, \<open>0x1B6\<close> is \<open>0o666\<close>, \<open>0x3F\<close> is \<open>0o077\<close>.
\<close>

section \<open>Approvers\<close>

text \<open>\<open>AskOnTerminal\<close>. Its state is what the terminal will deliver to the coming prompts: a line, or
  nothing when the terminal cannot be opened or read. With nothing left \<open>read_line\<close> yields an empty line.\<close>

type_synonym terminal = "str option list"

definition says_yes :: "str option \<Rightarrow> bool" where
  "says_yes line =
     (case line of
        None \<Rightarrow> False
      | Some text \<Rightarrow> utf8_valid text \<and> str_trim text \<in> {ascii ''y'', ascii ''Y'', ascii ''yes''})"

fun ask_on_terminal :: "terminal approver" where
  "ask_on_terminal [] fp = (False, [])"
| "ask_on_terminal (line # lines) fp = (says_yes line, lines)"

datatype IoError =
    NotFound
  | AlreadyExists
  | PermissionDenied
  | NotADirectory
  | AddrInUse
  | InvalidInput
  | FilesystemLoop
  | IoOther string

text \<open>\<open>require_terminal\<close>: \<open>stdin_terminal\<close> is \<open>stdin().is_terminal()\<close>, \<open>tty\<close> the outcome of opening the
  controlling terminal.\<close>

definition require_terminal :: "bool \<Rightarrow> IoError + unit \<Rightarrow> IoError + unit" where
  "require_terminal stdin_terminal tty =
     (if \<not> stdin_terminal then Inl (IoOther ''standard input is not a terminal'') else tty)"

definition authorized_key_line :: "b64_api \<Rightarrow> bytes \<Rightarrow> str \<Rightarrow> str" where
  "authorized_key_line B pk comment = KEY_TYPE @ ascii '' '' @ b64_enc B (public_key_blob pk) @ ascii '' '' @ comment"

section \<open>The endpoint\<close>

definition check_no_confirm_allowed :: "bool \<Rightarrow> string + unit" where
  "check_no_confirm_allowed windows =
     (if windows then Inl ''--no-confirm is not available on Windows'' else Inr ())"

definition advice :: "bool \<Rightarrow> string \<Rightarrow> string" where
  "advice windows endpoint =
     (if windows
      then ''set SSH_AUTH_SOCK to '' @ endpoint @ '' (PowerShell: $env:SSH_AUTH_SOCK = '' @ [char_of (39 :: nat)] @ endpoint
           @ [char_of (39 :: nat)] @ '')''
      else ''export SSH_AUTH_SOCK='' @ endpoint)"

definition BACKSLASH :: string where
  "BACKSLASH = [char_of (92 :: nat)]"

definition default_endpoint :: "bool \<Rightarrow> string option \<Rightarrow> string" where
  "default_endpoint windows xdg_runtime_dir =
     (if windows then BACKSLASH @ BACKSLASH @ ''.'' @ BACKSLASH @ ''pipe'' @ BACKSLASH @ ''hide-agent''
      else (case xdg_runtime_dir of Some d \<Rightarrow> d | None \<Rightarrow> ''/tmp'') @ ''/hide-agent/agent.sock'')"

section \<open>Directories and sockets\<close>

type_synonym dpath = "string list"

datatype kind = Directory | Regular | Socket | Symlink dpath

record inode =
  in_kind :: kind
  in_uid :: u32
  in_mode :: u32

type_synonym tree = "dpath \<Rightarrow> inode option"

record os =
  os_uid :: u32
  os_umask :: u32
  os_tempfile :: "IoError + unit"
  os_may_create :: "inode \<Rightarrow> bool"
  os_may_remove :: "inode \<Rightarrow> inode \<Rightarrow> bool"
  os_may_bind :: "dpath \<Rightarrow> IoError + unit"

text \<open>The last component followed through symbolic links, at most 40 of them.\<close>

primrec resolve :: "nat \<Rightarrow> tree \<Rightarrow> dpath \<Rightarrow> IoError + dpath" where
  "resolve 0 t p = Inl FilesystemLoop"
| "resolve (Suc n) t p =
     (case t p of
        None \<Rightarrow> Inl NotFound
      | Some i \<Rightarrow> (case in_kind i of Symlink q \<Rightarrow> resolve n t q | _ \<Rightarrow> Inr p))"

definition is_dir :: "tree \<Rightarrow> dpath \<Rightarrow> bool" where
  "is_dir t p = (case resolve 41 t p of Inr q \<Rightarrow> map_option in_kind (t q) = Some Directory | Inl _ \<Rightarrow> False)"

text \<open>A new entry of a directory.\<close>

definition new_entry :: "os \<Rightarrow> tree \<Rightarrow> dpath \<Rightarrow> kind \<Rightarrow> u32 \<Rightarrow> IoError + tree" where
  "new_entry os t p k mode =
     (case t (butlast p) of
        None \<Rightarrow> Inl NotFound
      | Some d \<Rightarrow>
          if in_kind d \<noteq> Directory then Inl NotADirectory
          else if \<not> os_may_create os d then Inl PermissionDenied
          else Inr (t(p \<mapsto> \<lparr>in_kind = k, in_uid = os_uid os, in_mode = mode AND NOT (os_umask os)\<rparr>)))"

definition mkdir :: "os \<Rightarrow> u32 \<Rightarrow> tree \<Rightarrow> dpath \<Rightarrow> IoError + tree" where
  "mkdir os mode t p =
     (if p = [] \<or> t p \<noteq> None then Inl AlreadyExists else new_entry os t p Directory mode)"

text \<open>\<open>DirBuilder::create\<close> with \<open>recursive(true)\<close>.\<close>

function create_dir_all :: "os \<Rightarrow> u32 \<Rightarrow> tree \<Rightarrow> dpath \<Rightarrow> (IoError + unit) \<times> tree" where
  "create_dir_all os mode t p =
     (if p = [] then (Inr (), t)
      else case mkdir os mode t p of
        Inr t' \<Rightarrow> (Inr (), t')
      | Inl e \<Rightarrow>
          if e = NotFound then
            (case create_dir_all os mode t (butlast p) of
               (Inl e, t') \<Rightarrow> (Inl e, t')
             | (Inr _, t') \<Rightarrow>
                 (case mkdir os mode t' p of
                    Inr t'' \<Rightarrow> (Inr (), t'')
                  | Inl e \<Rightarrow> (if is_dir t' p then Inr () else Inl e, t')))
          else (if is_dir t p then Inr () else Inl e, t))"
  by pat_completeness auto
termination
  by (relation "measure (\<lambda>(_, _, _, p). length p)") auto

declare create_dir_all.simps [simp del]

text \<open>\<open>chmod\<close> is for the owner and for the superuser.\<close>

definition set_permissions :: "os \<Rightarrow> tree \<Rightarrow> dpath \<Rightarrow> u32 \<Rightarrow> IoError + tree" where
  "set_permissions os t p mode =
     bindR (resolve 41 t p) (\<lambda>q.
       case t q of
         None \<Rightarrow> Inl NotFound
       | Some i \<Rightarrow>
           if os_uid os \<noteq> 0 \<and> os_uid os \<noteq> in_uid i then Inl PermissionDenied
           else Inr (t(q \<mapsto> i\<lparr>in_mode := mode\<rparr>)))"

text \<open>A temporary file just created is owned by the process.\<close>

definition current_uid :: "os \<Rightarrow> IoError + u32" where
  "current_uid os = bindR (os_tempfile os) (\<lambda>_. Inr (os_uid os))"

definition create_private_dir :: "os \<Rightarrow> tree \<Rightarrow> dpath \<Rightarrow> (IoError + unit) \<times> tree" where
  "create_private_dir os t directory =
     (case create_dir_all os 0x1C0 t directory of
        (Inl e, t) \<Rightarrow> (Inl e, t)
      | (Inr _, t) \<Rightarrow>
          (case t directory of
             None \<Rightarrow> (Inl NotFound, t)
           | Some metadata \<Rightarrow>
               if in_kind metadata \<noteq> Directory then (Inl (IoOther ''is not a directory''), t)
               else
                 (case (if in_mode metadata AND 0x3F \<noteq> 0 then set_permissions os t directory 0x1C0 else Inr t) of
                    Inl e \<Rightarrow> (Inl e, t)
                  | Inr t \<Rightarrow>
                      (bindR (current_uid os) (\<lambda>uid.
                         if in_uid metadata \<noteq> uid then Inl (IoOther ''is owned by another user'') else Inr ()), t))))"

text \<open>\<open>remove_file\<close>, its result ignored.\<close>

definition remove_file :: "os \<Rightarrow> tree \<Rightarrow> dpath \<Rightarrow> tree" where
  "remove_file os t p =
     (case (t p, t (butlast p)) of
        (Some i, Some d) \<Rightarrow>
          if in_kind i \<noteq> Directory \<and> in_kind d = Directory \<and> os_may_remove os d i then t(p := None) else t
      | _ \<Rightarrow> t)"

definition bind_socket :: "os \<Rightarrow> tree \<Rightarrow> dpath \<Rightarrow> IoError + tree" where
  "bind_socket os t p =
     bindR (os_may_bind os p) (\<lambda>_.
       if p = [] \<or> t p \<noteq> None then Inl AddrInUse else new_entry os t p Socket 0x1B6)"

text \<open>\<open>listen\<close> on Unix up to its loop. An endpoint with no parent component lies in the current directory.\<close>

definition listen_setup :: "os \<Rightarrow> dpath \<Rightarrow> tree \<Rightarrow> dpath \<Rightarrow> (IoError + unit) \<times> tree list" where
  "listen_setup os cwd t endpoint =
     (let parent = (if endpoint = [] then cwd else butlast endpoint) in
      case create_private_dir os t parent of
        (Inl e, t1) \<Rightarrow> (Inl e, [t1])
      | (Inr _, t1) \<Rightarrow>
          let t2 = remove_file os t1 endpoint in
          (case bind_socket os t2 endpoint of
             Inl e \<Rightarrow> (Inl e, [t1, t2])
           | Inr t3 \<Rightarrow>
               (case set_permissions os t3 endpoint 0x180 of
                  Inl e \<Rightarrow> (Inl e, [t1, t2, t3])
                | Inr t4 \<Rightarrow> (Inr (), [t1, t2, t3, t4]))))"

text \<open>The loop of \<open>listen\<close>: an error of one connection is reported and the next one served; a failed
  accept ends it.\<close>

primrec serve_all ::
  "(bytes \<Rightarrow> bytes) \<Rightarrow> (bytes \<Rightarrow> str) \<Rightarrow> sig_api \<Rightarrow> 'a approver \<Rightarrow> Agent \<Rightarrow> bytes option list \<Rightarrow> 'a \<Rightarrow>
   (bytes \<times> bytes) list list \<times> 'a \<times> (IoError + unit)" where
  "serve_all H b64 P ask agent [] a = ([], a, Inr ())"
| "serve_all H b64 P ask agent (stream # incoming) a =
     (case stream of
        None \<Rightarrow> ([], a, Inl (IoOther ''accept''))
      | Some input \<Rightarrow>
          let (rs, a, _) = serve H b64 P ask agent input a;
              (more, a, result) = serve_all H b64 P ask agent incoming a
          in (rs # more, a, result))"

section \<open>Lemmas\<close>

subsection \<open>Approvals\<close>

definition signatures :: "(bytes \<times> bytes) list \<Rightarrow> nat" where
  "signatures rs = length (filter (\<lambda>x. is_signature (snd x)) rs)"

lemma signatures_simps [simp]:
  "signatures [] = 0" "signatures (x # rs) = (if is_signature (snd x) then 1 else 0) + signatures rs"
  by (simp_all add: signatures_def)

text \<open>An approver whose state fixes how many approvals it has left to give.\<close>

locale rationed_approver =
  fixes ask :: "'a approver" and left :: "'a \<Rightarrow> nat"
  assumes ration: "ask a fp = (yes, a') \<Longrightarrow> left a = (if yes then 1 else 0) + left a'"
begin

lemma respond_ration:
  "respond H b64 P ask agent request a = (response, a') \<Longrightarrow>
   left a = (if is_signature response then 1 else 0) + left a'"
  by (drule respond_cases) (auto dest: ration split: if_splits)

lemma serve_ration:
  "serve H b64 P ask agent input a = (rs, a', result) \<Longrightarrow> left a = signatures rs + left a'"
proof (induction "length input" arbitrary: input a rs rule: less_induct)
  case less
  from less.prems show ?case
  proof (cases rule: serveE)
    case (answer len request response b more)
    have "left b = signatures more + left a'"
      by (rule less.hyps [OF _ answer(8)]) (use answer(1) in auto)
    then show ?thesis using respond_ration [OF answer(7)] answer(9) by simp
  qed simp
qed

lemma serve_all_ration:
  "serve_all H b64 P ask agent incoming a = (rss, a', result) \<Longrightarrow> left a = signatures (concat rss) + left a'"
proof (induction incoming arbitrary: a rss result)
  case (Cons stream incoming)
  show ?case
  proof (cases stream)
    case (Some input)
    obtain rs b r more c q where s: "serve H b64 P ask agent input a = (rs, b, r)"
      "serve_all H b64 P ask agent incoming b = (more, c, q)" by (metis prod_cases3)
    then have r: "rss = rs # more" "a' = c" using Cons.prems Some by simp_all
    show ?thesis using Cons.IH [OF s(2) [folded r(2)]] serve_ration [OF s(1)] by (simp add: r(1) signatures_def)
  qed (use Cons.prems in simp)
qed simp

end

interpretation on_terminal: rationed_approver ask_on_terminal "\<lambda>lines. length (filter says_yes lines)"
proof
  show "length (filter says_yes a) = (if yes then 1 else 0) + length (filter says_yes a')"
    if "ask_on_terminal a fp = (yes, a')" for a a' fp yes
    using that by (cases "(a, fp)" rule: ask_on_terminal.cases) auto
qed

text \<open>Every answer of a connection is the response to its request in some state of the approver.\<close>

lemma serve_responds:
  "serve H b64 P ask agent input a = (rs, a', result) \<Longrightarrow> x \<in> set rs \<Longrightarrow>
   \<exists>b c. respond H b64 P ask agent (fst x) b = (snd x, c)"
proof (induction "length input" arbitrary: input a rs rule: less_induct)
  case less
  from less.prems(1) show ?case
  proof (cases rule: serveE)
    case (answer len request response b more)
    have "length (drop (unat len) (drop 4 input)) < length input" using answer(1) by auto
    from less.hyps [OF this answer(8)] show ?thesis using answer(7,9) less.prems(2) by (metis fst_conv set_ConsD snd_conv)
  qed (use less.prems(2) in simp)
qed

lemma serve_all_responds:
  "serve_all H b64 P ask agent incoming a = (rss, a', result) \<Longrightarrow> x \<in> set (concat rss) \<Longrightarrow>
   \<exists>b c. respond H b64 P ask agent (fst x) b = (snd x, c)"
proof (induction incoming arbitrary: a rss result)
  case (Cons stream incoming)
  show ?case
  proof (cases stream)
    case (Some input)
    obtain rs b r more c q where s: "serve H b64 P ask agent input a = (rs, b, r)"
      "serve_all H b64 P ask agent incoming b = (more, c, q)" by (metis prod_cases3)
    then have "rss = rs # more" "a' = c" using Cons.prems(1) Some by simp_all
    then show ?thesis using Cons.IH [of b more q] Cons.prems(2) s serve_responds [OF s(1)] by auto
  qed (use Cons.prems in simp)
qed simp

subsection \<open>Directories\<close>

lemma new_entry_other: "new_entry os t p k m = Inr t' \<Longrightarrow> q \<noteq> p \<Longrightarrow> t' q = t q"
  by (auto simp: new_entry_def split: option.splits if_splits)

lemma mkdir_other: "mkdir os m t p = Inr t' \<Longrightarrow> q \<noteq> p \<Longrightarrow> t' q = t q"
  by (auto simp: mkdir_def new_entry_other split: if_splits)

text \<open>Creating a directory with its ancestors only adds directories, on the way down to it.\<close>

definition added_dir :: "nat \<Rightarrow> dpath \<Rightarrow> tree \<Rightarrow> tree \<Rightarrow> bool" where
  "added_dir n q t t' \<longleftrightarrow> t' q = t q \<or> t q = None \<and> length q \<le> n \<and> map_option in_kind (t' q) = Some Directory"

lemma mkdir_added: "mkdir os m t p = Inr t' \<Longrightarrow> added_dir (length p) q t t'"
  by (auto simp: mkdir_def new_entry_def added_dir_def split: if_splits option.splits)

lemma added_dir_trans: "added_dir n q t t' \<Longrightarrow> added_dir m q t' t'' \<Longrightarrow> n \<le> m \<Longrightarrow> added_dir m q t t''"
  by (auto simp: added_dir_def)

lemma added_dir_refl [simp]: "added_dir n q t t"
  by (simp add: added_dir_def)

lemma create_dir_all_frame: "create_dir_all os m t p = (r, t') \<Longrightarrow> added_dir (length p) q t t'"
proof (induction os m t p arbitrary: r t' rule: create_dir_all.induct)
  case (1 os m t p)
  show ?case
  proof (cases "p = [] \<or> mkdir os m t p \<noteq> Inl NotFound")
    case True
    then show ?thesis using "1.prems" mkdir_added [of os m t p _ q]
      by (subst (asm) create_dir_all.simps) (auto split: sum.splits if_splits)
  next
    case False
    then have m: "p \<noteq> []" "mkdir os m t p = Inl NotFound" by auto
    obtain r1 t1 where c: "create_dir_all os m t (butlast p) = (r1, t1)" by force
    have "added_dir (length p) q t t1" using added_dir_trans [OF "1.IH" [OF m refl c] added_dir_refl] by simp
    moreover have "t' = t1 \<or> mkdir os m t1 p = Inr t'"
      using "1.prems" m c by (subst (asm) create_dir_all.simps) (auto split: sum.splits if_splits)
    ultimately show ?thesis using mkdir_added added_dir_trans by blast
  qed
qed

lemma resolve_real: "t p = Some i \<Longrightarrow> (\<And>q. in_kind i \<noteq> Symlink q) \<Longrightarrow> resolve (Suc n) t p = Inr p"
  by (cases "in_kind i") auto

lemma resolve_real41 [simp]: "t p = Some i \<Longrightarrow> (\<And>q. in_kind i \<noteq> Symlink q) \<Longrightarrow> resolve 41 t p = Inr p"
  using resolve_real [of t p i 40] by (simp add: numeral_eq_Suc)

definition private_to :: "u32 \<Rightarrow> inode \<Rightarrow> bool" where
  "private_to uid i \<longleftrightarrow> in_kind i = Directory \<and> in_uid i = uid \<and> in_mode i AND 0x3F = 0"

lemma private_dir_ok:
  assumes "create_private_dir os t d = (Inr (), t')"
  shows "(\<exists>i. t' d = Some i \<and> private_to (os_uid os) i) \<and> (length d < length q \<longrightarrow> t' q = t q)"
proof -
  obtain t1 i where c: "create_dir_all os 0x1C0 t d = (Inr (), t1)" "t1 d = Some i" "in_kind i = Directory"
    "(if in_mode i AND 0x3F \<noteq> 0 then set_permissions os t1 d 0x1C0 else Inr t1) = Inr t'" "in_uid i = os_uid os"
    using assms by (auto simp: create_private_dir_def current_uid_def result_simps split: prod.splits sum.splits option.splits if_splits)
  have "t' = (if in_mode i AND 0x3F \<noteq> 0 then t1(d \<mapsto> i\<lparr>in_mode := 0x1C0\<rparr>) else t1)"
    using c(2-5) by (auto simp: set_permissions_def split: if_splits)
  then show ?thesis
    using c(2,3,5) create_dir_all_frame [OF c(1), of q] by (auto simp: private_to_def added_dir_def)
qed

lemma set_permissions_dir:
  "set_permissions os t d m = Inr t' \<Longrightarrow> t d = Some i \<Longrightarrow> in_kind i = Directory \<Longrightarrow> t' = t(d \<mapsto> i\<lparr>in_mode := m\<rparr>)"
  by (auto simp: set_permissions_def split: if_splits)

lemma private_dir_others:
  assumes "create_private_dir os t d = (r, t')" "t' q = Some i" "in_kind i = Socket"
  shows "t q = Some i"
proof -
  obtain r1 t1 where c: "create_dir_all os 0x1C0 t d = (r1, t1)" by force
  have "t' = t1 \<or> (\<exists>j m. t1 d = Some j \<and> in_kind j = Directory \<and> t' = t1(d \<mapsto> j\<lparr>in_mode := m\<rparr>))"
    using assms(1) set_permissions_dir [of os t1 d] c
    by (auto simp: create_private_dir_def split: sum.splits option.splits if_splits)
  then have "t1 q = Some i" using assms(2,3) by (auto split: if_splits)
  then show ?thesis using create_dir_all_frame [OF c, of q] assms(3) by (auto simp: added_dir_def)
qed

lemma create_existing:
  assumes "d \<noteq> []" "t d = Some i" "in_kind i = Directory"
  shows "create_dir_all os m t d = (Inr (), t)"
  using assms by (subst create_dir_all.simps) (simp add: mkdir_def is_dir_def)

lemma bind_socket_Inr:
  "bind_socket os t p = Inr t' \<Longrightarrow> p \<noteq> [] \<and> t p = None \<and>
     t' = t(p \<mapsto> \<lparr>in_kind = Socket, in_uid = os_uid os, in_mode = 0x1B6 AND NOT (os_umask os)\<rparr>)"
  by (auto simp: bind_socket_def new_entry_def result_simps split: option.splits if_splits)

lemma remove_file_cases: "remove_file os t p = t \<or> remove_file os t p = t(p := None)"
  by (auto simp: remove_file_def split: option.splits)

text \<open>The three outcomes of setting up the listener.\<close>

lemma listen_setupE:
  assumes "listen_setup os cwd t ep = (r, ts)"
  obtains (no_dir) t1 e where "ts = [t1]" "r = Inl e" "create_private_dir os t (if ep = [] then cwd else butlast ep) = (Inl e, t1)"
  | (no_socket) t1 t2 e where "ts = [t1, t2]" "r = Inl e" "create_private_dir os t (if ep = [] then cwd else butlast ep) = (Inr (), t1)"
      "t2 = remove_file os t1 ep" "bind_socket os t2 ep = Inl e"
  | (bound) t1 t2 t3 t4 s where "ep \<noteq> []" "ts = [t1, t2, t3, t4]" "r = Inr ()" "create_private_dir os t (butlast ep) = (Inr (), t1)"
      "t2 = remove_file os t1 ep" "s = \<lparr>in_kind = Socket, in_uid = os_uid os, in_mode = 0x1B6 AND NOT (os_umask os)\<rparr>"
      "t3 = t2(ep \<mapsto> s)" "t4 = t2(ep \<mapsto> s\<lparr>in_mode := 0x180\<rparr>)"
proof -
  let ?d = "if ep = [] then cwd else butlast ep"
  obtain r1 t1 where c: "create_private_dir os t ?d = (r1, t1)" by force
  show thesis
  proof (cases r1)
    case (Inl e)
    then show ?thesis using assms c by (intro no_dir) (auto simp: listen_setup_def Let_def)
  next
    case (Inr u)
    let ?t2 = "remove_file os t1 ep"
    show ?thesis
    proof (cases "bind_socket os ?t2 ep")
      case Inl': (Inl e)
      then show ?thesis using assms c Inr by (intro no_socket [OF _ _ _ refl]) (auto simp: listen_setup_def Let_def)
    next
      case Inr': (Inr t3)
      then show ?thesis using assms c Inr bind_socket_Inr [OF Inr']
        by (intro bound [OF _ _ _ _ refl refl refl refl]) (auto simp: listen_setup_def Let_def set_permissions_def)
    qed
  qed
qed

section \<open>Properties\<close>

text \<open>C13. The socket is never reachable by another user. In every intermediate state of \<open>listen\<close>, whatever
  existed before and wherever a call fails, a socket that this run has put at the endpoint lies in a real
  directory (not a symbolic link) owned by this user with no permission for group or others, also
  between \<open>bind\<close>, which creates it with a wide mode, and the tightening of its own mode; when the agent
  starts to listen the socket has mode 0600.\<close>

theorem socket_never_exposed:
  assumes "listen_setup os cwd t ep = (r, ts)" "s \<in> set ts" "s ep = Some i" "in_kind i = Socket" "t ep \<noteq> Some i"
  shows "in_uid i = os_uid os \<and> (\<exists>d. s (butlast ep) = Some d \<and> private_to (os_uid os) d) \<and>
    (r = Inr () \<longrightarrow> (\<exists>j. last ts ep = Some j \<and> in_mode j = 0x180))"
  using assms(1)
proof (cases rule: listen_setupE)
  case (bound t1 t2 t3 t4 k)
  have d: "length (butlast ep) < length ep" using bound(1) by simp
  have p: "\<exists>j. t1 (butlast ep) = Some j \<and> private_to (os_uid os) j" and e: "t1 ep = t ep"
    using private_dir_ok [OF bound(4)] d by auto
  have n: "butlast ep \<noteq> ep" using d by fastforce
  have "t2 (butlast ep) = t1 (butlast ep)" "t2 ep = None \<or> t2 ep = t ep"
    using remove_file_cases [of os t1 ep] bound(5) n e by auto
  then show ?thesis using p n assms(2-5) bound(2,3,5-8) e by auto
next
  case (no_dir t1 e)
  then show ?thesis using private_dir_others [OF no_dir(3) _ assms(4), of ep] assms(2,3,5) by simp
next
  case (no_socket t1 t2 e)
  then have "t1 ep = Some i" using assms(2,3) remove_file_cases [of os t1 ep] by auto
  then show ?thesis using private_dir_others [OF no_socket(3) _ assms(4), of ep] assms(5) by simp
qed

definition demo_tree :: tree where
  "demo_tree = [[] \<mapsto> \<lparr>in_kind = Directory, in_uid = 0, in_mode = 0x1ED\<rparr>, [''tmp''] \<mapsto> \<lparr>in_kind = Directory, in_uid = 0, in_mode = 0x3FF\<rparr>]"

definition demo_os :: os where
  "demo_os = \<lparr>os_uid = 1000, os_umask = 0x12, os_tempfile = Inr (), os_may_create = (\<lambda>_. True),
     os_may_remove = (\<lambda>d i. in_uid i = 1000), os_may_bind = (\<lambda>_. Inr ())\<rparr>"

abbreviation demo_endpoint :: dpath where
  "demo_endpoint \<equiv> [''tmp'', ''hide-agent'', ''agent.sock'']"

lemma demo_listen:
  "\<exists>t1 t2 t3 t4 j. listen_setup demo_os [] demo_tree demo_endpoint = (Inr (), [t1, t2, t3, t4]) \<and> t3 demo_endpoint = Some j \<and>
     in_kind j = Socket \<and> in_mode j = 0x1A4"
  by (simp add: listen_setup_def create_private_dir_def create_dir_all.simps mkdir_def new_entry_def demo_tree_def demo_os_def
      is_dir_def current_uid_def remove_file_def bind_socket_def set_permissions_def Let_def)

theorem socket_never_exposed_witness:
  "\<exists>ts s i. listen_setup demo_os [] demo_tree demo_endpoint = (Inr (), ts) \<and> s \<in> set ts \<and> s demo_endpoint = Some i \<and>
     in_mode i = 0x1A4 \<and> (\<exists>d. s [''tmp'', ''hide-agent''] = Some d \<and> private_to 1000 d)"
proof -
  obtain t1 t2 t3 t4 j where l: "listen_setup demo_os [] demo_tree demo_endpoint = (Inr (), [t1, t2, t3, t4])" "t3 demo_endpoint = Some j"
    "in_kind j = Socket" "in_mode j = 0x1A4" using demo_listen by blast
  have "demo_tree demo_endpoint \<noteq> Some j" by (simp add: demo_tree_def)
  from socket_never_exposed [where s = t3, OF l(1) _ l(2,3) this] show ?thesis using l by (auto simp: demo_os_def)
qed

text \<open>What \<open>create_private_dir\<close> does with a directory that exists. One that is ours and already private
  is accepted as it is; one that is ours and open to others is accepted after its mode is set to 0700; one
  of another user is refused. For an ordinary user a refusal changes nothing, but the superuser has
  by then set the mode of the other user's directory.\<close>

theorem private_dir_outcomes:
  assumes "d \<noteq> []" "t d = Some i" "in_kind i = Directory" "os_tempfile os = Inr ()"
  shows "create_private_dir os t d =
    (let verdict = (if in_uid i = os_uid os then Inr () else Inl (IoOther ''is owned by another user'')) in
     if in_mode i AND 0x3F = 0 then (verdict, t)
     else if os_uid os \<noteq> 0 \<and> os_uid os \<noteq> in_uid i then (Inl PermissionDenied, t)
     else (verdict, t(d \<mapsto> i\<lparr>in_mode := 0x1C0\<rparr>)))"
  using assms by (simp add: create_private_dir_def create_existing set_permissions_def current_uid_def Let_def)

theorem private_dir_outcomes_witness:
  "\<exists>i. create_private_dir (demo_os\<lparr>os_uid := 0\<rparr>) (demo_tree([''tmp''] \<mapsto> \<lparr>in_kind = Directory, in_uid = 7, in_mode = 0x1FF\<rparr>)) [''tmp'']
     = (Inl (IoOther ''is owned by another user''), demo_tree([''tmp''] \<mapsto> i)) \<and> in_uid i = 7 \<and> in_mode i = 0x1C0"
  using private_dir_outcomes [of "[''tmp'']" "demo_tree([''tmp''] \<mapsto> \<lparr>in_kind = Directory, in_uid = 7, in_mode = 0x1FF\<rparr>)"
      "\<lparr>in_kind = Directory, in_uid = 7, in_mode = 0x1FF\<rparr>" "demo_os\<lparr>os_uid := 0\<rparr>"]
  by (intro exI [of _ "\<lparr>in_kind = Directory, in_uid = 7, in_mode = 0x1C0\<rparr>"]) (simp add: demo_os_def)

text \<open>Why the loop of the agent stops, with \<open>rest\<close> still unread.\<close>

definition stops_for :: "bytes \<Rightarrow> AgentError + unit \<Rightarrow> bool" where
  "stops_for rest result =
     (case result of
        Inr _ \<Rightarrow> length rest < 4
      | Inl (LengthOutOfRange len) \<Rightarrow> 4 \<le> length rest \<and> len = u32_from_be (take 4 rest) \<and> (len = 0 \<or> MAX_MESSAGE < len)
      | Inl ConnectionCut \<Rightarrow> 4 \<le> length rest \<and> u32_from_be (take 4 rest) \<in> {1..MAX_MESSAGE} \<and>
          length rest < 4 + unat (u32_from_be (take 4 rest))
      | Inl _ \<Rightarrow> False)"

lemma word_from_one: "(w :: u32) \<noteq> 0 \<longleftrightarrow> 1 \<le> w"
  by (metis word_le_0_iff word_less_1 linorder_not_le)

lemma serve_stop:
  assumes "length input < 4 \<or> u32_from_be (take 4 input) = 0 \<or> MAX_MESSAGE < u32_from_be (take 4 input)
    \<or> length input < 4 + unat (u32_from_be (take 4 input))"
  shows "\<exists>result. serve H b64 P ask agent input a = ([], a, result) \<and> stops_for input result"
  using assms by (subst serve.simps) (auto simp: Let_def stops_for_def not_less word_from_one)


end
