(* ===== verification/Hide_Cli_Run.thy ===== *)
theory Hide_Cli_Run
  imports Hide_Cli_Identity Hide_Transport
begin

text \<open>
  \<open>apps/hide-cli/src/main.rs\<close>: the command line as a whole. \<open>Command\<close> is the enumeration of the
  subcommands, \<open>run\<close> dispatches to the operations of \<open>Hide_Cli\<close>, \<open>Hide_Cli_Files\<close>, \<open>Hide_Cli_Identity\<close> and
  \<open>Hide_Transport\<close>. The environment \<open>cli_env\<close> holds what a process finds outside the file system: whether
  standard input is a terminal, what is typed at each passphrase prompt (each prompt appears at most once
  per command), standard input, random bytes. A run returns the files it writes, in order, and what it
  prints on standard output; the notes on standard error are left out. Parsing of the arguments belongs to
  the library \<open>clap\<close>.
\<close>

section \<open>Commands\<close>

datatype Command =
    Keygen path path bool bool "path option"
  | TestKeygen path path
  | Encrypt path "path list" path "path option" bool
  | Open path "path option" "path option" path
  | Seal "str option" "path list" "path option"
  | Unseal "path option" path
  | Info path
  | Share path
  | Passwd path
  | Sign path path "path option"
  | Verify path path "path option"
  | SshKey path "str option"
  | AgentCmd path "string option" bool "str option"
  | IdentityCreate path path str path
  | IdentityEnrol path path path str path
  | IdentityRevoke path path path path
  | IdentityShow path path
  | EpochInit path path
  | EpochAdvance path path
  | EpochErase EpochNumber path path
  | EpochShow path
  | EpochPublic "EpochNumber option" path path

record Arguments =
  experimental :: bool
  quiet :: bool
  command :: Command

record cli_env =
  env_windows :: bool
  env_terminal :: bool
  env_typed :: "string \<Rightarrow> str option"
  env_tty :: "IoError + unit"
  env_stdin :: bytes
  env_runtime_dir :: "string option"
  env_seed :: "bytes option"
  env_salt :: "bytes option"
  env_nonce :: "bytes option"
  env_store :: store_rng
  env_draw :: rng
  env_reader :: file_reader

datatype Output =
    Silent
  | Printed str
  | Described Description
  | Opened "EpochNumber option" "VerifyingIdentity option"
  | Unsealed str "VerifyingIdentity option"
  | Membership string nat Membership
  | Epochs "(EpochNumber \<times> string) list"
  | Serving Agent string bool

section \<open>Operations\<close>

definition prompt_passphrase :: "cli_env \<Rightarrow> string \<Rightarrow> CliError + str" where
  "prompt_passphrase e prompt =
     (if \<not> env_terminal e then Inl (CliMessage ''a passphrase is required, but standard input is not a terminal'')
      else ok_or (env_typed e prompt) CliIo)"

definition new_passphrase :: "cli_env \<Rightarrow> CliError + str" where
  "new_passphrase e =
     prompt_new_passphrase (prompt_passphrase e ''New passphrase: '') (prompt_passphrase e ''Confirm passphrase: '')"

definition ssh_agent_for ::
  "crypto_api \<Rightarrow> keyring_api \<Rightarrow> sig_api \<Rightarrow> cli_env \<Rightarrow> fs \<Rightarrow> path \<Rightarrow> str option \<Rightarrow> CliError + Agent" where
  "ssh_agent_for A K P e fs secret_path comment =
     bindR (load_signing_identity A K P fs secret_path (prompt_passphrase e ''Passphrase: '')) (\<lambda>identity.
       Inr (agent_new P identity (case comment of Some c \<Rightarrow> c | None \<Rightarrow> ascii (''hide:'' @ secret_path))))"

definition print_ssh_key ::
  "crypto_api \<Rightarrow> keyring_api \<Rightarrow> sig_api \<Rightarrow> b64_api \<Rightarrow> cli_env \<Rightarrow> fs \<Rightarrow> path \<Rightarrow> str option \<Rightarrow> CliError + str" where
  "print_ssh_key A K P B e fs secret_path comment =
     bindR (ssh_agent_for A K P e fs secret_path comment) (\<lambda>agent.
       Inr (authorized_key_line B (ag_public agent) (ag_comment agent) @ [NL]))"

text \<open>\<open>run_agent\<close> up to \<open>transport::listen\<close>: the agent, its endpoint, and whether each signature is confirmed.\<close>

definition run_agent ::
  "crypto_api \<Rightarrow> keyring_api \<Rightarrow> sig_api \<Rightarrow> cli_env \<Rightarrow> fs \<Rightarrow> path \<Rightarrow> string option \<Rightarrow> bool \<Rightarrow> str option \<Rightarrow>
   CliError + Agent \<times> string \<times> bool" where
  "run_agent A K P e fs secret_path endpoint no_confirm comment =
     bindR (ssh_agent_for A K P e fs secret_path comment) (\<lambda>agent.
     let endpoint = (case endpoint of Some s \<Rightarrow> s | None \<Rightarrow> default_endpoint (env_windows e) (env_runtime_dir e)) in
     bindR (if no_confirm then map_err CliMessage (check_no_confirm_allowed (env_windows e))
            else map_err (\<lambda>_. CliMessage ''cannot start the agent'') (require_terminal (env_terminal e) (env_tty e))) (\<lambda>_.
       Inr (agent, endpoint, \<not> no_confirm)))"

text \<open>\<open>transport::listen\<close>: the socket on Unix, the named pipe on Windows (\<open>pipe\<close>, a library), then the loop. An
  endpoint is looked up from the current directory; it has no \<open>..\<close> component.\<close>

definition endpoint_path :: "dpath \<Rightarrow> string \<Rightarrow> dpath" where
  "endpoint_path cwd s =
     (if s \<noteq> [] \<and> hd s = CHR ''/'' then [] else cwd) @ filter (\<lambda>c. c \<noteq> [] \<and> c \<noteq> ''.'') (path_split s)"

definition listen ::
  "(bytes \<Rightarrow> bytes) \<Rightarrow> (bytes \<Rightarrow> str) \<Rightarrow> sig_api \<Rightarrow> bool \<Rightarrow> (string \<Rightarrow> IoError + unit) \<Rightarrow> os \<Rightarrow> dpath \<Rightarrow> tree \<Rightarrow> 'a approver \<Rightarrow>
   Agent \<Rightarrow> string \<Rightarrow> bytes option list \<Rightarrow> 'a \<Rightarrow> (bytes \<times> bytes) list list \<times> 'a \<times> (IoError + unit)" where
  "listen H b64 P windows pipe os cwd t ask agent endpoint incoming a =
     (case (if windows then pipe endpoint else fst (listen_setup os cwd t (endpoint_path cwd endpoint))) of
        Inl e \<Rightarrow> ([], a, Inl e)
      | Inr _ \<Rightarrow> serve_all H b64 P ask agent incoming a)"

definition run ::
  "crypto_api \<Rightarrow> keyring_api \<Rightarrow> cbor_api \<Rightarrow> sig_api \<Rightarrow> b64_api \<Rightarrow> cli_env \<Rightarrow> fs \<Rightarrow> Arguments \<Rightarrow>
   CliError + file_write list \<times> Output" where
  "run A K C P B e fs arguments =
     (let pass = prompt_passphrase e ''Passphrase: ''; store_pass = prompt_passphrase e ''Epoch store passphrase: '';
          fr = env_reader e;
          wrote = (\<lambda>r. bindR r (\<lambda>ws. Inr (ws, Silent)));
          make = (\<lambda>secret public plaintext armor signing_public.
            bindR (keygen A K P fs secret public signing_public plaintext (new_passphrase e) (env_seed e) (env_salt e) (env_nonce e))
              (\<lambda>ws. Inr (ws, case ws of [_, _, Create _ pk] \<Rightarrow> if armor then Printed (encode_public B pk) else Silent | _ \<Rightarrow> Silent)))
      in
      if \<not> experimental arguments then Inl (CliMessage ''pass --experimental'')
      else case command arguments of
        Keygen secret public insecure_plaintext armor signing_public \<Rightarrow> make secret public insecure_plaintext armor signing_public
      | TestKeygen secret public \<Rightarrow> make secret public True False None
      | Encrypt input recipient output sign_with public_signature \<Rightarrow>
          wrote (encrypt_file A K C P B (env_draw e) fr fs input recipient output sign_with pass public_signature)
      | IdentityCreate secret recovery label output \<Rightarrow> wrote (identity_create A K P C fs secret pass recovery label output)
      | IdentityEnrol log secret device label recovery \<Rightarrow>
          bindR (identity_enrol A K P C fs log secret pass device label recovery) (\<lambda>(_, ws). Inr (ws, Silent))
      | IdentityRevoke log secret device recovery \<Rightarrow>
          bindR (identity_revoke A K P C fs log secret pass device recovery) (\<lambda>(_, ws). Inr (ws, Silent))
      | IdentityShow log recovery \<Rightarrow>
          bindR (identity_show A P C fs log recovery) (\<lambda>(head, n, m). Inr ([], Membership head n m))
      | EpochInit output store \<Rightarrow> wrote (epoch_init A K C fs output store (new_passphrase e) (env_seed e) (env_store e))
      | EpochAdvance chain store \<Rightarrow> wrote (epoch_advance A K C fs chain store store_pass (env_seed e) (env_store e))
      | EpochErase epoch chain store \<Rightarrow> wrote (epoch_erase A K C fs epoch chain store store_pass (env_store e))
      | EpochShow chain \<Rightarrow> bindR (epoch_show A C fs chain) (\<lambda>es. Inr ([], Epochs es))
      | EpochPublic epoch chain output \<Rightarrow> wrote (epoch_public A C fs epoch chain output)
      | Open input secret epoch_store output \<Rightarrow>
          (case (secret, epoch_store) of
             (Some secret, None) \<Rightarrow>
               bindR (open_file A K C P fr fs input secret pass output) (\<lambda>(ws, signer). Inr (ws, Opened None signer))
           | (None, Some store) \<Rightarrow>
               bindR (open_with_epoch_store A K C P fr fs input store store_pass output)
                 (\<lambda>(number, ws, signer). Inr (ws, Opened (Some number) signer))
           | _ \<Rightarrow> Inl (CliMessage ''pass exactly one of --secret and --epoch-store''))
      | Seal message recipient output \<Rightarrow>
          bindR (seal_message A C P B (env_draw e) fs (env_stdin e) message recipient output) (\<lambda>(ws, armored). Inr (ws, Printed armored))
      | Unseal input secret \<Rightarrow>
          bindR (unseal_message A K C P B fs (env_stdin e) input secret pass) (\<lambda>(text, signer). Inr ([], Unsealed text signer))
      | Info path \<Rightarrow> bindR (describe A P fr fs path) (\<lambda>d. Inr ([], Described d))
      | Share public \<Rightarrow> bindR (share A B fs public) (\<lambda>s. Inr ([], Printed s))
      | Passwd secret \<Rightarrow>
          wrote (change_passphrase A K fs secret (prompt_passphrase e ''Current passphrase: '') (new_passphrase e) (env_salt e) (env_nonce e))
      | Sign input secret output \<Rightarrow> wrote (sign_file A K P fr fs input secret pass output)
      | Verify input signer signature \<Rightarrow> bindR (verify_file A P fr fs input signer signature) (\<lambda>_. Inr ([], Silent))
      | SshKey secret comment \<Rightarrow> bindR (print_ssh_key A K P B e fs secret comment) (\<lambda>line. Inr ([], Printed line))
      | AgentCmd secret endpoint no_confirm comment \<Rightarrow>
          bindR (run_agent A K P e fs secret endpoint no_confirm comment)
            (\<lambda>(agent, endpoint, confirm). Inr ([], Serving agent endpoint confirm)))"

text \<open>\<open>main\<close>: the exit status.\<close>

definition main :: "CliError + file_write list \<times> Output \<Rightarrow> byte" where
  "main result = (case result of Inr _ \<Rightarrow> 0 | Inl _ \<Rightarrow> 1)"

section \<open>Lemmas\<close>

subsection \<open>Which files a command may touch\<close>

text \<open>\<open>outputs\<close> are the new files of a command, \<open>in_place\<close> the files it is documented to update.\<close>

fun outputs :: "Command \<Rightarrow> path set" where
  "outputs (Keygen secret public _ _ signing) =
     {secret, public, case signing of Some p \<Rightarrow> p | None \<Rightarrow> append_extension public ''sign''}"
| "outputs (TestKeygen secret public) = {secret, public, append_extension public ''sign''}"
| "outputs (Encrypt _ _ output _ _) = {output}"
| "outputs (Open _ _ _ output) = {output}"
| "outputs (Seal _ _ output) = set_option output"
| "outputs (Sign input _ output) = {signature_path input output}"
| "outputs (EpochInit output store) = {output, store}"
| "outputs (EpochPublic _ _ output) = {output}"
| "outputs _ = {}"

fun in_place :: "Command \<Rightarrow> path set" where
  "in_place (Passwd secret) = {secret}"
| "in_place (IdentityCreate _ _ _ output) = {output}"
| "in_place (IdentityEnrol log _ _ _ _) = {log}"
| "in_place (IdentityRevoke log _ _ _) = {log}"
| "in_place (EpochAdvance chain store) = {chain, store}"
| "in_place (EpochErase _ _ store) = {store}"
| "in_place _ = {}"

definition confined :: "fs \<Rightarrow> path set \<Rightarrow> path set \<Rightarrow> file_write list \<Rightarrow> bool" where
  "confined fs new old ws \<longleftrightarrow>
     (\<forall>w\<in>set ws. case w of Create p _ \<Rightarrow> p \<in> new \<and> fs p = None | Replace p _ \<Rightarrow> p \<in> old)"

lemma confined_simps [simp]:
  "confined fs new old []"
  "confined fs new old (Create p b # ws) \<longleftrightarrow> p \<in> new \<and> fs p = None \<and> confined fs new old ws"
  "confined fs new old (Replace p b # ws) \<longleftrightarrow> p \<in> old \<and> confined fs new old ws"
  by (auto simp: confined_def)

declare new_output_Inr [simp]

named_theorems confines \<open>what each operation writes\<close>

lemma keygen_confined [confines]:
  "keygen A K P fs secret public signing pt pw r rs rn = Inr ws \<Longrightarrow>
   confined fs {secret, public, case signing of Some p \<Rightarrow> p | None \<Rightarrow> append_extension public ''sign''} {} ws"
  by (auto simp: keygen_def Let_def result_simps split: if_splits)

lemma encrypt_confined [confines]:
  "encrypt_file A K C P B draw fr fs input rs out sw pw pub = Inr ws \<Longrightarrow> confined fs {out} {} ws"
  by (auto simp: encrypt_file_def Let_def result_simps split: if_splits)

lemma open_confined [confines]:
  "open_file A K C P fr fs input secret pw out = Inr (ws, signer) \<Longrightarrow> confined fs {out} {} ws"
  by (auto simp: open_file_def result_simps)

lemma open_store_confined [confines]:
  "open_with_epoch_store A K C P fr fs input store pw out = Inr (n, ws, signer) \<Longrightarrow> confined fs {out} {} ws"
  by (auto simp: open_with_epoch_store_def open_with_store_def result_simps)

lemma seal_confined [confines]:
  "seal_message A C P B draw fs stdin m rs out = Inr (ws, s) \<Longrightarrow> confined fs (set_option out) {} ws"
  by (auto simp: seal_message_def Let_def result_simps split: if_splits option.splits)

lemma sign_confined [confines]:
  "sign_file A K P fr fs input secret pw out = Inr ws \<Longrightarrow> confined fs {signature_path input out} {} ws"
  by (auto simp: sign_file_def Let_def result_simps)

lemma passwd_confined [confines]: "change_passphrase A K fs x cur pw rs rn = Inr ws \<Longrightarrow> confined fs {} {x} ws"
  by (auto simp: change_passphrase_def result_simps)

lemma identity_confined [confines]:
  "identity_create A K P C fs secret pw rp label out = Inr ws \<Longrightarrow> confined fs {} {out} ws"
  "identity_enrol A K P C fs log secret pw device label rp = Inr (at, ws) \<Longrightarrow> confined fs {} {log} ws"
  "identity_revoke A K P C fs log secret pw device rp = Inr (at, ws) \<Longrightarrow> confined fs {} {log} ws"
  by (auto simp: identity_create_def identity_enrol_def identity_revoke_def Let_def result_simps)

lemma epoch_confined [confines]:
  "epoch_init A K C fs out store pw rng r = Inr ws \<Longrightarrow> confined fs {out, store} {} ws"
  "epoch_advance A K C fs chain store pw rng r = Inr ws \<Longrightarrow> confined fs {} {chain, store} ws"
  "epoch_erase A K C fs n chain store pw r = Inr ws \<Longrightarrow> confined fs {} {store} ws"
  "epoch_public A C fs n' chain out = Inr ws \<Longrightarrow> confined fs {out} {} ws"
  by (auto simp: epoch_init_def epoch_init_with_def epoch_advance_def epoch_advance_with_def epoch_erase_def epoch_erase_with_def
      epoch_public_def Let_def result_simps split: if_splits)

lemma run_confined:
  assumes "run A K C P B e fs arguments = Inr (ws, out)"
  shows "experimental arguments \<and> confined fs (outputs (command arguments)) (in_place (command arguments)) ws"
  using assms
  by (cases "command arguments")
     (auto simp: run_def Let_def result_simps split: if_splits option.splits dest!: confines)

subsection \<open>Sessions\<close>

text \<open>A sequence of runs of the program, in any environment each, and each cut short after any number of
  its writes.\<close>

inductive cli_reach ::
  "crypto_api \<Rightarrow> keyring_api \<Rightarrow> cbor_api \<Rightarrow> sig_api \<Rightarrow> b64_api \<Rightarrow> fs \<Rightarrow> Command list \<Rightarrow> fs \<Rightarrow> bool" for A K C P B fs where
  cli_start: "cli_reach A K C P B fs [] fs"
| cli_next: "cli_reach A K C P B fs cmds fs' \<Longrightarrow> run A K C P B e fs' arguments = Inr (ws, out) \<Longrightarrow>
     cli_reach A K C P B fs (cmds @ [command arguments]) (run_writes fs' (take n ws))"

definition touched :: "(Command \<Rightarrow> path set) \<Rightarrow> Command list \<Rightarrow> path set" where
  "touched f cmds = (\<Union>c\<in>set cmds. f c)"

lemma confined_writes: "confined fs new old ws \<Longrightarrow> run_writes fs ws p = fs p \<or> p \<in> old \<or> p \<in> new \<and> fs p = None"
proof (induction ws rule: rev_induct)
  case (snoc w ws)
  have "confined fs new old ws" "confined fs new old [w]" using snoc.prems by (auto simp: confined_def)
  then show ?case using snoc.IH by (cases w) (auto simp: run_writes_def)
qed (simp add: run_writes_def)

lemma confined_take: "confined fs new old ws \<Longrightarrow> confined fs new old (take n ws)"
  by (auto simp: confined_def dest: in_set_takeD)

lemma session_frame:
  "cli_reach A K C P B fs cmds fs' \<Longrightarrow>
   fs' p = fs p \<or> p \<in> touched in_place cmds \<or> p \<in> touched outputs cmds \<and> fs p = None"
proof (induction rule: cli_reach.induct)
  case (cli_next cmds fs' e arguments ws out n)
  have "confined fs' (outputs (command arguments)) (in_place (command arguments)) (take n ws)"
    using run_confined [OF cli_next.hyps(2)] confined_take by blast
  from confined_writes [OF this, of p] show ?case using cli_next.IH by (auto simp: touched_def)
qed simp

subsection \<open>An example\<close>

lemma path_split_part: "CHR ''/'' \<notin> set p \<Longrightarrow> path_split p = [p]" "CHR ''/'' \<notin> set p \<Longrightarrow> path_split (p @ CHR ''/'' # q) = p # path_split q"
  by (induction p) auto

lemma demo_endpoint_path: "endpoint_path [] ''/tmp/hide-agent/agent.sock'' = demo_endpoint"
proof -
  have "path_split ([] @ CHR ''/'' # ''tmp'' @ CHR ''/'' # ''hide-agent'' @ CHR ''/'' # ''agent.sock'') = [] # demo_endpoint"
    by (simp only: path_split_part set_simps insert_iff char.inject empty_iff simp_thms)
  then show ?thesis by (simp add: endpoint_path_def del: path_split.simps)
qed

definition demo_env :: cli_env where
  "demo_env = \<lparr>env_windows = False, env_terminal = False, env_typed = (\<lambda>_. None), env_tty = Inl NotFound, env_stdin = [],
     env_runtime_dir = None, env_seed = None, env_salt = None, env_nonce = None, env_store = demo_rng, env_draw = demo_draw,
     env_reader = slice_reader\<rparr>"

definition demo_encrypt :: Arguments where
  "demo_encrypt = \<lparr>experimental = True, quiet = True, command = Encrypt ''m'' [''p''] ''c'' None False\<rparr>"

lemma demo_encrypt_run:
  "\<exists>c. run ref_full demo_keyring ref_cbor ref_sig ref_b64 demo_env demo_fs demo_encrypt = Inr ([Create ''c'' c], Silent)"
proof -
  have "file_name ''m'' = Some ''m''" by (simp add: file_name_def)
  moreover have "utf8_valid (ascii ''m'')" by (simp add: ascii_def)
  moreover obtain c where "encrypt ref_full ref_cbor ref_sig demo_draw (slice_reader [1, 2, 3]) [demo_public]
      \<lparr>md_filename = Some (ascii ''m''), md_media_type = None, md_signature = None, md_extensions = []\<rparr> = Inr (3, c)"
    using demo_container [OF _ demo_file_md(1)] by auto
  ultimately show ?thesis
    by (simp add: run_def Let_def demo_encrypt_def demo_env_def encrypt_file_def demo_recipient open_input_def new_output_def)
qed

section \<open>Properties\<close>





text \<open>A passphrase is read only from a terminal. When standard input is not a terminal, the outcome of
  every command is the same whatever could have been typed; and no command that seals a new secret or
  opens an epoch store succeeds: \<open>keygen\<close> without \<open>--insecure-plaintext\<close>, \<open>passwd\<close>, \<open>epoch-init\<close>,
  \<open>epoch-advance\<close> and \<open>epoch-erase\<close> all fail.\<close>

theorem passphrase_needs_terminal:
  assumes "\<not> env_terminal e"
  shows "run A K C P B (e\<lparr>env_typed := typed\<rparr>) fs arguments = run A K C P B e fs arguments \<and>
    (case command arguments of
       Keygen _ _ insecure_plaintext _ _ \<Rightarrow> \<not> insecure_plaintext \<longrightarrow> main (run A K C P B e fs arguments) = 1
     | Passwd _ \<Rightarrow> main (run A K C P B e fs arguments) = 1
     | EpochInit _ _ \<Rightarrow> main (run A K C P B e fs arguments) = 1
     | EpochAdvance _ _ \<Rightarrow> main (run A K C P B e fs arguments) = 1
     | EpochErase _ _ _ \<Rightarrow> main (run A K C P B e fs arguments) = 1
     | _ \<Rightarrow> True)"
proof
  have p: "prompt_passphrase (e\<lparr>env_typed := typed\<rparr>) = prompt_passphrase e" using assms by (auto simp: prompt_passphrase_def)
  then have "new_passphrase (e\<lparr>env_typed := typed\<rparr>) = new_passphrase e" by (simp add: new_passphrase_def)
  with p show "run A K C P B (e\<lparr>env_typed := typed\<rparr>) fs arguments = run A K C P B e fs arguments"
    by (cases "command arguments") (simp_all add: run_def Let_def print_ssh_key_def run_agent_def ssh_agent_for_def cong: option.case_cong)
  obtain x y where n: "\<And>s. prompt_passphrase e s = Inl x" "new_passphrase e = Inl y"
    using assms by (auto simp: prompt_passphrase_def new_passphrase_def prompt_new_passphrase_def)
  show "case command arguments of
       Keygen _ _ insecure_plaintext _ _ \<Rightarrow> \<not> insecure_plaintext \<longrightarrow> main (run A K C P B e fs arguments) = 1
     | Passwd _ \<Rightarrow> main (run A K C P B e fs arguments) = 1
     | EpochInit _ _ \<Rightarrow> main (run A K C P B e fs arguments) = 1
     | EpochAdvance _ _ \<Rightarrow> main (run A K C P B e fs arguments) = 1
     | EpochErase _ _ _ \<Rightarrow> main (run A K C P B e fs arguments) = 1
     | _ \<Rightarrow> True"
    by (cases "command arguments"; cases "run A K C P B e fs arguments")
       (auto simp: main_def run_def Let_def n keygen_def change_passphrase_def epoch_init_def epoch_advance_def epoch_erase_def result_simps
         split: if_splits)
qed

theorem passphrase_needs_terminal_witness:
  "main (run ref_full demo_keyring ref_cbor ref_sig ref_b64 demo_env demo_fs
     \<lparr>experimental = True, quiet = True, command = Passwd ''k''\<rparr>) = 1"
  using passphrase_needs_terminal [of demo_env ref_full demo_keyring ref_cbor ref_sig ref_b64 "\<lambda>_. Some []" demo_fs
      "\<lparr>experimental = True, quiet = True, command = Passwd ''k''\<rparr>"] by (simp add: demo_env_def)

text \<open>C7. The agent signs what its user allows, and on Windows it cannot be told otherwise. Unless
  \<open>--no-confirm\<close> was accepted, which Windows never does, the number of signatures that leave the agent over
  all connections is the number of prompts answered with a yes at the terminal. In every mode a signature
  answers a well-formed request that names the key of the agent, is over the data of that request, and
  verifies under the Ed25519 half of the identity in the key file.\<close>

theorem agent_confirms:
  assumes "sig_laws P"
    and "run_agent A K P e fs secret_path endpoint no_confirm comment = Inr (agent, ep, confirm)"
    and "listen H b64 P (env_windows e) pipe os cwd t (if confirm then ask_on_terminal else approve_everything) agent ep incoming lines
      = (rss, lines', result)"
  shows "(env_windows e \<or> \<not> no_confirm \<longrightarrow> confirm \<and> env_terminal e \<and>
      length (filter says_yes lines) = signatures (concat rss) + length (filter says_yes lines')) \<and>
    (\<exists>identity. load_signing_identity A K P fs secret_path (prompt_passphrase e ''Passphrase: '') = Inr identity \<and>
      (\<forall>x\<in>set (concat rss). is_signature (snd x) \<longrightarrow> (\<exists>data flags r sig. fst x = sign_request agent data flags r \<and>
         snd x = [SIGN_RESPONSE] @ put_string (put_string KEY_TYPE @ put_string sig) \<and>
         ed_verify_strict P (vi_ed25519 (verifying_key P identity)) data sig)))"
proof -
  let ?ask = "if confirm then ask_on_terminal else approve_everything"
  obtain identity c where i: "load_signing_identity A K P fs secret_path (prompt_passphrase e ''Passphrase: '') = Inr identity"
    "agent = agent_new P identity c" "confirm \<longleftrightarrow> \<not> no_confirm" "no_confirm \<longrightarrow> \<not> env_windows e" "\<not> no_confirm \<longrightarrow> env_terminal e"
    using assms(2) by (auto simp: run_agent_def ssh_agent_for_def check_no_confirm_allowed_def require_terminal_def Let_def result_simps
        split: if_splits)
  have l: "rss = [] \<and> lines' = lines \<or> serve_all H b64 P ?ask agent incoming lines = (rss, lines', result)"
    using assms(3) by (auto simp: listen_def split: sum.splits)
  have "length (filter says_yes lines) = signatures (concat rss) + length (filter says_yes lines')" if confirm
    using l that on_terminal.serve_all_ration [of H b64 P agent incoming lines rss lines' result] by auto
  moreover have "\<exists>data flags r sig. fst x = sign_request agent data flags r \<and>
         snd x = [SIGN_RESPONSE] @ put_string (put_string KEY_TYPE @ put_string sig) \<and>
         ed_verify_strict P (vi_ed25519 (verifying_key P identity)) data sig"
    if x: "x \<in> set (concat rss)" "is_signature (snd x)" for x
  proof -
    have "serve_all H b64 P ?ask agent incoming lines = (rss, lines', result)" using l x(1) by auto
    from serve_all_responds [OF this x(1)] obtain b c where "respond H b64 P ?ask agent (fst x) b = (snd x, c)" by blast
    from signature_verifies [OF assms(1) i(2) this x(2)] show ?thesis .
  qed
  ultimately show ?thesis using i by blast
qed

theorem agent_confirms_witness:
  "\<exists>agent req rss. run_agent ref_full demo_keyring ref_sig (demo_env\<lparr>env_terminal := True, env_tty := Inr ()\<rparr>) demo_fs ''k'' None False None
       = Inr (agent, ''/tmp/hide-agent/agent.sock'', True) \<and>
     listen ref_hash id ref_sig False (\<lambda>_. Inr ()) demo_os [] demo_tree ask_on_terminal agent ''/tmp/hide-agent/agent.sock''
       [Some (put_string req), Some (put_string req)] [Some (ascii ''y''), Some (ascii ''n'')] = (rss, [], Inr ()) \<and> signatures (concat rss) = 1"
proof -
  let ?e = "demo_env\<lparr>env_terminal := True, env_tty := Inr ()\<rparr>" and ?ep = "''/tmp/hide-agent/agent.sock''"
  let ?lines = "[Some (ascii ''y''), Some (ascii ''n'')]"
  have "\<not> starts_with (replicate 32 3) KEY_MAGIC" by (simp add: starts_with_def KEY_MAGIC_def ascii_def)
  then have "load_key ref_full demo_keyring demo_fs ''k'' q = Inr (LoadedIdentity (replicate 32 3))" for q
    by (intro load_key_raw) simp_all
  then obtain identity where i: "load_signing_identity ref_full demo_keyring ref_sig demo_fs ''k'' q = Inr identity" for q
    by (simp add: load_signing_identity_def si_from_bytes_def signing_seed_def identity_derive_def demo_keyring_def demo_secret_def
        require_length_def SEED_LENGTH_def)
  define agent where "agent = agent_new ref_sig identity (ascii ''hide:k'')"
  define req where "req = sign_request agent [1, 2] 0 []"
  have run: "run_agent ref_full demo_keyring ref_sig ?e demo_fs ''k'' None False None = Inr (agent, ?ep, True)"
    using i by (simp add: run_agent_def ssh_agent_for_def agent_def require_terminal_def default_endpoint_def demo_env_def)
  have pk: "length (ag_public agent) = 32"
    using sig_laws_ref by (simp add: agent_def agent_new_def Let_def sig_laws_def sign_lengths)
  have len: "length req = 66" by (simp add: req_def sign_request_def put_string_def public_key_blob_def KEY_TYPE_def pk)
  have yes: "says_yes (Some (ascii ''y''))" "\<not> says_yes (Some (ascii ''n''))" by (simp_all add: says_yes_def ascii_def str_trim_def white1_def)
  have one: "serve ref_hash id ref_sig ask_on_terminal agent (put_string req) (l # ls)
      = ([(req, if says_yes l then sign_response ref_sig agent [1, 2] else [FAILURE])], ls, Inr ())" for l ls
    using len by (intro serve_one) (simp_all add: MAX_MESSAGE_def req_def respond_sign_request [OF pk] flip: length_greater_0_conv)
  have "listen ref_hash id ref_sig (env_windows ?e) (\<lambda>_. Inr ()) demo_os [] demo_tree (if True then ask_on_terminal else approve_everything)
      agent ?ep [Some (put_string req), Some (put_string req)] ?lines
      = ([[(req, sign_response ref_sig agent [1, 2])], [(req, [FAILURE])]], [], Inr ())" 
    using demo_listen one yes by (auto simp: listen_def demo_env_def demo_endpoint_path)
  note l = this
  from agent_confirms [OF sig_laws_ref run l] have "signatures (concat [[(req, sign_response ref_sig agent [1, 2])], [(req, [FAILURE])]]) = 1"
    using yes by simp
  moreover have "listen ref_hash id ref_sig False (\<lambda>_. Inr ()) demo_os [] demo_tree ask_on_terminal agent ?ep
      [Some (put_string req), Some (put_string req)] ?lines
      = ([[(req, sign_response ref_sig agent [1, 2])], [(req, [FAILURE])]], [], Inr ())" using l by (simp add: demo_env_def)
  ultimately show ?thesis using run by blast
qed

end
