(* ===== verification/Hide_Mls.thy ===== *)
theory Hide_Mls
  imports Hide_Identity
begin

text \<open>
  \<open>crates/hide-mls/src/lib.rs\<close>: the join between an MLS group and an identity log. The protocol itself is
  the crate \<open>mls-rs\<close>; what it hands to this code is data: a credential, the signature key it travels with,
  the roster of a group, the kind and sender of a received message. \<open>suite_keys\<close> is what the cipher suite
  provider gives (no suite, or the result of generating a key pair), \<open>of_wire\<close> the message parser. The
  membership behind the lock of the provider is the state of the provider.
\<close>

section \<open>Definitions\<close>

definition HIDE_CREDENTIAL :: u16 where
  "HIDE_CREDENTIAL = 0xF01D"

definition BINDING_CONTEXT :: bytes where
  "BINDING_CONTEXT = ascii ''HIDE/0.7 mls binding''"

definition DEVICE_ID_LEN :: nat where
  "DEVICE_ID_LEN = 32"

definition CREDENTIAL_LEN :: nat where
  "CREDENTIAL_LEN = DEVICE_ID_LEN + VERIFYING_KEY_LENGTH + SIGNATURE_LENGTH"

definition MAX_MLS_MESSAGE :: nat where
  "MAX_MLS_MESSAGE = 1024 * 1024"

datatype MlsError =
    UntrustedDevice
  | MessageTooLarge
  | UntrustedSender
  | NotADeviceCredential
  | ForgedCredential
  | MlsProtocol string

text \<open>A credential of \<open>mls-rs\<close>: a custom one with its type and data, or one of the kinds that \<open>as_custom\<close>
  refuses.\<close>

datatype Credential = CustomCredential u16 bytes | OtherCredential

record MlsIdentity =
  mi_credential :: Credential
  mi_signature_key :: bytes

datatype ReceivedMessage = ApplicationMessage u32 | OtherMessage

type_synonym roster = "(u32 \<times> MlsIdentity) list"

definition binding_message :: "DeviceId \<Rightarrow> bytes \<Rightarrow> bytes" where
  "binding_message device mls_public_key = device @ mls_public_key"

record Binding =
  bd_device :: DeviceId
  bd_key :: VerifyingIdentity
  bd_signature :: bytes

definition bd_parse :: "sha \<Rightarrow> sig_api \<Rightarrow> Credential \<Rightarrow> MlsError + Binding" where
  "bd_parse H P credential =
     bindR (case credential of
              CustomCredential t data \<Rightarrow> if t = HIDE_CREDENTIAL then Inr data else Inl NotADeviceCredential
            | OtherCredential \<Rightarrow> Inl NotADeviceCredential) (\<lambda>data.
     if length data \<noteq> CREDENTIAL_LEN then Inl NotADeviceCredential
     else
       let device = take DEVICE_ID_LEN data in
       bindR (map_err (\<lambda>_. NotADeviceCredential)
                (vi_from_bytes P (subslice DEVICE_ID_LEN (DEVICE_ID_LEN + VERIFYING_KEY_LENGTH) data))) (\<lambda>k.
       let signature = drop (DEVICE_ID_LEN + VERIFYING_KEY_LENGTH) data in
       if device_id H k \<noteq> device then Inl ForgedCredential
       else Inr \<lparr>bd_device = device, bd_key = k, bd_signature = signature\<rparr>))"

definition bd_verify :: "sig_api \<Rightarrow> Binding \<Rightarrow> bytes \<Rightarrow> MlsError + unit" where
  "bd_verify P b mls_public_key =
     map_err (\<lambda>_. ForgedCredential)
       (verify P (bd_key b) BINDING_CONTEXT (binding_message (bd_device b) mls_public_key) (bd_signature b))"

text \<open>\<open>HideIdentityProvider\<close>: \<open>new\<close>, \<open>update\<close> and \<open>membership\<close> on the shared state.\<close>

definition provider_new :: "Membership \<Rightarrow> Membership" where
  "provider_new m = m"

definition provider_update :: "Membership \<Rightarrow> Membership \<Rightarrow> Membership" where
  "provider_update current m = m"

definition provider_membership :: "Membership \<Rightarrow> Membership" where
  "provider_membership current = current"

definition mls_validate :: "sha \<Rightarrow> sig_api \<Rightarrow> Membership \<Rightarrow> MlsIdentity \<Rightarrow> MlsError + unit" where
  "mls_validate H P provider si =
     bindR (bd_parse H P (mi_credential si)) (\<lambda>binding.
     bindR (bd_verify P binding (mi_signature_key si)) (\<lambda>_.
     let membership = provider_membership provider in
     bindR (ok_or (m_get membership (bd_device binding)) UntrustedDevice) (\<lambda>trusted.
       if \<not> vi_eq (dv_key trusted) (bd_key binding) then Inl ForgedCredential else Inr ())))"

definition mls_identity :: "sha \<Rightarrow> sig_api \<Rightarrow> MlsIdentity \<Rightarrow> MlsError + bytes" where
  "mls_identity H P si = bindR (bd_parse H P (mi_credential si)) (\<lambda>b. Inr (bd_device b))"

definition valid_successor :: "sha \<Rightarrow> sig_api \<Rightarrow> Membership \<Rightarrow> MlsIdentity \<Rightarrow> MlsIdentity \<Rightarrow> MlsError + bool" where
  "valid_successor H P provider predecessor successor =
     bindR (bd_parse H P (mi_credential predecessor)) (\<lambda>a.
     bindR (bd_parse H P (mi_credential successor)) (\<lambda>b.
       if bd_device a \<noteq> bd_device b then Inr False
       else Inr (is_ok (mls_validate H P provider successor))))"

definition client_with_provider ::
  "sha \<Rightarrow> sig_api \<Rightarrow> (string + bytes \<times> bytes) option \<Rightarrow> Membership \<Rightarrow> SigningIdentity \<Rightarrow> MlsError + MlsIdentity" where
  "client_with_provider H P suite_keys provider device =
     (let membership = provider_membership provider;
          verifying = verifying_key P device;
          id = device_id H verifying
      in if \<not> m_contains membership id then Inl UntrustedDevice
         else
           bindR (ok_or suite_keys (MlsProtocol ''the cipher suite is unavailable in this build'')) (\<lambda>generated.
           bindR (map_err MlsProtocol generated) (\<lambda>(secret, pk).
             let signature = sign P device BINDING_CONTEXT (binding_message id pk);
                 credential = CustomCredential HIDE_CREDENTIAL (id @ vi_to_bytes verifying @ signature)
             in Inr \<lparr>mi_credential = credential, mi_signature_key = pk\<rparr>)))"

definition client_for ::
  "sha \<Rightarrow> sig_api \<Rightarrow> (string + bytes \<times> bytes) option \<Rightarrow> Membership \<Rightarrow> SigningIdentity \<Rightarrow> MlsError + MlsIdentity" where
  "client_for H P suite_keys membership device = client_with_provider H P suite_keys (provider_new membership) device"

definition credential_device :: "sha \<Rightarrow> sig_api \<Rightarrow> MlsIdentity \<Rightarrow> MlsError + DeviceId" where
  "credential_device H P si =
     bindR (bd_parse H P (mi_credential si)) (\<lambda>binding.
     bindR (bd_verify P binding (mi_signature_key si)) (\<lambda>_. Inr (bd_device binding)))"

primrec untrusted_members :: "sha \<Rightarrow> sig_api \<Rightarrow> roster \<Rightarrow> Membership \<Rightarrow> MlsError + DeviceId list" where
  "untrusted_members H P [] membership = Inr []"
| "untrusted_members H P (mem # rest) membership =
     bindR (credential_device H P (snd mem)) (\<lambda>device.
     bindR (untrusted_members H P rest membership) (\<lambda>stale.
       Inr (if \<not> m_contains membership device then device # stale else stale)))"

definition sender_device :: "sha \<Rightarrow> sig_api \<Rightarrow> roster \<Rightarrow> ReceivedMessage \<Rightarrow> MlsError + DeviceId option" where
  "sender_device H P members message =
     (case message of
        OtherMessage \<Rightarrow> Inr None
      | ApplicationMessage sender \<Rightarrow>
          bindR (ok_or (map_of members sender) (MlsProtocol ''sender is not in the roster'')) (\<lambda>si.
          bindR (credential_device H P si) (\<lambda>d. Inr (Some d))))"

definition accept_from_trusted ::
  "sha \<Rightarrow> sig_api \<Rightarrow> roster \<Rightarrow> ReceivedMessage \<Rightarrow> Membership \<Rightarrow> MlsError + unit" where
  "accept_from_trusted H P members message membership =
     bindR (sender_device H P members message) (\<lambda>d.
       case d of
         Some device \<Rightarrow> if \<not> m_contains membership device then Inl UntrustedSender else Inr ()
       | None \<Rightarrow> Inr ())"

definition mls_decode_message :: "(bytes \<Rightarrow> string + 'm) \<Rightarrow> bytes \<Rightarrow> MlsError + 'm" where
  "mls_decode_message of_wire bs =
     (if MAX_MLS_MESSAGE < length bs then Inl MessageTooLarge else map_err MlsProtocol (of_wire bs))"

section \<open>Lemmas\<close>

lemma credential_lengths:
  "DEVICE_ID_LEN = 32" "DEVICE_ID_LEN + VERIFYING_KEY_LENGTH = 2016" "CREDENTIAL_LEN = 5389" "VERIFYING_KEY_LENGTH = 1984"
  "SIGNATURE_LENGTH = 3373"
  by (simp_all add: DEVICE_ID_LEN_def CREDENTIAL_LEN_def sign_lengths)

text \<open>The form of every credential that parses.\<close>

definition hide_credential :: "sha \<Rightarrow> VerifyingIdentity \<Rightarrow> bytes \<Rightarrow> Credential" where
  "hide_credential H k sig = CustomCredential HIDE_CREDENTIAL (device_id H k @ vi_to_bytes k @ sig)"

lemma parse_credential:
  assumes "\<forall>x. length (H x) = 32" "vi_wf P k" "length sig = SIGNATURE_LENGTH"
  shows "bd_parse H P (hide_credential H k sig) = Inr \<lparr>bd_device = device_id H k, bd_key = k, bd_signature = sig\<rparr>"
proof -
  have l: "length (device_id H k) = 32" "length (vi_to_bytes k) = 1984" "length sig = 3373"
    using assms length_vi_to_bytes [OF assms(2)] by (simp_all add: device_id_def credential_lengths)
  have "vi_from_bytes P (vi_to_bytes k) = Inr k" using assms(2) by (simp add: vi_from_bytes_iff)
  then show ?thesis using l by (simp add: bd_parse_def hide_credential_def credential_lengths subslice_def Let_def)
qed

lemma parse_credentialE:
  assumes "bd_parse H P cred = Inr b"
  shows "vi_wf P (bd_key b) \<and> length (bd_signature b) = SIGNATURE_LENGTH \<and> bd_device b = device_id H (bd_key b) \<and>
    cred = hide_credential H (bd_key b) (bd_signature b)"
proof -
  obtain data k where d: "cred = CustomCredential HIDE_CREDENTIAL data" "length data = 5389"
    "vi_from_bytes P (subslice 32 2016 data) = Inr k" "device_id H k = take 32 data"
    "b = \<lparr>bd_device = take 32 data, bd_key = k, bd_signature = drop 2016 data\<rparr>"
    using assms unfolding bd_parse_def Let_def credential_lengths
    by (cases cred) (auto simp: result_simps split: if_splits)
  have k: "vi_wf P k" "subslice 32 2016 data = vi_to_bytes k" using d(3) by (simp_all add: vi_from_bytes_iff)
  have "data = take 32 data @ subslice 32 2016 data @ drop 2016 data" by (simp add: subslice_drop)
  then have "data = device_id H k @ vi_to_bytes k @ drop 2016 data" by (simp only: d(4) k(2))
  then show ?thesis using d k by (simp add: hide_credential_def credential_lengths)
qed

lemma vi_eq_iff: "vi_wf P v \<Longrightarrow> vi_wf P w \<Longrightarrow> vi_eq v w \<longleftrightarrow> v = w"
  by (metis vi_eq_def vi_from_bytes_iff sum.inject(2))

lemma bd_verify_iff:
  "bd_verify P b pk = Inr () \<longleftrightarrow>
     verify P (bd_key b) BINDING_CONTEXT (binding_message (bd_device b) pk) (bd_signature b) = Inr ()"
  by (simp add: bd_verify_def result_simps)

lemma validate_iff:
  assumes "\<forall>x. length (H x) = 32" "m_inv H P m"
  shows "mls_validate H P m si = Inr () \<longleftrightarrow>
    (\<exists>d sig. fmlookup (devices m) (dv_id d) = Some d \<and> mi_credential si = hide_credential H (dv_key d) sig \<and>
       verify P (dv_key d) BINDING_CONTEXT (binding_message (dv_id d) (mi_signature_key si)) sig = Inr ())"
proof
  assume v: "mls_validate H P m si = Inr ()"
  obtain b d where b: "bd_parse H P (mi_credential si) = Inr b" "bd_verify P b (mi_signature_key si) = Inr ()"
    "fmlookup (devices m) (bd_device b) = Some d" "vi_eq (dv_key d) (bd_key b)"
    using v unfolding mls_validate_def provider_membership_def Let_def m_get_def by (elim result_steps) auto
  have d: "dv_id d = bd_device b" "vi_wf P (dv_key d)" using assms(2) b(3) unfolding m_inv_def by blast+
  then have "dv_key d = bd_key b" using b(4) parse_credentialE [OF b(1)] vi_eq_iff by blast
  then show "\<exists>d sig. fmlookup (devices m) (dv_id d) = Some d \<and> mi_credential si = hide_credential H (dv_key d) sig \<and>
       verify P (dv_key d) BINDING_CONTEXT (binding_message (dv_id d) (mi_signature_key si)) sig = Inr ()"
    using b(2,3) d(1) parse_credentialE [OF b(1)] by (metis bd_verify_iff)
next
  assume "\<exists>d sig. fmlookup (devices m) (dv_id d) = Some d \<and> mi_credential si = hide_credential H (dv_key d) sig \<and>
       verify P (dv_key d) BINDING_CONTEXT (binding_message (dv_id d) (mi_signature_key si)) sig = Inr ()"
  then obtain d sig where d: "fmlookup (devices m) (dv_id d) = Some d" "mi_credential si = hide_credential H (dv_key d) sig"
    "verify P (dv_key d) BINDING_CONTEXT (binding_message (dv_id d) (mi_signature_key si)) sig = Inr ()" by blast
  have "vi_wf P (dv_key d)" "device_id H (dv_key d) = dv_id d" using assms(2) d(1) unfolding m_inv_def by blast+
  moreover have "length sig = SIGNATURE_LENGTH" using d(3) by (simp add: verify_iff)
  moreover have "bd_verify P \<lparr>bd_device = dv_id d, bd_key = dv_key d, bd_signature = sig\<rparr> (mi_signature_key si) = Inr ()"
    using d(3) by (simp add: bd_verify_iff)
  ultimately show "mls_validate H P m si = Inr ()"
    using d(1,2) parse_credential [OF assms(1), of P "dv_key d" sig]
    by (simp add: mls_validate_def provider_membership_def Let_def m_get_def vi_eq_def)
qed

lemma client_identity:
  assumes "client_with_provider H P suite m s = Inr c"
  shows "\<exists>pk. mi_signature_key c = pk \<and> m_contains m (device_id H (verifying_key P s)) \<and>
    mi_credential c = hide_credential H (verifying_key P s)
      (sign P s BINDING_CONTEXT (binding_message (device_id H (verifying_key P s)) pk))"
  using assms unfolding client_with_provider_def Let_def provider_membership_def hide_credential_def
  by (elim result_steps) auto

lemma client_credential:
  assumes "sig_laws P" "\<forall>x. length (H x) = 32" "client_with_provider H P suite m s = Inr c"
  shows "credential_device H P c = Inr (device_id H (verifying_key P s))"
    and "\<exists>b. bd_parse H P (mi_credential c) = Inr b \<and> bd_device b = device_id H (verifying_key P s) \<and>
      bd_key b = verifying_key P s \<and> bd_verify P b (mi_signature_key c) = Inr ()"
proof -
  let ?k = "verifying_key P s"
  let ?sig = "sign P s BINDING_CONTEXT (binding_message (device_id H ?k) (mi_signature_key c))"
  have c: "mi_credential c = hide_credential H ?k ?sig" using client_identity [OF assms(3)] by simp
  have p: "bd_parse H P (mi_credential c) = Inr \<lparr>bd_device = device_id H ?k, bd_key = ?k, bd_signature = ?sig\<rparr>"
    unfolding c by (rule parse_credential [OF assms(2) vi_wf_verifying_key [OF assms(1)] length_sign [OF assms(1)]])
  moreover have "bd_verify P \<lparr>bd_device = device_id H ?k, bd_key = ?k, bd_signature = ?sig\<rparr> (mi_signature_key c) = Inr ()"
    by (simp add: bd_verify_iff verify_sign [OF assms(1)])
  ultimately show "credential_device H P c = Inr (device_id H ?k)" "\<exists>b. bd_parse H P (mi_credential c) = Inr b \<and>
      bd_device b = device_id H ?k \<and> bd_key b = ?k \<and> bd_verify P b (mi_signature_key c) = Inr ()"
    by (simp_all add: credential_device_def)
qed

text \<open>The device of a freshly created log, as a member.\<close>

lemma demo_client:
  assumes "replay ref_hash ref_sig (il_entries log) r = Inr m"
    and "fmlookup (devices m) (device_id ref_hash (verifying_key ref_sig demo_founder)) = Some d"
    and "dv_key d = verifying_key ref_sig demo_founder"
  shows "\<exists>c. client_for ref_hash ref_sig (Some (Inr ([1], [2]))) m demo_founder = Inr c \<and> mls_validate ref_hash ref_sig m c = Inr ()"
proof -
  let ?k = "verifying_key ref_sig demo_founder"
  obtain c where c: "client_with_provider ref_hash ref_sig (Some (Inr ([1], [2]))) m demo_founder = Inr c"
    using assms(2) by (simp add: client_with_provider_def provider_membership_def m_contains_def Let_def)
  have h: "\<forall>x. length (ref_hash x) = 32" by simp
  obtain b where b: "bd_parse ref_hash ref_sig (mi_credential c) = Inr b" "bd_device b = device_id ref_hash ?k"
    "bd_key b = ?k" "bd_verify ref_sig b (mi_signature_key c) = Inr ()"
    using client_credential(2) [OF sig_laws_ref h c] by blast
  then have "mls_validate ref_hash ref_sig m c = Inr ()"
    using assms(2,3) by (simp add: mls_validate_def provider_membership_def Let_def m_get_def vi_eq_def)
  then show ?thesis using c by (auto simp: client_for_def provider_new_def)
qed

lemma demo_member:
  "\<exists>log m c. il_create ref_hash ref_sig demo_founder (ascii ''pc'') (verifying_key ref_sig demo_founder) = Inr log \<and>
     replay ref_hash ref_sig (il_entries log) (il_recovery log) = Inr m \<and>
     client_for ref_hash ref_sig (Some (Inr ([1], [2]))) m demo_founder = Inr c \<and> mls_validate ref_hash ref_sig m c = Inr () \<and>
     (\<exists>d. fmlookup (devices m) (device_id ref_hash (verifying_key ref_sig demo_founder)) = Some d \<and> dv_key d = verifying_key ref_sig demo_founder)"
proof -
  obtain log where log: "il_create ref_hash ref_sig demo_founder (ascii ''pc'') (verifying_key ref_sig demo_founder) = Inr log"
    using demo_log by blast
  obtain m where m: "replay ref_hash ref_sig (il_entries log) (il_recovery log) = Inr m"
    "devices m = fmupd (device_id ref_hash (verifying_key ref_sig demo_founder)) \<lparr>dv_id = device_id ref_hash (verifying_key ref_sig demo_founder),
       dv_key = verifying_key ref_sig demo_founder, dv_label = ascii ''pc'', dv_enrolled_at = 0\<rparr> fmempty"
    by (rule il_create_devices [OF sig_laws_ref log])
  then show ?thesis using log demo_client [OF m(1)] by auto
qed

section \<open>Properties\<close>

text \<open>C38. Who can be in a group. A roster entry passes the identity provider exactly when its credential is
  the binding of a device that the identity currently trusts, carrying the key the log has for that
  device, with a hybrid signature of that key over the device and over the very MLS key it is presented
  with. Device identifiers come from a replayed log, so they are the hashes of those keys.\<close>

theorem mls_member_authentic:
  assumes "\<forall>x. length (H x) = 32" "replay H P entries recovery = Inr m"
  shows "mls_validate H P m si = Inr () \<longleftrightarrow>
    (\<exists>d sig. fmlookup (devices m) (device_id H (dv_key d)) = Some d \<and>
       mi_credential si = hide_credential H (dv_key d) sig \<and>
       verify P (dv_key d) BINDING_CONTEXT (binding_message (device_id H (dv_key d)) (mi_signature_key si)) sig = Inr ())"
proof -
  have i: "m_inv H P m" using replay_inv [OF assms(2)] by blast
  have "fmlookup (devices m) (dv_id d) = Some d \<longleftrightarrow> fmlookup (devices m) (device_id H (dv_key d)) = Some d" for d
    using i unfolding m_inv_def by metis
  moreover have "fmlookup (devices m) (dv_id d) = Some d \<Longrightarrow> device_id H (dv_key d) = dv_id d" for d
    using i unfolding m_inv_def by blast
  ultimately show ?thesis using validate_iff [OF assms(1) i, of si] by metis
qed

theorem mls_member_authentic_witness:
  "\<exists>(log :: IdentityLog) m c d sig. replay ref_hash ref_sig (il_entries log) (il_recovery log) = Inr m \<and>
     client_for ref_hash ref_sig (Some (Inr ([1], [2]))) m demo_founder = Inr c \<and>
     fmlookup (devices m) (device_id ref_hash (dv_key d)) = Some d \<and> mi_credential c = hide_credential ref_hash (dv_key d) sig"
proof -
  obtain log :: IdentityLog and m c where m: "replay ref_hash ref_sig (il_entries log) (il_recovery log) = Inr m"
    "client_for ref_hash ref_sig (Some (Inr ([1], [2]))) m demo_founder = Inr c" "mls_validate ref_hash ref_sig m c = Inr ()"
    using demo_member by blast
  have "\<forall>x. length (ref_hash x) = 32" by simp
  from mls_member_authentic [OF this m(1), of c] m show ?thesis by blast
qed

text \<open>Group membership follows the identity. The credential that a client presents passes every provider
  whose membership trusts the device with its key; as soon as the membership is updated to one without
  the device, the same credential is refused as a member and as its own successor, its messages are
  rejected, and it is reported as stale.\<close>

theorem mls_follows_identity:
  assumes "sig_laws P" "\<forall>x. length (H x) = 32" "client_with_provider H P suite m0 s = Inr c"
  shows "(\<forall>m d. fmlookup (devices m) (device_id H (verifying_key P s)) = Some d \<and> dv_key d = verifying_key P s \<longrightarrow>
      mls_validate H P (provider_update m0 m) c = Inr () \<and> valid_successor H P (provider_update m0 m) c c = Inr True \<and>
      accept_from_trusted H P [(i, c)] (ApplicationMessage i) m = Inr ()) \<and>
    (\<forall>m. fmlookup (devices m) (device_id H (verifying_key P s)) = None \<longrightarrow>
      mls_validate H P (provider_update m0 m) c = Inl UntrustedDevice \<and> valid_successor H P (provider_update m0 m) c c = Inr False \<and>
      accept_from_trusted H P [(i, c)] (ApplicationMessage i) m = Inl UntrustedSender \<and>
      untrusted_members H P [(i, c)] m = Inr [device_id H (verifying_key P s)])"
proof -
  obtain b where b: "bd_parse H P (mi_credential c) = Inr b" "bd_device b = device_id H (verifying_key P s)"
    "bd_key b = verifying_key P s" "bd_verify P b (mi_signature_key c) = Inr ()"
    using client_credential(2) [OF assms] by blast
  have "credential_device H P c = Inr (device_id H (verifying_key P s))" by (rule client_credential(1) [OF assms])
  then show ?thesis
    using b by (auto simp: mls_validate_def valid_successor_def accept_from_trusted_def sender_device_def provider_update_def
        provider_membership_def m_get_def m_contains_def vi_eq_def Let_def)
qed

theorem mls_follows_identity_witness:
  "\<exists>m c. client_with_provider ref_hash ref_sig (Some (Inr ([1], [2]))) m demo_founder = Inr c \<and>
     mls_validate ref_hash ref_sig (provider_update m m) c = Inr () \<and>
     mls_validate ref_hash ref_sig (provider_update m membership_default) c = Inl UntrustedDevice"
proof -
  obtain m c d where m: "client_with_provider ref_hash ref_sig (Some (Inr ([1], [2]))) m demo_founder = Inr c"
    "fmlookup (devices m) (device_id ref_hash (verifying_key ref_sig demo_founder)) = Some d" "dv_key d = verifying_key ref_sig demo_founder"
    using demo_member by (auto simp: client_for_def provider_new_def)
  have "\<forall>x. length (ref_hash x) = 32" by simp
  moreover have "fmlookup (devices membership_default) x = None" for x by (simp add: membership_default_def)
  ultimately show ?thesis using mls_follows_identity [OF sig_laws_ref _ m(1), of 0] m by blast
qed

end
