(* ===== verification/Hide_Ffi.thy ===== *)
theory Hide_Ffi
  imports Hide_Object Hide_Challenge Hide_Bindings Hide_Keyring
begin

text \<open>
  \<open>crates/hide-ffi/src/lib.rs\<close>: the C interface. Every exported function is a definition over the memory that
  the library and its caller share: the blocks and boxes the library allocated (\<open>Vec<u8>\<close> handed out in a
  \<open>HideBuffer\<close>, \<open>Box\<close> behind an opaque handle) and the variables of the caller that the functions write
  through out-pointers. Address 0 is null, address 1 is the dangling address of a vector without
  allocation. An input pointer is the bytes the caller made readable there (\<open>None\<close> is null), a C string
  the bytes before its terminator. A call returns a status code and the new memory, panics, or is undefined:
  \<open>Undefined\<close> stands for the use of a dead handle and for freeing what was not allocated.
  The crates below are the definitions of the other theories; their external primitives, and the capacity
  the standard library chooses for a vector, come in the record \<open>ffi_env\<close>. Random bytes are arguments.
\<close>

section \<open>Status codes and limits\<close>

definition HIDE_OK :: int where
  "HIDE_OK = 0"

definition HIDE_ERR_INVALID_ARGUMENT :: int where
  "HIDE_ERR_INVALID_ARGUMENT = 1"

definition HIDE_ERR_WRONG_PASSPHRASE :: int where
  "HIDE_ERR_WRONG_PASSPHRASE = 2"

definition HIDE_ERR_NOT_A_KEY :: int where
  "HIDE_ERR_NOT_A_KEY = 3"

definition HIDE_ERR_AUTHENTICATION :: int where
  "HIDE_ERR_AUTHENTICATION = 4"

definition HIDE_ERR_NO_MATCHING_RECIPIENT :: int where
  "HIDE_ERR_NO_MATCHING_RECIPIENT = 5"

definition HIDE_ERR_MALFORMED :: int where
  "HIDE_ERR_MALFORMED = 6"

definition HIDE_ERR_TOO_LARGE :: int where
  "HIDE_ERR_TOO_LARGE = 7"

definition HIDE_ERR_CHALLENGE_EXPIRED :: int where
  "HIDE_ERR_CHALLENGE_EXPIRED = 8"

definition HIDE_ERR_CHALLENGE_REPLAYED :: int where
  "HIDE_ERR_CHALLENGE_REPLAYED = 9"

definition HIDE_ERR_PANIC :: int where
  "HIDE_ERR_PANIC = 98"

definition HIDE_ERR_INTERNAL :: int where
  "HIDE_ERR_INTERNAL = 99"

definition HIDE_KEY_RAW :: int where
  "HIDE_KEY_RAW = 0"

definition HIDE_KEY_PROTECTED :: int where
  "HIDE_KEY_PROTECTED = 1"

definition HIDE_PUBLIC_KEY_LEN :: nat where
  "HIDE_PUBLIC_KEY_LEN = 1216"

definition HIDE_MIN_PASSPHRASE_LEN :: nat where
  "HIDE_MIN_PASSPHRASE_LEN = MIN_PASSPHRASE_LEN"

definition HIDE_SIGNATURE_LEN :: nat where
  "HIDE_SIGNATURE_LEN = SIGNATURE_LENGTH"

definition HIDE_VERIFYING_KEY_LEN :: nat where
  "HIDE_VERIFYING_KEY_LEN = VERIFYING_KEY_LENGTH"

definition HIDE_NONCE_LEN :: nat where
  "HIDE_NONCE_LEN = NONCE_LENGTH"

definition FFI_MAX_INPUT :: nat where
  "FFI_MAX_INPUT = 2 ^ 30"

definition FFI_MAX_KEY_FILE :: nat where
  "FFI_MAX_KEY_FILE = 4096"

definition FFI_MAX_LOG_BYTES :: nat where
  "FFI_MAX_LOG_BYTES = 16 * 1024 * 1024"

definition FFI_MAX_NOTE_BYTES :: nat where
  "FFI_MAX_NOTE_BYTES = MAX_NOTE_BYTES"

lemmas ffi_codes = HIDE_OK_def HIDE_ERR_INVALID_ARGUMENT_def HIDE_ERR_WRONG_PASSPHRASE_def HIDE_ERR_NOT_A_KEY_def
  HIDE_ERR_AUTHENTICATION_def HIDE_ERR_NO_MATCHING_RECIPIENT_def HIDE_ERR_MALFORMED_def HIDE_ERR_TOO_LARGE_def
  HIDE_ERR_CHALLENGE_EXPIRED_def HIDE_ERR_CHALLENGE_REPLAYED_def HIDE_ERR_PANIC_def HIDE_ERR_INTERNAL_def

definition object_error_code :: "ObjectError \<Rightarrow> int" where
  "object_error_code e =
     (case e of
        NoMatchingRecipient \<Rightarrow> HIDE_ERR_NO_MATCHING_RECIPIENT
      | Crypto _ \<Rightarrow> HIDE_ERR_AUTHENTICATION
      | ObjectTooLarge \<Rightarrow> HIDE_ERR_TOO_LARGE
      | _ \<Rightarrow> HIDE_ERR_MALFORMED)"

definition keyring_error_code :: "KeyringError \<Rightarrow> int" where
  "keyring_error_code e =
     (case e of
        WrongPassphrase \<Rightarrow> HIDE_ERR_WRONG_PASSPHRASE
      | NotAKeyFile \<Rightarrow> HIDE_ERR_NOT_A_KEY
      | UnsupportedKeyVersion _ \<Rightarrow> HIDE_ERR_NOT_A_KEY
      | PassphraseTooShort _ \<Rightarrow> HIDE_ERR_INVALID_ARGUMENT
      | _ \<Rightarrow> HIDE_ERR_MALFORMED)"

definition hide_error_message :: "int \<Rightarrow> string" where
  "hide_error_message code =
     (if code = HIDE_OK then ''success''
      else if code = HIDE_ERR_INVALID_ARGUMENT then ''invalid argument''
      else if code = HIDE_ERR_WRONG_PASSPHRASE then ''incorrect passphrase, or the key file was modified''
      else if code = HIDE_ERR_NOT_A_KEY then ''not a HIDE key file''
      else if code = HIDE_ERR_AUTHENTICATION then ''authentication failed; the data was altered''
      else if code = HIDE_ERR_NO_MATCHING_RECIPIENT then ''no matching recipient for this key''
      else if code = HIDE_ERR_MALFORMED then ''malformed or corrupt input''
      else if code = HIDE_ERR_TOO_LARGE then ''input is too large''
      else if code = HIDE_ERR_CHALLENGE_EXPIRED then ''the challenge expired before it was answered''
      else if code = HIDE_ERR_CHALLENGE_REPLAYED then ''this challenge was already answered''
      else if code = HIDE_ERR_PANIC then ''internal error (panic)''
      else ''internal error'')"

section \<open>Memory and calls\<close>

type_synonym addr = nat

definition null :: addr where
  "null = 0"

definition dangling :: addr where
  "dangling = 1"

record HideBuffer =
  hb_data :: addr
  hb_len :: nat
  hb_capacity :: nat

text \<open>A block is the content and the capacity of a forgotten \<open>Vec<u8>\<close>. \<open>HideSecretKey\<close> wraps a
  \<open>RecipientSecret\<close> (its seed), \<open>HideSigningIdentity\<close> a signing identity, \<open>HideSpentNonces\<close> the verifier's record.\<close>

record ffi_mem =
  mem_blocks :: "addr \<Rightarrow> (bytes \<times> nat) option"
  mem_secrets :: "addr \<Rightarrow> bytes option"
  mem_identities :: "addr \<Rightarrow> SigningIdentity option"
  mem_spent :: "addr \<Rightarrow> SpentNonces option"
  mem_fresh :: addr
  var_buffer :: "addr \<Rightarrow> HideBuffer"
  var_secret :: "addr \<Rightarrow> addr"
  var_identity :: "addr \<Rightarrow> addr"
  var_spent :: "addr \<Rightarrow> addr"
  var_number :: "addr \<Rightarrow> int"

record ffi_env =
  env_crypto :: crypto_api
  env_cbor :: cbor_api
  env_sig :: sig_api
  env_keyring :: keyring_api
  env_b64 :: b64_api
  env_capacity :: "bytes \<Rightarrow> nat"

datatype call = Returned int ffi_mem | Panicked ffi_mem | Undefined

text \<open>\<open>let Some(x) = v else { return code }\<close> and \<open>let Ok(x) = v else { return code }\<close>, a match whose error arm
  returns a code, and the dereference of a handle.\<close>

definition let_some :: "'a option \<Rightarrow> int \<Rightarrow> ffi_mem \<Rightarrow> ('a \<Rightarrow> call) \<Rightarrow> call" where
  "let_some v code m f = (case v of None \<Rightarrow> Returned code m | Some x \<Rightarrow> f x)"

definition match_ok :: "'e + 'a \<Rightarrow> ('e \<Rightarrow> int) \<Rightarrow> ffi_mem \<Rightarrow> ('a \<Rightarrow> call) \<Rightarrow> call" where
  "match_ok v code m f = (case v of Inl e \<Rightarrow> Returned (code e) m | Inr x \<Rightarrow> f x)"

definition deref :: "(addr \<Rightarrow> 'a option) \<Rightarrow> addr \<Rightarrow> ('a \<Rightarrow> call) \<Rightarrow> call" where
  "deref boxes p f = (case boxes p of None \<Rightarrow> Undefined | Some x \<Rightarrow> f x)"

definition guard :: "call \<Rightarrow> call" where
  "guard r = (case r of Panicked m \<Rightarrow> Returned HIDE_ERR_PANIC m | _ \<Rightarrow> r)"

definition hide_test_panic :: "ffi_mem \<Rightarrow> call" where
  "hide_test_panic m = guard (Panicked m)"

definition from_vec :: "ffi_env \<Rightarrow> bytes \<Rightarrow> ffi_mem \<Rightarrow> HideBuffer \<times> ffi_mem" where
  "from_vec E bs m =
     (let cap = env_capacity E bs in
      if cap = 0 then (\<lparr>hb_data = dangling, hb_len = length bs, hb_capacity = 0\<rparr>, m)
      else (\<lparr>hb_data = mem_fresh m, hb_len = length bs, hb_capacity = cap\<rparr>,
            m\<lparr>mem_blocks := (mem_blocks m)(mem_fresh m \<mapsto> (bs, cap)), mem_fresh := mem_fresh m + 1\<rparr>))"

text \<open>\<open>*out = HideBuffer::from_vec(bytes)\<close>, and \<open>*out = Box::into_raw(Box::new(...))\<close> for the two kinds of key.\<close>

definition put_buffer :: "ffi_env \<Rightarrow> addr \<Rightarrow> bytes \<Rightarrow> ffi_mem \<Rightarrow> ffi_mem" where
  "put_buffer E out bs m = (let (b, m) = from_vec E bs m in m\<lparr>var_buffer := (var_buffer m)(out := b)\<rparr>)"

definition put_secret :: "addr \<Rightarrow> bytes \<Rightarrow> ffi_mem \<Rightarrow> ffi_mem" where
  "put_secret out secret m =
     m\<lparr>mem_secrets := (mem_secrets m)(mem_fresh m \<mapsto> secret), mem_fresh := mem_fresh m + 1,
       var_secret := (var_secret m)(out := mem_fresh m)\<rparr>"

definition put_identity :: "addr \<Rightarrow> SigningIdentity \<Rightarrow> ffi_mem \<Rightarrow> ffi_mem" where
  "put_identity out identity m =
     m\<lparr>mem_identities := (mem_identities m)(mem_fresh m \<mapsto> identity), mem_fresh := mem_fresh m + 1,
       var_identity := (var_identity m)(out := mem_fresh m)\<rparr>"

definition put_number :: "addr \<Rightarrow> int \<Rightarrow> ffi_mem \<Rightarrow> ffi_mem" where
  "put_number out v m = m\<lparr>var_number := (var_number m)(out := v)\<rparr>"

definition hide_buffer_empty :: HideBuffer where
  "hide_buffer_empty = \<lparr>hb_data = null, hb_len = 0, hb_capacity = 0\<rparr>"

definition borrow :: "bytes option \<Rightarrow> nat \<Rightarrow> nat \<Rightarrow> bytes option" where
  "borrow data len limit =
     (if limit < len then None
      else if len = 0 then Some []
      else case data of None \<Rightarrow> None | Some bs \<Rightarrow> Some (take len bs))"

definition borrow_str :: "bytes option \<Rightarrow> str option option" where
  "borrow_str text =
     (case text of None \<Rightarrow> Some None | Some s \<Rightarrow> if utf8_valid s then Some (Some s) else None)"

text \<open>\<open>let Some(Some(text)) = borrow_str(text) else ...\<close>\<close>

definition borrow_text :: "bytes option \<Rightarrow> str option" where
  "borrow_text text = Option.bind (borrow_str text) id"

definition hide_buffer_free :: "addr \<Rightarrow> ffi_mem \<Rightarrow> call" where
  "hide_buffer_free buffer m =
     (if buffer = null then Returned HIDE_OK m
      else
        let b = var_buffer m buffer in
        if hb_data b = null then Returned HIDE_OK m
        else
          let cleared = m\<lparr>var_buffer := (var_buffer m)(buffer := hide_buffer_empty)\<rparr> in
          if hb_capacity b = 0 then if hb_len b = 0 then Returned HIDE_OK cleared else Undefined
          else case mem_blocks m (hb_data b) of
            None \<Rightarrow> Undefined
          | Some (bs, cap) \<Rightarrow>
              if cap = hb_capacity b \<and> hb_len b \<le> length bs
              then Returned HIDE_OK (cleared\<lparr>mem_blocks := (mem_blocks m)(hb_data b := None)\<rparr>)
              else Undefined)"

section \<open>Keys\<close>

definition hide_keypair_generate :: "ffi_env \<Rightarrow> bytes option \<Rightarrow> addr \<Rightarrow> addr \<Rightarrow> ffi_mem \<Rightarrow> call" where
  "hide_keypair_generate E rng out_secret out_public m = guard (
     if out_secret = null \<or> out_public = null then Returned HIDE_ERR_INVALID_ARGUMENT m
     else
       match_ok (random_array rng) (\<lambda>_. HIDE_ERR_INTERNAL) m (\<lambda>secret.
       match_ok (public_key (env_crypto E) secret) (\<lambda>_. HIDE_ERR_INTERNAL) m (\<lambda>public.
         Returned HIDE_OK (put_secret out_secret secret (put_buffer E out_public public m)))))"

definition hide_inspect_key :: "bytes option \<Rightarrow> nat \<Rightarrow> addr \<Rightarrow> ffi_mem \<Rightarrow> call" where
  "hide_inspect_key data len out_kind m = guard (
     if out_kind = null then Returned HIDE_ERR_INVALID_ARGUMENT m
     else
       let_some (borrow data len FFI_MAX_KEY_FILE) HIDE_ERR_INVALID_ARGUMENT m (\<lambda>bs.
         let kind = (case inspect bs of Raw \<Rightarrow> HIDE_KEY_RAW | Protected \<Rightarrow> HIDE_KEY_PROTECTED)
         in Returned HIDE_OK (put_number out_kind kind m)))"

definition hide_secret_key_open :: "ffi_env \<Rightarrow> bytes option \<Rightarrow> nat \<Rightarrow> bytes option \<Rightarrow> addr \<Rightarrow> ffi_mem \<Rightarrow> call" where
  "hide_secret_key_open E data len passphrase out_secret m = guard (
     if out_secret = null then Returned HIDE_ERR_INVALID_ARGUMENT m
     else
       let_some (borrow data len FFI_MAX_KEY_FILE) HIDE_ERR_INVALID_ARGUMENT m (\<lambda>bs.
       let_some (borrow_str passphrase) HIDE_ERR_INVALID_ARGUMENT m (\<lambda>passphrase.
       match_ok (key_open (env_crypto E) (env_keyring E) bs passphrase) keyring_error_code m (\<lambda>secret.
         Returned HIDE_OK (put_secret out_secret secret m)))))"

definition hide_secret_key_protect ::
  "ffi_env \<Rightarrow> bytes option \<Rightarrow> bytes option \<Rightarrow> addr \<Rightarrow> bytes option \<Rightarrow> addr \<Rightarrow> ffi_mem \<Rightarrow> call" where
  "hide_secret_key_protect E rng_salt rng_nonce secret passphrase out m = guard (
     if secret = null \<or> out = null then Returned HIDE_ERR_INVALID_ARGUMENT m
     else
       let_some (borrow_text passphrase) HIDE_ERR_INVALID_ARGUMENT m (\<lambda>passphrase.
       deref (mem_secrets m) secret (\<lambda>secret.
       match_ok (protect (env_crypto E) (env_keyring E) rng_salt rng_nonce secret passphrase) keyring_error_code m (\<lambda>sealed.
         Returned HIDE_OK (put_buffer E out sealed m)))))"

definition hide_secret_key_public :: "ffi_env \<Rightarrow> addr \<Rightarrow> addr \<Rightarrow> ffi_mem \<Rightarrow> call" where
  "hide_secret_key_public E secret out m = guard (
     if secret = null \<or> out = null then Returned HIDE_ERR_INVALID_ARGUMENT m
     else
       deref (mem_secrets m) secret (\<lambda>secret.
       match_ok (public_key (env_crypto E) secret) (\<lambda>_. HIDE_ERR_INTERNAL) m (\<lambda>public.
         Returned HIDE_OK (put_buffer E out public m))))"

definition hide_secret_key_free :: "addr \<Rightarrow> ffi_mem \<Rightarrow> call" where
  "hide_secret_key_free secret m =
     (if secret = null then Returned HIDE_OK m
      else deref (mem_secrets m) secret (\<lambda>_. Returned HIDE_OK (m\<lparr>mem_secrets := (mem_secrets m)(secret := None)\<rparr>)))"

section \<open>Containers and public keys\<close>

text \<open>\<open>chunks_exact(n)\<close>: an incomplete last chunk is left out.\<close>

definition chunks_exact :: "nat \<Rightarrow> 'a list \<Rightarrow> 'a list list" where
  "chunks_exact n xs = filter (\<lambda>c. length c = n) (chunks_of n xs)"

definition hide_encrypt ::
  "ffi_env \<Rightarrow> rng \<Rightarrow> bytes option \<Rightarrow> nat \<Rightarrow> bytes option \<Rightarrow> nat \<Rightarrow> bytes option \<Rightarrow> bytes option \<Rightarrow> addr \<Rightarrow> ffi_mem \<Rightarrow> call" where
  "hide_encrypt E draw plaintext plaintext_len recipients recipient_count filename media_type out m = guard (
     if out = null then Returned HIDE_ERR_INVALID_ARGUMENT m
     else if recipient_count = 0 \<or> 64 < recipient_count then Returned HIDE_ERR_INVALID_ARGUMENT m
     else
       let_some (borrow plaintext plaintext_len FFI_MAX_INPUT) HIDE_ERR_INVALID_ARGUMENT m (\<lambda>plaintext.
       let_some (borrow recipients (recipient_count * HIDE_PUBLIC_KEY_LEN) FFI_MAX_INPUT) HIDE_ERR_INVALID_ARGUMENT m (\<lambda>keys.
       match_ok (mapR (public_from_bytes (env_crypto E)) (chunks_exact HIDE_PUBLIC_KEY_LEN keys)) (\<lambda>_. HIDE_ERR_INVALID_ARGUMENT) m (\<lambda>parsed.
       let_some (borrow_str filename) HIDE_ERR_INVALID_ARGUMENT m (\<lambda>filename.
       let_some (borrow_str media_type) HIDE_ERR_INVALID_ARGUMENT m (\<lambda>media_type.
         let metadata = \<lparr>md_filename = filename, md_media_type = media_type, md_signature = None, md_extensions = []\<rparr> in
         match_ok (encrypt (env_crypto E) (env_cbor E) (env_sig E) draw (slice_reader plaintext) parsed metadata)
           object_error_code m (\<lambda>(_, container).
           Returned HIDE_OK (put_buffer E out container m))))))))"

text \<open>\<open>if !out.is_null() { *out = HideBuffer::from_vec(value.unwrap_or_default().into_bytes()) }\<close>\<close>

definition put_optional :: "ffi_env \<Rightarrow> addr \<Rightarrow> str option \<Rightarrow> ffi_mem \<Rightarrow> ffi_mem" where
  "put_optional E out v m =
     (if out = null then m else put_buffer E out (case v of None \<Rightarrow> [] | Some s \<Rightarrow> s) m)"

definition hide_decrypt ::
  "ffi_env \<Rightarrow> bytes option \<Rightarrow> nat \<Rightarrow> addr \<Rightarrow> addr \<Rightarrow> addr \<Rightarrow> addr \<Rightarrow> ffi_mem \<Rightarrow> call" where
  "hide_decrypt E container container_len secret out out_filename out_media_type m = guard (
     if secret = null \<or> out = null then Returned HIDE_ERR_INVALID_ARGUMENT m
     else
       let_some (borrow container container_len FFI_MAX_INPUT) HIDE_ERR_INVALID_ARGUMENT m (\<lambda>container.
       deref (mem_secrets m) secret (\<lambda>secret.
       match_ok (decrypt_to_staging (env_crypto E) (env_cbor E) (env_sig E) (slice_reader container) secret)
         object_error_code m (\<lambda>(verified, plaintext).
         let m = put_optional E out_filename (md_filename (vo_metadata verified)) m;
             m = put_optional E out_media_type (md_media_type (vo_metadata verified)) m
         in Returned HIDE_OK (put_buffer E out plaintext m)))))"

definition hide_public_key_armor :: "ffi_env \<Rightarrow> bytes option \<Rightarrow> nat \<Rightarrow> addr \<Rightarrow> ffi_mem \<Rightarrow> call" where
  "hide_public_key_armor E data len out m = guard (
     if out = null then Returned HIDE_ERR_INVALID_ARGUMENT m
     else
       let_some (borrow data len FFI_MAX_KEY_FILE) HIDE_ERR_INVALID_ARGUMENT m (\<lambda>bs.
         if length bs \<noteq> HIDE_PUBLIC_KEY_LEN then Returned HIDE_ERR_INVALID_ARGUMENT m
         else Returned HIDE_OK (put_buffer E out (encode_public (env_b64 E) bs) m)))"

definition hide_public_key_dearmor :: "ffi_env \<Rightarrow> bytes option \<Rightarrow> addr \<Rightarrow> ffi_mem \<Rightarrow> call" where
  "hide_public_key_dearmor E text out m = guard (
     if out = null then Returned HIDE_ERR_INVALID_ARGUMENT m
     else
       let_some (borrow_text text) HIDE_ERR_INVALID_ARGUMENT m (\<lambda>text.
       match_ok (decode_public (env_b64 E) text) keyring_error_code m (\<lambda>bs.
         if length bs = HIDE_PUBLIC_KEY_LEN then Returned HIDE_OK (put_buffer E out bs m)
         else Returned HIDE_ERR_INVALID_ARGUMENT m)))"

section \<open>Signing identities and signatures\<close>

definition hide_identity_generate ::
  "ffi_env \<Rightarrow> bytes option \<Rightarrow> bytes option \<Rightarrow> bytes option \<Rightarrow> bytes option \<Rightarrow> addr \<Rightarrow> ffi_mem \<Rightarrow> call" where
  "hide_identity_generate E rng rng_salt rng_nonce passphrase out_key_file m = guard (
     if out_key_file = null then Returned HIDE_ERR_INVALID_ARGUMENT m
     else
       let_some (borrow_text passphrase) HIDE_ERR_INVALID_ARGUMENT m (\<lambda>passphrase.
       match_ok (identity_generate rng) (\<lambda>_. HIDE_ERR_INTERNAL) m (\<lambda>identity.
       match_ok (protect_identity (env_crypto E) (env_keyring E) rng_salt rng_nonce identity passphrase) keyring_error_code m (\<lambda>sealed.
         Returned HIDE_OK (put_buffer E out_key_file sealed m)))))"

text \<open>The \<open>seed\<close> of \<open>hide_signing_identity_open\<close>, or the code it returns early with.\<close>

definition open_signing_seed :: "ffi_env \<Rightarrow> bytes \<Rightarrow> str option \<Rightarrow> int + bytes" where
  "open_signing_seed E bs passphrase =
     (case inspect bs of
        Raw \<Rightarrow> if length bs \<noteq> 32 then Inl HIDE_ERR_NOT_A_KEY else Inr (signing_seed (env_keyring E) bs)
      | Protected \<Rightarrow>
          (case passphrase of
             None \<Rightarrow> Inl HIDE_ERR_INVALID_ARGUMENT
           | Some passphrase \<Rightarrow>
               (case unprotect_seed (env_crypto E) (env_keyring E) bs passphrase of
                  Inr (seed, Identity) \<Rightarrow> Inr (signing_seed (env_keyring E) seed)
                | Inr _ \<Rightarrow> Inl HIDE_ERR_NOT_A_KEY
                | Inl e \<Rightarrow> Inl (keyring_error_code e))))"

definition hide_signing_identity_open :: "ffi_env \<Rightarrow> bytes option \<Rightarrow> nat \<Rightarrow> bytes option \<Rightarrow> addr \<Rightarrow> ffi_mem \<Rightarrow> call" where
  "hide_signing_identity_open E data len passphrase out_identity m = guard (
     if out_identity = null then Returned HIDE_ERR_INVALID_ARGUMENT m
     else
       let_some (borrow data len FFI_MAX_KEY_FILE) HIDE_ERR_INVALID_ARGUMENT m (\<lambda>bs.
       let_some (borrow_str passphrase) HIDE_ERR_INVALID_ARGUMENT m (\<lambda>passphrase.
       match_ok (open_signing_seed E bs passphrase) (\<lambda>code. code) m (\<lambda>seed.
       match_ok (si_from_bytes (env_sig E) seed) (\<lambda>_. HIDE_ERR_NOT_A_KEY) m (\<lambda>identity.
         Returned HIDE_OK (put_identity out_identity identity m))))))"

definition hide_signing_identity_public :: "ffi_env \<Rightarrow> addr \<Rightarrow> addr \<Rightarrow> ffi_mem \<Rightarrow> call" where
  "hide_signing_identity_public E identity out m = guard (
     if identity = null \<or> out = null then Returned HIDE_ERR_INVALID_ARGUMENT m
     else
       deref (mem_identities m) identity (\<lambda>identity.
         Returned HIDE_OK (put_buffer E out (vi_to_bytes (verifying_key (env_sig E) identity)) m)))"

definition hide_signing_identity_free :: "addr \<Rightarrow> ffi_mem \<Rightarrow> call" where
  "hide_signing_identity_free identity m =
     (if identity = null then Returned HIDE_OK m
      else deref (mem_identities m) identity (\<lambda>_.
        Returned HIDE_OK (m\<lparr>mem_identities := (mem_identities m)(identity := None)\<rparr>)))"

definition hide_sign_message ::
  "ffi_env \<Rightarrow> addr \<Rightarrow> bytes option \<Rightarrow> nat \<Rightarrow> bytes option \<Rightarrow> nat \<Rightarrow> addr \<Rightarrow> ffi_mem \<Rightarrow> call" where
  "hide_sign_message E identity context context_len message message_len out m = guard (
     if identity = null \<or> out = null then Returned HIDE_ERR_INVALID_ARGUMENT m
     else
       let_some (borrow context context_len FFI_MAX_KEY_FILE) HIDE_ERR_INVALID_ARGUMENT m (\<lambda>context.
       let_some (borrow message message_len FFI_MAX_INPUT) HIDE_ERR_INVALID_ARGUMENT m (\<lambda>message.
       deref (mem_identities m) identity (\<lambda>identity.
       match_ok (sign_application (env_sig E) identity context message) (\<lambda>_. HIDE_ERR_INVALID_ARGUMENT) m (\<lambda>signature.
         Returned HIDE_OK (put_buffer E out signature m))))))"

definition hide_verify_message ::
  "ffi_env \<Rightarrow> bytes option \<Rightarrow> nat \<Rightarrow> bytes option \<Rightarrow> nat \<Rightarrow> bytes option \<Rightarrow> nat \<Rightarrow> bytes option \<Rightarrow> nat \<Rightarrow> ffi_mem \<Rightarrow> call" where
  "hide_verify_message E pubkey public_key_len context context_len message message_len signature signature_len m = guard (
     let_some (borrow pubkey public_key_len FFI_MAX_KEY_FILE) HIDE_ERR_INVALID_ARGUMENT m (\<lambda>pubkey.
     let_some (borrow context context_len FFI_MAX_KEY_FILE) HIDE_ERR_INVALID_ARGUMENT m (\<lambda>context.
     let_some (borrow message message_len FFI_MAX_INPUT) HIDE_ERR_INVALID_ARGUMENT m (\<lambda>message.
     if signature_len \<noteq> HIDE_SIGNATURE_LEN \<or> public_key_len \<noteq> HIDE_VERIFYING_KEY_LEN then Returned HIDE_ERR_INVALID_ARGUMENT m
     else
       let_some (borrow signature signature_len (FFI_MAX_KEY_FILE * 4)) HIDE_ERR_INVALID_ARGUMENT m (\<lambda>signature.
       match_ok (vi_from_bytes (env_sig E) pubkey) (\<lambda>_. HIDE_ERR_NOT_A_KEY) m (\<lambda>verifying.
       match_ok (verify (env_sig E) verifying context message signature) (\<lambda>_. HIDE_ERR_AUTHENTICATION) m (\<lambda>_.
         Returned HIDE_OK m)))))))"

section \<open>Challenges\<close>

definition hide_challenge_new :: "ffi_env \<Rightarrow> bytes option \<Rightarrow> bytes option \<Rightarrow> u64 \<Rightarrow> u64 \<Rightarrow> addr \<Rightarrow> ffi_mem \<Rightarrow> call" where
  "hide_challenge_new E rng audience now valid_for out m = guard (
     if out = null then Returned HIDE_ERR_INVALID_ARGUMENT m
     else
       let_some (borrow_text audience) HIDE_ERR_INVALID_ARGUMENT m (\<lambda>audience.
       match_ok (ch_new rng audience now valid_for) (\<lambda>_. HIDE_ERR_INTERNAL) m (\<lambda>challenge.
         Returned HIDE_OK (put_buffer E out (ch_encode challenge) m))))"

definition hide_challenge_answer :: "ffi_env \<Rightarrow> addr \<Rightarrow> bytes option \<Rightarrow> nat \<Rightarrow> addr \<Rightarrow> ffi_mem \<Rightarrow> call" where
  "hide_challenge_answer E identity challenge challenge_len out m = guard (
     if identity = null \<or> out = null then Returned HIDE_ERR_INVALID_ARGUMENT m
     else
       let_some (borrow challenge challenge_len FFI_MAX_KEY_FILE) HIDE_ERR_INVALID_ARGUMENT m (\<lambda>bs.
       match_ok (ch_decode bs) (\<lambda>_. HIDE_ERR_MALFORMED) m (\<lambda>challenge.
       deref (mem_identities m) identity (\<lambda>identity.
         Returned HIDE_OK (put_buffer E out (answer (env_sig E) challenge identity) m)))))"

definition hide_spent_nonces_new :: "ffi_mem \<Rightarrow> addr \<times> ffi_mem" where
  "hide_spent_nonces_new m =
     (mem_fresh m, m\<lparr>mem_spent := (mem_spent m)(mem_fresh m \<mapsto> spent_new), mem_fresh := mem_fresh m + 1\<rparr>)"

definition hide_spent_nonces_free :: "addr \<Rightarrow> ffi_mem \<Rightarrow> call" where
  "hide_spent_nonces_free spent m =
     (if spent = null then Returned HIDE_OK m
      else deref (mem_spent m) spent (\<lambda>_. Returned HIDE_OK (m\<lparr>mem_spent := (mem_spent m)(spent := None)\<rparr>)))"

definition challenge_error_code :: "ChallengeError \<Rightarrow> int" where
  "challenge_error_code e =
     (case e of
        Expired \<Rightarrow> HIDE_ERR_CHALLENGE_EXPIRED
      | Replayed \<Rightarrow> HIDE_ERR_CHALLENGE_REPLAYED
      | NotSigned \<Rightarrow> HIDE_ERR_AUTHENTICATION)"

definition hide_challenge_accept ::
  "ffi_env \<Rightarrow> addr \<Rightarrow> bytes option \<Rightarrow> nat \<Rightarrow> bytes option \<Rightarrow> nat \<Rightarrow> bytes option \<Rightarrow> nat \<Rightarrow> u64 \<Rightarrow> ffi_mem \<Rightarrow> call" where
  "hide_challenge_accept E spent challenge challenge_len signature signature_len pubkey public_key_len now m = guard (
     if spent = null then Returned HIDE_ERR_INVALID_ARGUMENT m
     else
       let_some (borrow challenge challenge_len FFI_MAX_KEY_FILE) HIDE_ERR_INVALID_ARGUMENT m (\<lambda>challenge_bytes.
       if signature_len \<noteq> HIDE_SIGNATURE_LEN \<or> public_key_len \<noteq> HIDE_VERIFYING_KEY_LEN then Returned HIDE_ERR_INVALID_ARGUMENT m
       else
         let_some (borrow signature signature_len (FFI_MAX_KEY_FILE * 4)) HIDE_ERR_INVALID_ARGUMENT m (\<lambda>signature.
         let_some (borrow pubkey public_key_len FFI_MAX_KEY_FILE) HIDE_ERR_INVALID_ARGUMENT m (\<lambda>pubkey.
         match_ok (ch_decode challenge_bytes) (\<lambda>_. HIDE_ERR_MALFORMED) m (\<lambda>challenge.
         match_ok (vi_from_bytes (env_sig E) pubkey) (\<lambda>_. HIDE_ERR_NOT_A_KEY) m (\<lambda>prover.
         deref (mem_spent m) spent (\<lambda>s.
           let (r, s) = accept (env_sig E) s challenge signature prover now;
               m = m\<lparr>mem_spent := (mem_spent m)(spent \<mapsto> s)\<rparr>
           in match_ok r challenge_error_code m (\<lambda>_. Returned HIDE_OK m))))))))"

section \<open>Identity logs and epochs\<close>

definition hide_identity_verify ::
  "ffi_env \<Rightarrow> bytes option \<Rightarrow> nat \<Rightarrow> bytes option \<Rightarrow> nat \<Rightarrow> addr \<Rightarrow> ffi_mem \<Rightarrow> call" where
  "hide_identity_verify E log log_len recovery recovery_len out_devices m = guard (
     if out_devices = null then Returned HIDE_ERR_INVALID_ARGUMENT m
     else
       let_some (borrow log log_len FFI_MAX_LOG_BYTES) HIDE_ERR_INVALID_ARGUMENT m (\<lambda>log_bytes.
       let_some (borrow recovery recovery_len FFI_MAX_KEY_FILE) HIDE_ERR_INVALID_ARGUMENT m (\<lambda>recovery_bytes.
       match_ok (vi_from_bytes (env_sig E) recovery_bytes) (\<lambda>_. HIDE_ERR_NOT_A_KEY) m (\<lambda>recovery_key.
       match_ok (id_decode (env_cbor E) log_bytes) (\<lambda>_. HIDE_ERR_MALFORMED) m (\<lambda>entries.
       match_ok (il_verify (sha256 (env_crypto E)) (env_sig E) entries recovery_key) (\<lambda>_. HIDE_ERR_AUTHENTICATION) m (\<lambda>membership.
         Returned HIDE_OK (put_number out_devices (int (m_len membership)) m)))))))"

definition hide_identity_trusts_device ::
  "ffi_env \<Rightarrow> bytes option \<Rightarrow> nat \<Rightarrow> bytes option \<Rightarrow> nat \<Rightarrow> bytes option \<Rightarrow> nat \<Rightarrow> addr \<Rightarrow> ffi_mem \<Rightarrow> call" where
  "hide_identity_trusts_device E log log_len recovery recovery_len device_public device_public_len out_trusted m = guard (
     if out_trusted = null then Returned HIDE_ERR_INVALID_ARGUMENT m
     else
       let_some (borrow log log_len FFI_MAX_LOG_BYTES) HIDE_ERR_INVALID_ARGUMENT m (\<lambda>log_bytes.
       let_some (borrow recovery recovery_len FFI_MAX_KEY_FILE) HIDE_ERR_INVALID_ARGUMENT m (\<lambda>recovery_bytes.
       let_some (borrow device_public device_public_len FFI_MAX_KEY_FILE) HIDE_ERR_INVALID_ARGUMENT m (\<lambda>device_bytes.
       match_ok (vi_from_bytes (env_sig E) recovery_bytes) (\<lambda>_. HIDE_ERR_NOT_A_KEY) m (\<lambda>recovery_key.
       match_ok (vi_from_bytes (env_sig E) device_bytes) (\<lambda>_. HIDE_ERR_NOT_A_KEY) m (\<lambda>device.
       match_ok (id_decode (env_cbor E) log_bytes) (\<lambda>_. HIDE_ERR_MALFORMED) m (\<lambda>entries.
       match_ok (il_verify (sha256 (env_crypto E)) (env_sig E) entries recovery_key) (\<lambda>_. HIDE_ERR_AUTHENTICATION) m (\<lambda>membership.
         Returned HIDE_OK (put_number out_trusted
           (if m_contains membership (device_id (sha256 (env_crypto E)) device) then 1 else 0) m)))))))))"

definition hide_identity_head ::
  "ffi_env \<Rightarrow> bytes option \<Rightarrow> nat \<Rightarrow> bytes option \<Rightarrow> nat \<Rightarrow> addr \<Rightarrow> ffi_mem \<Rightarrow> call" where
  "hide_identity_head E log log_len recovery recovery_len out m = guard (
     if out = null then Returned HIDE_ERR_INVALID_ARGUMENT m
     else
       let_some (borrow log log_len FFI_MAX_LOG_BYTES) HIDE_ERR_INVALID_ARGUMENT m (\<lambda>log_bytes.
       let_some (borrow recovery recovery_len FFI_MAX_KEY_FILE) HIDE_ERR_INVALID_ARGUMENT m (\<lambda>recovery_bytes.
       match_ok (vi_from_bytes (env_sig E) recovery_bytes) (\<lambda>_. HIDE_ERR_NOT_A_KEY) m (\<lambda>recovery_key.
       match_ok (id_decode (env_cbor E) log_bytes) (\<lambda>_. HIDE_ERR_MALFORMED) m (\<lambda>entries.
       match_ok (from_entries (sha256 (env_crypto E)) (env_sig E) entries recovery_key) (\<lambda>_. HIDE_ERR_AUTHENTICATION) m (\<lambda>log.
         Returned HIDE_OK (put_buffer E out (il_head log) m)))))))"

definition hide_epoch_verify :: "ffi_env \<Rightarrow> bytes option \<Rightarrow> nat \<Rightarrow> addr \<Rightarrow> ffi_mem \<Rightarrow> call" where
  "hide_epoch_verify E chain chain_len out_epochs m = guard (
     if out_epochs = null then Returned HIDE_ERR_INVALID_ARGUMENT m
     else
       let_some (borrow chain chain_len FFI_MAX_LOG_BYTES) HIDE_ERR_INVALID_ARGUMENT m (\<lambda>bs.
       match_ok (decode_records (env_cbor E) bs) (\<lambda>_. HIDE_ERR_MALFORMED) m (\<lambda>recs.
       match_ok (ec_verify (env_crypto E) recs) (\<lambda>_. HIDE_ERR_AUTHENTICATION) m (\<lambda>_.
         Returned HIDE_OK (put_number out_epochs (int (length recs)) m)))))"

text \<open>\<open>usize\<close> has 64 bits here, so \<open>usize::try_from(epoch)\<close> succeeds.\<close>

definition hide_epoch_public_key :: "ffi_env \<Rightarrow> bytes option \<Rightarrow> nat \<Rightarrow> u64 \<Rightarrow> addr \<Rightarrow> ffi_mem \<Rightarrow> call" where
  "hide_epoch_public_key E chain chain_len epoch out m = guard (
     if out = null then Returned HIDE_ERR_INVALID_ARGUMENT m
     else
       let_some (borrow chain chain_len FFI_MAX_LOG_BYTES) HIDE_ERR_INVALID_ARGUMENT m (\<lambda>bs.
       match_ok (decode_records (env_cbor E) bs) (\<lambda>_. HIDE_ERR_MALFORMED) m (\<lambda>recs.
       match_ok (ec_verify (env_crypto E) recs) (\<lambda>_. HIDE_ERR_AUTHENTICATION) m (\<lambda>_.
       let_some (get_at recs (unat epoch)) HIDE_ERR_INVALID_ARGUMENT m (\<lambda>record.
         Returned HIDE_OK (put_buffer E out (er_public_key record) m))))))"

section \<open>Transparency proofs\<close>

definition hide_transparency_verify_inclusion ::
  "ffi_env \<Rightarrow> bytes option \<Rightarrow> nat \<Rightarrow> u64 \<Rightarrow> u64 \<Rightarrow> bytes option \<Rightarrow> nat \<Rightarrow> bytes option \<Rightarrow> nat \<Rightarrow> ffi_mem \<Rightarrow> call" where
  "hide_transparency_verify_inclusion E leaf leaf_len index tree_size path path_len root root_len m = guard (
     let_some (borrow leaf leaf_len 32) HIDE_ERR_INVALID_ARGUMENT m (\<lambda>leaf.
     let_some (borrow path path_len (64 * 32)) HIDE_ERR_INVALID_ARGUMENT m (\<lambda>path_bytes.
     let_some (borrow root root_len 32) HIDE_ERR_INVALID_ARGUMENT m (\<lambda>root.
     if length leaf \<noteq> 32 \<or> length root \<noteq> 32 \<or> length path_bytes mod 32 \<noteq> 0 then Returned HIDE_ERR_INVALID_ARGUMENT m
     else
       match_ok (verify_inclusion (sha256 (env_crypto E))
           \<lparr>ip_index = index, ip_size = tree_size, ip_path = chunks_exact32 path_bytes\<rparr> leaf root)
         (\<lambda>_. HIDE_ERR_AUTHENTICATION) m (\<lambda>_. Returned HIDE_OK m)))))"

definition hide_transparency_verify_consistency ::
  "ffi_env \<Rightarrow> u64 \<Rightarrow> u64 \<Rightarrow> bytes option \<Rightarrow> nat \<Rightarrow> bytes option \<Rightarrow> nat \<Rightarrow> bytes option \<Rightarrow> nat \<Rightarrow> ffi_mem \<Rightarrow> call" where
  "hide_transparency_verify_consistency E old_size new_size path path_len old_root old_root_len new_root new_root_len m = guard (
     let_some (borrow path path_len (64 * 32)) HIDE_ERR_INVALID_ARGUMENT m (\<lambda>path_bytes.
     let_some (borrow old_root old_root_len 32) HIDE_ERR_INVALID_ARGUMENT m (\<lambda>old.
     let_some (borrow new_root new_root_len 32) HIDE_ERR_INVALID_ARGUMENT m (\<lambda>new.
     if length old \<noteq> 32 \<or> length new \<noteq> 32 \<or> length path_bytes mod 32 \<noteq> 0 then Returned HIDE_ERR_INVALID_ARGUMENT m
     else
       match_ok (verify_consistency (sha256 (env_crypto E))
           \<lparr>cp_old_size = old_size, cp_new_size = new_size, cp_path = chunks_exact32 path_bytes\<rparr> old new)
         (\<lambda>_. HIDE_ERR_AUTHENTICATION) m (\<lambda>_. Returned HIDE_OK m)))))"

section \<open>Relying-party checks\<close>

definition pinned_log ::
  "ffi_env \<Rightarrow> bytes option \<Rightarrow> nat \<Rightarrow> bytes option \<Rightarrow> nat \<Rightarrow> bytes option \<Rightarrow> nat \<Rightarrow> int + IdentityLog" where
  "pinned_log E log log_len binding binding_len root root_len =
     bindR (ok_or (borrow log log_len FFI_MAX_LOG_BYTES) HIDE_ERR_INVALID_ARGUMENT) (\<lambda>log_bytes.
     bindR (ok_or (borrow binding binding_len RECOVERY_BINDING_LENGTH) HIDE_ERR_INVALID_ARGUMENT) (\<lambda>binding_bytes.
     bindR (ok_or (borrow root root_len 32) HIDE_ERR_INVALID_ARGUMENT) (\<lambda>root_bytes.
     if length root_bytes \<noteq> 32 then Inl HIDE_ERR_INVALID_ARGUMENT
     else
       bindR (map_err (\<lambda>_. HIDE_ERR_MALFORMED) (rb_decode (env_sig E) binding_bytes)) (\<lambda>binding.
       bindR (map_err (\<lambda>_. HIDE_ERR_MALFORMED) (id_decode (env_cbor E) log_bytes)) (\<lambda>entries.
         map_err (\<lambda>_. HIDE_ERR_AUTHENTICATION)
           (rb_verify_pinned (sha256 (env_crypto E)) (env_sig E) binding entries root_bytes))))))"

definition hide_identity_verify_pinned ::
  "ffi_env \<Rightarrow> bytes option \<Rightarrow> nat \<Rightarrow> bytes option \<Rightarrow> nat \<Rightarrow> bytes option \<Rightarrow> nat \<Rightarrow> addr \<Rightarrow> ffi_mem \<Rightarrow> call" where
  "hide_identity_verify_pinned E log log_len recovery_binding recovery_binding_len pinned_root pinned_root_len out_devices m = guard (
     if out_devices = null then Returned HIDE_ERR_INVALID_ARGUMENT m
     else
       match_ok (pinned_log E log log_len recovery_binding recovery_binding_len pinned_root pinned_root_len) (\<lambda>code. code) m (\<lambda>log.
         Returned HIDE_OK (put_number out_devices (int (m_len (il_membership (sha256 (env_crypto E)) (env_sig E) log))) m)))"

definition hide_epoch_verify_bound ::
  "ffi_env \<Rightarrow> bytes option \<Rightarrow> nat \<Rightarrow> bytes option \<Rightarrow> nat \<Rightarrow> bytes option \<Rightarrow> nat \<Rightarrow> bytes option \<Rightarrow> nat \<Rightarrow> bytes option \<Rightarrow> nat
     \<Rightarrow> addr \<Rightarrow> ffi_mem \<Rightarrow> call" where
  "hide_epoch_verify_bound E log log_len recovery_binding recovery_binding_len pinned_root pinned_root_len chain chain_len
       epoch_binding epoch_binding_len out_epochs m = guard (
     if out_epochs = null then Returned HIDE_ERR_INVALID_ARGUMENT m
     else
       let_some (borrow chain chain_len FFI_MAX_LOG_BYTES) HIDE_ERR_INVALID_ARGUMENT m (\<lambda>chain_bytes.
       let_some (borrow epoch_binding epoch_binding_len EPOCH_BINDING_LENGTH) HIDE_ERR_INVALID_ARGUMENT m (\<lambda>binding_bytes.
       match_ok (pinned_log E log log_len recovery_binding recovery_binding_len pinned_root pinned_root_len) (\<lambda>code. code) m (\<lambda>log.
       match_ok (decode_records (env_cbor E) chain_bytes) (\<lambda>_. HIDE_ERR_MALFORMED) m (\<lambda>recs.
       match_ok (eb_decode binding_bytes) (\<lambda>_. HIDE_ERR_MALFORMED) m (\<lambda>binding.
       match_ok (eb_verify (env_crypto E) (env_sig E) binding log recs) (\<lambda>_. HIDE_ERR_AUTHENTICATION) m (\<lambda>_.
         Returned HIDE_OK (put_number out_epochs (int (length recs)) m))))))))"

definition hide_checkpoint_verify ::
  "ffi_env \<Rightarrow> bytes option \<Rightarrow> nat \<Rightarrow> bytes option \<Rightarrow> bytes option \<Rightarrow> nat \<Rightarrow> addr \<Rightarrow> addr \<Rightarrow> ffi_mem \<Rightarrow> call" where
  "hide_checkpoint_verify E note note_len origin log_public log_public_len out_size out_root m = guard (
     if out_size = null \<or> out_root = null \<or> origin = None then Returned HIDE_ERR_INVALID_ARGUMENT m
     else
       let_some (borrow note note_len FFI_MAX_NOTE_BYTES) HIDE_ERR_INVALID_ARGUMENT m (\<lambda>note.
       let_some (borrow log_public log_public_len FFI_MAX_KEY_FILE) HIDE_ERR_INVALID_ARGUMENT m (\<lambda>k.
       let_some (borrow_text origin) HIDE_ERR_INVALID_ARGUMENT m (\<lambda>origin.
       match_ok (vi_from_bytes (env_sig E) k) (\<lambda>_. HIDE_ERR_NOT_A_KEY) m (\<lambda>k.
       match_ok (ck_verify (sha256 (env_crypto E)) (env_sig E) (env_b64 E) note origin k)
         (\<lambda>e. case e of LMalformed \<Rightarrow> HIDE_ERR_MALFORMED | _ \<Rightarrow> HIDE_ERR_AUTHENTICATION) m (\<lambda>checkpoint.
         Returned HIDE_OK (put_buffer E out_root (ck_root checkpoint) (put_number out_size (uint (ck_size checkpoint)) m))))))))"

end
