(* ===== verification/Hide_Ffi_Safety.thy ===== *)
theory Hide_Ffi_Safety
  imports Hide_Ffi Hide_Cli_Files
begin

text \<open>
  What the C interface promises of memory. A disciplined client (\<open>ffi_client\<close>) passes empty buffer variables
  and null handle variables to be filled, passes the handles it holds, and forgets a handle when it frees it.
  \<open>ledger\<close> is the ownership invariant: every block and every box is held by exactly one variable and every
  variable that is not null holds one. A calculus of introduction rules (\<open>safe_intros\<close>) carries it through
  the bodies of the exported functions.
\<close>

named_theorems safe_intros \<open>the calls that return and keep the ledger\<close>

named_theorems ok_simps \<open>inversion of calls that returned HIDE_OK\<close>

section \<open>Ownership\<close>

definition owned :: "addr \<Rightarrow> (addr \<Rightarrow> 'a option) \<Rightarrow> (addr \<Rightarrow> addr) \<Rightarrow> bool" where
  "owned fresh boxes var \<longleftrightarrow>
     (\<forall>p. boxes p \<noteq> None \<longrightarrow> dangling < p \<and> p < fresh \<and> p \<in> range var) \<and>
     (\<forall>v. var v \<noteq> null \<longrightarrow> boxes (var v) \<noteq> None \<and> (\<forall>w. var w = var v \<longrightarrow> w = v))"

lemma ownedI:
  assumes "\<And>p. boxes p \<noteq> None \<Longrightarrow> dangling < p \<and> p < n \<and> (\<exists>v. var v = p)"
    and "\<And>v. var v \<noteq> null \<Longrightarrow> boxes (var v) \<noteq> None"
    and "\<And>v w. var v \<noteq> null \<Longrightarrow> var w = var v \<Longrightarrow> w = v"
  shows "owned n boxes var"
  using assms by (fastforce simp: owned_def)

lemma owned_boxD: "owned n boxes var \<Longrightarrow> boxes p \<noteq> None \<Longrightarrow> dangling < p \<and> p < n \<and> (\<exists>v. var v = p)"
  by (fastforce simp: owned_def)

lemma owned_live: "owned n boxes var \<Longrightarrow> var v \<noteq> null \<Longrightarrow> boxes (var v) \<noteq> None"
  unfolding owned_def by blast

lemma owned_unique: "owned n boxes var \<Longrightarrow> var v \<noteq> null \<Longrightarrow> var w = var v \<Longrightarrow> w = v"
  unfolding owned_def by blast

lemma owned_None: "owned n boxes var \<Longrightarrow> boxes null = None" "owned n boxes var \<Longrightarrow> boxes n = None"
  using owned_boxD [of n boxes var null] owned_boxD [of n boxes var n] by (fastforce simp: null_def dangling_def)+

lemma owned_Suc: "owned n boxes var \<Longrightarrow> owned (Suc n) boxes var"
  unfolding owned_def using less_SucI by blast

lemma owned_alloc:
  assumes "owned n boxes var" "dangling < n" "var out = null"
  shows "owned (n + 1) (boxes(n \<mapsto> x)) (var(out := n))"
proof -
  have "n \<noteq> null" using assms(2) by (simp add: null_def)
  then have ne: "var v \<noteq> n" for v using owned_live [OF assms(1), of v] owned_None(2) [OF assms(1)] by metis
  show ?thesis
  proof (rule ownedI)
    fix p assume p: "(boxes(n \<mapsto> x)) p \<noteq> None"
    show "dangling < p \<and> p < n + 1 \<and> (\<exists>v. (var(out := n)) v = p)"
    proof (cases "p = n")
      case True
      then show ?thesis using assms(2) by auto
    next
      case False
      then have "boxes p \<noteq> None" using p by simp
      then obtain v where v: "dangling < p" "p < n" "var v = p" using owned_boxD [OF assms(1)] by blast
      then have "v \<noteq> out" using assms(3) by (auto simp: null_def)
      then have "(var(out := n)) v = p" using v(3) by simp
      then show ?thesis using v(1,2) by (metis less_SucI Suc_eq_plus1)
    qed
  next
    fix v assume "(var(out := n)) v \<noteq> null"
    then show "(boxes(n \<mapsto> x)) ((var(out := n)) v) \<noteq> None"
      using owned_live [OF assms(1), of v] by (cases "v = out") simp_all
  next
    fix v w assume "(var(out := n)) v \<noteq> null" "(var(out := n)) w = (var(out := n)) v"
    then show "w = v"
      using owned_unique [OF assms(1), of v w] ne [of v] ne [of w] by (cases "v = out"; cases "w = out") auto
  qed
qed

lemma owned_release:
  assumes "owned n boxes var" "var c \<noteq> null"
  shows "owned n (boxes(var c := None)) (var(c := null))"
proof (rule ownedI)
  fix p assume "(boxes(var c := None)) p \<noteq> None"
  then have p: "p \<noteq> var c" "boxes p \<noteq> None" by (auto split: if_splits)
  obtain v where v: "dangling < p" "p < n" "var v = p" using owned_boxD [OF assms(1) p(2)] by blast
  then have "(var(c := null)) v = p" using p(1) by auto
  then show "dangling < p \<and> p < n \<and> (\<exists>v. (var(c := null)) v = p)" using v(1,2) by blast
next
  fix v assume v: "(var(c := null)) v \<noteq> null"
  then have "v \<noteq> c" "var v \<noteq> null" by (auto split: if_splits)
  then show "(boxes(var c := None)) ((var(c := null)) v) \<noteq> None"
    using owned_live [OF assms(1), of v] owned_unique [OF assms, of v] by auto
next
  fix v w assume "(var(c := null)) v \<noteq> null" "(var(c := null)) w = (var(c := null)) v"
  then show "w = v" using owned_unique [OF assms(1), of v w] by (auto split: if_splits)
qed

lemma owned_update: "owned n boxes var \<Longrightarrow> boxes p \<noteq> None \<Longrightarrow> owned n (boxes(p \<mapsto> x)) var"
  by (intro ownedI) (auto dest: owned_boxD owned_live owned_unique split: if_splits)

lemma owned_empty: "owned n boxes var \<Longrightarrow> \<forall>v. var v = null \<Longrightarrow> boxes p = None"
  using owned_boxD [of n boxes var p] by (fastforce simp: null_def)

section \<open>The ledger\<close>

text \<open>The block a buffer variable holds; a vector without allocation holds none.\<close>

definition holder :: "(addr \<Rightarrow> HideBuffer) \<Rightarrow> addr \<Rightarrow> addr" where
  "holder buffers c = (if hb_capacity (buffers c) = 0 then null else hb_data (buffers c))"

definition buffer_ok :: "(addr \<Rightarrow> (bytes \<times> nat) option) \<Rightarrow> HideBuffer \<Rightarrow> bool" where
  "buffer_ok blocks b \<longleftrightarrow>
     (if hb_capacity b = 0 then hb_len b = 0 \<and> hb_data b \<in> {null, dangling}
      else \<exists>bs. blocks (hb_data b) = Some (bs, hb_capacity b) \<and> length bs = hb_len b)"

definition ledger :: "ffi_mem \<Rightarrow> bool" where
  "ledger m \<longleftrightarrow> dangling < mem_fresh m \<and>
     owned (mem_fresh m) (mem_blocks m) (holder (var_buffer m)) \<and> (\<forall>c. buffer_ok (mem_blocks m) (var_buffer m c)) \<and>
     owned (mem_fresh m) (mem_secrets m) (var_secret m) \<and>
     owned (mem_fresh m) (mem_identities m) (var_identity m) \<and>
     owned (mem_fresh m) (mem_spent m) (var_spent m)"

definition mem_start :: ffi_mem where
  "mem_start = \<lparr>mem_blocks = (\<lambda>_. None), mem_secrets = (\<lambda>_. None), mem_identities = (\<lambda>_. None), mem_spent = (\<lambda>_. None),
     mem_fresh = 2, var_buffer = (\<lambda>_. hide_buffer_empty), var_secret = (\<lambda>_. null), var_identity = (\<lambda>_. null),
     var_spent = (\<lambda>_. null), var_number = (\<lambda>_. 0)\<rparr>"

lemma ledger_start: "ledger mem_start"
  by (simp add: ledger_def mem_start_def owned_def holder_def buffer_ok_def hide_buffer_empty_def dangling_def)

text \<open>\<open>Vec::capacity\<close> is at least the length.\<close>

definition capacity_law :: "ffi_env \<Rightarrow> bool" where
  "capacity_law E \<longleftrightarrow> (\<forall>bs. length bs \<le> env_capacity E bs)"

definition empty_buffer :: "ffi_mem \<Rightarrow> addr \<Rightarrow> bool" where
  "empty_buffer m c \<longleftrightarrow> var_buffer m c = hide_buffer_empty"

lemma holder_upd: "holder (b(c := x)) = (holder b)(c := if hb_capacity x = 0 then null else hb_data x)"
  by (auto simp: holder_def fun_eq_iff)

lemma buffer_ok_alloc: "buffer_ok blocks b \<Longrightarrow> blocks p = None \<Longrightarrow> buffer_ok (blocks(p \<mapsto> x)) b"
  by (auto simp: buffer_ok_def)

lemma ledger_put_buffer:
  assumes "ledger m" "capacity_law E" "empty_buffer m out"
  shows "ledger (put_buffer E out bs m)"
proof (cases "env_capacity E bs = 0")
  case True
  then have "bs = []" using assms(2) by (metis capacity_law_def le_zero_eq length_0_conv)
  moreover have "(holder (var_buffer m))(out := null) = holder (var_buffer m)"
    using assms(3) by (auto simp: empty_buffer_def holder_def hide_buffer_empty_def)
  moreover have "buffer_ok blocks \<lparr>hb_data = dangling, hb_len = 0, hb_capacity = 0\<rparr>" for blocks by (simp add: buffer_ok_def)
  ultimately show ?thesis
    using assms(1) True by (simp add: put_buffer_def from_vec_def ledger_def holder_upd)
next
  case False
  have h: "holder (var_buffer m) out = null" using assms(3) by (simp add: empty_buffer_def holder_def hide_buffer_empty_def)
  have f: "mem_blocks m (mem_fresh m) = None" using assms(1) owned_None(2) by (auto simp: ledger_def)
  have "owned (mem_fresh m + 1) ((mem_blocks m)(mem_fresh m \<mapsto> (bs, env_capacity E bs)))
      ((holder (var_buffer m))(out := mem_fresh m))"
    using assms(1) h by (intro owned_alloc) (auto simp: ledger_def)
  moreover have "buffer_ok ((mem_blocks m)(mem_fresh m \<mapsto> (bs, env_capacity E bs))) (var_buffer m c)" for c
    using assms(1) f by (intro buffer_ok_alloc) (auto simp: ledger_def)
  moreover have "buffer_ok (blocks(mem_fresh m \<mapsto> (bs, env_capacity E bs)))
      \<lparr>hb_data = mem_fresh m, hb_len = length bs, hb_capacity = env_capacity E bs\<rparr>" for blocks
    using False by (simp add: buffer_ok_def)
  ultimately show ?thesis
    using assms(1) False by (simp add: put_buffer_def from_vec_def ledger_def holder_upd Let_def owned_Suc)
qed

lemma ledger_put_secret: "ledger m \<Longrightarrow> var_secret m out = null \<Longrightarrow> ledger (put_secret out s m)"
  using owned_alloc [of "mem_fresh m" "mem_secrets m" "var_secret m" out s]
  by (simp add: ledger_def put_secret_def owned_Suc)

lemma ledger_put_identity: "ledger m \<Longrightarrow> var_identity m out = null \<Longrightarrow> ledger (put_identity out i m)"
  using owned_alloc [of "mem_fresh m" "mem_identities m" "var_identity m" out i]
  by (simp add: ledger_def put_identity_def owned_Suc)

lemma ledger_put_number: "ledger m \<Longrightarrow> ledger (put_number out v m)"
  by (simp add: ledger_def put_number_def)

lemma put_other:
  "c \<noteq> out \<Longrightarrow> empty_buffer (put_buffer E out bs m) c \<longleftrightarrow> empty_buffer m c"
  "empty_buffer (put_number n v m) c \<longleftrightarrow> empty_buffer m c"
  "var_secret (put_buffer E out bs m) = var_secret m"
  "var_identity (put_buffer E out bs m) = var_identity m"
  "mem_secrets (put_buffer E out bs m) = mem_secrets m"
  "mem_identities (put_buffer E out bs m) = mem_identities m"
  "mem_spent (put_buffer E out bs m) = mem_spent m"
  by (auto simp: empty_buffer_def put_buffer_def from_vec_def put_number_def Let_def)

section \<open>The client\<close>

text \<open>One call of a client that follows the rules of the header file. A handle goes out of scope when it is
  freed: the client sets its variable to null.\<close>

definition forget_secret :: "addr \<Rightarrow> call \<Rightarrow> call" where
  "forget_secret c r =
     (case r of Returned code m \<Rightarrow> Returned code (m\<lparr>var_secret := (var_secret m)(c := null)\<rparr>) | _ \<Rightarrow> r)"

definition forget_identity :: "addr \<Rightarrow> call \<Rightarrow> call" where
  "forget_identity c r =
     (case r of Returned code m \<Rightarrow> Returned code (m\<lparr>var_identity := (var_identity m)(c := null)\<rparr>) | _ \<Rightarrow> r)"

definition forget_spent :: "addr \<Rightarrow> call \<Rightarrow> call" where
  "forget_spent c r =
     (case r of Returned code m \<Rightarrow> Returned code (m\<lparr>var_spent := (var_spent m)(c := null)\<rparr>) | _ \<Rightarrow> r)"

definition assign_spent :: "addr \<Rightarrow> addr \<times> ffi_mem \<Rightarrow> call" where
  "assign_spent c = (\<lambda>(p, m). Returned HIDE_OK (m\<lparr>var_spent := (var_spent m)(c := p)\<rparr>))"

inductive ffi_client :: "ffi_env \<Rightarrow> ffi_mem \<Rightarrow> call \<Rightarrow> bool" for E :: ffi_env where
  c_test_panic: "ffi_client E m (hide_test_panic m)"
| c_buffer_free: "ffi_client E m (hide_buffer_free b m)"
| c_keypair_generate: "var_secret m s = null \<Longrightarrow> empty_buffer m b \<Longrightarrow> ffi_client E m (hide_keypair_generate E rng s b m)"
| c_inspect_key: "ffi_client E m (hide_inspect_key d n k m)"
| c_secret_open: "var_secret m s = null \<Longrightarrow> ffi_client E m (hide_secret_key_open E d n pw s m)"
| c_secret_protect: "empty_buffer m b \<Longrightarrow> ffi_client E m (hide_secret_key_protect E r1 r2 (var_secret m s) pw b m)"
| c_secret_public: "empty_buffer m b \<Longrightarrow> ffi_client E m (hide_secret_key_public E (var_secret m s) b m)"
| c_secret_free: "ffi_client E m (forget_secret s (hide_secret_key_free (var_secret m s) m))"
| c_encrypt: "empty_buffer m b \<Longrightarrow> ffi_client E m (hide_encrypt E draw d n rs k fn mt b m)"
| c_decrypt: "empty_buffer m b \<Longrightarrow> empty_buffer m f \<Longrightarrow> empty_buffer m t \<Longrightarrow> b \<noteq> f \<Longrightarrow> b \<noteq> t \<Longrightarrow> f \<noteq> t \<or> f = null \<Longrightarrow>
    ffi_client E m (hide_decrypt E d n (var_secret m s) b f t m)"
| c_armor: "empty_buffer m b \<Longrightarrow> ffi_client E m (hide_public_key_armor E d n b m)"
| c_dearmor: "empty_buffer m b \<Longrightarrow> ffi_client E m (hide_public_key_dearmor E txt b m)"
| c_identity_generate: "empty_buffer m b \<Longrightarrow> ffi_client E m (hide_identity_generate E r0 r1 r2 pw b m)"
| c_identity_open: "var_identity m i = null \<Longrightarrow> ffi_client E m (hide_signing_identity_open E d n pw i m)"
| c_identity_public: "empty_buffer m b \<Longrightarrow> ffi_client E m (hide_signing_identity_public E (var_identity m i) b m)"
| c_identity_free: "ffi_client E m (forget_identity i (hide_signing_identity_free (var_identity m i) m))"
| c_sign: "empty_buffer m b \<Longrightarrow> ffi_client E m (hide_sign_message E (var_identity m i) c cn d n b m)"
| c_verify: "ffi_client E m (hide_verify_message E k kn c cn d n sg sn m)"
| c_challenge_new: "empty_buffer m b \<Longrightarrow> ffi_client E m (hide_challenge_new E rng aud now valid_for b m)"
| c_challenge_answer: "empty_buffer m b \<Longrightarrow> ffi_client E m (hide_challenge_answer E (var_identity m i) d n b m)"
| c_spent_new: "var_spent m v = null \<Longrightarrow> ffi_client E m (assign_spent v (hide_spent_nonces_new m))"
| c_spent_free: "ffi_client E m (forget_spent v (hide_spent_nonces_free (var_spent m v) m))"
| c_challenge_accept: "ffi_client E m (hide_challenge_accept E (var_spent m v) d n sg sn k kn now m)"
| c_identity_verify: "ffi_client E m (hide_identity_verify E d n r rn v m)"
| c_trusts_device: "ffi_client E m (hide_identity_trusts_device E d n r rn k kn v m)"
| c_identity_head: "empty_buffer m b \<Longrightarrow> ffi_client E m (hide_identity_head E d n r rn b m)"
| c_epoch_verify: "ffi_client E m (hide_epoch_verify E d n v m)"
| c_epoch_public_key: "empty_buffer m b \<Longrightarrow> ffi_client E m (hide_epoch_public_key E d n e b m)"
| c_inclusion: "ffi_client E m (hide_transparency_verify_inclusion E l ln i sz p pn r rn m)"
| c_consistency: "ffi_client E m (hide_transparency_verify_consistency E os ns p pn r1 rn1 r2 rn2 m)"
| c_verify_pinned: "ffi_client E m (hide_identity_verify_pinned E d n rb rbn r rn v m)"
| c_verify_bound: "ffi_client E m (hide_epoch_verify_bound E d n rb rbn r rn ch chn eb ebn v m)"
| c_checkpoint: "empty_buffer m b \<Longrightarrow> ffi_client E m (hide_checkpoint_verify E d n og k kn v b m)"

inductive ffi_run :: "ffi_env \<Rightarrow> ffi_mem \<Rightarrow> ffi_mem \<Rightarrow> bool" for E :: ffi_env and m0 :: ffi_mem where
  ffi_refl: "ffi_run E m0 m0"
| ffi_next: "ffi_run E m0 m \<Longrightarrow> ffi_client E m (Returned code m') \<Longrightarrow> ffi_run E m0 m'"

section \<open>Safe calls\<close>

definition safe :: "ffi_mem \<Rightarrow> call \<Rightarrow> bool" where
  "safe m r \<longleftrightarrow> (\<exists>code m'. r = Returned code m' \<and> ledger m' \<and> (code \<noteq> HIDE_OK \<longrightarrow> m' = m\<lparr>mem_spent := mem_spent m'\<rparr>))"

lemma safe_ok: "ledger m' \<Longrightarrow> safe m (Returned HIDE_OK m')"
  by (simp add: safe_def)

lemma safe_code: "ledger m \<Longrightarrow> safe m (Returned code m)"
  by (simp add: safe_def)

lemma safe_guard [safe_intros]: "safe m r \<Longrightarrow> safe m (guard r)"
  by (auto simp: safe_def guard_def)

lemma safe_if [safe_intros]: "(b \<Longrightarrow> safe m r) \<Longrightarrow> (\<not> b \<Longrightarrow> safe m q) \<Longrightarrow> safe m (if b then r else q)"
  by simp

lemma safe_let_some [safe_intros]: "ledger m \<Longrightarrow> (\<And>x. v = Some x \<Longrightarrow> safe m (f x)) \<Longrightarrow> safe m (let_some v code m f)"
  by (cases v) (auto simp: let_some_def safe_code)

lemma safe_match_ok [safe_intros]: "ledger m \<Longrightarrow> (\<And>x. v = Inr x \<Longrightarrow> safe m (f x)) \<Longrightarrow> safe m (match_ok v code m f)"
  by (cases v) (auto simp: match_ok_def safe_code)

lemma safe_deref [safe_intros]: "boxes p \<noteq> None \<Longrightarrow> (\<And>x. boxes p = Some x \<Longrightarrow> safe m (f x)) \<Longrightarrow> safe m (deref boxes p f)"
  by (auto simp: deref_def)

lemma safe_Let [safe_intros]: "safe m (f x) \<Longrightarrow> safe m (Let x f)"
  by simp

lemma safe_case_prod [safe_intros]: "(\<And>a b. p = (a, b) \<Longrightarrow> safe m (f a b)) \<Longrightarrow> safe m (case_prod f p)"
  by (cases p) simp

lemmas safe_puts = safe_code safe_ok ledger_put_buffer ledger_put_secret ledger_put_identity ledger_put_number

lemma ledger_handles:
  "ledger m \<Longrightarrow> var_secret m v \<noteq> null \<Longrightarrow> mem_secrets m (var_secret m v) \<noteq> None"
  "ledger m \<Longrightarrow> var_identity m v \<noteq> null \<Longrightarrow> mem_identities m (var_identity m v) \<noteq> None"
  "ledger m \<Longrightarrow> var_spent m v \<noteq> null \<Longrightarrow> mem_spent m (var_spent m v) \<noteq> None"
  by (auto simp: ledger_def dest: owned_live)

lemma ledger_buffer: "ledger m \<Longrightarrow> buffer_ok (mem_blocks m) (var_buffer m c)"
  by (simp add: ledger_def)

lemma safe_frees:
  assumes "ledger m"
  shows "safe m (hide_buffer_free b m)"
    and "safe m (forget_secret s (hide_secret_key_free (var_secret m s) m))"
    and "safe m (forget_identity i (hide_signing_identity_free (var_identity m i) m))"
    and "safe m (forget_spent v (hide_spent_nonces_free (var_spent m v) m))"
proof -
  show "safe m (hide_buffer_free b m)"
  proof (cases "hb_capacity (var_buffer m b) = 0")
    case True
    then have "(holder (var_buffer m))(b := null) = holder (var_buffer m)" by (auto simp: holder_def)
    then have "ledger (m\<lparr>var_buffer := (var_buffer m)(b := hide_buffer_empty)\<rparr>)"
      using assms by (simp add: ledger_def holder_upd hide_buffer_empty_def) (simp add: buffer_ok_def)
    moreover have "hb_len (var_buffer m b) = 0" using ledger_buffer [OF assms, of b] True by (simp add: buffer_ok_def)
    ultimately show ?thesis using True assms by (simp add: hide_buffer_free_def safe_puts Let_def)
  next
    case False
    let ?d = "hb_data (var_buffer m b)"
    have h: "holder (var_buffer m) b = ?d" using False by (simp add: holder_def)
    obtain bs where bs: "mem_blocks m ?d = Some (bs, hb_capacity (var_buffer m b))" "length bs = hb_len (var_buffer m b)"
      using ledger_buffer [OF assms, of b] False by (auto simp: buffer_ok_def)
    have o: "owned (mem_fresh m) (mem_blocks m) (holder (var_buffer m))" using assms by (simp add: ledger_def)
    then have n: "?d \<noteq> null" using bs(1) owned_None(1) by fastforce
    have "hb_data (var_buffer m c) \<noteq> ?d" if "c \<noteq> b" "hb_capacity (var_buffer m c) \<noteq> 0" for c
      using owned_unique [OF o, of b c] h n that by (auto simp: holder_def)
    then have "buffer_ok ((mem_blocks m)(?d := None)) (var_buffer m c)" if "c \<noteq> b" for c
      using ledger_buffer [OF assms, of c] that by (auto simp: buffer_ok_def)
    moreover have "owned (mem_fresh m) ((mem_blocks m)(?d := None)) ((holder (var_buffer m))(b := null))"
      using owned_release [OF o, of b] n h by simp
    ultimately have "ledger (m\<lparr>var_buffer := (var_buffer m)(b := hide_buffer_empty), mem_blocks := (mem_blocks m)(?d := None)\<rparr>)"
      using assms by (simp add: ledger_def holder_upd hide_buffer_empty_def) (simp add: buffer_ok_def)
    then show ?thesis using False bs n assms by (simp add: hide_buffer_free_def safe_puts Let_def)
  qed
  have upd: "ledger m \<Longrightarrow> var_secret m s = null \<Longrightarrow> ledger (m\<lparr>var_secret := (var_secret m)(s := null)\<rparr>)"
    "ledger m \<Longrightarrow> var_identity m i = null \<Longrightarrow> ledger (m\<lparr>var_identity := (var_identity m)(i := null)\<rparr>)"
    "ledger m \<Longrightarrow> var_spent m v = null \<Longrightarrow> ledger (m\<lparr>var_spent := (var_spent m)(v := null)\<rparr>)"
    by (simp_all add: ledger_def fun_upd_idem)
  note rel = owned_release [of "mem_fresh m" "mem_secrets m" "var_secret m" s]
    owned_release [of "mem_fresh m" "mem_identities m" "var_identity m" i]
    owned_release [of "mem_fresh m" "mem_spent m" "var_spent m" v]
  show "safe m (forget_secret s (hide_secret_key_free (var_secret m s) m))"
    using assms upd(1) rel(1) ledger_handles(1) [OF assms, of s]
    by (auto simp: forget_secret_def hide_secret_key_free_def deref_def safe_ok ledger_def)
  show "safe m (forget_identity i (hide_signing_identity_free (var_identity m i) m))"
    using assms upd(2) rel(2) ledger_handles(2) [OF assms, of i]
    by (auto simp: forget_identity_def hide_signing_identity_free_def deref_def safe_ok ledger_def)
  show "safe m (forget_spent v (hide_spent_nonces_free (var_spent m v) m))"
    using assms upd(3) rel(3) ledger_handles(3) [OF assms, of v]
    by (auto simp: forget_spent_def hide_spent_nonces_free_def deref_def safe_ok ledger_def)
qed

lemma safe_spent_new: "ledger m \<Longrightarrow> var_spent m v = null \<Longrightarrow> safe m (assign_spent v (hide_spent_nonces_new m))"
  using owned_alloc [of "mem_fresh m" "mem_spent m" "var_spent m" v spent_new]
  by (simp add: assign_spent_def hide_spent_nonces_new_def ledger_def safe_def owned_Suc)

lemma ledger_spent: "ledger m \<Longrightarrow> mem_spent m p \<noteq> None \<Longrightarrow> ledger (m\<lparr>mem_spent := (mem_spent m)(p \<mapsto> x)\<rparr>)"
  by (simp add: ledger_def owned_update)

lemma safe_spent_outcome:
  "ledger m' \<Longrightarrow> m' = m\<lparr>mem_spent := mem_spent m'\<rparr> \<Longrightarrow> safe m (match_ok r code m' (\<lambda>_. Returned HIDE_OK m'))"
  by (cases r) (auto simp: match_ok_def safe_def)

lemma safe_challenge_accept:
  assumes "ledger m"
  shows "safe m (hide_challenge_accept E (var_spent m v) d n sg sn k kn now m)"
  unfolding hide_challenge_accept_def
  by (intro safe_intros safe_spent_outcome) (use assms in \<open>simp_all add: safe_puts ledger_handles ledger_spent\<close>)

lemma ledger_put_optional:
  "ledger m \<Longrightarrow> capacity_law E \<Longrightarrow> empty_buffer m out \<Longrightarrow> ledger (put_optional E out v m)"
  by (simp add: put_optional_def ledger_put_buffer)

lemma put_optional_other: "c \<noteq> out \<or> out = null \<Longrightarrow> empty_buffer m c \<Longrightarrow> empty_buffer (put_optional E out v m) c"
  by (auto simp: put_optional_def put_other)

lemmas safe_simps = safe_puts ledger_handles put_other ledger_put_optional put_optional_other

lemma safe_decrypt:
  assumes "ledger m" "capacity_law E" "empty_buffer m b" "empty_buffer m f" "empty_buffer m t" "b \<noteq> f" "b \<noteq> t" "f \<noteq> t \<or> f = null"
  shows "safe m (hide_decrypt E d n (var_secret m s) b f t m)"
  unfolding hide_decrypt_def
  by (intro safe_intros) (use assms in \<open>auto intro!: safe_puts ledger_put_optional put_optional_other simp: ledger_handles\<close>)

lemmas ffi_bodies =
  hide_keypair_generate_def hide_inspect_key_def hide_secret_key_open_def hide_secret_key_protect_def
  hide_secret_key_public_def hide_encrypt_def hide_public_key_armor_def hide_public_key_dearmor_def
  hide_identity_generate_def hide_signing_identity_open_def hide_signing_identity_public_def
  hide_sign_message_def hide_verify_message_def hide_challenge_new_def hide_challenge_answer_def
  hide_identity_verify_def hide_identity_trusts_device_def hide_identity_head_def hide_epoch_verify_def
  hide_epoch_public_key_def hide_transparency_verify_inclusion_def hide_transparency_verify_consistency_def
  hide_identity_verify_pinned_def hide_epoch_verify_bound_def hide_checkpoint_verify_def

lemma client_safe:
  assumes "ffi_client E m r" "ledger m" "capacity_law E"
  shows "safe m r"
  using assms
proof (induction rule: ffi_client.induct)
  case (c_test_panic m) then show ?case by (simp add: hide_test_panic_def guard_def safe_puts)
next
  case c_buffer_free then show ?case by (simp add: safe_frees)
next
  case c_secret_free then show ?case by (simp add: safe_frees)
next
  case c_identity_free then show ?case by (simp add: safe_frees)
next
  case c_spent_new then show ?case by (simp add: safe_spent_new)
next
  case c_spent_free then show ?case by (simp add: safe_frees)
next
  case c_challenge_accept then show ?case by (simp add: safe_challenge_accept)
next
  case c_decrypt then show ?case by (simp add: safe_decrypt)
qed (unfold ffi_bodies, (intro safe_intros; simp add: safe_simps)+)

lemma run_ledger: "ffi_run E m0 m \<Longrightarrow> ledger m0 \<Longrightarrow> capacity_law E \<Longrightarrow> ledger m"
proof (induction rule: ffi_run.induct)
  case (ffi_next m code m')
  then show ?case using client_safe by (fastforce simp: safe_def)
qed

lemma ledger_given_back:
  assumes "ledger m" "\<forall>c. var_buffer m c = hide_buffer_empty" "\<forall>c. var_secret m c = null" "\<forall>c. var_identity m c = null"
    "\<forall>c. var_spent m c = null"
  shows "mem_blocks m p = None \<and> mem_secrets m p = None \<and> mem_identities m p = None \<and> mem_spent m p = None"
proof -
  have o: "owned (mem_fresh m) (mem_blocks m) (holder (var_buffer m))" "owned (mem_fresh m) (mem_secrets m) (var_secret m)"
    "owned (mem_fresh m) (mem_identities m) (var_identity m)" "owned (mem_fresh m) (mem_spent m) (var_spent m)"
    using assms(1) by (simp_all add: ledger_def)
  have "\<forall>c. holder (var_buffer m) c = null" using assms(2) by (simp add: holder_def hide_buffer_empty_def)
  then show ?thesis using owned_empty [OF o(1)] owned_empty [OF o(2) assms(3)] owned_empty [OF o(3) assms(4)] owned_empty [OF o(4) assms(5)]
    by blast
qed

section \<open>The content of buffers\<close>

definition buffer_bytes :: "ffi_mem \<Rightarrow> addr \<Rightarrow> bytes" where
  "buffer_bytes m c =
     (let b = var_buffer m c in
      if hb_capacity b = 0 then [] else case mem_blocks m (hb_data b) of None \<Rightarrow> [] | Some (bs, _) \<Rightarrow> take (hb_len b) bs)"

definition settled :: "ffi_mem \<Rightarrow> addr \<Rightarrow> bool" where
  "settled m c \<longleftrightarrow> hb_capacity (var_buffer m c) = 0 \<or> hb_data (var_buffer m c) < mem_fresh m"

lemma buffer_bytes_put:
  "capacity_law E \<Longrightarrow> buffer_bytes (put_buffer E c bs m) c = bs"
  "settled (put_buffer E c bs m) c"
  "c \<noteq> out \<Longrightarrow> settled m c \<Longrightarrow> buffer_bytes (put_buffer E out bs m) c = buffer_bytes m c"
  "c \<noteq> out \<Longrightarrow> settled m c \<Longrightarrow> settled (put_buffer E out bs m) c"
  by (auto simp: buffer_bytes_def settled_def put_buffer_def from_vec_def capacity_law_def Let_def
      dest!: spec [of _ bs] split: option.split)

lemma buffer_bytes_secret:
  "buffer_bytes (put_secret v s m) c = buffer_bytes m c"
  by (simp add: buffer_bytes_def put_secret_def Let_def)

lemma chunks_exact_single: "length xs = n \<Longrightarrow> 0 < n \<Longrightarrow> chunks_exact n xs = [xs]"
  by (cases xs) (auto simp: chunks_exact_def)

lemma borrow_whole: "borrow (Some bs) (length bs) limit = (if length bs \<le> limit then Some bs else None)"
  by (auto simp: borrow_def)

lemma put_buffer_secrets:
  "mem_secrets (put_buffer E out bs m) = mem_secrets m" "var_secret (put_buffer E out bs m) = var_secret m"
  by (simp_all add: put_other)

section \<open>Successful calls\<close>

text \<open>A call that returned \<open>HIDE_OK\<close> passed every check.\<close>

lemma codes_ne [simp]:
  "HIDE_ERR_INVALID_ARGUMENT \<noteq> HIDE_OK" "HIDE_ERR_NOT_A_KEY \<noteq> HIDE_OK" "HIDE_ERR_AUTHENTICATION \<noteq> HIDE_OK"
  "HIDE_ERR_MALFORMED \<noteq> HIDE_OK" "HIDE_ERR_INTERNAL \<noteq> HIDE_OK" "HIDE_ERR_PANIC \<noteq> HIDE_OK"
  by (simp_all add: ffi_codes)

lemma object_code_ne [simp]: "object_error_code e \<noteq> HIDE_OK"
  by (cases e) (simp_all add: object_error_code_def ffi_codes)

lemma guard_ok [ok_simps]: "guard r = Returned HIDE_OK m' \<longleftrightarrow> r = Returned HIDE_OK m'"
  by (auto simp: guard_def split: call.splits)

lemma if_ok [ok_simps]:
  "code \<noteq> HIDE_OK \<Longrightarrow> (if b then Returned code m else r) = Returned HIDE_OK m' \<longleftrightarrow> \<not> b \<and> r = Returned HIDE_OK m'"
  by simp

lemma let_some_ok [ok_simps]:
  "code \<noteq> HIDE_OK \<Longrightarrow> let_some v code m f = Returned HIDE_OK m' \<longleftrightarrow> (\<exists>x. v = Some x \<and> f x = Returned HIDE_OK m')"
  by (cases v) (simp_all add: let_some_def)

lemma match_ok_ok [ok_simps]:
  "(\<And>e. code e \<noteq> HIDE_OK) \<Longrightarrow> match_ok v code m f = Returned HIDE_OK m' \<longleftrightarrow> (\<exists>x. v = Inr x \<and> f x = Returned HIDE_OK m')"
  by (cases v) (simp_all add: match_ok_def)

lemma deref_ok [ok_simps]:
  "deref boxes p f = Returned HIDE_OK m' \<longleftrightarrow> (\<exists>x. boxes p = Some x \<and> f x = Returned HIDE_OK m')"
  by (cases "boxes p") (simp_all add: deref_def)

lemma generate_okD:
  assumes "hide_keypair_generate E rng vs vp m = Returned HIDE_OK m'"
  obtains secret pk where "rng = Some secret" "public_key (env_crypto E) secret = Inr pk"
    "m' = put_secret vs secret (put_buffer E vp pk m)"
  using assms by (auto simp: hide_keypair_generate_def random_array_def ok_simps result_simps)

lemma borrow_str_Some: "borrow_str t = Some u \<longleftrightarrow> u = t \<and> (\<forall>s. t = Some s \<longrightarrow> utf8_valid s)"
  by (auto simp: borrow_str_def split: option.splits)

lemma public_from_bytes_Inr: "public_from_bytes A pk = Inr x \<Longrightarrow> x = pk"
  by (auto simp: public_from_bytes_def Let_def split: if_splits)

lemma encrypt_okD:
  assumes "hide_encrypt E draw (Some pt) (length pt) (Some pk) 1 fname mtype vc m = Returned HIDE_OK m'"
    and "length pk = HIDE_PUBLIC_KEY_LEN"
  obtains n c where "\<forall>s. fname = Some s \<or> mtype = Some s \<longrightarrow> utf8_valid s"
    "encrypt (env_crypto E) (env_cbor E) (env_sig E) draw (slice_reader pt) [pk]
       \<lparr>md_filename = fname, md_media_type = mtype, md_signature = None, md_extensions = []\<rparr> = Inr (n, c)"
    "m' = put_buffer E vc c m"
proof -
  have "borrow (Some pk) HIDE_PUBLIC_KEY_LEN FFI_MAX_INPUT = Some pk"
    using assms(2) borrow_whole [of pk FFI_MAX_INPUT] by (simp add: HIDE_PUBLIC_KEY_LEN_def FFI_MAX_INPUT_def)
  moreover have "chunks_exact HIDE_PUBLIC_KEY_LEN pk = [pk]"
    using assms(2) by (intro chunks_exact_single) (simp_all add: HIDE_PUBLIC_KEY_LEN_def)
  ultimately show ?thesis
    using assms(1) that
    by (auto simp: hide_encrypt_def ok_simps result_simps borrow_whole borrow_str_Some split: if_splits dest!: public_from_bytes_Inr)
qed

lemma accept_twice:
  assumes "sig_laws P" "t \<le> expires_at ch" "\<forall>x\<in>set (spent_seen s). fst x \<noteq> ch_nonce ch"
  obtains s' s'' where "accept P s ch (answer P ch i) (verifying_key P i) t = (Inr (), s')"
    "accept P s' ch (answer P ch i) (verifying_key P i) t' = (Inl (if t' \<le> expires_at ch then Replayed else Expired), s'')"
proof -
  obtain s' where a: "accept P s ch (answer P ch i) (verifying_key P i) t = (Inr (), s')"
    using accept_answer [OF assms(1,2), of s i] assms(3) by (metis old.unit.exhaust prod.collapse)
  have "(ch_nonce ch, expires_at ch) \<in> set (spent_seen s')" using accept_okD(4) [OF a] by simp
  then have "t' \<le> expires_at ch \<Longrightarrow> list_ex (\<lambda>(n, _). n = ch_nonce ch) (spent_seen (forget_expired s' t'))"
    by (auto simp: forget_expired_def list_ex_iff)
  then have "fst (accept P s' ch (answer P ch i) (verifying_key P i) t') = Inl (if t' \<le> expires_at ch then Replayed else Expired)"
    using accept_okD(2) [OF a] by (auto simp: accept_def not_le Let_def)
  then show ?thesis using that [OF a] by (cases "accept P s' ch (answer P ch i) (verifying_key P i) t'") simp
qed

lemma accept_call:
  assumes "sig_laws (env_sig E)" "mem_spent m sp = Some s" "sp \<noteq> null" "ch_wf ch" "length (ch_encode ch) \<le> FFI_MAX_KEY_FILE"
    and "sg = answer (env_sig E) ch i" "k = vi_to_bytes (verifying_key (env_sig E) i)"
    and "accept (env_sig E) s ch sg (verifying_key (env_sig E) i) t = (r, s')"
  shows "hide_challenge_accept E sp (Some (ch_encode ch)) (length (ch_encode ch)) (Some sg) (length sg) (Some k) (length k) t m
    = Returned (case r of Inl e \<Rightarrow> challenge_error_code e | Inr _ \<Rightarrow> HIDE_OK) (m\<lparr>mem_spent := (mem_spent m)(sp \<mapsto> s')\<rparr>)"
proof -
  have wf: "vi_wf (env_sig E) (verifying_key (env_sig E) i)" by (rule vi_wf_verifying_key [OF assms(1)])
  then have "vi_from_bytes (env_sig E) k = Inr (verifying_key (env_sig E) i)" using assms(7) by (simp add: vi_from_bytes_iff)
  moreover have "length k = HIDE_VERIFYING_KEY_LEN" "length sg = HIDE_SIGNATURE_LEN"
    using length_vi_to_bytes [OF wf] length_sign [OF assms(1)] assms(6,7)
    by (simp_all add: HIDE_VERIFYING_KEY_LEN_def HIDE_SIGNATURE_LEN_def answer_def)
  moreover have "HIDE_VERIFYING_KEY_LEN \<le> FFI_MAX_KEY_FILE" "HIDE_SIGNATURE_LEN \<le> FFI_MAX_KEY_FILE * 4"
    by (simp_all add: HIDE_VERIFYING_KEY_LEN_def HIDE_SIGNATURE_LEN_def FFI_MAX_KEY_FILE_def VERIFYING_KEY_LENGTH_def
        SIGNATURE_LENGTH_def sign_lengths)
  ultimately show ?thesis
    using assms(2,3,5,8) ch_decode_encode [OF assms(4)] borrow_whole [of k] borrow_whole [of sg]
    by (cases r) (simp_all add: hide_challenge_accept_def borrow_whole let_some_def match_ok_def deref_def guard_def)
qed

section \<open>A concrete library\<close>

definition demo_env :: ffi_env where
  "demo_env = \<lparr>env_crypto = ref_full, env_cbor = ref_cbor, env_sig = ref_sig, env_keyring = demo_keyring, env_b64 = ref_b64,
     env_capacity = length\<rparr>"

lemma capacity_law_demo: "capacity_law demo_env"
  by (simp add: capacity_law_def demo_env_def)

section \<open>Properties\<close>

text \<open>C9. The C interface is memory safe for every client that follows its rules. In every state such a client
  can reach from the start, every call it can make returns a code: no handle or block is used after it
  was freed or freed twice, and no panic unwinds into C. A call that returns an error wrote nothing the
  client can see. A buffer variable holds null, or a block of exactly its length; and when the client has
  given back everything, no block and no key is left: nothing leaks.\<close>

theorem ffi_memory_safe:
  assumes "capacity_law E" "ffi_run E mem_start m"
  shows "(\<forall>r. ffi_client E m r \<longrightarrow>
      (\<exists>code m'. r = Returned code m' \<and> (code \<noteq> HIDE_OK \<longrightarrow> m' = m\<lparr>mem_spent := mem_spent m'\<rparr>))) \<and>
    (\<forall>c. hb_len (var_buffer m c) \<noteq> 0 \<longrightarrow> length (buffer_bytes m c) = hb_len (var_buffer m c)) \<and>
    ((\<forall>c. var_buffer m c = hide_buffer_empty \<and> var_secret m c = null \<and> var_identity m c = null \<and> var_spent m c = null) \<longrightarrow>
      (\<forall>p. mem_blocks m p = None \<and> mem_secrets m p = None \<and> mem_identities m p = None \<and> mem_spent m p = None))"
proof -
  have l: "ledger m" using run_ledger [OF assms(2) ledger_start assms(1)] .
  have "\<exists>code m'. r = Returned code m' \<and> (code \<noteq> HIDE_OK \<longrightarrow> m' = m\<lparr>mem_spent := mem_spent m'\<rparr>)" if "ffi_client E m r" for r
    using client_safe [OF that l assms(1)] by (auto simp: safe_def)
  moreover have "length (buffer_bytes m c) = hb_len (var_buffer m c)" if "hb_len (var_buffer m c) \<noteq> 0" for c
    using ledger_buffer [OF l, of c] that by (auto simp: buffer_ok_def buffer_bytes_def split: if_splits)
  moreover have "mem_blocks m p = None \<and> mem_secrets m p = None \<and> mem_identities m p = None \<and> mem_spent m p = None"
    if "\<forall>c. var_buffer m c = hide_buffer_empty \<and> var_secret m c = null \<and> var_identity m c = null \<and> var_spent m c = null" for p
    using l that by (intro ledger_given_back) auto
  ultimately show ?thesis by blast
qed

theorem ffi_memory_safe_witness:
  "\<exists>m m'. ffi_run demo_env mem_start m \<and> mem_spent m 2 = Some spent_new \<and>
     forget_spent 7 (hide_spent_nonces_free (var_spent m 7) m) = Returned HIDE_OK m' \<and> (\<forall>p. mem_spent m' p = None)"
proof -
  obtain m where m: "assign_spent 7 (hide_spent_nonces_new mem_start) = Returned HIDE_OK m"
      "mem_spent m 2 = Some spent_new" "var_spent m 7 = 2" "var_buffer m = (\<lambda>_. hide_buffer_empty)"
      "var_secret m = (\<lambda>_. null)" "var_identity m = (\<lambda>_. null)" "\<forall>c. c \<noteq> 7 \<longrightarrow> var_spent m c = null"
    by (auto simp: assign_spent_def hide_spent_nonces_new_def mem_start_def)
  have "ffi_client demo_env mem_start (Returned HIDE_OK m)"
    using c_spent_new [of mem_start 7 demo_env] m(1) by (simp add: mem_start_def)
  then have r: "ffi_run demo_env mem_start m" by (rule ffi_next [OF ffi_refl])
  obtain m' where m': "forget_spent 7 (hide_spent_nonces_free (var_spent m 7) m) = Returned HIDE_OK m'"
      "var_buffer m' = var_buffer m" "var_secret m' = var_secret m" "var_identity m' = var_identity m" "\<forall>c. var_spent m' c = null"
    using m(2,3,7) by (auto simp: forget_spent_def hide_spent_nonces_free_def deref_def null_def)
  have r': "ffi_run demo_env mem_start m'" using ffi_next [OF r] c_spent_free [of demo_env m 7] m'(1) by metis
  show ?thesis using ffi_memory_safe [OF capacity_law_demo r'] r m(2,4-6) m' by auto
qed

text \<open>C19. What is encrypted through the C interface decrypts through it. After a key pair was generated, a
  payload encrypted for the public key the library handed out, with any file name and media type, is
  decrypted with the handle to the same payload, file name and media type, if the container fits the 1 GiB
  input limit; a larger container, which \<open>hide_encrypt\<close> does write, is refused as an invalid argument.\<close>

theorem ffi_container_round_trip:
  assumes "epoch_laws (env_crypto E)" "cbor_laws (env_cbor E)" "sig_laws (env_sig E)" "capacity_law E" "fills draw"
    and "ffi_run E mem_start m0" "length secret = 32"
    and "hide_keypair_generate E (Some secret) vs vp m0 = Returned HIDE_OK m1"
    and "hide_encrypt E draw (Some pt) (length pt) (Some (buffer_bytes m1 vp)) 1 fname mtype vc m1 = Returned HIDE_OK m2"
    and "vo \<noteq> null" "vf \<noteq> null" "vt \<noteq> null" "distinct [vo, vf, vt]"
  shows "let c = buffer_bytes m2 vc; r = hide_decrypt E (Some c) (length c) (var_secret m2 vs) vo vf vt m2 in
    if length c \<le> FFI_MAX_INPUT
    then \<exists>m3. r = Returned HIDE_OK m3 \<and> buffer_bytes m3 vo = pt \<and>
      buffer_bytes m3 vf = (case fname of None \<Rightarrow> [] | Some s \<Rightarrow> s) \<and> buffer_bytes m3 vt = (case mtype of None \<Rightarrow> [] | Some s \<Rightarrow> s)
    else r = Returned HIDE_ERR_INVALID_ARGUMENT m2"
proof -
  obtain pk where pk: "public_key (env_crypto E) secret = Inr pk" and m1: "m1 = put_secret vs secret (put_buffer E vp pk m0)"
    using generate_okD [OF assms(8)] by (metis option.inject)
  have laws: "crypto_laws (env_crypto E)" "length pk = HIDE_PUBLIC_KEY_LEN"
    using assms(1,7) pk by (auto simp: epoch_laws_def public_key_def HIDE_PUBLIC_KEY_LEN_def PUBLIC_KEY_LENGTH_def split: if_splits)
  have b: "buffer_bytes m1 vp = pk" using m1 assms(4) by (simp add: buffer_bytes_secret buffer_bytes_put)
  obtain n c where e: "\<forall>s. fname = Some s \<or> mtype = Some s \<longrightarrow> utf8_valid s"
      "encrypt (env_crypto E) (env_cbor E) (env_sig E) draw (slice_reader pt) [pk]
         \<lparr>md_filename = fname, md_media_type = mtype, md_signature = None, md_extensions = []\<rparr> = Inr (n, c)"
      "m2 = put_buffer E vc c m1"
    using encrypt_okD [OF assms(9) [unfolded b] laws(2)] by blast
  obtain md where d: "decrypt_to_staging (env_crypto E) (env_cbor E) (env_sig E) (slice_reader c) secret
      = Inr (\<lparr>vo_metadata = md, vo_plaintext_len = length pt, vo_signer = None\<rparr>, pt)"
      "md\<lparr>md_signature := None\<rparr> = \<lparr>md_filename = fname, md_media_type = mtype, md_signature = None, md_extensions = []\<rparr>"
    using encrypt_then_decrypt [OF laws(1) assms(2,3,5) slice_reader_ok(1) slice_reader_ok(1) _ _ assms(7) pk _ _ e(2)] e(1)
    by (auto simp: md_ty_def slice_reader_ok(2))
  have md: "md_filename md = fname" "md_media_type md = mtype"
    using arg_cong [OF d(2), of md_filename] arg_cong [OF d(2), of md_media_type] by simp_all
  have "dangling < mem_fresh m0" using run_ledger [OF assms(6) ledger_start assms(4)] by (simp add: ledger_def)
  then have "0 < mem_fresh (put_buffer E vp pk m0)" by (auto simp: put_buffer_def from_vec_def Let_def)
  then have h: "var_secret m2 vs \<noteq> null" "mem_secrets m2 (var_secret m2 vs) = Some secret"
    using e(3) m1 by (simp_all add: put_buffer_secrets put_secret_def null_def)
  have "buffer_bytes m2 vc = c" using e(3) assms(4) by (simp add: buffer_bytes_put)
  then show ?thesis
    using h d(1) md assms(4,10-13)
    by (simp add: hide_decrypt_def borrow_whole let_some_def deref_def match_ok_def guard_def put_optional_def buffer_bytes_put Let_def)
qed

theorem ffi_container_round_trip_witness:
  "\<exists>m1 m2 m3. hide_keypair_generate demo_env (Some demo_secret) 10 11 mem_start = Returned HIDE_OK m1 \<and>
     hide_encrypt demo_env demo_draw (Some [1, 2, 3]) 3 (Some (buffer_bytes m1 11)) 1 (Some (ascii ''m'')) None 12 m1 = Returned HIDE_OK m2 \<and>
     hide_decrypt demo_env (Some (buffer_bytes m2 12)) (length (buffer_bytes m2 12)) (var_secret m2 10) 13 14 15 m2 = Returned HIDE_OK m3 \<and>
     buffer_bytes m3 13 = [1, 2, 3] \<and> buffer_bytes m3 14 = ascii ''m''"
proof -
  let ?md = "\<lparr>md_filename = Some (ascii ''m''), md_media_type = None, md_signature = None, md_extensions = []\<rparr>"
  define m1 where "m1 = put_secret 10 demo_secret (put_buffer demo_env 11 demo_public mem_start)"
  have g: "hide_keypair_generate demo_env (Some demo_secret) 10 11 mem_start = Returned HIDE_OK m1"
    using demo_file_key(2) by (simp add: m1_def hide_keypair_generate_def ok_simps random_array_def demo_env_def null_def)
  have b: "buffer_bytes m1 11 = demo_public" by (simp add: m1_def buffer_bytes_secret buffer_bytes_put capacity_law_demo)
  obtain c where c: "encrypt ref_full ref_cbor ref_sig demo_draw (slice_reader [1, 2, 3]) [demo_public] ?md = Inr (3, c)"
    using demo_container [OF _ demo_file_md(1)] by auto
  have k: "borrow (Some demo_public) HIDE_PUBLIC_KEY_LEN FFI_MAX_INPUT = Some demo_public"
      "chunks_exact HIDE_PUBLIC_KEY_LEN demo_public = [demo_public]"
    using borrow_whole [of demo_public FFI_MAX_INPUT] chunks_exact_single [of demo_public] demo_public_ok(2)
    by (simp_all add: HIDE_PUBLIC_KEY_LEN_def FFI_MAX_INPUT_def)
  have p: "borrow (Some [1, 2, 3 :: byte]) (Suc (Suc (Suc 0))) FFI_MAX_INPUT = Some [1, 2, 3]"
    by (simp add: borrow_def FFI_MAX_INPUT_def)
  have e: "hide_encrypt demo_env demo_draw (Some [1, 2, 3]) (length [1, 2, 3 :: byte]) (Some (buffer_bytes m1 11)) 1 (Some (ascii ''m'')) None 12 m1
      = Returned HIDE_OK (put_buffer demo_env 12 c m1)"
    using c k p demo_public_ok(1)
    by (simp add: hide_encrypt_def ok_simps b borrow_str_Some result_simps demo_env_def null_def ascii_def)
  have s: "length (buffer_bytes (put_buffer demo_env 12 c m1) 12) \<le> FFI_MAX_INPUT"
    using demo_container_small [OF c] by (simp add: buffer_bytes_put capacity_law_demo FFI_MAX_INPUT_def)
  have l: "epoch_laws (env_crypto demo_env)" "cbor_laws (env_cbor demo_env)" "sig_laws (env_sig demo_env)"
    using crypto_laws_full cbor_laws_ref sig_laws_ref by (simp_all add: demo_env_def epoch_laws_def ref_full_def PUBLIC_KEY_LENGTH_def)
  from ffi_container_round_trip [OF l capacity_law_demo demo_setup(1) ffi_refl demo_setup(2) g e, of 13 14 15] s
  show ?thesis using g e by (auto simp: Let_def null_def numeral_3_eq_3)
qed

text \<open>C20. A login through the C interface works once. A challenge the verifier made is answered with the
  prover's handle, and the answer is accepted until the challenge expires; the same answer, offered again to
  the same record at any time, is refused as replayed, or as expired. This holds for challenges that fit
  4096 bytes: \<open>hide_challenge_new\<close> also makes longer ones, for a long audience, and \<open>hide_challenge_answer\<close>
  refuses those as an invalid argument.\<close>

theorem ffi_login_once:
  assumes "sig_laws (env_sig E)" "capacity_law E" "length nonce = 32"
    and "hide_challenge_new E (Some nonce) (Some aud) now valid_for vb m1 = Returned HIDE_OK m2"
    and "mem_identities m2 i = Some identity" "i \<noteq> null" "vs \<noteq> null"
    and "mem_spent m2 sp = Some s" "sp \<noteq> null" "\<forall>x\<in>set (spent_seen s). fst x \<noteq> nonce"
    and "t \<le> saturating_add now valid_for"
  shows "let c = buffer_bytes m2 vb; k = vi_to_bytes (verifying_key (env_sig E) identity);
      login = (\<lambda>sg. hide_challenge_accept E sp (Some c) (length c) (Some sg) (length sg) (Some k) (length k)) in
    if length c \<le> FFI_MAX_KEY_FILE
    then \<exists>m3 m4 m5. hide_challenge_answer E i (Some c) (length c) vs m2 = Returned HIDE_OK m3 \<and>
      login (buffer_bytes m3 vs) t m3 = Returned HIDE_OK m4 \<and>
      login (buffer_bytes m3 vs) t' m4
        = Returned (if t' \<le> saturating_add now valid_for then HIDE_ERR_CHALLENGE_REPLAYED else HIDE_ERR_CHALLENGE_EXPIRED) m5
    else hide_challenge_answer E i (Some c) (length c) vs m2 = Returned HIDE_ERR_INVALID_ARGUMENT m2"
proof -
  define ch where "ch = \<lparr>ch_nonce = nonce, ch_audience = aud, ch_issued_at = now, ch_valid_for = valid_for\<rparr>"
  have u: "utf8_valid aud" and m2: "m2 = put_buffer E vb (ch_encode ch) m1"
    using assms(4) by (auto simp: hide_challenge_new_def ok_simps borrow_text_def borrow_str_def ch_new_def ch_def
        split: if_splits bind_splits)
  have b: "buffer_bytes m2 vb = ch_encode ch" using m2 assms(2) by (simp add: buffer_bytes_put)
  show ?thesis
  proof (cases "length (ch_encode ch) \<le> FFI_MAX_KEY_FILE")
    case True
    then have wf: "ch_wf ch" using u assms(3) by (simp add: ch_wf_def ch_def NONCE_LENGTH_def ch_encode_def to_signed_bytes_def FFI_MAX_KEY_FILE_def)
    let ?sg = "answer (env_sig E) ch identity"
    define m3 where "m3 = put_buffer E vs ?sg m2"
    have a: "hide_challenge_answer E i (Some (ch_encode ch)) (length (ch_encode ch)) vs m2 = Returned HIDE_OK m3"
      using True ch_decode_encode [OF wf] assms(5-7) by (simp add: hide_challenge_answer_def ok_simps borrow_whole m3_def)
    have sg: "buffer_bytes m3 vs = ?sg" using assms(2) by (simp add: m3_def buffer_bytes_put)
    have sp: "mem_spent m3 sp = Some s" using assms(8) by (simp add: m3_def put_other)
    have ex: "expires_at ch = saturating_add now valid_for" "ch_nonce ch = nonce" by (simp_all add: expires_at_def ch_def)
    let ?r = "if t' \<le> expires_at ch then Replayed else Expired"
    have live: "t \<le> expires_at ch" "\<forall>x\<in>set (spent_seen s). fst x \<noteq> ch_nonce ch" using assms(10,11) ex by simp_all
    obtain s' s'' where acc: "accept (env_sig E) s ch ?sg (verifying_key (env_sig E) identity) t = (Inr (), s')"
        "accept (env_sig E) s' ch ?sg (verifying_key (env_sig E) identity) t' = (Inl ?r, s'')"
      by (rule accept_twice [OF assms(1) live])
    have code: "challenge_error_code ?r = (if t' \<le> saturating_add now valid_for then HIDE_ERR_CHALLENGE_REPLAYED else HIDE_ERR_CHALLENGE_EXPIRED)"
      using ex by (simp add: challenge_error_code_def)
    define m4 where "m4 = m3\<lparr>mem_spent := (mem_spent m3)(sp \<mapsto> s')\<rparr>"
    have "mem_spent m4 sp = Some s'" by (simp add: m4_def)
    note two = accept_call [OF assms(1) this assms(9) wf True refl refl acc(2)]
    note one = accept_call [OF assms(1) sp assms(9) wf True refl refl acc(1), folded m4_def]
    show ?thesis
      unfolding b Let_def if_P [OF True]
      by (rule exI [of _ m3], rule exI [of _ m4], rule exI) (use a one two code in \<open>simp add: sg\<close>)
  next
    case False
    then show ?thesis using assms(6,7) by (simp add: b hide_challenge_answer_def borrow_whole let_some_def guard_def)
  qed
qed

theorem ffi_login_once_witness:
  "\<exists>m2 m3 m4 m5 c k. hide_challenge_new demo_env (Some (replicate 32 5)) (Some (ascii ''host'')) 100 60 9
        (mem_start\<lparr>mem_identities := [5 \<mapsto> demo_identity], mem_spent := [6 \<mapsto> spent_new]\<rparr>) = Returned HIDE_OK m2 \<and>
     hide_challenge_answer demo_env 5 (Some c) (length c) 10 m2 = Returned HIDE_OK m3 \<and>
     hide_challenge_accept demo_env 6 (Some c) (length c) (Some (buffer_bytes m3 10)) (length (buffer_bytes m3 10)) (Some k) (length k) 120 m3
       = Returned HIDE_OK m4 \<and>
     hide_challenge_accept demo_env 6 (Some c) (length c) (Some (buffer_bytes m3 10)) (length (buffer_bytes m3 10)) (Some k) (length k) 130 m4
       = Returned HIDE_ERR_CHALLENGE_REPLAYED m5"
proof -
  let ?m = "mem_start\<lparr>mem_identities := [5 \<mapsto> demo_identity], mem_spent := [6 \<mapsto> spent_new]\<rparr>"
  define m2 where "m2 = put_buffer demo_env 9 (ch_encode demo_challenge) ?m"
  have n: "hide_challenge_new demo_env (Some (replicate 32 5)) (Some (ascii ''host'')) 100 60 9 ?m = Returned HIDE_OK m2"
    by (simp add: hide_challenge_new_def ok_simps borrow_text_def borrow_str_def ch_new_def m2_def demo_challenge_def null_def ascii_def)
  have m: "mem_identities m2 5 = Some demo_identity" "mem_spent m2 6 = Some spent_new" by (simp_all add: m2_def put_other)
  have l: "length (buffer_bytes m2 9) \<le> FFI_MAX_KEY_FILE"
    by (simp add: m2_def buffer_bytes_put capacity_law_demo ch_encode_def to_signed_bytes_def demo_challenge_def FFI_MAX_KEY_FILE_def)
  have "sig_laws (env_sig demo_env)" using sig_laws_ref by (simp add: demo_env_def)
  from ffi_login_once [OF this capacity_law_demo _ n m(1) _ _ m(2), of 10 120 130] l n show ?thesis
    by (simp add: null_def spent_new_def saturating_add_def Let_def) blast
qed

end

