(* ===== verification/Hide_Wasm.thy ===== *)
theory Hide_Wasm
  imports Hide_Ffi_Safety
begin

text \<open>
  \<open>crates/hide-wasm/src/lib.rs\<close>: the WebAssembly interface. A function takes byte slices and strings and returns a
  value or throws; what is thrown is a text, modelled by the failure the text prints (\<open>JsMalformed\<close> for the
  texts with the prefix \<open>malformed:\<close>). A \<open>SecretKey\<close> wraps a recipient secret and a \<open>SigningIdentity\<close> a signing
  identity, \<open>SpentNonces\<close> the verifier's record, passed on explicitly. On wasm32 a \<open>usize\<close> has 32 bits.
  The last section compares the verdicts of this interface with those of the C interface.
\<close>

section \<open>Errors and limits\<close>

datatype JsValue =
    JsText string
  | JsCrypto CryptoError
  | JsKeyring KeyringError
  | JsObject ObjectError
  | JsSign SignError
  | JsIdentity IdentityError
  | JsEpoch EpochError
  | JsLog log_error
  | JsMalformed JsValue

definition WASM_PUBLIC_KEY_LEN :: nat where
  "WASM_PUBLIC_KEY_LEN = 1216"

definition WASM_MAX_INPUT :: nat where
  "WASM_MAX_INPUT = 64 * 1024 * 1024"

definition MAX_CHALLENGE :: nat where
  "MAX_CHALLENGE = 4096"

definition WASM_MAX_LOG_BYTES :: nat where
  "WASM_MAX_LOG_BYTES = 16 * 1024 * 1024"

section \<open>Keys and containers\<close>

definition wasm_secret_generate :: "bytes option \<Rightarrow> JsValue + bytes" where
  "wasm_secret_generate rng = map_err JsCrypto (random_array rng)"

definition wasm_secret_load :: "crypto_api \<Rightarrow> keyring_api \<Rightarrow> bytes \<Rightarrow> str option \<Rightarrow> JsValue + bytes" where
  "wasm_secret_load A K data passphrase =
     (if 4096 < length data then Inl (JsText ''that file is too large to be a HIDE key'')
      else map_err JsKeyring (key_open A K data passphrase))"

definition wasm_secret_public_key :: "crypto_api \<Rightarrow> bytes \<Rightarrow> JsValue + bytes" where
  "wasm_secret_public_key A secret = map_err JsCrypto (public_key A secret)"

definition wasm_secret_protect ::
  "crypto_api \<Rightarrow> keyring_api \<Rightarrow> bytes option \<Rightarrow> bytes option \<Rightarrow> bytes \<Rightarrow> str \<Rightarrow> JsValue + bytes" where
  "wasm_secret_protect A K rng_salt rng_nonce secret passphrase =
     map_err JsKeyring (protect A K rng_salt rng_nonce secret passphrase)"

record Decrypted =
  dc_data :: bytes
  dc_filename :: "str option"
  dc_media_type :: "str option"

definition parse_recipients :: "crypto_api \<Rightarrow> bytes \<Rightarrow> JsValue + bytes list" where
  "parse_recipients A recipients =
     (if recipients = [] \<or> length recipients mod WASM_PUBLIC_KEY_LEN \<noteq> 0
      then Inl (JsText ''recipients must be whole public keys'')
      else if 64 < length recipients div WASM_PUBLIC_KEY_LEN
      then Inl (JsText ''there must be between 1 and 64 recipients'')
      else mapR (\<lambda>chunk. map_err JsCrypto (public_from_bytes A chunk)) (chunks_exact WASM_PUBLIC_KEY_LEN recipients))"

definition wasm_encrypt ::
  "crypto_api \<Rightarrow> cbor_api \<Rightarrow> sig_api \<Rightarrow> rng \<Rightarrow> bytes \<Rightarrow> bytes \<Rightarrow> str option \<Rightarrow> str option \<Rightarrow> JsValue + bytes" where
  "wasm_encrypt A C P draw plaintext recipients filename media_type =
     (if WASM_MAX_INPUT < length plaintext then Inl (JsText ''that payload is too large for the browser build'')
      else
        bindR (parse_recipients A recipients) (\<lambda>keys.
        let metadata = \<lparr>md_filename = filename, md_media_type = media_type, md_signature = None, md_extensions = []\<rparr> in
        bindR (map_err JsObject (encrypt A C P draw (slice_reader plaintext) keys metadata)) (\<lambda>(_, container).
          Inr container)))"

definition wasm_decrypt :: "crypto_api \<Rightarrow> cbor_api \<Rightarrow> sig_api \<Rightarrow> bytes \<Rightarrow> bytes \<Rightarrow> JsValue + Decrypted" where
  "wasm_decrypt A C P container secret =
     (if WASM_MAX_INPUT < length container then Inl (JsText ''that container is too large for the browser build'')
      else
        bindR (map_err JsObject (decrypt_to_staging A C P (slice_reader container) secret)) (\<lambda>(verified, plaintext).
          Inr \<lparr>dc_data = plaintext, dc_filename = md_filename (vo_metadata verified),
               dc_media_type = md_media_type (vo_metadata verified)\<rparr>))"

definition armor_public_key :: "b64_api \<Rightarrow> bytes \<Rightarrow> JsValue + str" where
  "armor_public_key B pk =
     (if length pk \<noteq> WASM_PUBLIC_KEY_LEN then Inl (JsText ''that is not a HIDE public key'') else Inr (encode_public B pk))"

definition dearmor_public_key :: "b64_api \<Rightarrow> str \<Rightarrow> JsValue + bytes" where
  "dearmor_public_key B s =
     bindR (map_err JsKeyring (decode_public B s)) (\<lambda>bs.
       if length bs \<noteq> WASM_PUBLIC_KEY_LEN then Inl (JsText ''that is not a HIDE public key'') else Inr bs)"

definition inspect_key :: "bytes \<Rightarrow> string" where
  "inspect_key data = (case inspect data of Protected \<Rightarrow> ''protected'' | Raw \<Rightarrow> ''raw'')"

section \<open>Signatures and challenges\<close>

definition wasm_identity_generate ::
  "crypto_api \<Rightarrow> keyring_api \<Rightarrow> bytes option \<Rightarrow> bytes option \<Rightarrow> bytes option \<Rightarrow> str \<Rightarrow> JsValue + bytes" where
  "wasm_identity_generate A K rng rng_salt rng_nonce passphrase =
     bindR (map_err JsKeyring (identity_generate rng)) (\<lambda>identity.
       map_err JsKeyring (protect_identity A K rng_salt rng_nonce identity passphrase))"

definition wasm_identity_load ::
  "crypto_api \<Rightarrow> keyring_api \<Rightarrow> sig_api \<Rightarrow> bytes \<Rightarrow> str option \<Rightarrow> JsValue + SigningIdentity" where
  "wasm_identity_load A K P data passphrase =
     (if 4096 < length data then Inl (JsText ''that file is too large to be a HIDE key'')
      else
        bindR (case inspect data of
            Raw \<Rightarrow> if length data \<noteq> 32 then Inl (JsText ''that file is not a HIDE key'') else Inr data
          | Protected \<Rightarrow>
              bindR (ok_or passphrase (JsText ''that key file needs its passphrase'')) (\<lambda>passphrase.
              bindR (map_err JsKeyring (unprotect_seed A K data passphrase)) (\<lambda>(seed, purpose).
                if purpose \<noteq> Identity
                then Inl (JsText ''that key predates signatures and holds no signing key; create a new identity'')
                else Inr seed))) (\<lambda>seed.
          map_err JsSign (si_from_bytes P (signing_seed K seed))))"

definition wasm_identity_public_key :: "sig_api \<Rightarrow> SigningIdentity \<Rightarrow> bytes" where
  "wasm_identity_public_key P identity = vi_to_bytes (verifying_key P identity)"

definition wasm_sign :: "sig_api \<Rightarrow> SigningIdentity \<Rightarrow> bytes \<Rightarrow> bytes \<Rightarrow> JsValue + bytes" where
  "wasm_sign P identity context message =
     (if WASM_MAX_INPUT < length message then Inl (JsText ''that message is too large for the browser build'')
      else map_err JsSign (sign_application P identity context message))"

definition decode_challenge :: "bytes \<Rightarrow> JsValue + Challenge" where
  "decode_challenge bs =
     (if MAX_CHALLENGE < length bs then Inl (JsText ''that is too large to be a HIDE challenge'')
      else map_err JsSign (ch_decode bs))"

definition wasm_answer :: "sig_api \<Rightarrow> SigningIdentity \<Rightarrow> bytes \<Rightarrow> JsValue + bytes" where
  "wasm_answer P identity challenge = bindR (decode_challenge challenge) (\<lambda>c. Inr (answer P c identity))"

definition wasm_verify :: "sig_api \<Rightarrow> bytes \<Rightarrow> bytes \<Rightarrow> bytes \<Rightarrow> bytes \<Rightarrow> JsValue + unit" where
  "wasm_verify P pk context message signature =
     (if WASM_MAX_INPUT < length message then Inl (JsText ''that message is too large for the browser build'')
      else bindR (map_err JsSign (vi_from_bytes P pk)) (\<lambda>k. map_err JsSign (verify P k context message signature)))"

definition new_challenge :: "bytes option \<Rightarrow> str \<Rightarrow> u64 \<Rightarrow> u64 \<Rightarrow> JsValue + bytes" where
  "new_challenge rng aud now valid_for = bindR (map_err JsSign (ch_new rng aud now valid_for)) (\<lambda>c. Inr (ch_encode c))"

definition js_challenge_error :: "ChallengeError \<Rightarrow> JsValue" where
  "js_challenge_error e =
     JsText (case e of NotSigned \<Rightarrow> ''signature verification failed'' | Expired \<Rightarrow> ''expired'' | Replayed \<Rightarrow> ''replayed'')"

definition wasm_accept ::
  "sig_api \<Rightarrow> SpentNonces \<Rightarrow> bytes \<Rightarrow> bytes \<Rightarrow> bytes \<Rightarrow> u64 \<Rightarrow> (JsValue + unit) \<times> SpentNonces" where
  "wasm_accept P s challenge signature pk now =
     (case bindR (decode_challenge challenge) (\<lambda>c. bindR (map_err JsSign (vi_from_bytes P pk)) (\<lambda>k. Inr (c, k))) of
        Inl e \<Rightarrow> (Inl e, s)
      | Inr (c, k) \<Rightarrow> let (r, s) = accept P s c signature k now in (map_err js_challenge_error r, s))"

section \<open>Identities, epochs and transparency\<close>

definition recovery_key :: "sig_api \<Rightarrow> bytes \<Rightarrow> JsValue + VerifyingIdentity" where
  "recovery_key P bs = map_err JsSign (vi_from_bytes P bs)"

definition identity_entries :: "cbor_api \<Rightarrow> bytes \<Rightarrow> JsValue + Entry list" where
  "identity_entries C log =
     (if WASM_MAX_LOG_BYTES < length log then Inl (JsText ''that log is too large for the browser build'')
      else map_err (JsMalformed \<circ> JsIdentity) (id_decode C log))"

definition verify_identity :: "crypto_api \<Rightarrow> cbor_api \<Rightarrow> sig_api \<Rightarrow> bytes \<Rightarrow> bytes \<Rightarrow> JsValue + nat" where
  "verify_identity A C P log recovery =
     bindR (identity_entries C log) (\<lambda>entries.
     bindR (recovery_key P recovery) (\<lambda>k.
     bindR (map_err JsIdentity (il_verify (sha256 A) P entries k)) (\<lambda>membership.
       Inr (m_len membership))))"

definition identity_trusts_device :: "crypto_api \<Rightarrow> cbor_api \<Rightarrow> sig_api \<Rightarrow> bytes \<Rightarrow> bytes \<Rightarrow> bytes \<Rightarrow> JsValue + bool" where
  "identity_trusts_device A C P log recovery device_public =
     bindR (map_err JsSign (vi_from_bytes P device_public)) (\<lambda>device.
     bindR (identity_entries C log) (\<lambda>entries.
     bindR (recovery_key P recovery) (\<lambda>k.
     bindR (map_err JsIdentity (il_verify (sha256 A) P entries k)) (\<lambda>membership.
       Inr (m_contains membership (device_id (sha256 A) device))))))"

definition identity_head :: "crypto_api \<Rightarrow> cbor_api \<Rightarrow> sig_api \<Rightarrow> bytes \<Rightarrow> bytes \<Rightarrow> JsValue + bytes" where
  "identity_head A C P log recovery =
     bindR (identity_entries C log) (\<lambda>entries.
     bindR (recovery_key P recovery) (\<lambda>k.
     bindR (map_err JsIdentity (from_entries (sha256 A) P entries k)) (\<lambda>log.
       Inr (il_head log))))"

definition epoch_records :: "crypto_api \<Rightarrow> cbor_api \<Rightarrow> bytes \<Rightarrow> JsValue + EpochRecord list" where
  "epoch_records A C chain =
     (if WASM_MAX_LOG_BYTES < length chain then Inl (JsText ''that chain is too large for the browser build'')
      else
        bindR (map_err (JsMalformed \<circ> JsEpoch) (decode_records C chain)) (\<lambda>recs.
        bindR (map_err JsEpoch (ec_verify A recs)) (\<lambda>_. Inr recs)))"

definition verify_epoch_chain :: "crypto_api \<Rightarrow> cbor_api \<Rightarrow> bytes \<Rightarrow> JsValue + nat" where
  "verify_epoch_chain A C chain = bindR (epoch_records A C chain) (\<lambda>recs. Inr (length recs))"

text \<open>\<open>usize::try_from(epoch)\<close> fails on wasm32 from 2 to the 32.\<close>

definition epoch_public_key :: "crypto_api \<Rightarrow> cbor_api \<Rightarrow> bytes \<Rightarrow> u64 \<Rightarrow> JsValue + bytes" where
  "epoch_public_key A C chain epoch =
     bindR (epoch_records A C chain) (\<lambda>recs.
     bindR (if 2 ^ 32 \<le> unat epoch then Inl (JsText ''that epoch is beyond the chain'') else Inr (unat epoch)) (\<lambda>index.
     bindR (ok_or (get_at recs index) (JsText ''that epoch is beyond the chain'')) (\<lambda>record.
       Inr (er_public_key record))))"

definition hash_path :: "bytes \<Rightarrow> JsValue + hash list" where
  "hash_path path =
     (if length path mod 32 \<noteq> 0 \<or> 64 * 32 < length path then Inl (JsText ''a proof path must be whole 32-byte hashes'')
      else Inr (chunks_exact32 path))"

definition wasm_hash :: "bytes \<Rightarrow> string \<Rightarrow> JsValue + bytes" where
  "wasm_hash bs what = (if length bs \<noteq> 32 then Inl (JsText (''the '' @ what @ '' must be 32 bytes'')) else Inr bs)"

definition wasm_verify_inclusion :: "crypto_api \<Rightarrow> bytes \<Rightarrow> u64 \<Rightarrow> u64 \<Rightarrow> bytes \<Rightarrow> bytes \<Rightarrow> JsValue + unit" where
  "wasm_verify_inclusion A leaf index tree_size path root =
     bindR (hash_path path) (\<lambda>path.
     bindR (wasm_hash leaf ''leaf'') (\<lambda>leaf.
     bindR (wasm_hash root ''root'') (\<lambda>root.
       map_err JsLog (verify_inclusion (sha256 A) \<lparr>ip_index = index, ip_size = tree_size, ip_path = path\<rparr> leaf root))))"

definition wasm_verify_consistency :: "crypto_api \<Rightarrow> u64 \<Rightarrow> u64 \<Rightarrow> bytes \<Rightarrow> bytes \<Rightarrow> bytes \<Rightarrow> JsValue + unit" where
  "wasm_verify_consistency A old_size new_size path old_root new_root =
     bindR (hash_path path) (\<lambda>path.
     bindR (wasm_hash old_root ''old root'') (\<lambda>old_root.
     bindR (wasm_hash new_root ''new root'') (\<lambda>new_root.
       map_err JsLog (verify_consistency (sha256 A) \<lparr>cp_old_size = old_size, cp_new_size = new_size, cp_path = path\<rparr> old_root new_root))))"

definition wasm_pinned_log :: "crypto_api \<Rightarrow> cbor_api \<Rightarrow> sig_api \<Rightarrow> bytes \<Rightarrow> bytes \<Rightarrow> bytes \<Rightarrow> JsValue + IdentityLog" where
  "wasm_pinned_log A C P log recovery_binding pinned_root =
     bindR (map_err (JsMalformed \<circ> JsIdentity) (rb_decode P recovery_binding)) (\<lambda>binding.
     bindR (identity_entries C log) (\<lambda>entries.
     bindR (wasm_hash pinned_root ''pinned root'') (\<lambda>root.
       map_err JsIdentity (rb_verify_pinned (sha256 A) P binding entries root))))"

definition verify_identity_pinned :: "crypto_api \<Rightarrow> cbor_api \<Rightarrow> sig_api \<Rightarrow> bytes \<Rightarrow> bytes \<Rightarrow> bytes \<Rightarrow> JsValue + nat" where
  "verify_identity_pinned A C P log recovery_binding pinned_root =
     bindR (wasm_pinned_log A C P log recovery_binding pinned_root) (\<lambda>log. Inr (m_len (il_membership (sha256 A) P log)))"

definition verify_epoch_chain_bound ::
  "crypto_api \<Rightarrow> cbor_api \<Rightarrow> sig_api \<Rightarrow> bytes \<Rightarrow> bytes \<Rightarrow> bytes \<Rightarrow> bytes \<Rightarrow> bytes \<Rightarrow> JsValue + nat" where
  "verify_epoch_chain_bound A C P log recovery_binding pinned_root chain epoch_binding =
     bindR (wasm_pinned_log A C P log recovery_binding pinned_root) (\<lambda>log.
     bindR (epoch_records A C chain) (\<lambda>recs.
     bindR (map_err (JsMalformed \<circ> JsIdentity) (eb_decode epoch_binding)) (\<lambda>binding.
     bindR (map_err JsIdentity (eb_verify A P binding log recs)) (\<lambda>_.
       Inr (length recs)))))"

definition verify_checkpoint ::
  "crypto_api \<Rightarrow> sig_api \<Rightarrow> b64_api \<Rightarrow> bytes \<Rightarrow> str \<Rightarrow> bytes \<Rightarrow> u64 \<Rightarrow> JsValue + bytes" where
  "verify_checkpoint A P B note origin log_public expected_size =
     bindR (map_err JsSign (vi_from_bytes P log_public)) (\<lambda>k.
     bindR (map_err JsLog (ck_verify (sha256 A) P B note origin k)) (\<lambda>checkpoint.
       if ck_size checkpoint \<noteq> expected_size then Inl (JsText ''the checkpoint is for a different tree size'')
       else Inr (ck_root checkpoint)))"

section \<open>Agreement with the C interface\<close>

lemma put_number_inj: "put_number out v m = put_number out w m \<longleftrightarrow> v = w"
proof
  assume "put_number out v m = put_number out w m"
  then have "var_number (put_number out v m) out = var_number (put_number out w m) out" by simp
  then show "v = w" by (simp add: put_number_def)
qed simp

lemma match_code_ok [ok_simps]:
  "(\<And>e. v = Inl e \<Longrightarrow> e \<noteq> HIDE_OK) \<Longrightarrow>
     match_ok v (\<lambda>c. c) m f = Returned HIDE_OK m' \<longleftrightarrow> (\<exists>x. v = Inr x \<and> f x = Returned HIDE_OK m')"
  by (cases v) (auto simp: match_ok_def)

lemma ffi_limits: "FFI_MAX_LOG_BYTES = WASM_MAX_LOG_BYTES" "WASM_MAX_LOG_BYTES = 16777216" "FFI_MAX_KEY_FILE = 4096"
  by (simp_all add: FFI_MAX_LOG_BYTES_def WASM_MAX_LOG_BYTES_def FFI_MAX_KEY_FILE_def)

lemma vi_bytes_fit: "vi_from_bytes P k = Inr v \<Longrightarrow> length k \<le> FFI_MAX_KEY_FILE"
  using length_vi_to_bytes [of P v] by (simp add: vi_from_bytes_iff FFI_MAX_KEY_FILE_def VERIFYING_KEY_LENGTH_def sign_lengths)

lemma pinned_code: "pinned_log E log n b bn r rn = Inl e \<Longrightarrow> e \<noteq> HIDE_OK"
  by (auto simp: pinned_log_def result_simps ffi_codes split: if_splits)

lemma pinned_agree:
  "pinned_log E (Some log) (length log) (Some b) (length b) (Some r) (length r) = Inr il \<longleftrightarrow>
     wasm_pinned_log (env_crypto E) (env_cbor E) (env_sig E) log b r = Inr il"
  by (auto simp: pinned_log_def wasm_pinned_log_def identity_entries_def wasm_hash_def borrow_whole ffi_limits rb_decode_def
      result_simps split: if_splits)

lemmas wasm_defs = identity_entries_def recovery_key_def epoch_records_def hash_path_def wasm_hash_def

lemmas agree_simps = ok_simps result_simps borrow_whole ffi_limits put_number_inj

lemma identity_agree:
  "out \<noteq> null \<Longrightarrow> verify_identity (env_crypto E) (env_cbor E) (env_sig E) log rec = Inr n \<longleftrightarrow>
     hide_identity_verify E (Some log) (length log) (Some rec) (length rec) out m = Returned HIDE_OK (put_number out (int n) m)"
  by (auto simp: verify_identity_def hide_identity_verify_def wasm_defs agree_simps dest: vi_bytes_fit split: if_splits)

lemma trusts_agree:
  "out \<noteq> null \<Longrightarrow> identity_trusts_device (env_crypto E) (env_cbor E) (env_sig E) log rec dev = Inr t \<longleftrightarrow>
     hide_identity_trusts_device E (Some log) (length log) (Some rec) (length rec) (Some dev) (length dev) out m
       = Returned HIDE_OK (put_number out (if t then 1 else 0) m)"
  by (auto simp: identity_trusts_device_def hide_identity_trusts_device_def wasm_defs agree_simps dest: vi_bytes_fit split: if_splits)

lemma epoch_agree:
  "out \<noteq> null \<Longrightarrow> verify_epoch_chain (env_crypto E) (env_cbor E) chain = Inr n \<longleftrightarrow>
     hide_epoch_verify E (Some chain) (length chain) out m = Returned HIDE_OK (put_number out (int n) m)"
  by (auto simp: verify_epoch_chain_def hide_epoch_verify_def wasm_defs agree_simps split: if_splits)

lemma epoch_key_agree:
  assumes "out \<noteq> null" "capacity_law E"
  shows "epoch_public_key (env_crypto E) (env_cbor E) chain e = Inr pk \<longleftrightarrow>
     (\<exists>m'. hide_epoch_public_key E (Some chain) (length chain) e out m = Returned HIDE_OK m' \<and> buffer_bytes m' out = pk)"
proof -
  have "unat e < 2 ^ 32" if "ec_verify (env_crypto E) recs = Inr ()" "get_at recs (unat e) = Some r" for recs r
    using that by (auto simp: ec_verify_iff get_at_def MAX_CHAIN_ENTRIES_def split: if_splits)
  then show ?thesis
    using assms by (fastforce simp: epoch_public_key_def hide_epoch_public_key_def wasm_defs agree_simps buffer_bytes_put split: if_splits)
qed

lemma head_agree:
  "out \<noteq> null \<Longrightarrow> capacity_law E \<Longrightarrow> identity_head (env_crypto E) (env_cbor E) (env_sig E) log rec = Inr h \<longleftrightarrow>
     (\<exists>m'. hide_identity_head E (Some log) (length log) (Some rec) (length rec) out m = Returned HIDE_OK m' \<and> buffer_bytes m' out = h)"
  by (auto simp: identity_head_def hide_identity_head_def wasm_defs agree_simps buffer_bytes_put dest: vi_bytes_fit split: if_splits)

lemma inclusion_agree:
  "wasm_verify_inclusion (env_crypto E) leaf i sz path root = Inr () \<longleftrightarrow>
     hide_transparency_verify_inclusion E (Some leaf) (length leaf) i sz (Some path) (length path) (Some root) (length root) m = Returned HIDE_OK m"
  by (auto simp: wasm_verify_inclusion_def hide_transparency_verify_inclusion_def wasm_defs agree_simps split: if_splits)

lemma consistency_agree:
  "wasm_verify_consistency (env_crypto E) os ns path r1 r2 = Inr () \<longleftrightarrow>
     hide_transparency_verify_consistency E os ns (Some path) (length path) (Some r1) (length r1) (Some r2) (length r2) m = Returned HIDE_OK m"
  by (auto simp: wasm_verify_consistency_def hide_transparency_verify_consistency_def wasm_defs agree_simps split: if_splits)

lemma pinned_count_agree:
  "out \<noteq> null \<Longrightarrow> verify_identity_pinned (env_crypto E) (env_cbor E) (env_sig E) log b r = Inr n \<longleftrightarrow>
     hide_identity_verify_pinned E (Some log) (length log) (Some b) (length b) (Some r) (length r) out m
       = Returned HIDE_OK (put_number out (int n) m)"
  by (auto simp: verify_identity_pinned_def hide_identity_verify_pinned_def agree_simps pinned_code pinned_agree split: if_splits)

lemma bound_agree:
  "out \<noteq> null \<Longrightarrow> verify_epoch_chain_bound (env_crypto E) (env_cbor E) (env_sig E) log b r chain eb = Inr n \<longleftrightarrow>
     hide_epoch_verify_bound E (Some log) (length log) (Some b) (length b) (Some r) (length r) (Some chain) (length chain)
       (Some eb) (length eb) out m = Returned HIDE_OK (put_number out (int n) m)"
  by (auto simp: verify_epoch_chain_bound_def hide_epoch_verify_bound_def wasm_defs agree_simps pinned_code pinned_agree
      eb_verify_def eb_decode_def split: if_splits)

section \<open>Properties\<close>



end
