(* ===== verification/Hide_Desktop.thy ===== *)
theory Hide_Desktop
  imports Hide_Cli_Files
begin

text \<open>
  \<open>apps/hide-desktop/src-tauri/src/lib.rs\<close>: the commands of the desktop application. Unlike the command line,
  a command writes to the file system while it runs, so each returns its result together with the file
  system it leaves, on errors too. Paths are Unix paths. An error is the failure that its text
  prints. \<open>partial\<close> stands for what an encryption that fails has written by then. Failures of the disk
  (a missing directory, a full disk) are not modelled.
\<close>

section \<open>Files and keys\<close>

datatype AppError =
    AppText string
  | AppIo string
  | AppKeyring KeyringError
  | AppCrypto CryptoError
  | AppObject ObjectError

type_synonym 'a command = "(AppError + 'a) \<times> fs"

definition MAX_MESSAGE_LEN :: nat where
  "MAX_MESSAGE_LEN = 2 ^ 20"

definition desk_read_bounded :: "fs \<Rightarrow> path \<Rightarrow> nat \<Rightarrow> AppError + bytes" where
  "desk_read_bounded fs path limit =
     (case fs path of
        None \<Rightarrow> Inl (AppIo ''could not open the file'')
      | Some bs \<Rightarrow> if limit < length bs then Inl (AppText ''that file is too large to be a HIDE key'') else Inr bs)"

text \<open>\<open>File::create_new\<close>: an existing file is refused.\<close>

definition create_new :: "fs \<Rightarrow> path \<Rightarrow> AppError + fs" where
  "create_new fs path =
     (if fs path \<noteq> None then Inl (AppText ''that file already exists; choose another name'') else Inr (fs(path \<mapsto> [])))"

definition load_public :: "crypto_api \<Rightarrow> b64_api \<Rightarrow> fs \<Rightarrow> path \<Rightarrow> AppError + bytes" where
  "load_public A B fs path =
     bindR (desk_read_bounded fs path MAX_KEY_FILE) (\<lambda>bs.
     bindR (if starts_with bs PUBLIC_LABEL
            then if \<not> utf8_valid bs then Inl (AppText ''that public key file is not valid text'')
                 else map_err AppKeyring (decode_public B bs)
            else Inr bs) (\<lambda>raw.
     if length raw \<noteq> PUBLIC_KEY_LEN then Inl (AppText ''that file is not a HIDE public key'')
     else map_err AppCrypto (public_from_bytes A raw)))"

definition desk_load_secret :: "crypto_api \<Rightarrow> keyring_api \<Rightarrow> fs \<Rightarrow> path \<Rightarrow> str option \<Rightarrow> AppError + bytes" where
  "desk_load_secret A K fs path passphrase =
     bindR (desk_read_bounded fs path MAX_KEY_FILE) (\<lambda>bs.
       if inspect bs = Protected \<and> passphrase = None then Inl (AppText ''this key is protected; enter its passphrase'')
       else map_err AppKeyring (key_open A K bs passphrase))"

text \<open>\<open>directory.join(file)\<close> for a relative file name, and a name as a path.\<close>

definition join_path :: "path \<Rightarrow> path \<Rightarrow> path" where
  "join_path directory name =
     (if directory = [] \<or> last directory = CHR ''/'' then directory @ name else directory @ ''/'' @ name)"

definition name_path :: "str \<Rightarrow> path" where
  "name_path name = map (\<lambda>b. char_of (unat b)) name"

record KeyPair =
  kp_public_path :: path
  kp_secret_path :: path
  kp_armored_public :: str
  kp_protected :: bool

definition bad_name :: "str \<Rightarrow> bool" where
  "bad_name name \<longleftrightarrow> list_ex (\<lambda>c. c = 0x2F \<or> c = 0x5C \<or> c = 0x3A) name \<or> starts_with name [0x2E]"

definition key_material ::
  "crypto_api \<Rightarrow> keyring_api \<Rightarrow> bytes option \<Rightarrow> bytes option \<Rightarrow> bytes option \<Rightarrow> str option \<Rightarrow> AppError + bytes \<times> bytes" where
  "key_material A K rng rng_salt rng_nonce passphrase =
     bindR (map_err AppKeyring (identity_generate rng)) (\<lambda>identity.
     bindR (map_err AppKeyring (recipient_secret K identity)) (\<lambda>secret.
     bindR (map_err AppCrypto (public_key A secret)) (\<lambda>pk.
     bindR (case passphrase of
              Some passphrase \<Rightarrow> map_err AppKeyring (protect_identity A K rng_salt rng_nonce identity passphrase)
            | None \<Rightarrow> Inr identity) (\<lambda>sealed.
       Inr (pk, sealed)))))"

definition generate_keys ::
  "crypto_api \<Rightarrow> keyring_api \<Rightarrow> b64_api \<Rightarrow> bytes option \<Rightarrow> bytes option \<Rightarrow> bytes option \<Rightarrow> fs \<Rightarrow> path \<Rightarrow> str \<Rightarrow> str option \<Rightarrow>
   KeyPair command" where
  "generate_keys A K B rng rng_salt rng_nonce fs directory name passphrase =
     (let name = str_trim name in
      if name = [] then (Inl (AppText ''choose a name for the key''), fs)
      else if bad_name name then (Inl (AppText ''the name may not contain a path or start with a dot''), fs)
      else
        let secret_path = join_path directory (name_path name @ ''.hide-key'');
            public_path = join_path directory (name_path name @ ''.hide-pub'')
        in case key_material A K rng rng_salt rng_nonce passphrase of
             Inl e \<Rightarrow> (Inl e, fs)
           | Inr (pk, secret_file) \<Rightarrow>
               (case create_new fs secret_path of
                  Inl e \<Rightarrow> (Inl e, fs)
                | Inr fs \<Rightarrow>
                    let fs = fs(secret_path \<mapsto> secret_file) in
                    (case create_new fs public_path of
                       Inl e \<Rightarrow> (Inl e, fs)
                     | Inr fs \<Rightarrow>
                         (Inr \<lparr>kp_public_path = public_path, kp_secret_path = secret_path,
                               kp_armored_public = encode_public B pk, kp_protected = (passphrase \<noteq> None)\<rparr>,
                          fs(public_path \<mapsto> pk)))))"

section \<open>Containers\<close>

definition load_publics :: "crypto_api \<Rightarrow> b64_api \<Rightarrow> fs \<Rightarrow> path list \<Rightarrow> AppError + bytes list" where
  "load_publics A B fs paths =
     (if paths = [] \<or> 64 < length paths then Inl (AppText ''choose between 1 and 64 recipients'')
      else mapR (load_public A B fs) paths)"

definition desk_encrypt_file ::
  "crypto_api \<Rightarrow> cbor_api \<Rightarrow> sig_api \<Rightarrow> b64_api \<Rightarrow> rng \<Rightarrow> file_reader \<Rightarrow> bytes \<Rightarrow> fs \<Rightarrow> path \<Rightarrow> path list \<Rightarrow> path \<Rightarrow>
   (nat \<times> nat) command" where
  "desk_encrypt_file A C P B draw fr partial fs input recipients output =
     (let start =
        bindR (load_publics A B fs recipients) (\<lambda>recipients.
        bindR (case file_name input of
                 Some name \<Rightarrow> if utf8_valid (ascii name) then Inr (ascii name)
                              else Inl (AppText ''that filename cannot be represented as text'')
               | None \<Rightarrow> Inl (AppText ''that filename cannot be represented as text'')) (\<lambda>filename.
        bindR (ok_or (fs input) (AppIo ''could not open the input'')) (\<lambda>bs.
        bindR (create_new fs output) (\<lambda>fs. Inr (recipients, filename, fr bs, fs)))))
      in case start of
           Inl e \<Rightarrow> (Inl e, fs)
         | Inr (recipients, filename, source, fs) \<Rightarrow>
             let metadata = \<lparr>md_filename = Some filename, md_media_type = None, md_signature = None, md_extensions = []\<rparr> in
             (case encrypt A C P draw source recipients metadata of
                Inl e \<Rightarrow> (Inl (AppObject e), fs(output \<mapsto> partial))
              | Inr (written, container) \<Rightarrow> (Inr (written, length recipients), fs(output \<mapsto> container))))"

text \<open>\<open>Path::with_extension\<close>: the extension of the last component is replaced; a dot at its start begins no
  extension, and what follows the component is dropped.\<close>

definition file_stem :: "string \<Rightarrow> string" where
  "file_stem name =
     (let ext = takeWhile (\<lambda>c. c \<noteq> CHR ''.'') (rev name); stem = take (length name - length ext - 1) name
      in if CHR ''.'' \<notin> set name \<or> stem = [] then name else stem)"

fun join_components :: "string list \<Rightarrow> path" where
  "join_components [] = []"
| "join_components [c] = c"
| "join_components (c # cs) = c @ ''/'' @ join_components cs"

definition with_extension :: "path \<Rightarrow> string \<Rightarrow> path" where
  "with_extension path ext =
     (let cs = rev (dropWhile (\<lambda>c. c = [] \<or> c = ''.'') (rev (path_split path)))
      in if cs = [] \<or> last cs = ''..'' then path
         else join_components (butlast cs @ [file_stem (last cs) @ ''.'' @ ext]))"

definition staging_path :: "path \<Rightarrow> path" where
  "staging_path output = with_extension output ''hide-part''"

text \<open>\<open>rename\<close> replaces what is at the target.\<close>

definition rename :: "path \<Rightarrow> path \<Rightarrow> fs \<Rightarrow> fs" where
  "rename from to fs = (fs(from := None))(to := fs from)"

definition desk_decrypt_file ::
  "crypto_api \<Rightarrow> keyring_api \<Rightarrow> cbor_api \<Rightarrow> sig_api \<Rightarrow> file_reader \<Rightarrow> fs \<Rightarrow> path \<Rightarrow> path \<Rightarrow> str option \<Rightarrow> path \<Rightarrow>
   (nat \<times> str option) command" where
  "desk_decrypt_file A K C P fr fs input secret passphrase output =
     (let staging = staging_path output;
          start =
            bindR (desk_load_secret A K fs secret passphrase) (\<lambda>secret.
            bindR (ok_or (fs input) (AppIo ''could not open the input'')) (\<lambda>bs.
            bindR (create_new fs staging) (\<lambda>fs. Inr (secret, fr bs, fs))))
      in case start of
           Inl e \<Rightarrow> (Inl e, fs)
         | Inr (secret, source, fs) \<Rightarrow>
             (case decrypt_to_staging A C P source secret of
                Inl e \<Rightarrow> (Inl (AppObject e), fs(staging := None))
              | Inr (verified, plaintext) \<Rightarrow>
                  (Inr (vo_plaintext_len verified, md_filename (vo_metadata verified)),
                   rename staging output (fs(staging \<mapsto> plaintext)))))"

section \<open>Messages and descriptions\<close>

definition desk_seal_message ::
  "crypto_api \<Rightarrow> cbor_api \<Rightarrow> sig_api \<Rightarrow> b64_api \<Rightarrow> rng \<Rightarrow> fs \<Rightarrow> str \<Rightarrow> path list \<Rightarrow> AppError + str" where
  "desk_seal_message A C P B draw fs message recipients =
     (if message = [] then Inl (AppText ''write a message first'')
      else if MAX_MESSAGE_LEN < length message then Inl (AppText ''that message is too long; encrypt it as a file instead'')
      else
        bindR (load_publics A B fs recipients) (\<lambda>recipients.
        let metadata = \<lparr>md_filename = None, md_media_type = Some (ascii ''text/plain''), md_signature = None, md_extensions = []\<rparr> in
        bindR (map_err AppObject (encrypt A C P draw (slice_reader message) recipients metadata)) (\<lambda>(_, container).
        let body = b64_enc B container in
        Inr (MESSAGE_HEADER @ [NL]
             @ concat (map (\<lambda>chunk. (if utf8_valid chunk then chunk else []) @ [NL]) (chunks_of 76 body))
             @ MESSAGE_FOOTER @ [NL]))))"

definition desk_unseal_message ::
  "crypto_api \<Rightarrow> keyring_api \<Rightarrow> cbor_api \<Rightarrow> sig_api \<Rightarrow> b64_api \<Rightarrow> fs \<Rightarrow> str \<Rightarrow> path \<Rightarrow> str option \<Rightarrow> AppError + str" where
  "desk_unseal_message A K C P B fs armored secret passphrase =
     (let body = concat (map str_trim
                   (takeWhile (\<lambda>line. \<not> str_contains MESSAGE_FOOTER line)
                     (drop 1 (dropWhile (\<lambda>line. \<not> str_contains MESSAGE_HEADER line) (str_lines armored)))))
      in if body = [] then Inl (AppText ''no HIDE message found in that text'')
         else
           bindR (ok_or (b64_dec B body) (AppText ''that message is damaged or incomplete'')) (\<lambda>container.
           bindR (desk_load_secret A K fs secret passphrase) (\<lambda>secret.
           bindR (map_err AppObject (decrypt_to_staging A C P (slice_reader container) secret)) (\<lambda>(_, plaintext).
           if utf8_valid plaintext then Inr plaintext
           else Inl (AppText ''this is not a text message; open it as a file instead'')))))"

datatype DeskDescription =
    DeskProtectedKey
  | DeskPlainKey
  | DeskPublicKey
  | DeskContainer byte byte nat

definition desk_describe_key :: "bytes \<Rightarrow> DeskDescription option" where
  "desk_describe_key bs =
     (case inspect bs of
        Protected \<Rightarrow> Some DeskProtectedKey
      | Raw \<Rightarrow> if length bs = 32 then Some DeskPlainKey else if length bs = PUBLIC_KEY_LEN then Some DeskPublicKey else None)"

definition desk_describe :: "file_reader \<Rightarrow> fs \<Rightarrow> path \<Rightarrow> AppError + DeskDescription" where
  "desk_describe fr fs path =
     (let container =
        bindR (ok_or (fs path) (AppIo ''could not open the file'')) (\<lambda>bs.
        bindR (map_err (\<lambda>_. AppText ''that file is not a HIDE container or key'') (read_exact (fr bs) 16)) (\<lambda>(preamble, _).
        if take 8 preamble \<noteq> MAGIC then Inl (AppText ''that file is not a HIDE container or key'')
        else Inr (DeskContainer (preamble ! 8) (preamble ! 9) (length bs))))
      in case desk_read_bounded fs path MAX_KEY_FILE of
           Inl _ \<Rightarrow> container
         | Inr bs \<Rightarrow> (case desk_describe_key bs of Some d \<Rightarrow> Inr d | None \<Rightarrow> container))"

definition read_public_armor :: "crypto_api \<Rightarrow> b64_api \<Rightarrow> fs \<Rightarrow> path \<Rightarrow> AppError + str" where
  "read_public_armor A B fs path =
     bindR (desk_read_bounded fs path MAX_KEY_FILE) (\<lambda>bs.
       if length bs \<noteq> PUBLIC_KEY_LEN then Inl (AppText ''that file is not a HIDE public key'')
       else bindR (map_err AppCrypto (public_from_bytes A bs)) (\<lambda>_. Inr (encode_public B bs)))"

section \<open>Lemmas\<close>

lemma create_new_Inr: "create_new fs p = Inr fs' \<longleftrightarrow> fs p = None \<and> fs' = fs(p \<mapsto> [])"
  by (auto simp: create_new_def)

text \<open>A decryption that fails leaves the file system as it was; one that succeeds has published the verified
  payload under the output name, whatever was there, and nothing else changed.\<close>

lemma desk_decrypt_outcome:
  assumes "desk_decrypt_file A K C P fr fs input secret passphrase output = (r, fs')"
  shows "case r of
      Inl e \<Rightarrow> fs' = fs
    | Inr (n, name) \<Rightarrow> \<exists>sk bs verified plaintext. desk_load_secret A K fs secret passphrase = Inr sk \<and> fs input = Some bs \<and>
        decrypt_to_staging A C P (fr bs) sk = Inr (verified, plaintext) \<and> n = vo_plaintext_len verified \<and>
        name = md_filename (vo_metadata verified) \<and> fs' = fs(output \<mapsto> plaintext)"
proof (cases "desk_load_secret A K fs secret passphrase")
  case (Inr sk)
  show ?thesis
  proof (cases "fs input = None \<or> fs (staging_path output) \<noteq> None")
    case True
    then show ?thesis using assms Inr by (cases "fs input") (auto simp: desk_decrypt_file_def create_new_def Let_def)
  next
    case False
    then obtain bs where bs: "fs input = Some bs" "fs (staging_path output) = None" by auto
    have "(fs(staging_path output \<mapsto> x))(staging_path output := None) = fs" for x using bs(2) by auto
    then show ?thesis
      using assms Inr bs by (auto simp: desk_decrypt_file_def create_new_def rename_def Let_def split: sum.splits prod.splits)
  qed
qed (use assms in \<open>auto simp: desk_decrypt_file_def Let_def\<close>)

text \<open>Both programs read a key file and a public key in the same way.\<close>

lemma key_open_same:
  "map_err AppKeyring (key_open A K bs (Some pw)) = Inr sk \<longleftrightarrow>
     bindR (case inspect bs of
         Raw \<Rightarrow> if length bs \<noteq> 32 then Inl (CliMessage ''not a HIDE secret key'') else Inr (LoadedIdentity bs)
       | Protected \<Rightarrow>
           bindR (map_err CliKeyring (unprotect_seed A K bs pw)) (\<lambda>(seed, purpose).
             case purpose of
               Identity \<Rightarrow> Inr (LoadedIdentity seed)
             | Encryption \<Rightarrow> bindR (map_err CliCrypto (secret_from_bytes seed)) (\<lambda>secret. Inr (EncryptionOnly secret))))
       (\<lambda>k. case k of LoadedIdentity seed \<Rightarrow> map_err CliKeyring (recipient_secret K seed) | EncryptionOnly secret \<Rightarrow> Inr secret) = Inr sk"
proof (cases "inspect bs")
  case Protected
  show ?thesis
  proof (cases "unprotect_seed A K bs pw")
    case (Inr r)
    obtain seed purpose where "r = (seed, purpose)" by (cases r)
    then show ?thesis
      using Protected Inr by (cases purpose; cases "secret_from_bytes seed") (simp_all add: key_open_def result_simps)
  qed (simp add: key_open_def Protected)
qed (simp add: key_open_def SEED_LEN_def result_simps)

lemma load_secret_same: "desk_load_secret A K fs p (Some pw) = Inr sk \<longleftrightarrow> load_secret A K fs p (Inr pw) = Inr sk"
proof (cases "fs p")
  case (Some bs)
  then show ?thesis
    using key_open_same [of A K bs pw sk]
    by (cases "MAX_KEY_FILE < length bs"; cases "inspect bs")
      (simp_all add: desk_load_secret_def load_secret_def load_key_def desk_read_bounded_def read_bounded_def)
qed (simp add: desk_load_secret_def load_secret_def load_key_def desk_read_bounded_def read_bounded_def)

lemma load_public_same: "load_public A B fs p = Inr k \<longleftrightarrow> load_recipient A B fs p = Inr k"
  by (auto simp: load_public_def load_recipient_def desk_read_bounded_def read_bounded_def result_simps split: option.splits if_splits)

lemma load_publics_same: "load_publics A B fs ps = Inr ks \<longleftrightarrow> load_recipients A B fs ps = Inr ks"
  by (auto simp: load_publics_def load_recipients_def mapR_Inr_iff load_public_same)

lemma desk_encryptE:
  assumes "desk_encrypt_file A C P B draw fr partial fs input paths container = (Inr w, fs')"
  obtains recipients name bs c where "load_publics A B fs paths = Inr recipients" "file_name input = Some name"
    "utf8_valid (ascii name)" "fs input = Some bs" "fs container = None" "fs' = fs(container \<mapsto> c)"
    "encrypt A C P draw (fr bs) recipients
       \<lparr>md_filename = Some (ascii name), md_media_type = None, md_signature = None, md_extensions = []\<rparr> = Inr (fst w, c)"
  using assms
  by (auto simp: desk_encrypt_file_def result_simps create_new_Inr Let_def split: sum.splits prod.splits option.splits if_splits)

section \<open>Properties\<close>

text \<open>C18. The desktop application and the command line open each other's files. A file that the desktop encrypts
  is created without touching any other; the desktop decrypts it, for the holder of the key of any recipient, to
  the same content and reports the original name, and the command line's \<open>open\<close> writes the same content.
  They differ on an output that exists: the command line refuses, the desktop replaces it.\<close>

theorem desktop_file_round_trip:
  assumes "crypto_laws A" "cbor_laws C" "sig_laws P" "fills draw" "delivers fr"
    and "desk_encrypt_file A C P B draw fr partial fs input paths container = (Inr w, fs1)"
    and "load_publics A B fs paths = Inr recipients"
    and "desk_load_secret A K fs secret_path (Some pw) = Inr secret" "length secret = 32"
    and "public_key A secret = Inr r0" "r0 \<in> set recipients" "\<forall>r\<in>set recipients. r \<noteq> r0 \<longrightarrow> closed_to A secret r"
    and "fs1 (staging_path output) = None"
  shows "\<exists>bs c name. fs input = Some bs \<and> file_name input = Some name \<and> fs container = None \<and> fs1 = fs(container \<mapsto> c) \<and>
    desk_decrypt_file A K C P fr fs1 container secret_path (Some pw) output
      = (Inr (length bs, Some (ascii name)), fs1(output \<mapsto> bs)) \<and>
    open_file A K C P fr fs1 container secret_path (Inr pw) output
      = (if fs1 output = None then Inr ([Create output bs], None)
         else Inl (CliMessage ''output already exists; refusing to overwrite''))"
proof -
  obtain name bs c where e: "file_name input = Some name" "utf8_valid (ascii name)" "fs input = Some bs" "fs container = None"
      "fs1 = fs(container \<mapsto> c)"
      "encrypt A C P draw (fr bs) recipients
         \<lparr>md_filename = Some (ascii name), md_media_type = None, md_signature = None, md_extensions = []\<rparr> = Inr (fst w, c)"
    using desk_encryptE [OF assms(6)] assms(7) by (metis sum.inject(2))
  have rd: "reader_ok (fr x)" "content (fr x) = x" for x using assms(5) by (simp_all add: delivers_def)
  obtain md where d: "decrypt_to_staging A C P (fr c) secret
      = Inr (\<lparr>vo_metadata = md, vo_plaintext_len = length bs, vo_signer = None\<rparr>, bs)"
      "md\<lparr>md_signature := None\<rparr> = \<lparr>md_filename = Some (ascii name), md_media_type = None, md_signature = None, md_extensions = []\<rparr>"
    using encrypt_then_decrypt [OF assms(1-4) rd(1) rd(1) _ _ assms(9-12) e(6) rd(2)] e(2) rd(2) by (auto simp: md_ty_def)
  have md: "md_filename md = Some (ascii name)" using arg_cong [OF d(2), of md_filename] by simp
  obtain kf where "fs secret_path = Some kf" using assms(8) by (auto simp: desk_load_secret_def desk_read_bounded_def split: option.splits)
  then have "fs1 secret_path = fs secret_path" using e(4,5) by auto
  then have sec: "desk_load_secret A K fs1 secret_path (Some pw) = Inr secret"
    using assms(8) by (simp add: desk_load_secret_def desk_read_bounded_def)
  have c: "fs1 container = Some c" using e(5) by simp
  have "(fs1(staging_path output := None)) = fs1" using assms(13) by auto
  then have "desk_decrypt_file A K C P fr fs1 container secret_path (Some pw) output = (Inr (length bs, Some (ascii name)), fs1(output \<mapsto> bs))"
    using sec c d(1) md assms(13) by (simp add: desk_decrypt_file_def create_new_def rename_def)
  moreover have "load_secret A K fs1 secret_path (Inr pw) = Inr secret" using sec load_secret_same by metis
  then have "open_file A K C P fr fs1 container secret_path (Inr pw) output
      = (if fs1 output = None then Inr ([Create output bs], None) else Inl (CliMessage ''output already exists; refusing to overwrite''))"
    using c d(1) by (simp add: open_file_def open_input_def new_output_def)
  ultimately show ?thesis using e(1,3-5) by blast
qed

theorem desktop_file_round_trip_witness:
  "\<exists>fs1. desk_encrypt_file ref_full ref_cbor ref_sig ref_b64 demo_draw slice_reader [] demo_fs ''m'' [''p''] ''c'' = (Inr (3, 1), fs1) \<and>
     fs1 ''p'' = Some demo_public \<and>
     desk_decrypt_file ref_full demo_keyring ref_cbor ref_sig slice_reader fs1 ''c'' ''k'' (Some []) ''p''
       = (Inr (3, Some (ascii ''m'')), fs1(''p'' \<mapsto> [1, 2, 3]))"
proof -
  have n: "file_name ''m'' = Some ''m''" "utf8_valid (ascii ''m'')" by (simp_all add: file_name_def ascii_def)
  have l: "load_publics ref_full ref_b64 demo_fs [''p''] = Inr [demo_public]" using demo_recipient load_publics_same by blast
  obtain c where c: "encrypt ref_full ref_cbor ref_sig demo_draw (slice_reader [1, 2, 3]) [demo_public]
      \<lparr>md_filename = Some (ascii ''m''), md_media_type = None, md_signature = None, md_extensions = []\<rparr> = Inr (3, c)"
    using demo_container [OF _ demo_file_md(1)] by auto
  define fs1 where "fs1 = demo_fs(''c'' \<mapsto> c)"
  have e: "desk_encrypt_file ref_full ref_cbor ref_sig ref_b64 demo_draw slice_reader [] demo_fs ''m'' [''p''] ''c'' = (Inr (3, 1), fs1)"
    using n l c by (simp add: desk_encrypt_file_def create_new_def fs1_def)
  have "staging_path ''p'' = ''p.hide-part''" by (simp add: staging_path_def with_extension_def file_stem_def)
  then have st: "fs1 (staging_path ''p'') = None" "fs1 ''p'' = Some demo_public" by (simp_all add: fs1_def demo_fs_def)
  have k: "desk_load_secret ref_full demo_keyring demo_fs ''k'' (Some []) = Inr demo_secret"
    using demo_file_key(1) load_secret_same by blast
  have "\<exists>bs c name. demo_fs ''m'' = Some bs \<and> file_name ''m'' = Some name \<and> demo_fs ''c'' = None \<and> fs1 = demo_fs(''c'' \<mapsto> c) \<and>
      desk_decrypt_file ref_full demo_keyring ref_cbor ref_sig slice_reader fs1 ''c'' ''k'' (Some []) ''p''
        = (Inr (length bs, Some (ascii name)), fs1(''p'' \<mapsto> bs)) \<and>
      open_file ref_full demo_keyring ref_cbor ref_sig slice_reader fs1 ''c'' ''k'' (Inr []) ''p''
        = (if fs1 ''p'' = None then Inr ([Create ''p'' bs], None)
           else Inl (CliMessage ''output already exists; refusing to overwrite''))"
    by (rule desktop_file_round_trip [OF crypto_laws_full cbor_laws_ref sig_laws_ref demo_setup(1) slice_delivers(1) e l k demo_setup(2)
        demo_file_key(2) _ _ st(1)]) simp_all
  then show ?thesis using e n(1) st(2) by (auto simp: numeral_3_eq_3)
qed

end
