(* ===== verification/Hide_Fuzz.thy ===== *)
theory Hide_Fuzz
  imports Hide_Object Hide_Challenge Hide_Bindings Hide_Epoch_Store Hide_Transparency
begin

text \<open>
  \<open>fuzz/fuzz_targets\<close>: what each fuzz target asserts of an arbitrary input. A target is a boolean
  function of the input, true when no assertion fails: the assertions of a target (\<open>assert!\<close>, \<open>assert_eq!\<close>,
  \<open>unwrap\<close> and \<open>expect\<close> on a result) are its conjuncts. Calls whose result a target discards are calls of
  total functions here and do not appear. The theorems show that no input makes a target fail.
\<close>

section \<open>Targets\<close>

text \<open>\<open>if let Ok(x) = r { ... }\<close>: the body is checked on success only.\<close>

definition if_ok :: "'e + 'a \<Rightarrow> ('a \<Rightarrow> bool) \<Rightarrow> bool" where
  "if_ok r f = (case r of Inr x \<Rightarrow> f x | Inl _ \<Rightarrow> True)"

definition PROVER :: "sig_api \<Rightarrow> SignError + VerifyingIdentity" where
  "PROVER P = bindR (si_from_bytes P (replicate SEED_LENGTH 0x42)) (\<lambda>identity. Inr (verifying_key P identity))"

definition challenge_decode :: "sig_api \<Rightarrow> bytes \<Rightarrow> bool" where
  "challenge_decode P data =
     if_ok (ch_decode data) (\<lambda>challenge.
       ch_encode challenge = data \<and>
       (case PROVER P of
          Inl _ \<Rightarrow> False
        | Inr prover \<Rightarrow>
            let (_, spent) = accept P spent_new challenge data prover (expires_at challenge)
            in spent_len spent = 0))"

definition checkpoint_note :: "b64_api \<Rightarrow> bytes \<Rightarrow> bool" where
  "checkpoint_note B data \<longleftrightarrow>
     if_ok (note_decode B data) (\<lambda>note. note_encode B note = data) \<and>
     if_ok (inclusion_decode data) (\<lambda>p. inclusion_encode p = Inr data) \<and>
     if_ok (consistency_decode data) (\<lambda>p. consistency_encode p = Inr data)"

definition epoch_chain :: "cbor_api \<Rightarrow> bytes \<Rightarrow> bool" where
  "epoch_chain C data = if_ok (decode_records C data) (\<lambda>records. encode_records C records = Inr data)"

definition epoch_store :: "cbor_api \<Rightarrow> bytes \<Rightarrow> bool" where
  "epoch_store C data = if_ok (reencode_unauthenticated C data) (\<lambda>again. again = data)"

definition format_header :: "cbor_api \<Rightarrow> bytes \<Rightarrow> bool" where
  "format_header C data \<longleftrightarrow>
     (PREAMBLE_LEN \<le> length data \<longrightarrow>
       (let prefix = take PREAMBLE_LEN data in
        if_ok (pre_decode prefix) (\<lambda>preamble.
          pre_from_parts (header_len_usize preamble) (pre_minor preamble) (pre_flags preamble) = Inr preamble \<and>
          pre_encode preamble = prefix \<and>
          (pre_is_signed preamble \<longleftrightarrow> pre_is_legacy preamble \<or> pre_flags preamble \<noteq> 0)))) \<and>
     if_ok (decode_header C data) (\<lambda>(protected, _). if_ok (ph_decode C protected) (\<lambda>header. ph_encode C header = Inr protected)) \<and>
     if_ok (ph_decode C data) (\<lambda>header. ph_encode C header = Inr data) \<and>
     if_ok (md_decode C data) (\<lambda>metadata. md_encode C metadata = Inr data)"

definition identity_bindings :: "sig_api \<Rightarrow> bytes \<Rightarrow> bool" where
  "identity_bindings P data \<longleftrightarrow>
     if_ok (rb_decode P data) (\<lambda>binding. rb_encode binding = data) \<and>
     if_ok (eb_decode data) (\<lambda>binding. eb_encode binding = data)"

text \<open>The loop of \<open>identity_log\<close> counts the positions at which the two encodings differ; it fails at one that
  is not the header of a legacy entry.\<close>

fun count_differing :: "bytes \<Rightarrow> bytes \<Rightarrow> nat option" where
  "count_differing (ours # r) (theirs # s) =
     (if ours = theirs then count_differing r s
      else if ours = 0x87 \<and> theirs = 0x86 then map_option Suc (count_differing r s)
      else None)"
| "count_differing _ _ = Some 0"

definition identity_log :: "cbor_api \<Rightarrow> bytes \<Rightarrow> bool" where
  "identity_log C data =
     if_ok (id_decode C data) (\<lambda>entries.
       case id_encode C entries of
         Inl _ \<Rightarrow> False
       | Inr reencoded \<Rightarrow>
           length reencoded = length data \<and>
           (case count_differing reencoded data of
              None \<Rightarrow> False
            | Some differing \<Rightarrow> differing = 0 \<or> differing = length entries))"

definition keyring_open :: "b64_api \<Rightarrow> bytes \<Rightarrow> bool" where
  "keyring_open B data \<longleftrightarrow>
     (utf8_valid data \<longrightarrow>
       if_ok (decode_public B data) (\<lambda>bs. decode_public B (encode_public B bs) = Inr bs))"

definition object_open :: "crypto_api \<Rightarrow> cbor_api \<Rightarrow> sig_api \<Rightarrow> bytes \<Rightarrow> bytes \<Rightarrow> bool" where
  "object_open A C P secret data =
     if_ok (decrypt_to_staging A C P (slice_reader data) secret) (\<lambda>(verified, out). length out = vo_plaintext_len verified)"

definition transparency_proofs :: "bytes \<Rightarrow> bool" where
  "transparency_proofs data \<longleftrightarrow>
     (\<not> length data < 16 + 64 \<longrightarrow> if_ok (decode_checkpoint data) (\<lambda>(sz, root). encode_checkpoint sz root = data))"

section \<open>Lemmas\<close>

lemma if_okI: "(\<And>x. r = Inr x \<Longrightarrow> f x) \<Longrightarrow> if_ok r f"
  by (simp add: if_ok_def split: sum.splits)

lemma preamble_target:
  "if_ok (pre_decode bs) (\<lambda>p. pre_from_parts (header_len_usize p) (pre_minor p) (pre_flags p) = Inr p \<and> pre_encode p = bs \<and>
     (pre_is_signed p \<longleftrightarrow> pre_is_legacy p \<or> pre_flags p \<noteq> 0))"
proof (rule if_okI)
  fix p
  assume "pre_decode bs = Inr p"
  then have p: "pre_wf p" "pre_encode p = bs" using pre_encode_decode by auto
  have "(f :: byte) AND 1 \<noteq> 0" if "f \<noteq> 0" "f AND NOT 1 = 0" for f
    using that by (metis and.right_neutral bit.conj_disj_distrib bit.disj_cancel_right or.left_neutral)
  then have "pre_flags p \<noteq> 0 \<longleftrightarrow> pre_flags p AND FLAG_SIGNED \<noteq> 0" using p(1) by (auto simp: pre_wf_def FLAG_SIGNED_def)
  then show "pre_from_parts (header_len_usize p) (pre_minor p) (pre_flags p) = Inr p \<and> pre_encode p = bs \<and>
     (pre_is_signed p \<longleftrightarrow> pre_is_legacy p \<or> pre_flags p \<noteq> 0)"
    using p by (simp add: pre_from_parts_iff pre_is_signed_def)
qed

text \<open>CBOR array headers of up to 23 items are one byte.\<close>

definition small_arrays :: "cbor_api \<Rightarrow> bool" where
  "small_arrays C \<longleftrightarrow> enc_array C 6 = [0x86] \<and> enc_array C 7 = [0x87]"

lemma count_same [simp]: "count_differing (a @ r) (a @ s) = count_differing r s"
  by (induction a) simp_all

lemma count_self [simp]: "count_differing a a = Some 0"
  by (induction a) simp_all

lemma count_legacy:
  "small_arrays C \<Longrightarrow> count_differing (concat (map (encode_entry C Current) es)) (concat (map (encode_entry C Legacy) es)) = Some (length es)
   \<and> length (concat (map (encode_entry C Current) es)) = length (concat (map (encode_entry C Legacy) es))"
  by (induction es)
     (simp_all add: encode_entry_def framing_header_def ENTRY_FIELDS_def LEGACY_ENTRY_HEADER_def small_arrays_def)

lemma log_target:
  assumes "cbor_laws C" "small_arrays C"
  shows "identity_log C data"
  unfolding identity_log_def
proof (rule if_okI)
  fix es
  assume "id_decode C data = Inr es"
  then obtain framing where "encode_framed C es framing = Inr data" using encode_decode_log [OF assms(1)] by blast
  then show "case id_encode C es of Inl _ \<Rightarrow> False | Inr reencoded \<Rightarrow> length reencoded = length data \<and>
      (case count_differing reencoded data of None \<Rightarrow> False | Some differing \<Rightarrow> differing = 0 \<or> differing = length es)"
    using count_legacy [OF assms(2), of es] by (cases framing) (auto simp: id_encode_def encode_framed_def)
qed

lemma challenge_target:
  assumes "\<And>c prover. ch_decode data = Inr c \<Longrightarrow> PROVER P = Inr prover \<Longrightarrow>
    \<not> is_ok (verify P prover CHALLENGE_CONTEXT (to_signed_bytes c) data)"
  shows "challenge_decode P data"
  unfolding challenge_decode_def
proof (rule if_okI)
  fix c
  assume c: "ch_decode data = Inr c"
  obtain prover where p: "PROVER P = Inr prover" by (simp add: PROVER_def si_from_bytes_def require_length_def)
  from assms [OF c p] obtain x where "verify P prover CHALLENGE_CONTEXT (to_signed_bytes c) data = Inl x"
    by (cases "verify P prover CHALLENGE_CONTEXT (to_signed_bytes c) data") auto
  then show "ch_encode c = data \<and> (case PROVER P of Inl _ \<Rightarrow> False | Inr prover \<Rightarrow>
      let (_, spent) = accept P spent_new c data prover (expires_at c) in spent_len spent = 0)"
    using ch_encode_decode [OF c] p by (simp add: accept_def spent_len_def spent_new_def)
qed

section \<open>Properties\<close>

text \<open>C39. No input makes a fuzz target fail. For every byte string, every parser that the targets drive
  accepts only the canonical encoding of what it returns (an identity log in the legacy framing differs
  from the current one exactly in the header of each entry), an answer that does not verify spends no
  nonce, the preamble reads as it was built, and a decrypted object has the length it reports. The input is
  assumed not to be a valid signature by the fixed test key over the challenge that it encodes.\<close>

theorem fuzz_targets_hold:
  assumes "crypto_laws A" "cbor_laws C" "small_arrays C" "b64_laws B"
    and "\<And>c prover. ch_decode data = Inr c \<Longrightarrow> PROVER P = Inr prover \<Longrightarrow>
      \<not> is_ok (verify P prover CHALLENGE_CONTEXT (to_signed_bytes c) data)"
  shows "challenge_decode P data \<and> checkpoint_note B data \<and> epoch_chain C data \<and> epoch_store C data \<and> format_header C data \<and>
    identity_bindings P data \<and> identity_log C data \<and> keyring_open B data \<and> object_open A C P secret data \<and> transparency_proofs data"
proof (intro conjI)
  show "challenge_decode P data" by (rule challenge_target [OF assms(5)])
  show "checkpoint_note B data"
    using note_encode_decode [of B data] encode_decode_proof(1) [of _ data]
    by (auto simp: checkpoint_note_def inclusion_decode_def inclusion_encode_def consistency_decode_def consistency_encode_def result_simps
        intro!: if_okI)
  show "epoch_chain C data" by (auto simp: epoch_chain_def intro!: if_okI dest: encode_decode_records)
  show "epoch_store C data"
    using reencode_parsed [OF assms(2)] by (auto simp: epoch_store_def reencode_unauthenticated_def result_simps intro!: if_okI)
  show "format_header C data"
    using preamble_target [of "take PREAMBLE_LEN data"]
    by (auto simp: format_header_def Let_def intro!: if_okI dest: ph_encode_decode md_encode_decode [OF assms(2)])
  show "identity_bindings P data" by (auto simp: identity_bindings_def rb_decode_iff eb_decode_iff intro!: if_okI)
  show "identity_log C data" by (rule log_target [OF assms(2,3)])
  show "keyring_open B data" by (auto simp: keyring_open_def decode_encode_public [OF assms(4)] intro!: if_okI)
  show "object_open A C P secret data"
    by (auto simp: object_open_def slice_reader_ok dest: decrypted_length [OF assms(1), rotated] intro!: if_okI)
  show "transparency_proofs data"
    by (auto simp: transparency_proofs_def decode_checkpoint_def intro!: if_okI)
qed

text \<open>The assertion of \<open>transparency_proofs\<close> on checkpoints is never reached: it looks only at inputs of at
  least 80 bytes, and a checkpoint is 40 bytes.\<close>

theorem checkpoint_assertion_unreachable:
  "\<not> length data < 16 + 64 \<Longrightarrow> \<not> is_ok (decode_checkpoint data)"
  by (simp add: decode_checkpoint_def)

theorem fuzz_targets_hold_witness:
  "is_ok (ch_decode (ch_encode demo_challenge)) \<and> challenge_decode ref_sig (ch_encode demo_challenge) \<and>
   identity_log ref_cbor (ch_encode demo_challenge)"
proof -
  have "small_arrays ref_cbor" by (simp add: small_arrays_def ref_cbor_def cbor_head_def)
  moreover have "\<not> is_ok (verify ref_sig prover CHALLENGE_CONTEXT m (ch_encode demo_challenge))" for m prover
    by (simp add: verify_def ch_encode_def to_signed_bytes_def demo_challenge_def require_length_def sign_lengths)
  moreover have "ch_wf demo_challenge" by (simp add: ch_wf_def demo_challenge_def ascii_def NONCE_LENGTH_def)
  then have "is_ok (ch_decode (ch_encode demo_challenge))" by (simp add: ch_decode_encode)
  ultimately show ?thesis
    using fuzz_targets_hold [OF crypto_laws_ref cbor_laws_ref _ b64_laws_ref, of "ch_encode demo_challenge" ref_sig "[]"] by blast
qed

end
