(* ===== verification/Hide_Object_Vectors.thy ===== *)
theory Hide_Object_Vectors
  imports Hide_Object
begin

text \<open>
  \<open>crates/hide-object/src/lib.rs\<close>, feature \<open>test-vectors\<close>: the functions with which the conformance vectors are
  made and the attacks of a malicious recipient are mounted. The latter open a container with the secret
  of a recipient, change something, and renew every authenticator that the content key allows. A slice
  out of range panics: the result is then \<open>None\<close>. The properties are the two statements these functions
  exist for: a stripped signature is refused, and a replaced payload is accepted only from a container
  without a signature or with a signature that is valid for another transcript.
\<close>

section \<open>Attacks\<close>

definition encrypt_stripped_signature_for_test ::
  "crypto_api \<Rightarrow> cbor_api \<Rightarrow> sig_api \<Rightarrow> rng \<Rightarrow> reader \<Rightarrow> bytes list \<Rightarrow> Metadata \<Rightarrow> SigningIdentity \<Rightarrow> ObjectError + nat \<times> bytes" where
  "encrypt_stripped_signature_for_test A C P draw input recipients metadata identity =
     bindR (validate_recipients recipients) (\<lambda>_.
     bindR (map_err Crypto (draw_material draw)) (\<lambda>material.
     bindR (map_err Crypto (wrap_all A draw 3 recipients (om_cek material) (om_object_id material))) (\<lambda>stanzas.
       encrypt_inner A C P input metadata material stanzas (Some (identity, Stripped)) shape_default)))"

text \<open>The first steps that the three functions share: the preamble, the end of the header, the protected
  header, its decoded form, and the content key.\<close>

definition open_parts ::
  "crypto_api \<Rightarrow> cbor_api \<Rightarrow> bytes \<Rightarrow> bytes \<Rightarrow> (ObjectError + Preamble \<times> nat \<times> bytes \<times> ProtectedHeader \<times> bytes) option" where
  "open_parts A C container secret =
     (if length container < PREAMBLE_LEN then None
      else case pre_decode (take PREAMBLE_LEN container) of
        Inl e \<Rightarrow> Some (Inl (Format e))
      | Inr preamble \<Rightarrow>
          let header_end = PREAMBLE_LEN + header_len_usize preamble in
          if length container < header_end then None
          else Some (
            bindR (map_err Format (decode_header C (drop PREAMBLE_LEN (take header_end container)))) (\<lambda>(protected, tag).
            bindR (map_err Format (ph_decode C protected)) (\<lambda>header.
            bindR (recover_cek A secret header (take PREAMBLE_LEN container) protected tag) (\<lambda>cek.
              Inr (preamble, header_end, protected, header, cek))))))"

definition forge_payload_for_test ::
  "crypto_api \<Rightarrow> cbor_api \<Rightarrow> bytes \<Rightarrow> bytes \<Rightarrow> bytes \<Rightarrow> (ObjectError + bytes) option" where
  "forge_payload_for_test A C container secret replacement =
     (case open_parts A C container secret of
        None \<Rightarrow> None
      | Some (Inl e) \<Rightarrow> Some (Inl e)
      | Some (Inr (_, header_end, protected, header, cek)) \<Rightarrow>
          if length container < header_end + 16 then None
          else
            let salt = take 16 (drop header_end container);
                k = payload_key A cek (ph_object_id header) salt;
                forged = take (header_end + 16) container
            in Some (bindR (encrypt_records A (slice_reader replacement) forged k (ph_object_id header) (hash A [protected]))
                 (\<lambda>(_, forged). Inr forged)))"

text \<open>The preamble with another minor version, flags and header length.\<close>

definition patch_preamble :: "bytes \<Rightarrow> byte option \<Rightarrow> byte option \<Rightarrow> nat \<Rightarrow> bytes" where
  "patch_preamble bs minor flags len =
     take 12 (bs[9 := (case minor of Some m \<Rightarrow> m | None \<Rightarrow> bs ! 9), 11 := (case flags of Some f \<Rightarrow> f | None \<Rightarrow> bs ! 11)])
     @ be32 (of_nat len)"

text \<open>The last steps of the two rewriting functions: MAC, header, salt and payload under the content key.\<close>

definition reassemble ::
  "crypto_api \<Rightarrow> cbor_api \<Rightarrow> bytes \<Rightarrow> bytes \<Rightarrow> bytes \<Rightarrow> bytes \<Rightarrow> bytes \<Rightarrow> bytes \<Rightarrow> ObjectError + bytes" where
  "reassemble A C preamble protected cek object_id salt plaintext =
     (let tag = mac A (header_mac_key A cek object_id) [preamble, protected] in
      bindR (map_err Format (encode_header C protected tag)) (\<lambda>framed.
      bindR (encrypt_records A (slice_reader plaintext) (preamble @ framed @ salt) (payload_key A cek object_id salt)
               object_id (hash A [protected])) (\<lambda>(_, out). Inr out)))"

definition rewrite_for_test ::
  "crypto_api \<Rightarrow> cbor_api \<Rightarrow> sig_api \<Rightarrow> bytes \<Rightarrow> bytes \<Rightarrow> byte option \<Rightarrow> byte option \<Rightarrow> (ProtectedHeader \<Rightarrow> ProtectedHeader) \<Rightarrow>
   (bytes \<Rightarrow> bytes) \<Rightarrow> (ObjectError + bytes) option" where
  "rewrite_for_test A C P container secret minor flags edit edit_metadata =
     (case open_parts A C container secret of
        None \<Rightarrow> None
      | Some (Inl e) \<Rightarrow> Some (Inl e)
      | Some (Inr (preamble, header_end, _, header, cek)) \<Rightarrow>
          (case (bindR (decrypt_to_staging A C P (slice_reader container) secret) (\<lambda>(_, plaintext).
                 let k = metadata_key A cek (ph_object_id header); aad = metadata_aad (ph_object_id header) in
                 bindR (map_err Crypto (open_sealed A k (replicate 12 0) aad (ph_encrypted_metadata header))) (\<lambda>metadata.
                 bindR (map_err Crypto (seal A k (replicate 12 0) aad (edit_metadata metadata))) (\<lambda>em.
                 let header = edit (header\<lparr>ph_encrypted_metadata := em\<rparr>) in
                 bindR (map_err Format (ph_encode C header)) (\<lambda>protected.
                 bindR (map_err Format (encode_header C protected (replicate 32 0))) (\<lambda>sized.
                   Inr (plaintext, header, protected, length sized))))))) of
             Inl e \<Rightarrow> Some (Inl e)
           | Inr (plaintext, header, protected, len) \<Rightarrow>
               if length container < header_end + 16 then None
               else Some (reassemble A C (patch_preamble (pre_encode preamble) minor flags len) protected cek (ph_object_id header)
                      (take 16 (drop header_end container)) plaintext)))"

definition rewrite_header_for_test ::
  "crypto_api \<Rightarrow> cbor_api \<Rightarrow> sig_api \<Rightarrow> bytes \<Rightarrow> bytes \<Rightarrow> byte option \<Rightarrow> (ProtectedHeader \<Rightarrow> ProtectedHeader) \<Rightarrow>
   (ObjectError + bytes) option" where
  "rewrite_header_for_test A C P container secret minor edit = rewrite_for_test A C P container secret minor None edit id"

definition replace_protected_for_test ::
  "crypto_api \<Rightarrow> cbor_api \<Rightarrow> sig_api \<Rightarrow> bytes \<Rightarrow> bytes \<Rightarrow> bytes \<Rightarrow> (ObjectError + bytes) option" where
  "replace_protected_for_test A C P container secret protected =
     (case open_parts A C container secret of
        None \<Rightarrow> None
      | Some (Inl e) \<Rightarrow> Some (Inl e)
      | Some (Inr (preamble, header_end, _, header, cek)) \<Rightarrow>
          (case (bindR (decrypt_to_staging A C P (slice_reader container) secret) (\<lambda>(_, plaintext).
                 bindR (map_err Format (encode_header C protected (replicate 32 0))) (\<lambda>sized.
                   Inr (plaintext, length sized)))) of
             Inl e \<Rightarrow> Some (Inl e)
           | Inr (plaintext, len) \<Rightarrow>
               if length container < header_end + 16 then None
               else Some (reassemble A C (patch_preamble (pre_encode preamble) None None len) protected cek (ph_object_id header)
                      (take 16 (drop header_end container)) plaintext)))"

section \<open>Deterministic containers\<close>

definition wrap_cek_for_vector :: "crypto_api \<Rightarrow> bytes \<Rightarrow> bytes \<Rightarrow> bytes \<Rightarrow> bytes \<Rightarrow> CryptoError + WrappedKey" where
  "wrap_cek_for_vector A recipient cek object_id seed = wrap_with_rng A recipient cek object_id seed"

definition encrypt_for_vector_inner ::
  "crypto_api \<Rightarrow> cbor_api \<Rightarrow> sig_api \<Rightarrow> reader \<Rightarrow> bytes \<Rightarrow> Metadata \<Rightarrow> (SigningIdentity \<times> SignaturePlacement) option \<Rightarrow> VectorShape \<Rightarrow>
   ObjectError + nat \<times> bytes" where
  "encrypt_for_vector_inner A C P input recipient metadata signer shape =
     (let material = \<lparr>om_cek = replicate 32 0x11, om_object_id = replicate 32 0x22, om_payload_salt = replicate 16 0x33\<rparr> in
      bindR (map_err Crypto (wrap_cek_for_vector A recipient (om_cek material) (om_object_id material) (replicate 32 0x44))) (\<lambda>wrapped.
        encrypt_inner A C P input metadata material
          [\<lparr>rs_encapsulation = wk_encapsulation wrapped, rs_wrapped_cek = wk_wrapped_cek wrapped\<rparr>] signer shape))"

definition encrypt_for_vector ::
  "crypto_api \<Rightarrow> cbor_api \<Rightarrow> sig_api \<Rightarrow> reader \<Rightarrow> bytes \<Rightarrow> Metadata \<Rightarrow> ObjectError + nat \<times> bytes" where
  "encrypt_for_vector A C P input recipient metadata =
     encrypt_for_vector_inner A C P input recipient metadata None shape_default"

definition encrypt_signed_for_vector ::
  "crypto_api \<Rightarrow> cbor_api \<Rightarrow> sig_api \<Rightarrow> reader \<Rightarrow> bytes \<Rightarrow> Metadata \<Rightarrow> SigningIdentity \<Rightarrow> SignaturePlacement \<Rightarrow> ObjectError + nat \<times> bytes" where
  "encrypt_signed_for_vector A C P input recipient metadata identity placement =
     encrypt_for_vector_inner A C P input recipient metadata (Some (identity, placement)) shape_default"

definition encrypt_shaped_for_vector ::
  "crypto_api \<Rightarrow> cbor_api \<Rightarrow> sig_api \<Rightarrow> reader \<Rightarrow> bytes \<Rightarrow> Metadata \<Rightarrow> (SigningIdentity \<times> SignaturePlacement) option \<Rightarrow> VectorShape \<Rightarrow>
   ObjectError + nat \<times> bytes" where
  "encrypt_shaped_for_vector A C P input recipient metadata signer shape =
     encrypt_for_vector_inner A C P input recipient metadata signer shape"

section \<open>Lemmas\<close>

text \<open>A container that decrypts opens to the parts that decryption has used.\<close>

lemma open_parts_of:
  assumes "container = preb @ framed @ salt @ rest" "length preb = PREAMBLE_LEN" "pre_decode preb = Inr pre"
    and "header_len_usize pre = length framed" "decode_header C framed = Inr (protected, tag)"
    and "ph_decode C protected = Inr header" "recover_cek A secret header preb protected tag = Inr cek"
  shows "open_parts A C container secret = Some (Inr (pre, PREAMBLE_LEN + length framed, protected, header, cek))"
  using assms by (simp add: open_parts_def Let_def)

lemma forged_container:
  assumes "crypto_laws A" "container = preb @ framed @ salt @ rest" "length preb = PREAMBLE_LEN" "length salt = 16"
    and "open_parts A C container secret = Some (Inr (pre, PREAMBLE_LEN + length framed, protected, header, cek))"
    and "length replacement \<le> MAX_CHUNKS * CHUNK_LEN"
  shows "forge_payload_for_test A C container secret replacement = Some (Inr (preb @ framed @ salt
    @ records A (payload_key A cek (ph_object_id header) salt) (ph_object_id header) (hash A [protected]) 0 replacement))"
proof -
  have k: "length (payload_key A cek (ph_object_id header) salt) = 32" by (simp add: payload_key_def crypto_lengths [OF assms(1)])
  show ?thesis
    using assms(3-6) encrypt_records_spec [OF assms(1) slice_reader_ok(1) k, of replacement] unfolding assms(2)
    by (simp add: forge_payload_for_test_def Let_def slice_reader_ok)
qed

text \<open>The transcript is injective in the hash of the plaintext.\<close>

lemma transcript_hash:
  assumes "crypto_laws A" "transcript p h b (sha256 A x) n = transcript p h b (sha256 A y) m"
  shows "sha256 A x = sha256 A y"
  using assms(2) crypto_lengths(3) [OF assms(1)] by (simp add: transcript_def legacy_transcript_def split: if_splits)

lemma verify_signature_with:
  assumes "pre_is_signed p" "the_signature h m = Some st" "vi_from_bytes P (ss_verifying_key st) = Inr v" "md_signing_base C m = Inr base"
  shows "verify_signature P C p h m ph n =
    (if is_ok (verify P v (signing_context p) (transcript p h base ph n) (ss_signature st)) then Inr (Some v) else Inl InvalidSignature)"
proof (cases "verify P v (signing_context p) (transcript p h base ph n) (ss_signature st)")
  case (Inl e)
  then show ?thesis using assms
    by (auto simp: verify_signature_def the_signature_def Let_def split: list.splits option.splits)
next
  case (Inr u)
  then show ?thesis using assms
    by (auto simp: verify_signature_def the_signature_def Let_def split: list.splits option.splits)
qed

lemma decrypt_records_hash:
  assumes "crypto_laws A" "reader_ok i" "decrypt_records A hasher_write i ([], hasher_new) (payload_key A cek oid salt) oid hh = Inr (n, pt, hasher)"
  shows "hasher_finish A hasher = sha256 A pt"
proof -
  have "length (payload_key A cek oid salt) = 32" by (simp add: payload_key_def crypto_lengths [OF assms(1)])
  from hw.decrypt_records_iff [OF assms(1,2) this, of "([], hasher_new)"] assms(3) show ?thesis
    by (auto simp: hasher_write_def hasher_new_def hasher_update_def hasher_finish_def)
qed

text \<open>The deterministic containers open for their recipient.\<close>

lemma vector_opens:
  assumes "crypto_laws A" "cbor_laws C" "sig_laws P" "reader_ok input" "reader_ok input'" "md_ty metadata" "md_signature metadata = None"
    and "length secret = 32" "public_key A secret = Inr recipient" "modern signer"
    and "encrypt_for_vector_inner A C P input recipient metadata signer shape_default = Inr (n, out)" "content input' = out"
  shows "\<exists>md. decrypt_to_staging A C P input' secret
      = Inr (\<lparr>vo_metadata = md, vo_plaintext_len = n, vo_signer = map_option (\<lambda>(i, _). verifying_key P i) signer\<rparr>, content input)
    \<and> md\<lparr>md_signature := None\<rparr> = metadata \<and> n = length (content input)"
proof -
  let ?mat = "\<lparr>om_cek = replicate 32 0x11, om_object_id = replicate 32 0x22, om_payload_salt = replicate 16 0x33\<rparr>"
  obtain w where w: "wrap_with_rng A recipient (om_cek ?mat) (om_object_id ?mat) (replicate 32 0x44) = Inr w"
    and inner: "encrypt_inner A C P input metadata ?mat
      [\<lparr>rs_encapsulation = wk_encapsulation w, rs_wrapped_cek = wk_wrapped_cek w\<rparr>] signer shape_default = Inr (n, out)"
    using assms(11) by (auto simp: encrypt_for_vector_inner_def wrap_cek_for_vector_def result_simps)
  have "recipient = hpke_pk A secret" using assms(9) by (auto simp: public_key_def split: if_splits)
  then have "unwrap_cek A secret (om_object_id ?mat) (wk_encapsulation w) (wk_wrapped_cek w) = Inr (om_cek ?mat)"
    using unwrap_wrap(1) [OF assms(1,8)] w by simp
  then show ?thesis using decrypt_inner [OF assms(1-5,10,6,7) _ _ inner assms(12)] by simp
qed

lemma forged_decrypts:
  assumes "crypto_laws A" "decrypt_to_staging A C P (slice_reader container) secret = Inr (vo, pt)"
    and "length replacement \<le> MAX_CHUNKS * CHUNK_LEN"
  obtains pre header forged where "forge_payload_for_test A C container secret replacement = Some (Inr forged)"
    "verify_signature P C pre header (vo_metadata vo) (sha256 A pt) (of_nat (length pt)) = Inr (vo_signer vo)"
    "decrypt_to_staging A C P (slice_reader forged) secret =
       bindR (verify_signature P C pre header (vo_metadata vo) (sha256 A replacement) (of_nat (length replacement))) (\<lambda>signer.
         Inr (vo\<lparr>vo_plaintext_len := length replacement, vo_signer := signer\<rparr>, replacement))"
proof -
  note ri = slice_reader_ok [of container]
  obtain preb i1 pre framed i2 protected tag header cek m md salt i3 n staging hasher signer where
    d: "read_exact (slice_reader container) PREAMBLE_LEN = Inr (preb, i1)" "pre_decode preb = Inr pre"
      "read_exact i1 (header_len_usize pre) = Inr (framed, i2)" "decode_header C framed = Inr (protected, tag)"
      "ph_decode C protected = Inr header" "recover_cek A secret header preb protected tag = Inr cek"
      "open_sealed A (metadata_key A cek (ph_object_id header)) (replicate 12 0)
         (metadata_aad (ph_object_id header)) (ph_encrypted_metadata header) = Inr m"
      "md_decode C m = Inr md" "read_payload i2 16 = Inr (salt, i3)"
      "decrypt_records A hasher_write i3 ([], hasher_new) (payload_key A cek (ph_object_id header) salt)
         (ph_object_id header) (hash A [protected]) = Inr (n, staging, hasher)"
      "verify_signature P C pre header md (hasher_finish A hasher) (of_nat n) = Inr signer"
      "\<not> (pre_is_legacy pre \<and> (ph_extensions header \<noteq> [] \<or> list_ex (\<lambda>st. as_xwing st = None) (ph_recipients header)))"
      "\<not> (pre_is_legacy pre \<and> md_extensions md \<noteq> [])"
      "vo = \<lparr>vo_metadata = md, vo_plaintext_len = n, vo_signer = signer\<rparr>" "pt = staging"
    by (rule decrypt_to_stagingE [OF assms(2)])
  have c: "container = preb @ framed @ salt @ content i3" "length preb = PREAMBLE_LEN" "header_len_usize pre = length framed" "length salt = 16"
    using read_exact_Inr [OF ri(1) d(1)] read_exact_Inr [OF _ d(3)] read_payload_Inr [OF _ d(9)] ri(2) by auto
  let ?forged = "preb @ framed @ salt
    @ records A (payload_key A cek (ph_object_id header) salt) (ph_object_id header) (hash A [protected]) 0 replacement"
  have f: "forge_payload_for_test A C container secret replacement = Some (Inr ?forged)"
    by (rule forged_container [OF assms(1) c(1,2,4) open_parts_of [OF c(1,2) d(2) c(3) d(4-6)] assms(3)])
  have "decrypt_to_staging A C P (slice_reader ?forged) secret =
    bindR (verify_signature P C pre header md (sha256 A replacement) (of_nat (length replacement))) (\<lambda>signer.
      Inr (\<lparr>vo_metadata = md, vo_plaintext_len = length replacement, vo_signer = signer\<rparr>, replacement))"
    by (rule decrypt_parts [OF assms(1) slice_reader_ok(1) c(2,4) assms(3) slice_reader_ok(2) d(2) c(3) d(4-8,12,13)])
  moreover have "reader_ok i3" using read_exact_Inr [OF ri(1) d(1)] read_exact_Inr [OF _ d(3)] read_payload_Inr [OF _ d(9)] by auto
  then have "hasher_finish A hasher = sha256 A pt" using decrypt_records_hash [OF assms(1) _ d(10)] d(15) by simp
  moreover have "n = length pt" using decrypted_length [OF assms(1) ri(1) assms(2)] d(14) by simp
  ultimately show thesis using that [OF f] d(11,14) by simp
qed

text \<open>Rewriting a container without a change gives the same bytes back: every step of it is the inverse of
  what decryption checks.\<close>

lemma patch_nothing: "pre_wf p \<Longrightarrow> patch_preamble (pre_encode p) None None (header_len_usize p) = pre_encode p"
  by (simp add: patch_preamble_def pre_encode_def header_len_usize_def nth_append list_update_append eval_nat_numeral)

lemma rewrite_nothing:
  assumes "crypto_laws A" "cbor_laws C" "decrypt_to_staging A C P (slice_reader container) secret = Inr (vo, pt)"
  shows "rewrite_for_test A C P container secret None None id id = Some (Inr container)"
proof -
  note ri = slice_reader_ok [of container]
  obtain preb i1 pre framed i2 protected tag header cek m md salt i3 n staging hasher signer where
    d: "read_exact (slice_reader container) PREAMBLE_LEN = Inr (preb, i1)" "pre_decode preb = Inr pre"
      "read_exact i1 (header_len_usize pre) = Inr (framed, i2)" "decode_header C framed = Inr (protected, tag)"
      "ph_decode C protected = Inr header" "recover_cek A secret header preb protected tag = Inr cek"
      "open_sealed A (metadata_key A cek (ph_object_id header)) (replicate 12 0)
         (metadata_aad (ph_object_id header)) (ph_encrypted_metadata header) = Inr m"
      "md_decode C m = Inr md" "read_payload i2 16 = Inr (salt, i3)"
      "decrypt_records A hasher_write i3 ([], hasher_new) (payload_key A cek (ph_object_id header) salt)
         (ph_object_id header) (hash A [protected]) = Inr (n, staging, hasher)"
      "verify_signature P C pre header md (hasher_finish A hasher) (of_nat n) = Inr signer"
      "\<not> (pre_is_legacy pre \<and> (ph_extensions header \<noteq> [] \<or> list_ex (\<lambda>st. as_xwing st = None) (ph_recipients header)))"
      "\<not> (pre_is_legacy pre \<and> md_extensions md \<noteq> [])"
      "vo = \<lparr>vo_metadata = md, vo_plaintext_len = n, vo_signer = signer\<rparr>" "pt = staging"
    by (rule decrypt_to_stagingE [OF assms(3)])
  have c: "container = preb @ framed @ salt @ content i3" "length preb = PREAMBLE_LEN" "header_len_usize pre = length framed"
    "length salt = 16" "reader_ok i3"
    using read_exact_Inr [OF ri(1) d(1)] read_exact_Inr [OF _ d(3)] read_payload_Inr [OF _ d(9)] ri(2) by auto
  let ?oid = "ph_object_id header"
  have k: "length (metadata_key A cek ?oid) = 32" "length (payload_key A cek ?oid salt) = 32"
    by (simp_all add: metadata_key_def payload_key_def crypto_lengths [OF assms(1)])
  have p: "pre_wf pre" "pre_encode pre = preb" using pre_encode_decode [OF d(2)] by auto
  have h: "ph_encode C header = Inr protected" "encode_header C protected tag = Inr framed"
    using ph_encode_decode [OF d(5)] encode_decode_header [OF d(4)] by auto
  have t: "tag = mac A (header_mac_key A cek ?oid) [preb, protected]" "length tag = 32"
    using recover_loopD [OF d(6) [unfolded recover_cek_def]] encode_decode_header [OF d(4)] by auto
  have e: "length (enc_bytes C (replicate 32 0)) = length (enc_bytes C tag)" by (rule cbor_bytes_length [OF assms(2)]) (simp add: t(2))
  then have "enc_bytes C (replicate 32 0) = [] \<longleftrightarrow> enc_bytes C tag = []" by (metis length_0_conv)
  then obtain sized where z: "encode_header C protected (replicate 32 0) = Inr sized" "length sized = length framed"
    using h(2) t(2) e by (auto simp: encode_header_def check_header_len_def Let_def result_simps split: if_splits)
  have "length (ph_encrypted_metadata header) < 2 ^ 32"
    using ph_encode_metadata_bound [OF h(1)] by (simp add: MAX_METADATA_LEN_def TAG_LEN_def)
  then have "seal A (metadata_key A cek ?oid) (replicate 12 0) (metadata_aad ?oid) m = Inr (ph_encrypted_metadata header)"
    using d(7) open_sealed_iff [OF assms(1) k(1)] seal_iff [OF assms(1) k(1), of m] by auto
  moreover have "content i3 = records A (payload_key A cek ?oid salt) ?oid (hash A [protected]) 0 pt" "length pt \<le> MAX_CHUNKS * CHUNK_LEN"
    using hw.decrypt_records_iff [OF assms(1) c(5) k(2), of "([], hasher_new)"] d(10,15) by (auto simp: hasher_write_def)
  then have "reassemble A C preb protected cek ?oid salt pt = Inr container"
    using h(2) t(1) encrypt_records_spec [OF assms(1) slice_reader_ok(1) k(2), of pt] c(1)
    by (simp add: reassemble_def Let_def slice_reader_ok)
  ultimately show ?thesis
    using open_parts_of [OF c(1,2) d(2) c(3) d(4-6)] assms(3) d(7) h(1) z patch_nothing [OF p(1)] p(2) c
    by (simp add: rewrite_for_test_def Let_def)
qed

lemma demo_stripped:
  "\<exists>out. encrypt_stripped_signature_for_test ref_crypto ref_cbor ref_sig demo_draw demo_input [demo_secret] md_default demo_identity
     = Inr (3, out)"
proof -
  let ?mat = "\<lparr>om_cek = replicate 32 5, om_object_id = replicate 32 5, om_payload_salt = replicate 16 5\<rparr>"
  have mat: "draw_material demo_draw = Inr ?mat" by (simp add: draw_material_def demo_draw_def random_array_def)
  obtain st where st: "wrap_all ref_crypto demo_draw 3 [demo_secret] (replicate 32 5) (replicate 32 5) = Inr [st]"
      "length (rs_encapsulation st) = 1120" "length (rs_wrapped_cek st) = 48"
    using demo_wrap [of 3 "replicate 32 5" "replicate 32 5"] by auto
  have v: "validate_recipients [demo_secret] = Inr ()" by (simp add: validate_recipients_def MAX_RECIPIENTS_def)
  show ?thesis
    using demo_inner [OF st(2,3), of ?mat "Some (demo_identity, Stripped)"] mat st(1) v
    by (simp add: encrypt_stripped_signature_for_test_def is_legacy_placement_def del: wrap_all.simps)
qed

section \<open>Properties\<close>

text \<open>C23. A stripped signature is noticed. A container whose preamble announces a signature but which carries
  none, addressed to any recipients and otherwise well formed, is refused by each of them as missing its
  signature; it is never reported as an unsigned object.\<close>

theorem stripped_signature_refused:
  assumes "crypto_laws A" "cbor_laws C" "fills draw" "reader_ok input" "reader_ok input'"
    and "md_ty metadata" "md_signature metadata = None"
    and "length secret = 32" "public_key A secret = Inr r0" "r0 \<in> set recipients"
    and "\<forall>r\<in>set recipients. r \<noteq> r0 \<longrightarrow> closed_to A secret r"
    and "encrypt_stripped_signature_for_test A C P draw input recipients metadata identity = Inr (n, out)" "content input' = out"
  shows "decrypt_to_staging A C P input' secret = Inl MissingSignature"
proof -
  obtain mat sts where mat: "draw_material draw = Inr mat"
    and sts: "wrap_all A draw 3 recipients (om_cek mat) (om_object_id mat) = Inr sts"
    and inner: "encrypt_inner A C P input metadata mat sts (Some (identity, Stripped)) shape_default = Inr (n, out)"
    using assms(12) by (auto simp: encrypt_stripped_signature_for_test_def result_simps)
  have l: "length (om_cek mat) = 32" "length (om_object_id mat) = 32" "length (om_payload_salt mat) = 16"
    using draw_materialD [OF assms(3) mat] by auto
  have "\<not> is_legacy_placement (Some (identity, Stripped))" by (simp add: is_legacy_placement_def)
  then obtain base hdr md em len pre where w: "md_signing_base C metadata = Inr base"
    "attach_signature P A (Some (identity, Stripped)) shape_default \<lparr>ph_object_id = om_object_id mat, ph_recipients = map XWing sts,
       ph_encrypted_metadata = [], ph_signatures = [], ph_extensions = []\<rparr> metadata base (content input) = Inr (hdr, md)"
    "pre_with_signed len (Some (identity, Stripped) \<noteq> None) = Inr pre" "n = length (content input)"
    "decrypt_to_staging A C P input' secret =
       bindR (verify_signature P C pre (hdr\<lparr>ph_encrypted_metadata := em\<rparr>) md (hash A [content input]) (len64 (content input)))
         (\<lambda>s. Inr (\<lparr>vo_metadata = md, vo_plaintext_len = n, vo_signer = s\<rparr>, content input))"
    by (rule decrypt_written [OF assms(1,2,4,5) _ assms(6) l(2,3) inner assms(13) own_stanza [OF assms(1,8) l(1) assms(9-11) sts]])
  have "ph_signatures hdr = []" "md = metadata" using w(2) by (auto simp: attach_signature_def result_simps Let_def)
  moreover have "pre_is_signed pre" using pre_with_signed_props(3) [OF w(3)] by simp
  ultimately show ?thesis using w(5) assms(7) by (simp add: verify_signature_def)
qed

theorem stripped_signature_refused_witness:
  "\<exists>out. encrypt_stripped_signature_for_test ref_crypto ref_cbor ref_sig demo_draw demo_input [demo_secret] md_default demo_identity
       = Inr (3, out) \<and>
     decrypt_to_staging ref_crypto ref_cbor ref_sig (slice_reader out) demo_secret = Inl MissingSignature"
proof -
  obtain out where e: "encrypt_stripped_signature_for_test ref_crypto ref_cbor ref_sig demo_draw demo_input [demo_secret] md_default demo_identity
      = Inr (3, out)" using demo_stripped by blast
  from stripped_signature_refused [OF crypto_laws_ref cbor_laws_ref demo_setup(1) demo_input(1) slice_reader_ok(1) demo_setup(4,5) demo_setup(2,3)
      _ _ e slice_reader_ok(2)] e show ?thesis by auto
qed

text \<open>C12. A recipient cannot put other content under somebody else's signature. From a container that opens,
  a recipient can always make one with the same header and any replacement as its payload. If the container
  was not signed, the new one opens to the replacement: encryption alone does not authenticate the
  sender among the recipients. If it was signed, the new one is refused as an invalid signature unless the
  same signature also verifies over the transcript of the replacement, which is a different message
  unless the two payloads have the same hash.\<close>

theorem forged_payload_needs_signature:
  assumes "crypto_laws A" "decrypt_to_staging A C P (slice_reader container) secret = Inr (vo, pt)"
    and "length replacement \<le> MAX_CHUNKS * CHUNK_LEN"
  shows "\<exists>forged. forge_payload_for_test A C container secret replacement = Some (Inr forged) \<and>
    (let opened = decrypt_to_staging A C P (slice_reader forged) secret;
         accepted = Inr (vo\<lparr>vo_plaintext_len := length replacement\<rparr>, replacement) in
     case vo_signer vo of
       None \<Rightarrow> opened = accepted
     | Some k \<Rightarrow> \<exists>pre header base sig.
         let message = (\<lambda>x. transcript pre header base (sha256 A x) (of_nat (length x))) in
         verify P k (signing_context pre) (message pt) sig = Inr () \<and>
         (message pt = message replacement \<longrightarrow> sha256 A pt = sha256 A replacement) \<and>
         opened = (if is_ok (verify P k (signing_context pre) (message replacement) sig) then accepted else Inl InvalidSignature))"
proof -
  obtain pre header forged where f: "forge_payload_for_test A C container secret replacement = Some (Inr forged)"
    and v: "verify_signature P C pre header (vo_metadata vo) (sha256 A pt) (of_nat (length pt)) = Inr (vo_signer vo)"
    and o: "decrypt_to_staging A C P (slice_reader forged) secret =
       bindR (verify_signature P C pre header (vo_metadata vo) (sha256 A replacement) (of_nat (length replacement))) (\<lambda>signer.
         Inr (vo\<lparr>vo_plaintext_len := length replacement, vo_signer := signer\<rparr>, replacement))"
    by (rule forged_decrypts [OF assms])
  show ?thesis
  proof (cases "vo_signer vo")
    case None
    then have "verify_signature P C pre header (vo_metadata vo) (sha256 A replacement) (of_nat (length replacement)) = Inr None"
      using v by (simp add: verify_signature_None_iff)
    then show ?thesis using f o None by simp
  next
    case (Some k)
    then obtain st base where s: "pre_is_signed pre" "the_signature header (vo_metadata vo) = Some st"
      "vi_from_bytes P (ss_verifying_key st) = Inr k" "md_signing_base C (vo_metadata vo) = Inr base"
      "verify P k (signing_context pre) (transcript pre header base (sha256 A pt) (of_nat (length pt))) (ss_signature st) = Inr ()"
      using v by (auto simp: verify_signature_Some_iff)
    have "decrypt_to_staging A C P (slice_reader forged) secret =
        (if is_ok (verify P k (signing_context pre) (transcript pre header base (sha256 A replacement) (of_nat (length replacement))) (ss_signature st))
         then Inr (vo\<lparr>vo_plaintext_len := length replacement\<rparr>, replacement) else Inl InvalidSignature)"
      using o verify_signature_with [OF s(1-4)] Some by simp
    then show ?thesis
      unfolding Let_def using f s(5) transcript_hash [OF assms(1)] Some
      by (intro exI [of _ forged]) (simp only: option.case, intro exI [of _ pre] exI [of _ header] exI [of _ base]
          exI [of _ "ss_signature st"] conjI impI; simp)
  qed
qed

theorem forged_payload_needs_signature_witness:
  "\<exists>container forged vo. forge_payload_for_test ref_crypto ref_cbor container demo_secret [9, 9] = Some (Inr forged) \<and>
     decrypt_to_staging ref_crypto ref_cbor ref_sig (slice_reader container) demo_secret = Inr (vo, [1, 2, 3]) \<and>
     decrypt_to_staging ref_crypto ref_cbor ref_sig (slice_reader forged) demo_secret = Inr (vo\<lparr>vo_plaintext_len := 2\<rparr>, [9, 9])"
proof -
  obtain container where e: "encrypt ref_crypto ref_cbor ref_sig demo_draw demo_input [demo_secret] md_default = Inr (3, container)"
    using demo_encrypt(1) by blast
  from encrypt_then_decrypt [OF crypto_laws_ref cbor_laws_ref sig_laws_ref demo_setup(1) demo_input(1) slice_reader_ok(1) demo_setup(4,5)
      demo_setup(2,3) _ _ e slice_reader_ok(2)]
  obtain md where d: "decrypt_to_staging ref_crypto ref_cbor ref_sig (slice_reader container) demo_secret
      = Inr (\<lparr>vo_metadata = md, vo_plaintext_len = 3, vo_signer = None\<rparr>, [1, 2, 3])"
    by (auto simp: demo_input(2))
  have n: "length [9, 9 :: byte] \<le> MAX_CHUNKS * CHUNK_LEN" by (simp add: MAX_CHUNKS_def CHUNK_LEN_def)
  from forged_payload_needs_signature [OF crypto_laws_ref d n] obtain forged where
    "forge_payload_for_test ref_crypto ref_cbor container demo_secret [9, 9] = Some (Inr forged)"
    "decrypt_to_staging ref_crypto ref_cbor ref_sig (slice_reader forged) demo_secret
      = Inr (\<lparr>vo_metadata = md, vo_plaintext_len = 2, vo_signer = None\<rparr>, [9, 9])" by auto
  then show ?thesis using d by (intro exI [of _ container] exI [of _ forged] exI) auto
qed

end
