(* ===== verification/Spec2Isabelle.thy ===== *)
theory Spec2Isabelle
  imports Hide_Transparency Hide_Challenge Hide_Object Hide_Bindings Hide_Cli_Run Hide_Mls Hide_Wasm Hide_Desktop
    Hide_Fuzz Hide_Object_Vectors
begin

text \<open>
  A verification of HIDE (an end-to-end encryption format, its libraries and its command line).

  \<^bold>\<open>The program.\<close> HIDE encrypts files into containers for X-Wing (ML-KEM and X25519) recipients, signs them
  with a hybrid Ed25519 and ML-DSA key, keeps key files and epoch keys under a passphrase, keeps a log of
  the devices of an identity, and publishes heads of such logs in a Merkle log with witnesses. The crates
  build on one another: \<open>hide-format\<close> and \<open>hide-crypto\<close> are used by \<open>hide-object\<close>; \<open>hide-sign\<close> by
  \<open>hide-object\<close>, \<open>hide-identity\<close>, \<open>hide-transparency\<close> and \<open>hide-mls\<close>; \<open>hide-epoch\<close> and \<open>hide-keyring\<close> by the
  command line, which composes all of them over a file system.

  \<^bold>\<open>Conventions.\<close> A byte is an \<open>8 word\<close>, a \<open>u64\<close> a \<open>64 word\<close>; a \<open>String\<close> is the list of its UTF-8 bytes. A
  function that returns \<open>Result\<close> has a sum type, \<open>Inl\<close> the error; \<open>bindR\<close> is the question mark. What lies
  outside the repository is a record of functions passed as an argument, and what the code relies on is
  a predicate on it: \<open>crypto_api\<close> with \<open>crypto_laws\<close> (HPKE, AEAD, HKDF, HMAC, SHA-256), \<open>sig_api\<close> with
  \<open>sig_laws\<close> (Ed25519, ML-DSA), \<open>cbor_api\<close> with \<open>cbor_laws\<close>, \<open>cbor_sizes\<close> and \<open>cbor_small\<close> (minicbor), \<open>b64_api\<close>
  with \<open>b64_laws\<close>, \<open>keyring_api\<close> with \<open>keyring_laws\<close> (Argon2, HKDF, Unicode normalisation). Each has a concrete
  instance (\<open>ref_crypto\<close>, \<open>ref_sig\<close>, \<open>ref_cbor\<close>, \<open>ref_b64\<close>, \<open>ref_keyring\<close>), on which the witnesses evaluate.
  Randomness, the clock and what the user types are arguments. Hash collisions and signature forgery
  are never assumed away: soundness statements name the finite set of strings on which the hash has to
  be injective, or conclude that a signature verified.

  \<^bold>\<open>Theories.\<close>
  \<^item> \<open>Hide_Prelude\<close>: words and big-endian bytes, UTF-8, results and their elimination rules, slices, hash
    chains, and the locales for codecs (one encoding per value) and for chains of links.
  \<^item> \<open>Hide_Merkle\<close>, \<open>Hide_Merkle_Lemmas\<close>, \<open>Hide_Transparency\<close> (\<open>hide-transparency/src/lib.rs\<close>): trees, proofs,
    verification; completeness and soundness of inclusion and consistency proofs, byte forms.
  \<^item> \<open>Hide_Checkpoint\<close> (\<open>hide-transparency/src/checkpoint.rs\<close>): signed notes, witnesses, split views.
  \<^item> \<open>Hide_Sign\<close>, \<open>Hide_Challenge\<close> (\<open>hide-sign\<close>): hybrid signatures, domain separation, replay protection over
    every run of the verifier.
  \<^item> \<open>Hide_Cbor\<close>, \<open>Hide_Preamble\<close>, \<open>Hide_Codec\<close> (\<open>hide-format\<close>): canonical encodings, limits, what a signing
    base covers, safe file names.
  \<^item> \<open>Hide_Crypto\<close> (\<open>hide-crypto\<close>): key checks, wrapping, sealing.
  \<^item> \<open>Hide_Stream\<close>, \<open>Hide_Object\<close> (\<open>hide-object\<close>): the record stream for every fragmentation of reads;
    containers round trip, encryption succeeds within the limits, decryption returns only authentic
    data, signature outcomes, what a transcript binds.
  \<^item> \<open>Hide_Object_Vectors\<close> (\<open>hide-object\<close>, feature \<open>test-vectors\<close>): the attacks of a malicious recipient, and that
    signatures stop them; the writers of the conformance vectors.
  \<^item> \<open>Hide_Epoch\<close> (\<open>hide-epoch\<close>): epoch chains as a transition system; erasure is irreversible.
  \<^item> \<open>Hide_Identity\<close>, \<open>Hide_Bindings\<close> (\<open>hide-identity\<close>): the device log as a transition system that refines a
    set of trusted devices, authority of every entry, recovery, bindings.
  \<^item> \<open>Hide_Keyring\<close>, \<open>Hide_Epoch_Store\<close> (\<open>hide-keyring\<close>): key files and the sealed store of epoch secrets; the
    store is an ordered map (locale \<open>ordered_map\<close>, interpreted on the model of \<open>BTreeMap\<close>).
  \<^item> \<open>Hide_Cli\<close>, \<open>Hide_Cli_Files\<close>, \<open>Hide_Cli_Identity\<close> (\<open>apps/hide-cli/src/main.rs\<close>): the commands over a file map; a command
    returns the list of its atomic writes, so that a crash is a prefix of the list.
  \<^item> \<open>Hide_Agent\<close> (\<open>apps/hide-cli/src/agent.rs\<close>): the SSH agent protocol.
  \<^item> \<open>Hide_Transport\<close> (\<open>agent.rs\<close>, \<open>transport.rs\<close>): the question at the terminal, the private directory and the socket
    of the agent over a tree of inodes, the loop over connections. The approvers are one locale,
    \<open>rationed_approver\<close>: an approver that can only say yes so often rations the signatures of all connections.
  \<^item> \<open>Hide_Cli_Run\<close> (\<open>main.rs\<close>): the subcommands and their dispatch. The run of a session is a transition
    system over the file map, each step a command cut short anywhere; the properties that concern several
    commands (which files survive, archives stay readable, what the agent signs) are proved over it.
  \<^item> \<open>Hide_Ffi\<close>, \<open>Hide_Ffi_Safety\<close> (\<open>hide-ffi\<close>): the exported C functions over an explicit memory; every call of a
    client that follows the rules is safe, failed calls write nothing, nothing leaks.
  \<^item> \<open>Hide_Wasm\<close> (\<open>hide-wasm\<close>): the exported functions for JavaScript; their verdicts agree with the C interface.
  \<^item> \<open>Hide_Desktop\<close> (\<open>apps/hide-desktop\<close>): the commands of the desktop application over the file map of the command
    line; the two open each other's files.
  \<^item> \<open>Hide_Mls\<close> (\<open>hide-mls\<close>): MLS credentials bound to an identity.
  \<^item> \<open>Hide_Fuzz\<close> (\<open>fuzz/fuzz_targets\<close>): the assertions of the fuzz targets as predicates on their input, and that
    they hold for every input.

  \<^bold>\<open>Loops and bounds.\<close> There is no fuel: loops over data are structural, \<open>read_chunk\<close>, \<open>hash_loop\<close>, the record
  loops, the Merkle recursions, \<open>create_dir_all\<close> and the agent's \<open>serve\<close> terminate by measures; \<open>resolve\<close> follows at
  most 40 symbolic links, as the kernel does. The listening loop of the agent is over the list of the
  connections that arrive. Counters the code keeps below 2 to the 49 are \<open>nat\<close>; lengths and sequence
  numbers that go on the wire are words.

  \<^bold>\<open>Not modelled.\<close> Zeroisation, timing and panics on allocation failure; argument parsing (the library
  \<open>clap\<close>), the texts on standard error, \<open>fsync\<close> and the file modes of the commands' outputs; named pipes
  (a library) beyond whether they open; MLS group sessions, which belong to \<open>mls-rs\<close>; the set-up of the desktop
  application; failures of the disk other than missing and existing files and crashes between writes;
  the fuzz target of MLS messages, which asserts nothing; the programs that write the conformance vectors and
  the other-language SDKs.
\<close>

end
